(* ===== verification/Prelude.thy ===== *)
theory Prelude
  imports Main "HOL-Library.Word"
begin

text \<open>
  Shared vocabulary of the development: the outcome of a C function whose behaviour may be
  undefined or that may panic, the C view of byte buffers and strings, the fixed-width
  conversions the sources rely on, the \<open>for\<close>-loop search that every table lookup of the
  repository uses, and the generic list and map lemmas the component theories share.
\<close>

named_theorems cres_simps \<open>how the outcomes of C functions combine\<close>
named_theorems cstr_simps \<open>byte buffers and C strings\<close>
named_theorems scan_simps \<open>first match of a bounded search loop\<close>

section \<open>Outcomes of C functions\<close>

text \<open>
  A C function either returns or its behaviour is not defined by the program text: it touches
  memory outside an object, follows a null pointer, reads an unset variable, overflows a signed integer, or stops in a panic. These outcomes are the
  left injections of a sum.
\<close>

datatype fault =
    OutOfBounds
  | NullDeref
  | UninitRead
  | SignedOverflow
  | Panic string

type_synonym 'a cres = "fault + 'a"

definition bindR :: "'a cres \<Rightarrow> ('a \<Rightarrow> 'b cres) \<Rightarrow> 'b cres" where
  "bindR m f = (case m of Inl e \<Rightarrow> Inl e | Inr x \<Rightarrow> f x)"

definition guardR :: "bool \<Rightarrow> fault \<Rightarrow> unit cres" where
  "guardR b e = (if b then Inr () else Inl e)"

lemma bindR_Inl [simp, cres_simps]: "bindR (Inl e) f = Inl e"
  by (simp add: bindR_def)

lemma bindR_Inr [simp, cres_simps]: "bindR (Inr x) f = f x"
  by (simp add: bindR_def)

lemma bindR_eq_Inr [cres_simps]: "bindR m f = Inr y \<longleftrightarrow> (\<exists>x. m = Inr x \<and> f x = Inr y)"
  by (cases m) auto

lemma bindR_eq_Inl [cres_simps]:
  "bindR m f = Inl e \<longleftrightarrow> m = Inl e \<or> (\<exists>x. m = Inr x \<and> f x = Inl e)"
  by (cases m) auto

lemma bindR_assoc: "bindR (bindR m f) g = bindR m (\<lambda>x. bindR (f x) g)"
  by (cases m) auto

lemma bindR_cong [fundef_cong]:
  "m = m' \<Longrightarrow> (\<And>x. m' = Inr x \<Longrightarrow> f x = f' x) \<Longrightarrow> bindR m f = bindR m' f'"
  by (cases m') auto

lemma guardR_True [simp, cres_simps]: "guardR True e = Inr ()"
  by (simp add: guardR_def)

lemma guardR_False [simp, cres_simps]: "guardR False e = Inl e"
  by (simp add: guardR_def)

lemma guardR_eq_Inr [cres_simps]: "guardR b e = Inr u \<longleftrightarrow> b"
  by (simp add: guardR_def)

lemma guardR_eq_Inl [cres_simps]: "guardR b e = Inl e' \<longleftrightarrow> \<not> b \<and> e' = e"
  by (auto simp: guardR_def)

text \<open>\<open>foldR f xs s\<close> runs the body \<open>f x\<close> of a loop for each \<open>x\<close> in turn, stopping at the first fault.\<close>

fun foldR :: "('a \<Rightarrow> 's \<Rightarrow> 's cres) \<Rightarrow> 'a list \<Rightarrow> 's \<Rightarrow> 's cres" where
  "foldR f [] s = Inr s"
| "foldR f (x # xs) s = bindR (f x s) (foldR f xs)"

lemma foldR_append: "foldR f (xs @ ys) s = bindR (foldR f xs s) (foldR f ys)"
proof (induction xs arbitrary: s)
  case (Cons x xs)
  have "foldR f (xs @ ys) = (\<lambda>t. bindR (foldR f xs t) (foldR f ys))"
    by (rule ext) (rule Cons.IH)
  then show ?case by (simp add: bindR_assoc)
qed simp

lemma foldR_inv:
  assumes "foldR f xs s = Inr s'" "I s"
    and "\<And>x t t'. x \<in> set xs \<Longrightarrow> I t \<Longrightarrow> f x t = Inr t' \<Longrightarrow> I t'"
  shows "I s'"
  using assms
proof (induction xs arbitrary: s)
  case (Cons x xs)
  then obtain t where t: "f x s = Inr t" "foldR f xs t = Inr s'" by (auto simp: cres_simps)
  then have "I t" using Cons.prems(2,3) by (auto intro: Cons.prems(3))
  with t Cons.prems(3) show ?case by (intro Cons.IH [OF t(2)]) auto
qed simp

text \<open>A counting loop whose body keeps an invariant indexed by the counter never faults.\<close>

lemma foldR_upt:
  assumes "I 0 s" and "\<And>k t. k < n \<Longrightarrow> I k t \<Longrightarrow> \<exists>t'. f k t = Inr t' \<and> I (Suc k) t'"
  shows "\<exists>s'. foldR f [0..<n] s = Inr s' \<and> I n s'"
  using assms(2)
proof (induction n)
  case 0
  then show ?case using assms(1) by simp
next
  case (Suc n)
  then obtain t where "foldR f [0..<n] s = Inr t" "I n t" by fastforce
  moreover from this Suc.prems [of n t] obtain t' where "f n t = Inr t'" "I (Suc n) t'" by auto
  ultimately show ?case by (simp add: foldR_append)
qed

lemma foldR_cong [fundef_cong]:
  "xs = ys \<Longrightarrow> s = t \<Longrightarrow> (\<And>x u. x \<in> set ys \<Longrightarrow> f x u = g x u) \<Longrightarrow> foldR f xs s = foldR g ys t"
proof (induction ys arbitrary: xs s t)
  case (Cons y ys)
  then show ?case by (auto intro!: bindR_cong)
qed simp

section \<open>Bytes, buffers and C strings\<close>

text \<open>
  A byte is a \<open>char\<close>, a buffer is the list of its bytes, and a C string is the list of the bytes
  before its terminator. \<open>cstr\<close> reads a buffer as a string; \<open>strncpy_bytes\<close> is what
  \<open>strncpy\<close> stores: the string, then zero bytes up to the count.
\<close>

type_synonym byte = char
type_synonym buffer = "byte list"

abbreviation (input) NUL :: byte where "NUL \<equiv> CHR 0x00"

definition cstr :: "buffer \<Rightarrow> string" where
  "cstr b = takeWhile (\<lambda>c. c \<noteq> NUL) b"

definition strncpy_bytes :: "buffer \<Rightarrow> nat \<Rightarrow> buffer" where
  "strncpy_bytes src n = (let s = cstr (take n src) in s @ replicate (n - length s) NUL)"

definition overwrite :: "'a list \<Rightarrow> nat \<Rightarrow> 'a list \<Rightarrow> 'a list" where
  "overwrite xs off ys = take off xs @ ys @ drop (off + length ys) xs"

definition read_bytes :: "buffer \<Rightarrow> int \<Rightarrow> int \<Rightarrow> buffer cres" where
  "read_bytes b off n =
     (if 0 \<le> off \<and> 0 \<le> n \<and> off + n \<le> int (length b)
      then Inr (take (nat n) (drop (nat off) b)) else Inl OutOfBounds)"

definition write_bytes :: "buffer \<Rightarrow> int \<Rightarrow> buffer \<Rightarrow> buffer cres" where
  "write_bytes b off ys =
     (if 0 \<le> off \<and> off + int (length ys) \<le> int (length b)
      then Inr (overwrite b (nat off) ys) else Inl OutOfBounds)"

lemma length_cstr_le: "length (cstr b) \<le> length b"
  by (simp add: cstr_def length_takeWhile_le)

lemma NUL_notin_cstr [simp, cstr_simps]: "NUL \<notin> set (cstr b)"
  by (auto simp: cstr_def dest: set_takeWhileD)

lemma cstr_no_NUL [simp, cstr_simps]: "NUL \<notin> set b \<Longrightarrow> cstr b = b"
  by (induction b) (auto simp: cstr_def)

lemma cstr_append_NUL [simp, cstr_simps]: "NUL \<notin> set s \<Longrightarrow> cstr (s @ NUL # r) = s"
  by (induction s) (auto simp: cstr_def)

lemma cstr_append_replicate [simp, cstr_simps]:
  "NUL \<notin> set s \<Longrightarrow> cstr (s @ replicate k NUL) = s"
  by (cases k) auto

lemma cstr_append_replicate_NUL [simp, cstr_simps]:
  "NUL \<notin> set s \<Longrightarrow> cstr (s @ replicate k NUL @ [NUL]) = s"
  by (cases k) auto

lemma length_strncpy_bytes [simp, cstr_simps]: "length (strncpy_bytes src n) = n"
proof -
  have "length (cstr (take n src)) \<le> n"
    using length_cstr_le [of "take n src"] by simp
  then show ?thesis by (simp add: strncpy_bytes_def Let_def)
qed

lemma strncpy_bytes_no_NUL [cstr_simps]:
  "NUL \<notin> set src \<Longrightarrow> length src = n \<Longrightarrow> strncpy_bytes src n = src"
  by (simp add: strncpy_bytes_def)

lemma cstr_strncpy_bytes [simp, cstr_simps]: "cstr (strncpy_bytes src n) = cstr (take n src)"
  by (simp add: strncpy_bytes_def Let_def)

lemma length_overwrite [simp, cstr_simps]:
  "off + length ys \<le> length xs \<Longrightarrow> length (overwrite xs off ys) = length xs"
  by (simp add: overwrite_def)

lemma take_drop_overwrite [simp, cstr_simps]:
  "off + length ys \<le> length xs \<Longrightarrow> take (length ys) (drop off (overwrite xs off ys)) = ys"
  by (simp add: overwrite_def)

lemma nth_overwrite:
  "off + length ys \<le> length xs \<Longrightarrow> i < length xs \<Longrightarrow>
   overwrite xs off ys ! i = (if off \<le> i \<and> i < off + length ys then ys ! (i - off) else xs ! i)"
  by (auto simp: overwrite_def nth_append min_def)

lemma read_bytes_eq_Inr [cres_simps]:
  "read_bytes b off n = Inr r \<longleftrightarrow>
     0 \<le> off \<and> 0 \<le> n \<and> off + n \<le> int (length b) \<and> r = take (nat n) (drop (nat off) b)"
  by (auto simp: read_bytes_def)

lemma write_bytes_eq_Inr [cres_simps]:
  "write_bytes b off ys = Inr r \<longleftrightarrow>
     0 \<le> off \<and> off + int (length ys) \<le> int (length b) \<and> r = overwrite b (nat off) ys"
  by (auto simp: write_bytes_def)

lemma read_bytes_eq_Inl [cres_simps]:
  "read_bytes b off n = Inl e \<longleftrightarrow>
     e = OutOfBounds \<and> \<not> (0 \<le> off \<and> 0 \<le> n \<and> off + n \<le> int (length b))"
  by (auto simp: read_bytes_def)

lemma write_bytes_eq_Inl [cres_simps]:
  "write_bytes b off ys = Inl e \<longleftrightarrow>
     e = OutOfBounds \<and> \<not> (0 \<le> off \<and> off + int (length ys) \<le> int (length b))"
  by (auto simp: write_bytes_def)

section \<open>Fixed-width conversions\<close>

definition u64 :: "int \<Rightarrow> int" where
  "u64 x = x mod 2 ^ 64"

definition c_int :: "int \<Rightarrow> int" where
  "c_int x = (x + 2 ^ 31) mod 2 ^ 32 - 2 ^ 31"

lemma u64_id: "0 \<le> x \<Longrightarrow> x < 2 ^ 64 \<Longrightarrow> u64 x = x"
  by (simp add: u64_def)

lemma c_int_id: "- (2 ^ 31) \<le> x \<Longrightarrow> x < 2 ^ 31 \<Longrightarrow> c_int x = x"
  by (simp add: c_int_def)

section \<open>Bounded search loops\<close>

text \<open>
  \<^verbatim>\<open>for (int i = 0; i < n; i++) if (P(i)) return i; return -1;\<close>
\<close>

definition first_index :: "nat \<Rightarrow> (nat \<Rightarrow> bool) \<Rightarrow> int" where
  "first_index n P = (case find P [0..<n] of Some i \<Rightarrow> int i | None \<Rightarrow> - 1)"

lemma find_upt_Some:
  "find P [0..<n] = Some i \<longleftrightarrow> i < n \<and> P i \<and> (\<forall>j<i. \<not> P j)"
  by (auto simp: find_Some_iff)

lemma first_index_eq_int [scan_simps]:
  "first_index n P = int i \<longleftrightarrow> i < n \<and> P i \<and> (\<forall>j<i. \<not> P j)"
  using find_upt_Some [of P n i] by (auto simp: first_index_def split: option.splits)

lemma first_index_eq_minus1 [scan_simps]:
  "first_index n P = - 1 \<longleftrightarrow> (\<forall>i<n. \<not> P i)"
  by (auto simp: first_index_def find_None_iff find_upt_Some split: option.splits)

lemma first_index_neg [scan_simps]: "first_index n P < 0 \<longleftrightarrow> (\<forall>i<n. \<not> P i)"
  by (auto simp: first_index_def find_None_iff find_upt_Some split: option.splits)

lemma first_index_cases:
  obtains (none) "first_index n P = - 1" "\<forall>i<n. \<not> P i"
  | (found) i where "first_index n P = int i" "i < n" "P i" "\<forall>j<i. \<not> P j"
proof (cases "\<exists>i<n. P i")
  case False
  then show ?thesis using none by (auto simp: scan_simps)
next
  case True
  then have "\<not> first_index n P < 0" by (auto simp: scan_simps)
  then have "first_index n P = int (nat (first_index n P))" by simp
  then show ?thesis using found first_index_eq_int by metis
qed

lemma first_index_cong:
  "(\<And>i. i < n \<Longrightarrow> P i = Q i) \<Longrightarrow> first_index n P = first_index n Q"
  unfolding first_index_def by (rule arg_cong [where f = "case_option _ _"]) (auto intro: find_cong)

section \<open>Options and lists\<close>

lemma option_eqI: "(\<And>v. a = Some v \<longleftrightarrow> b = Some v) \<Longrightarrow> a = b"
  by (cases a; cases b) auto

lemma nth_list_update_if:
  "i < length xs \<Longrightarrow> xs[i := x] ! j = (if i = j then x else xs ! j)"
  by simp

lemma take_Suc_drop: "i < length xs \<Longrightarrow> take (Suc k) (drop i xs) = xs ! i # take k (drop (Suc i) xs)"
  by (simp add: Cons_nth_drop_Suc [symmetric])

lemma map_upd_add_fresh:
  assumes "k \<notin> fst ` set xs"
  shows "(m(k \<mapsto> v)) ++ map_of xs = m ++ (map_of xs)(k \<mapsto> v)"
proof -
  have "map_of xs k = None" using assms by (simp add: map_of_eq_None_iff)
  then show ?thesis by (auto simp: fun_eq_iff map_add_def split: option.split)
qed

lemma card_filter_upt_update:
  fixes n :: nat
  assumes "i < n" "\<not> P i" "Q i" "\<And>j. j < n \<Longrightarrow> j \<noteq> i \<Longrightarrow> Q j = P j"
  shows "card {j. j < n \<and> Q j} = Suc (card {j. j < n \<and> P j})"
proof -
  have "{j. j < n \<and> Q j} = insert i {j. j < n \<and> P j}"
    using assms by auto
  moreover have "finite {j. j < n \<and> P j}"
    by (rule finite_subset [of _ "{..<n}"]) auto
  moreover have "i \<notin> {j. j < n \<and> P j}" using assms(2) by simp
  ultimately show ?thesis by (metis card_insert_disjoint)
qed

section \<open>Numbers in text\<close>

text \<open>What \<open>sprintf\<close> prints for \<open>%d\<close>.\<close>

fun dec_digits :: "nat \<Rightarrow> string" where
  "dec_digits n = (if n < 10 then [char_of (48 + n)] else dec_digits (n div 10) @ [char_of (48 + n mod 10)])"

declare dec_digits.simps [simp del]

definition decimal :: "int \<Rightarrow> string" where
  "decimal n = (if n < 0 then CHR ''-'' # dec_digits (nat (- n)) else dec_digits (nat n))"

end
