(* ===== verification/FsUtils.thy ===== *)
theory FsUtils
  imports Prelude
begin

text \<open>
  The data of the FUSE file system and its helper routines: the inode table of
  \<^verbatim>\<open>src/4-fs/def.h\<close> and the path and search functions of \<^verbatim>\<open>src/4-fs/fs_utils.c\<close>.
  A fixed-size \<open>char\<close> array that the code only uses as a string (name, path, parent) is the
  string it holds; \<open>file_content\<close> is the array of its 100 bytes.
\<close>

section \<open>Constants\<close>

abbreviation (input) MAX_PATH_LEN :: nat where "MAX_PATH_LEN \<equiv> 128"
abbreviation (input) MAX_NAME_LEN :: nat where "MAX_NAME_LEN \<equiv> 128"
abbreviation (input) MAX_INODES :: nat where "MAX_INODES \<equiv> 64"
abbreviation (input) MAX_CONTENT :: nat where "MAX_CONTENT \<equiv> 100"
abbreviation (input) OCCUPIED :: int where "OCCUPIED \<equiv> 1"
abbreviation (input) FREE :: int where "FREE \<equiv> 0"
abbreviation (input) NO_PARENT :: string where "NO_PARENT \<equiv> ''''"
abbreviation (input) ROOT :: string where "ROOT \<equiv> ''/''"
abbreviation (input) FILE_TYPE_REGULAR :: int where "FILE_TYPE_REGULAR \<equiv> 1"
abbreviation (input) FILE_TYPE_DIRECTORY :: int where "FILE_TYPE_DIRECTORY \<equiv> 2"

text \<open>The \<open>errno\<close> values and file-type bits of Linux that the handlers return and store.\<close>

abbreviation (input) ENOENT :: int where "ENOENT \<equiv> 2"
abbreviation (input) ENOMEM :: int where "ENOMEM \<equiv> 12"
abbreviation (input) EACCES :: int where "EACCES \<equiv> 13"
abbreviation (input) ENOTDIR :: int where "ENOTDIR \<equiv> 20"
abbreviation (input) EISDIR :: int where "EISDIR \<equiv> 21"
abbreviation (input) EINVAL :: int where "EINVAL \<equiv> 22"
abbreviation (input) EFBIG :: int where "EFBIG \<equiv> 27"
abbreviation (input) ENOSPC :: int where "ENOSPC \<equiv> 28"
abbreviation (input) ENOTEMPTY :: int where "ENOTEMPTY \<equiv> 39"

abbreviation (input) S_IFMT :: int where "S_IFMT \<equiv> 0xF000"
abbreviation (input) S_IFREG :: int where "S_IFREG \<equiv> 0x8000"
abbreviation (input) S_IFDIR :: int where "S_IFDIR \<equiv> 0x4000"
abbreviation (input) S_IFLNK :: int where "S_IFLNK \<equiv> 0xA000"

text \<open>\<open>S_ISLNK(m)\<close> of \<^verbatim>\<open>sys/stat.h\<close>: the file-type bits (12 to 15) of the mode.\<close>

definition S_ISLNK :: "int \<Rightarrow> bool" where
  "S_ISLNK m \<longleftrightarrow> (m div 4096) mod 16 * 4096 = S_IFLNK"

section \<open>The inode table\<close>

record inode =
  iname :: string
  file_size :: int
  itype :: int
  ipath :: string
  file_content :: buffer
  file_parent :: string
  nlink :: "64 word"
  uid :: "32 word"
  gid :: "32 word"
  mode :: int
  ctime :: int
  mtime :: int
  atime :: int

record super_block =
  inodes :: "inode list"
  status_inodes :: "int list"

text \<open>What \<open>memset(\<dots>, 0, sizeof \<dots>)\<close> leaves in an inode.\<close>

definition zero_inode :: inode where
  "zero_inode = \<lparr>iname = '''', file_size = 0, itype = 0, ipath = '''',
     file_content = replicate MAX_CONTENT NUL, file_parent = '''', nlink = 0, uid = 0, gid = 0,
     mode = 0, ctime = 0, mtime = 0, atime = 0\<rparr>"

text \<open>Every super block of the program has two arrays of \<open>MAX_INODES\<close> elements.\<close>

definition sb_shape :: "super_block \<Rightarrow> bool" where
  "sb_shape sb \<longleftrightarrow> length (inodes sb) = MAX_INODES \<and> length (status_inodes sb) = MAX_INODES"

section \<open>Paths\<close>

text \<open>
  \<open>strrchr s '/'\<close> as the index of the last slash; the loop keeps the last match seen.
\<close>

fun strrchr_from :: "byte \<Rightarrow> string \<Rightarrow> nat \<Rightarrow> nat option \<Rightarrow> nat option" where
  "strrchr_from c [] i best = best"
| "strrchr_from c (x # xs) i best = strrchr_from c xs (Suc i) (if x = c then Some i else best)"

definition strrchr :: "string \<Rightarrow> byte \<Rightarrow> nat option" where
  "strrchr s c = strrchr_from c s 0 None"

text \<open>
  \<open>get_parent_dir(path, output)\<close> copies the path into the caller's array of
  \<open>MAX_PATH_LEN\<close> bytes and cuts it at the last slash.
\<close>

definition get_parent_dir :: "string \<Rightarrow> string cres" where
  "get_parent_dir path =
     bindR (guardR (length path < MAX_PATH_LEN) OutOfBounds) (\<lambda>_.
       (case strrchr path CHR ''/'' of
          None \<Rightarrow> Inr ROOT
        | Some i \<Rightarrow> if i \<noteq> 0 then Inr (take i path) else Inr ROOT))"

text \<open>
  \<open>get_file_name(path)\<close> returns a fresh 1024-byte string, or \<open>NULL\<close> when \<open>malloc\<close> fails.
\<close>

definition get_file_name :: "bool \<Rightarrow> string \<Rightarrow> string option cres" where
  "get_file_name malloc_ok path =
     (let start = (case strrchr path CHR ''/'' of None \<Rightarrow> path | Some i \<Rightarrow> drop (i + 1) path)
      in if \<not> malloc_ok then Inr None
         else bindR (guardR (length start < 1024) OutOfBounds) (\<lambda>_. Inr (Some start)))"

section \<open>Searching the table\<close>

definition search_inode_by_path :: "super_block \<Rightarrow> string \<Rightarrow> int" where
  "search_inode_by_path sb path =
     first_index MAX_INODES
       (\<lambda>i. status_inodes sb ! i = OCCUPIED \<and> ipath (inodes sb ! i) = path)"

definition search_free_inode :: "super_block \<Rightarrow> int" where
  "search_free_inode sb = first_index MAX_INODES (\<lambda>i. status_inodes sb ! i = FREE)"

definition get_inode_index :: "super_block \<Rightarrow> string \<Rightarrow> int" where
  "get_inode_index sb path =
     (if path = ROOT then 0
      else first_index MAX_INODES
        (\<lambda>i. status_inodes sb ! i = OCCUPIED \<and> ipath (inodes sb ! i) = path))"

section \<open>Persistence\<close>

text \<open>
  The host file system as far as \<open>fopen\<close>, \<open>fread\<close> and \<open>fwrite\<close> show it: a file holds a whole
  super block image or fewer bytes than one; opening can fail for a name. The image goes through the buffer of
  the stream: \<open>fwrite\<close> can report a failure, or the last part of it is only written by
  \<open>fflush\<close> and \<open>fclose\<close>, whose failure nobody looks at.
\<close>

datatype host_file = Image super_block | ShortFile

record host =
  files :: "string \<rightharpoonup> host_file"
  open_fails :: "string \<Rightarrow> bool"
  write_fails :: bool
  flush_fails :: bool
  calloc_fails :: bool

definition write_persistence :: "string option \<Rightarrow> super_block option \<Rightarrow> host \<Rightarrow> int \<times> host" where
  "write_persistence path superblock h =
     (case (path, superblock) of
        (Some p, Some sb) \<Rightarrow>
          if open_fails h p then (- 1, h)
          else if write_fails h then (- 1, h\<lparr>files := (files h)(p \<mapsto> ShortFile)\<rparr>)
          else if flush_fails h then (0, h\<lparr>files := (files h)(p \<mapsto> ShortFile)\<rparr>)
          else (0, h\<lparr>files := (files h)(p \<mapsto> Image sb)\<rparr>)
      | _ \<Rightarrow> (- 1, h))"

definition read_persistence :: "string option \<Rightarrow> host \<Rightarrow> super_block option" where
  "read_persistence path h =
     (case path of
        None \<Rightarrow> None
      | Some p \<Rightarrow>
          if open_fails h p then None
          else (case files h p of
                  None \<Rightarrow> None
                | Some f \<Rightarrow>
                    if calloc_fails h then None
                    else (case f of Image sb \<Rightarrow> Some sb | ShortFile \<Rightarrow> None)))"

section \<open>Lemmas: paths\<close>

lemma strrchr_from_notin: "c \<notin> set s \<Longrightarrow> strrchr_from c s i best = best"
  by (induction s arbitrary: i best) auto

lemma strrchr_from_split:
  "c \<notin> set n \<Longrightarrow> strrchr_from c (d @ c # n) i best = Some (i + length d)"
  by (induction d arbitrary: i best) (auto simp: strrchr_from_notin)

lemma strrchr_split: "c \<notin> set n \<Longrightarrow> strrchr (d @ c # n) c = Some (length d)"
  by (simp add: strrchr_def strrchr_from_split)

lemma strrchr_None: "strrchr s c = None \<longleftrightarrow> c \<notin> set s"
proof (cases "c \<in> set s")
  case True
  then obtain d n where "s = d @ c # n" "c \<notin> set n"
    by (meson split_list_last)
  then show ?thesis by (simp add: strrchr_split)
next
  case False
  then show ?thesis by (simp add: strrchr_def strrchr_from_notin)
qed

lemma get_parent_dir_join:
  assumes "CHR ''/'' \<notin> set n" "length (d @ CHR ''/'' # n) < MAX_PATH_LEN"
  shows "get_parent_dir (d @ CHR ''/'' # n) = Inr (if d = [] then ROOT else d)"
  using assms by (auto simp: get_parent_dir_def strrchr_split)

lemma get_parent_dir_bound: "get_parent_dir p = Inr d \<Longrightarrow> length d < MAX_PATH_LEN \<and> length p < MAX_PATH_LEN"
  by (auto simp: get_parent_dir_def cres_simps split: option.splits if_splits)

lemma get_parent_dir_ok: "length p < MAX_PATH_LEN \<Longrightarrow> \<exists>d. get_parent_dir p = Inr d"
  by (auto simp: get_parent_dir_def split: option.splits)

lemma get_file_name_join:
  assumes "CHR ''/'' \<notin> set n" "length n < 1024"
  shows "get_file_name True (d @ CHR ''/'' # n) = Inr (Some n)"
  using assms by (simp add: get_file_name_def strrchr_split)

lemma get_file_name_ok: "length p < 1024 \<Longrightarrow> \<exists>n. get_file_name True p = Inr (Some n) \<and> length n \<le> length p"
  by (auto simp: get_file_name_def guardR_def split: option.splits)

section \<open>Lemmas: searching\<close>

lemma search_inode_by_path_eq_int [scan_simps]:
  "search_inode_by_path sb path = int i \<longleftrightarrow>
     i < MAX_INODES \<and> status_inodes sb ! i = OCCUPIED \<and> ipath (inodes sb ! i) = path \<and>
     (\<forall>j<i. \<not> (status_inodes sb ! j = OCCUPIED \<and> ipath (inodes sb ! j) = path))"
  by (auto simp: search_inode_by_path_def scan_simps)

lemma search_inode_by_path_eq_minus1 [scan_simps]:
  "search_inode_by_path sb path = - 1 \<longleftrightarrow>
     (\<forall>i<MAX_INODES. \<not> (status_inodes sb ! i = OCCUPIED \<and> ipath (inodes sb ! i) = path))"
  by (auto simp: search_inode_by_path_def scan_simps)

lemma search_free_inode_neg [scan_simps]:
  "search_free_inode sb < 0 \<longleftrightarrow> (\<forall>i<MAX_INODES. status_inodes sb ! i \<noteq> FREE)"
  by (simp add: search_free_inode_def scan_simps)

lemma search_free_inode_eq_int [scan_simps]:
  "search_free_inode sb = int i \<longleftrightarrow>
     i < MAX_INODES \<and> status_inodes sb ! i = FREE \<and> (\<forall>j<i. status_inodes sb ! j \<noteq> FREE)"
  by (auto simp: search_free_inode_def scan_simps)

lemma get_inode_index_search:
  "path \<noteq> ROOT \<Longrightarrow> get_inode_index sb path = search_inode_by_path sb path"
  by (simp add: get_inode_index_def search_inode_by_path_def)

end
