(* ===== verification/FsOps.thy ===== *)
theory FsOps
  imports FsUtils
begin

text \<open>
  The handlers of \<^verbatim>\<open>src/4-fs/fisopfs.c\<close>, one definition each. The global \<open>superblock\<close> is
  passed and returned; what a handler reads from the system (\<open>getuid\<close>, \<open>time\<close>, the success of
  \<open>malloc\<close>, the calling user of the FUSE context, the size \<open>path_room\<close> of the array in which FUSE hands over
  a new link's path) is a record of parameters. A handler that would
  touch memory outside an array returns \<open>Inl OutOfBounds\<close>; otherwise it returns the C return
  value and the new super block.
\<close>

record fs_env =
  getuid :: "32 word"
  getgid :: "32 word"
  time_c :: int
  time_m :: int
  time_a :: int
  malloc_ok :: bool
  context_uid :: "32 word"
  path_room :: nat

section \<open>Initialisation\<close>

definition create_root :: "fs_env \<Rightarrow> super_block" where
  "create_root env =
     \<lparr>inodes = (replicate MAX_INODES zero_inode)[0 :=
        \<lparr>iname = ''Root'', file_size = int MAX_CONTENT, itype = FILE_TYPE_DIRECTORY, ipath = ROOT,
         file_content = replicate MAX_CONTENT NUL, file_parent = NO_PARENT, nlink = 2,
         uid = getuid env, gid = getgid env, mode = S_IFDIR + 0x1ED,
         ctime = time_c env, mtime = time_m env, atime = time_a env\<rparr>],
      status_inodes = (replicate MAX_INODES FREE)[0 := OCCUPIED]\<rparr>"

definition fisopfs_init :: "fs_env \<Rightarrow> string option \<Rightarrow> host \<Rightarrow> super_block \<times> host" where
  "fisopfs_init env filedisk h =
     (case read_persistence filedisk h of
        None \<Rightarrow>
          let sb = create_root env; (r, h') = write_persistence filedisk (Some sb) h in (sb, h')
      | Some fs \<Rightarrow> (fs, h))"

text \<open>\<open>fisopfs_destroy\<close> saves the super block; a failed save ends the process with status 1.\<close>

definition fisopfs_destroy :: "string option \<Rightarrow> super_block \<Rightarrow> host \<Rightarrow> int option \<times> host" where
  "fisopfs_destroy filedisk sb h =
     (let (r, h') = write_persistence filedisk (Some sb) h
      in (if r = - 1 then Some 1 else None, h'))"

section \<open>Creation and removal\<close>

text \<open>
  Writing an inode of the table, storing one in a slot as every creating handler does, and
  releasing a slot.
\<close>

definition upd_inode :: "super_block \<Rightarrow> nat \<Rightarrow> inode \<Rightarrow> super_block" where
  "upd_inode sb i ino = sb\<lparr>inodes := (inodes sb)[i := ino]\<rparr>"

definition put_inode :: "super_block \<Rightarrow> nat \<Rightarrow> inode \<Rightarrow> super_block" where
  "put_inode sb i ino =
     sb\<lparr>inodes := (inodes sb)[i := ino], status_inodes := (status_inodes sb)[i := OCCUPIED]\<rparr>"

definition free_slot :: "super_block \<Rightarrow> nat \<Rightarrow> super_block" where
  "free_slot sb i = sb\<lparr>status_inodes := (status_inodes sb)[i := FREE]\<rparr>"

definition set_inode_in_superblock :: "super_block \<Rightarrow> inode \<Rightarrow> int \<times> super_block" where
  "set_inode_in_superblock sb ino =
     (let i = first_index MAX_INODES
        (\<lambda>i. status_inodes sb ! i = OCCUPIED \<and> iname (inodes sb ! i) = iname ino \<and>
             file_parent (inodes sb ! i) = file_parent ino)
      in if i \<ge> 0 then
           (i, upd_inode sb (nat i) ((inodes sb ! nat i)\<lparr>nlink := nlink (inodes sb ! nat i) + 1\<rparr>))
         else
           (let free_idx = search_free_inode sb
            in if free_idx < 0 then (- ENOSPC, sb) else (free_idx, put_inode sb (nat free_idx) ino)))"

definition new_node :: "fs_env \<Rightarrow> string \<Rightarrow> int \<Rightarrow> string \<Rightarrow> string \<Rightarrow> inode" where
  "new_node env path ty padre fname =
     \<lparr>iname = take (MAX_PATH_LEN - 1) fname, file_size = 0, itype = ty,
      ipath = take (MAX_PATH_LEN - 1) path,
      file_content = replicate MAX_CONTENT NUL,
      file_parent = take (MAX_PATH_LEN - 1) padre,
      nlink = (if ty = FILE_TYPE_REGULAR then 1 else 2),
      uid = getuid env, gid = getgid env,
      mode = (if ty = FILE_TYPE_REGULAR then S_IFREG + 0x1A4 else S_IFDIR + 0x1ED),
      ctime = time_c env, mtime = time_m env, atime = time_a env\<rparr>"

definition new_inode :: "fs_env \<Rightarrow> super_block \<Rightarrow> string \<Rightarrow> int \<Rightarrow> int \<Rightarrow> (int \<times> super_block) cres" where
  "new_inode env sb path md ty =
     bindR (get_parent_dir path) (\<lambda>padre.
     bindR (get_file_name (malloc_ok env) path) (\<lambda>filename.
       case filename of
         None \<Rightarrow> Inr (- ENOMEM, sb)
       | Some fname \<Rightarrow>
           (let (free_idx, sb') = set_inode_in_superblock sb (new_node env path ty padre fname)
            in Inr (if free_idx < 0 then - ENOSPC else 0, sb'))))"

definition fisopfs_create :: "fs_env \<Rightarrow> super_block \<Rightarrow> string \<Rightarrow> int \<Rightarrow> (int \<times> super_block) cres" where
  "fisopfs_create env sb path md = new_inode env sb path md FILE_TYPE_REGULAR"

definition fisopfs_mkdir :: "fs_env \<Rightarrow> super_block \<Rightarrow> string \<Rightarrow> int \<Rightarrow> (int \<times> super_block) cres" where
  "fisopfs_mkdir env sb path md = new_inode env sb path md FILE_TYPE_DIRECTORY"

definition has_children :: "super_block \<Rightarrow> string \<Rightarrow> bool" where
  "has_children sb path =
     (\<exists>i\<in>set [0..<MAX_INODES]. status_inodes sb ! i = OCCUPIED \<and> file_parent (inodes sb ! i) = path)"

definition fisopfs_rmdir :: "super_block \<Rightarrow> string \<Rightarrow> int \<times> super_block" where
  "fisopfs_rmdir sb path =
     (let index = get_inode_index sb path
      in if index < 0 then (- ENOENT, sb)
         else if itype (inodes sb ! nat index) \<noteq> FILE_TYPE_DIRECTORY then (- ENOTDIR, sb)
         else if has_children sb path then (- ENOTEMPTY, sb)
         else (0, free_slot sb (nat index)))"

definition fisopfs_unlink :: "super_block \<Rightarrow> string \<Rightarrow> int \<times> super_block" where
  "fisopfs_unlink sb path =
     (let index = get_inode_index sb path
      in if index = - 1 then (- ENOENT, sb)
         else let inode = inodes sb ! nat index
              in if itype inode \<noteq> FILE_TYPE_REGULAR \<and> \<not> S_ISLNK (mode inode) then (- EISDIR, sb)
                 else (0, free_slot sb (nat index)))"

section \<open>Attributes and directories\<close>

record stat =
  st_uid :: "32 word"
  st_gid :: "32 word"
  st_nlink :: "64 word"
  st_size :: int
  st_ctime :: int
  st_mtime :: int
  st_atime :: int
  st_mode :: int

definition zero_stat :: stat where
  "zero_stat = \<lparr>st_uid = 0, st_gid = 0, st_nlink = 0, st_size = 0, st_ctime = 0, st_mtime = 0,
     st_atime = 0, st_mode = 0\<rparr>"

definition stat_of :: "inode \<Rightarrow> stat" where
  "stat_of inode = \<lparr>st_uid = uid inode, st_gid = gid inode, st_nlink = nlink inode,
     st_size = file_size inode, st_ctime = ctime inode, st_mtime = mtime inode,
     st_atime = atime inode, st_mode = mode inode\<rparr>"

definition fisopfs_getattr :: "super_block \<Rightarrow> string \<Rightarrow> int \<times> stat" where
  "fisopfs_getattr sb path =
     (let idx = search_inode_by_path sb path
      in if idx = - 1 then (- ENOENT, zero_stat) else (0, stat_of (inodes sb ! nat idx)))"

text \<open>The names handed to \<open>filler\<close>, in order.\<close>

definition fisopfs_readdir :: "super_block \<Rightarrow> string \<Rightarrow> int \<times> string list" where
  "fisopfs_readdir sb path =
     (0, [''.'', ''..''] @
         map (\<lambda>i. iname (inodes sb ! i))
           (filter (\<lambda>i. status_inodes sb ! i = OCCUPIED \<and> file_parent (inodes sb ! i) = path)
             [0..<MAX_INODES]))"

definition fisopfs_utimens :: "super_block \<Rightarrow> string \<Rightarrow> int \<Rightarrow> int \<Rightarrow> int \<times> super_block" where
  "fisopfs_utimens sb path tv0_sec tv1_sec =
     (let index = get_inode_index sb path
      in if index = - 1 then (- ENOENT, sb)
         else (0, upd_inode sb (nat index)
                 ((inodes sb ! nat index)\<lparr>atime := tv0_sec, mtime := tv1_sec\<rparr>)))"

section \<open>Contents\<close>

text \<open>
  \<open>offset\<close> is a signed 64-bit \<open>off_t\<close>, \<open>size\<close> an unsigned 64-bit \<open>nbytest\<close>: the sum and the
  comparison with \<open>file_size\<close> are done in unsigned 64-bit arithmetic. The second component is
  the bytes stored in the caller's buffer.
\<close>

definition fisopfs_read :: "super_block \<Rightarrow> string \<Rightarrow> int \<Rightarrow> int \<Rightarrow> (int \<times> buffer) cres" where
  "fisopfs_read sb path nbytes offset =
     (let idx = search_inode_by_path sb path
      in if idx = - 1 then Inr (- ENOENT, [])
         else let inode = inodes sb ! nat idx
              in if offset \<ge> file_size inode then Inr (0, [])
                 else let sz = (if u64 (offset + nbytes) > u64 (file_size inode)
                                then u64 (file_size inode - offset) else nbytes)
                      in bindR (read_bytes (file_content inode) offset sz)
                           (\<lambda>bytes. Inr (c_int sz, bytes)))"

text \<open>
  One iteration of the loop of \<open>fisopfs_write\<close> that copies the written content to the other
  inodes with more than one link.
\<close>

definition share_content :: "nat \<Rightarrow> super_block \<Rightarrow> nat \<Rightarrow> super_block" where
  "share_content index sb i =
     (let src = inodes sb ! index; dst = inodes sb ! i
      in if status_inodes sb ! i = OCCUPIED \<and> nlink dst > 1 \<and>
            cstr (file_content dst) \<noteq> cstr (file_content src)
         then upd_inode sb i (dst\<lparr>
                file_content := strncpy_bytes (file_content src) MAX_CONTENT,
                file_size := file_size src\<rparr>)
         else sb)"

text \<open>The store part of \<open>fisopfs_write\<close>: the bytes, the size, the terminator.\<close>

definition store_content :: "inode \<Rightarrow> buffer \<Rightarrow> int \<Rightarrow> inode cres" where
  "store_content inode buf offset =
     bindR (write_bytes (file_content inode) offset (strncpy_bytes buf (length buf))) (\<lambda>c.
       let fs = offset + int (length buf)
       in bindR (write_bytes c fs [NUL]) (\<lambda>c'. Inr (inode\<lparr>file_content := c', file_size := fs\<rparr>)))"

text \<open>
  \<open>buf\<close> holds the \<open>size\<close> bytes of the request. The repeated test of the user id in the source
  can never succeed the second time; it is kept.
\<close>

definition fisopfs_write ::
  "fs_env \<Rightarrow> super_block \<Rightarrow> string \<Rightarrow> buffer \<Rightarrow> int \<Rightarrow> (int \<times> super_block) cres" where
  "fisopfs_write env sb path buf offset =
     (let index = get_inode_index sb path
      in if index = - 1 then Inr (- ENOENT, sb)
         else let inode = inodes sb ! nat index
              in if uid inode \<noteq> context_uid env then Inr (- ENOENT, sb)
                 else if uid inode \<noteq> context_uid env then Inr (- EACCES, sb)
                 else if offset > int MAX_CONTENT then Inr (- EFBIG, sb)
                 else bindR (store_content inode buf offset) (\<lambda>inode'.
                   let sb' = upd_inode sb (nat index) inode'
                   in Inr (c_int (int (length buf)),
                           foldl (share_content (nat index)) sb' [0..<MAX_INODES])))"

text \<open>
  \<open>offset > MAX_CONTENT * sizeof(char)\<close> compares a signed \<open>long\<close> with an unsigned one, so a
  negative offset is converted first.
\<close>

definition fisopfs_truncate :: "super_block \<Rightarrow> string \<Rightarrow> int \<Rightarrow> (int \<times> super_block) cres" where
  "fisopfs_truncate sb path offset =
     (let index = get_inode_index sb path
      in if index < 0 then Inr (- ENOENT, sb)
         else let inode = inodes sb ! nat index
              in if itype inode \<noteq> FILE_TYPE_REGULAR then Inr (- EISDIR, sb)
                 else if u64 offset > int MAX_CONTENT then Inr (- EISDIR, sb)
                 else bindR
                   (if offset < file_size inode then
                      write_bytes (file_content inode) offset
                        (replicate (nat (file_size inode - offset)) NUL)
                    else if offset > file_size inode then
                      write_bytes (file_content inode) (file_size inode)
                        (replicate (nat (offset - file_size inode)) NUL)
                    else Inr (file_content inode))
                   (\<lambda>c. Inr (0, upd_inode sb (nat index)
                      (inode\<lparr>file_content := c, file_size := offset\<rparr>))))"

section \<open>Links\<close>

definition symlink_inode :: "fs_env \<Rightarrow> string \<Rightarrow> string \<Rightarrow> string \<Rightarrow> string \<Rightarrow> inode" where
  "symlink_inode env oldpath newpath parent fname =
     \<lparr>iname = take (MAX_PATH_LEN - 1) fname, file_size = c_int (int (length oldpath)),
      itype = FILE_TYPE_REGULAR, ipath = take (MAX_PATH_LEN - 1) newpath,
      file_content = strncpy_bytes (oldpath @ [NUL]) (MAX_CONTENT - 1) @ [NUL],
      file_parent = take (MAX_PATH_LEN - 1) parent, nlink = 1,
      uid = getuid env, gid = getgid env, mode = S_IFLNK + 0x1FF,
      ctime = time_c env, mtime = time_m env, atime = time_a env\<rparr>"

definition fisopfs_symlink :: "fs_env \<Rightarrow> super_block \<Rightarrow> string \<Rightarrow> string \<Rightarrow> (int \<times> super_block) cres" where
  "fisopfs_symlink env sb oldpath newpath =
     (let index_new = search_free_inode sb
      in if index_new < 0 then Inr (- ENOSPC, sb)
         else
     bindR (get_parent_dir newpath) (\<lambda>parent.
     bindR (get_file_name (malloc_ok env) newpath) (\<lambda>filename.
       case filename of
         None \<Rightarrow> Inr (- ENOMEM, sb)
       | Some fname \<Rightarrow>
           Inr (0, put_inode sb (nat index_new) (symlink_inode env oldpath newpath parent fname)))))"

text \<open>
  The caller's buffer has \<open>size\<close> bytes, of which \<open>readlink\<close> fills the copied prefix and one
  terminator; with \<open>size = 0\<close> the decrement wraps and the copy leaves the buffer.
\<close>

definition fisopfs_readlink :: "super_block \<Rightarrow> string \<Rightarrow> nat \<Rightarrow> (int \<times> buffer) cres" where
  "fisopfs_readlink sb path nbytes =
     (let idx = search_inode_by_path sb path
      in if idx = - 1 then Inr (- ENOENT, [])
         else let inode = inodes sb ! nat idx
              in if \<not> S_ISLNK (mode inode) then Inr (- EINVAL, [])
                 else let s = cstr (file_content inode)
                      in if length s \<ge> nbytes then
                           (if nbytes = 0 then Inl OutOfBounds
                            else Inr (0, take (nbytes - 1) s @ [NUL]))
                         else Inr (0, s @ [NUL]))"

text \<open>
  \<open>memcpy(dst, src, MAX_PATH_LEN - 1)\<close> followed by a terminator: as strings this keeps the first
  127 bytes of the source. It reads 127 bytes of the source however short the string is: \<open>filename\<close>
  and \<open>parent\<close> are larger arrays of the program, \<open>newpath\<close> is an array of the caller.
\<close>

definition linked_inode :: "inode \<Rightarrow> string \<Rightarrow> string \<Rightarrow> string \<Rightarrow> inode" where
  "linked_inode old_inode newpath parent fname =
     old_inode\<lparr>iname := take (MAX_PATH_LEN - 1) fname, ipath := take (MAX_PATH_LEN - 1) newpath,
       file_parent := take (MAX_PATH_LEN - 1) parent, nlink := nlink old_inode + 1\<rparr>"

definition fisopfs_link :: "fs_env \<Rightarrow> super_block \<Rightarrow> string \<Rightarrow> string \<Rightarrow> (int \<times> super_block) cres" where
  "fisopfs_link env sb oldpath newpath =
     (let index_old = get_inode_index sb oldpath
      in if index_old < 0 then Inr (- ENOENT, sb)
         else let old_inode = inodes sb ! nat index_old
         in if itype old_inode \<noteq> FILE_TYPE_REGULAR then Inr (- EISDIR, sb)
         else let index_new = search_free_inode sb
         in if index_new < 0 then Inr (- ENOSPC, sb)
         else
     bindR (get_parent_dir newpath) (\<lambda>parent.
     bindR (get_file_name (malloc_ok env) newpath) (\<lambda>filename.
       case filename of
         None \<Rightarrow> Inr (- ENOMEM, sb)
       | Some fname \<Rightarrow>
           bindR (guardR (MAX_PATH_LEN - 1 \<le> path_room env) OutOfBounds) (\<lambda>_.
             let sb1 = put_inode sb (nat index_new) (linked_inode old_inode newpath parent fname)
             in Inr (0, upd_inode sb1 (nat index_old)
                 ((inodes sb1 ! nat index_old)\<lparr>nlink := nlink (inodes sb1 ! nat index_old) + 1\<rparr>))))))"

section \<open>The dispatch table\<close>

text \<open>
  The requests of \<open>operations\<close> that can change the super block, as FUSE delivers them; the
  reading handlers do not change it.
\<close>

datatype fs_op =
    Create string int
  | Mkdir string int
  | Rmdir string
  | Unlink string
  | Write string buffer int
  | Truncate string int
  | Utimens string int int
  | Symlink string string
  | Link string string

fun operations :: "fs_env \<Rightarrow> super_block \<Rightarrow> fs_op \<Rightarrow> (int \<times> super_block) cres" where
  "operations env sb (Create p m) = fisopfs_create env sb p m"
| "operations env sb (Mkdir p m) = fisopfs_mkdir env sb p m"
| "operations env sb (Rmdir p) = Inr (fisopfs_rmdir sb p)"
| "operations env sb (Unlink p) = Inr (fisopfs_unlink sb p)"
| "operations env sb (Write p b off) = fisopfs_write env sb p b off"
| "operations env sb (Truncate p off) = fisopfs_truncate sb p off"
| "operations env sb (Utimens p a m) = Inr (fisopfs_utimens sb p a m)"
| "operations env sb (Symlink old new) = fisopfs_symlink env sb old new"
| "operations env sb (Link old new) = fisopfs_link env sb old new"

text \<open>A session: requests served one after the other (the handlers take no lock, so requests are modelled serially).\<close>

fun run_ops :: "super_block \<Rightarrow> (fs_env \<times> fs_op) list \<Rightarrow> super_block cres" where
  "run_ops sb [] = Inr sb"
| "run_ops sb ((env, q) # qs) = bindR (operations env sb q) (\<lambda>(r, sb'). run_ops sb' qs)"

section \<open>Command line\<close>

text \<open>
  \<open>main\<close> looks for \<open>--filedisk X\<close> and removes both words from \<open>argv\<close>, which ends with a null
  pointer. The inner loop shifts the array in place, so its tail keeps stale entries; \<open>argc\<close>
  says how many are valid.
\<close>

fun shift_args :: "string option list \<Rightarrow> nat list \<Rightarrow> string option list cres" where
  "shift_args argv [] = Inr argv"
| "shift_args argv (j # js) =
     bindR (guardR (j + 2 < length argv) OutOfBounds) (\<lambda>_. shift_args (argv[j := argv ! (j + 2)]) js)"

definition fs_main_args :: "string option list \<Rightarrow> (string option \<times> nat \<times> string option list) cres" where
  "fs_main_args argv =
     (let argc = length argv - 1
      in case find (\<lambda>i. argv ! i = Some ''--filedisk'') [1..<argc - 1] of
           None \<Rightarrow> Inr (Some ''persistence_file.fisopfs'', argc, argv)
         | Some i \<Rightarrow>
             bindR (shift_args argv [i..<argc - 1])
               (\<lambda>argv'. Inr (argv ! (i + 1), argc - 2, argv')))"

end
