(* ===== verification/FsInv.thy ===== *)
theory FsInv
  imports FsOps
begin

text \<open>
  The invariants of the inode table and their preservation by every handler of
  \<^verbatim>\<open>src/4-fs/fisopfs.c\<close>: \<open>fs_inv\<close> bounds the arrays of each inode, \<open>fs_wf\<close> adds what the table
  means as a directory tree (one slot per path, name and parent derived from the path, the root in
  slot 0).
\<close>

section \<open>Well-formed inodes and tables\<close>

definition inode_ok :: "inode \<Rightarrow> bool" where
  "inode_ok ino \<longleftrightarrow>
     length (file_content ino) = MAX_CONTENT \<and> file_content ino ! (MAX_CONTENT - 1) = NUL \<and>
     length (iname ino) < MAX_NAME_LEN \<and> length (ipath ino) < MAX_PATH_LEN \<and>
     length (file_parent ino) < MAX_PATH_LEN"

definition fs_inv :: "super_block \<Rightarrow> bool" where
  "fs_inv sb \<longleftrightarrow> sb_shape sb \<and>
     (\<forall>i<MAX_INODES. status_inodes sb ! i = FREE \<or> status_inodes sb ! i = OCCUPIED) \<and>
     (\<forall>i<MAX_INODES. inode_ok (inodes sb ! i))"

abbreviation occupied :: "super_block \<Rightarrow> nat \<Rightarrow> bool" where
  "occupied sb i \<equiv> status_inodes sb ! i = OCCUPIED"

definition unique_paths :: "super_block \<Rightarrow> bool" where
  "unique_paths sb \<longleftrightarrow>
     (\<forall>i<MAX_INODES. \<forall>j<MAX_INODES. occupied sb i \<longrightarrow> occupied sb j \<longrightarrow>
        ipath (inodes sb ! i) = ipath (inodes sb ! j) \<longrightarrow> i = j)"

definition names_ok :: "inode \<Rightarrow> bool" where
  "names_ok ino \<longleftrightarrow> ipath ino = ROOT \<or>
     (get_parent_dir (ipath ino) = Inr (file_parent ino) \<and>
      get_file_name True (ipath ino) = Inr (Some (iname ino)))"

definition fs_wf :: "super_block \<Rightarrow> bool" where
  "fs_wf sb \<longleftrightarrow> fs_inv sb \<and> unique_paths sb \<and>
     (\<forall>i<MAX_INODES. occupied sb i \<longrightarrow> names_ok (inodes sb ! i)) \<and>
     occupied sb 0 \<and> ipath (inodes sb ! 0) = ROOT \<and> itype (inodes sb ! 0) = FILE_TYPE_DIRECTORY \<and>
     \<not> S_ISLNK (mode (inodes sb ! 0))"

definition fs_lookup :: "super_block \<Rightarrow> string \<Rightarrow> inode option" where
  "fs_lookup sb path =
     (let i = search_inode_by_path sb path in if i < 0 then None else Some (inodes sb ! nat i))"

lemma fs_lookup_eq_None:
  "fs_lookup sb path = None \<longleftrightarrow> (\<forall>i<MAX_INODES. occupied sb i \<longrightarrow> ipath (inodes sb ! i) \<noteq> path)"
  by (auto simp: fs_lookup_def search_inode_by_path_def scan_simps)

lemma fs_lookup_eq_Some:
  assumes "unique_paths sb"
  shows "fs_lookup sb path = Some ino \<longleftrightarrow>
    (\<exists>i<MAX_INODES. occupied sb i \<and> ipath (inodes sb ! i) = path \<and> inodes sb ! i = ino)"
proof (cases rule: first_index_cases
    [of MAX_INODES "\<lambda>i. occupied sb i \<and> ipath (inodes sb ! i) = path"])
  case none
  then show ?thesis by (auto simp: fs_lookup_def search_inode_by_path_def)
next
  case (found i)
  then have "fs_lookup sb path = Some (inodes sb ! i)"
    by (simp add: fs_lookup_def search_inode_by_path_def)
  moreover have "j = i" if "j < MAX_INODES" "occupied sb j" "ipath (inodes sb ! j) = path" for j
    using assms found(2,3) that unfolding unique_paths_def by blast
  ultimately show ?thesis using found(2,3) by (metis option.inject)
qed

lemma fs_inv_shape [dest]: "fs_inv sb \<Longrightarrow> length (inodes sb) = MAX_INODES \<and> length (status_inodes sb) = MAX_INODES"
  by (simp add: fs_inv_def sb_shape_def)

lemma fs_inv_inode: "fs_inv sb \<Longrightarrow> i < MAX_INODES \<Longrightarrow> inode_ok (inodes sb ! i)"
  by (simp add: fs_inv_def)

lemma fs_wf_inv: "fs_wf sb \<Longrightarrow> fs_inv sb"
  by (simp add: fs_wf_def)

lemma fs_wf_unique: "fs_wf sb \<Longrightarrow> unique_paths sb"
  by (simp add: fs_wf_def)

section \<open>The table primitives\<close>

lemma upd_inode_sel [simp]:
  "status_inodes (upd_inode sb i ino) = status_inodes sb"
  "inodes (upd_inode sb i ino) = (inodes sb)[i := ino]"
  by (simp_all add: upd_inode_def)

lemma put_inode_sel [simp]:
  "status_inodes (put_inode sb i ino) = (status_inodes sb)[i := OCCUPIED]"
  "inodes (put_inode sb i ino) = (inodes sb)[i := ino]"
  by (simp_all add: put_inode_def)

lemma free_slot_sel [simp]:
  "status_inodes (free_slot sb i) = (status_inodes sb)[i := FREE]"
  "inodes (free_slot sb i) = inodes sb"
  by (simp_all add: free_slot_def)

lemma nth_upd_status: "fs_inv sb \<Longrightarrow> i < MAX_INODES \<Longrightarrow>
  (status_inodes sb)[i := x] ! j = (if i = j then x else status_inodes sb ! j)"
  by (auto dest: fs_inv_shape)

lemma nth_upd_inodes: "fs_inv sb \<Longrightarrow> i < MAX_INODES \<Longrightarrow>
  (inodes sb)[i := x] ! j = (if i = j then x else inodes sb ! j)"
  by (auto dest: fs_inv_shape)

lemmas fs_nth = nth_upd_status nth_upd_inodes

lemma fs_inv_upd: "fs_inv sb \<Longrightarrow> i < MAX_INODES \<Longrightarrow> inode_ok ino \<Longrightarrow> fs_inv (upd_inode sb i ino)"
  by (auto simp: fs_inv_def sb_shape_def nth_list_update)

lemma fs_inv_put: "fs_inv sb \<Longrightarrow> i < MAX_INODES \<Longrightarrow> inode_ok ino \<Longrightarrow> fs_inv (put_inode sb i ino)"
  by (auto simp: fs_inv_def sb_shape_def nth_list_update)

lemma fs_inv_free: "fs_inv sb \<Longrightarrow> i < MAX_INODES \<Longrightarrow> fs_inv (free_slot sb i)"
  by (auto simp: fs_inv_def sb_shape_def nth_list_update)

text \<open>An update of an inode that keeps its identity keeps the whole tree.\<close>

definition same_id :: "inode \<Rightarrow> inode \<Rightarrow> bool" where
  "same_id a b \<longleftrightarrow> ipath a = ipath b \<and> iname a = iname b \<and> file_parent a = file_parent b \<and>
     itype a = itype b \<and> mode a = mode b"

lemma same_id_refl [simp]: "same_id a a"
  by (simp add: same_id_def)

lemma fs_wf_upd:
  assumes wf: "fs_wf sb" and i: "i < MAX_INODES" and ok: "inode_ok ino"
    and id: "same_id ino (inodes sb ! i)"
  shows "fs_wf (upd_inode sb i ino)"
proof -
  have inv: "fs_inv sb" using wf by (rule fs_wf_inv)
  have path: "ipath ((inodes sb)[i := ino] ! j) = ipath (inodes sb ! j)" for j
    using id by (simp add: nth_upd_inodes [OF inv i] same_id_def)
  have names: "names_ok ((inodes sb)[i := ino] ! j) = names_ok (inodes sb ! j)" for j
    using id by (simp add: nth_upd_inodes [OF inv i] same_id_def names_ok_def)
  have type0: "itype ((inodes sb)[i := ino] ! 0) = itype (inodes sb ! 0)"
      "mode ((inodes sb)[i := ino] ! 0) = mode (inodes sb ! 0)"
    using id by (simp_all add: nth_upd_inodes [OF inv i] same_id_def)
  show ?thesis
    using wf fs_inv_upd [OF inv i ok]
    by (simp add: fs_wf_def unique_paths_def path names type0)
qed

lemma fs_wf_put:
  assumes wf: "fs_wf sb" and i: "i < MAX_INODES" and fr: "status_inodes sb ! i = FREE"
    and ok: "inode_ok ino" and names: "names_ok ino" and new: "fs_lookup sb (ipath ino) = None"
  shows "fs_wf (put_inode sb i ino)"
proof -
  have inv: "fs_inv sb" using wf by (rule fs_wf_inv)
  have i0: "i \<noteq> 0"
  proof
    assume "i = 0"
    with wf fr show False by (simp add: fs_wf_def)
  qed
  have "unique_paths (put_inode sb i ino)"
    using fs_wf_unique [OF wf] new unfolding unique_paths_def fs_lookup_eq_None
    by (simp add: fs_nth [OF inv i]) metis
  then show ?thesis
    using wf fs_inv_put [OF inv i ok] names i0
    by (auto simp: fs_wf_def fs_nth [OF inv i])
qed

lemma fs_wf_free:
  assumes wf: "fs_wf sb" and i: "i < MAX_INODES" "i \<noteq> 0"
  shows "fs_wf (free_slot sb i)"
proof -
  have inv: "fs_inv sb" using wf by (rule fs_wf_inv)
  show ?thesis
    using wf fs_inv_free [OF inv i(1)] i(2)
    by (auto simp: fs_wf_def unique_paths_def fs_nth [OF inv i(1)])
qed

lemma fs_lookup_put:
  assumes wf: "fs_wf sb" and i: "i < MAX_INODES" and fr: "status_inodes sb ! i = FREE"
    and ok: "inode_ok ino" and names: "names_ok ino" and new: "fs_lookup sb (ipath ino) = None"
  shows "fs_lookup (put_inode sb i ino) = (fs_lookup sb)(ipath ino \<mapsto> ino)"
proof (rule ext, rule option_eqI)
  fix p v
  have inv: "fs_inv sb" using wf by (rule fs_wf_inv)
  note un = fs_wf_unique [OF wf] fs_wf_unique [OF fs_wf_put [OF assms]]
  show "(fs_lookup (put_inode sb i ino) p = Some v) = (((fs_lookup sb)(ipath ino \<mapsto> ino)) p = Some v)"
  proof (cases "p = ipath ino")
    case True
    then show ?thesis
      using new i unfolding fs_lookup_eq_None
      by (auto simp: fs_lookup_eq_Some [OF un(2)] fs_nth [OF inv i])
  next
    case False
    then show ?thesis
      using fr by (simp add: fs_lookup_eq_Some [OF un(2)] fs_lookup_eq_Some [OF un(1)] fs_nth [OF inv i])
        (metis zero_neq_one)
  qed
qed

lemma fs_lookup_free:
  assumes wf: "fs_wf sb" and i: "i < MAX_INODES" "occupied sb i"
  shows "fs_lookup (free_slot sb i) = (fs_lookup sb)(ipath (inodes sb ! i) := None)"
proof (rule ext, rule option_eqI)
  fix p v
  have inv: "fs_inv sb" using wf by (rule fs_wf_inv)
  have un: "unique_paths sb" using wf by (rule fs_wf_unique)
  have un': "unique_paths (free_slot sb i)"
    using un by (auto simp: unique_paths_def fs_nth [OF inv i(1)])
  show "(fs_lookup (free_slot sb i) p = Some v) = (((fs_lookup sb)(ipath (inodes sb ! i) := None)) p = Some v)"
    using un i by (auto simp: fs_lookup_eq_Some [OF un'] fs_lookup_eq_Some [OF un]
        fs_nth [OF inv i(1)] unique_paths_def)
qed

lemma fs_lookup_upd:
  assumes wf: "fs_wf sb" and i: "i < MAX_INODES" "occupied sb i" and ok: "inode_ok ino"
    and id: "same_id ino (inodes sb ! i)"
  shows "fs_lookup (upd_inode sb i ino) = (fs_lookup sb)(ipath (inodes sb ! i) \<mapsto> ino)"
proof (rule ext, rule option_eqI)
  fix p v
  have inv: "fs_inv sb" using wf by (rule fs_wf_inv)
  note un = fs_wf_unique [OF wf] fs_wf_unique [OF fs_wf_upd [OF wf i(1) ok id]]
  have "ipath ino = ipath (inodes sb ! i)" using id by (simp add: same_id_def)
  then show "(fs_lookup (upd_inode sb i ino) p = Some v) =
      (((fs_lookup sb)(ipath (inodes sb ! i) \<mapsto> ino)) p = Some v)"
    using un(1) i by (auto simp: fs_lookup_eq_Some [OF un(2)] fs_lookup_eq_Some [OF un(1)]
        fs_nth [OF inv i(1)] unique_paths_def)
qed

lemma get_inode_index_wf:
  assumes "fs_wf sb"
  shows "get_inode_index sb path = search_inode_by_path sb path"
proof (cases "path = ROOT")
  case True
  have "search_inode_by_path sb ROOT = int 0"
    using assms unfolding search_inode_by_path_eq_int by (simp add: fs_wf_def)
  with True show ?thesis by (simp add: get_inode_index_def)
qed (simp add: get_inode_index_search)

lemma index_cases:
  assumes "fs_wf sb"
  obtains (absent) "search_inode_by_path sb path = - 1" "fs_lookup sb path = None"
  | (present) i where "search_inode_by_path sb path = int i" "i < MAX_INODES" "occupied sb i"
      "ipath (inodes sb ! i) = path" "fs_lookup sb path = Some (inodes sb ! i)"
proof (cases rule: first_index_cases
    [of MAX_INODES "\<lambda>i. occupied sb i \<and> ipath (inodes sb ! i) = path"])
  case none
  then show ?thesis using absent
    by (auto simp: search_inode_by_path_def fs_lookup_def)
next
  case (found i)
  then show ?thesis using present [of i]
    by (simp add: search_inode_by_path_def fs_lookup_def)
qed

lemma lookup_index:
  assumes "fs_wf sb" "fs_lookup sb path = Some ino"
  obtains i where "search_inode_by_path sb path = int i" "i < MAX_INODES" "occupied sb i"
    "ipath (inodes sb ! i) = path" "inodes sb ! i = ino" "get_inode_index sb path = int i"
proof (rule index_cases [OF assms(1), of path])
  assume "fs_lookup sb path = None"
  with assms(2) show thesis by simp
next
  fix i assume "search_inode_by_path sb path = int i" "i < MAX_INODES" "occupied sb i"
    "ipath (inodes sb ! i) = path" "fs_lookup sb path = Some (inodes sb ! i)"
  with assms(2) that show thesis by (simp add: get_inode_index_wf [OF assms(1)])
qed

section \<open>Creation\<close>

lemma inode_ok_new_node:
  assumes "get_parent_dir path = Inr padre"
  shows "inode_ok (new_node env path ty padre fname)"
  using assms by (simp add: inode_ok_def new_node_def min_less_iff_disj)

lemma path_kept: "get_parent_dir path = Inr padre \<Longrightarrow>
  take (MAX_PATH_LEN - 1) path = path \<and> take (MAX_PATH_LEN - 1) padre = padre"
  by (auto dest: get_parent_dir_bound)

lemma get_file_name_Some:
  assumes "get_file_name m path = Inr (Some fname)"
  shows "get_file_name True path = Inr (Some fname) \<and> length fname \<le> length path"
  using assms by (auto simp: get_file_name_def Let_def cres_simps split: if_splits option.splits)

lemma names_ok_intro:
  assumes "get_parent_dir path = Inr padre" "get_file_name m path = Inr (Some fname)"
    and "ipath ino = take (MAX_PATH_LEN - 1) path" "iname ino = take (MAX_PATH_LEN - 1) fname"
    and "file_parent ino = take (MAX_PATH_LEN - 1) padre"
  shows "names_ok ino"
  using assms path_kept [OF assms(1)] get_file_name_Some [OF assms(2)] get_parent_dir_bound [OF assms(1)]
  by (simp add: names_ok_def)

lemma new_inode_cases:
  assumes wf: "fs_wf sb" and path: "path \<noteq> ROOT"
    and run: "new_inode env sb path md ty = Inr (r, sb')"
  obtains (nomem) "r = - ENOMEM" "sb' = sb" "\<not> malloc_ok env"
  | (exists) i where "r = 0" "i < MAX_INODES" "occupied sb i"
      "sb' = upd_inode sb i ((inodes sb ! i)\<lparr>nlink := nlink (inodes sb ! i) + 1\<rparr>)"
  | (full) "r = - ENOSPC" "sb' = sb" "search_free_inode sb < 0" "fs_lookup sb path = None"
  | (fresh) i padre fname where "r = 0" "search_free_inode sb = int i" "i < MAX_INODES"
      "status_inodes sb ! i = FREE" "fs_lookup sb path = None"
      "get_parent_dir path = Inr padre" "get_file_name (malloc_ok env) path = Inr (Some fname)"
      "sb' = put_inode sb i (new_node env path ty padre fname)"
proof -
  from run obtain padre where padre: "get_parent_dir path = Inr padre"
    by (auto simp: new_inode_def cres_simps)
  from run padre obtain f where f: "get_file_name (malloc_ok env) path = Inr f"
    by (auto simp: new_inode_def cres_simps)
  show thesis
  proof (cases f)
    case None
    with f have "\<not> malloc_ok env"
      by (auto simp: get_file_name_def Let_def cres_simps split: if_splits)
    with run padre f None nomem show thesis by (simp add: new_inode_def)
  next
    case (Some fname)
    let ?n = "new_node env path ty padre fname"
    let ?P = "\<lambda>i. occupied sb i \<and> iname (inodes sb ! i) = iname ?n \<and>
      file_parent (inodes sb ! i) = file_parent ?n"
    note f' = f [unfolded Some]
    have short: "length fname < MAX_PATH_LEN"
      using get_file_name_Some [OF f'] get_parent_dir_bound [OF padre] by simp
    from run have run': "(if fst (set_inode_in_superblock sb ?n) < 0 then - ENOSPC else 0) = r"
        "snd (set_inode_in_superblock sb ?n) = sb'"
      using padre f' by (auto simp: new_inode_def split: prod.splits)
    show thesis
    proof (cases rule: first_index_cases [of MAX_INODES ?P])
      case (found i)
      with run' exists show thesis by (simp add: set_inode_in_superblock_def)
    next
      case none
      have absent: "fs_lookup sb path = None"
        unfolding fs_lookup_eq_None
      proof (intro allI impI)
        fix j assume j: "j < MAX_INODES" "occupied sb j"
        show "ipath (inodes sb ! j) \<noteq> path"
        proof
          assume p: "ipath (inodes sb ! j) = path"
          have "names_ok (inodes sb ! j)" using wf j by (simp add: fs_wf_def)
          with p path padre get_file_name_Some [OF f'] short path_kept [OF padre]
          have "?P j" using j by (auto simp: names_ok_def new_node_def)
          with none j show False by blast
        qed
      qed
      show thesis
      proof (cases rule: first_index_cases [of MAX_INODES "\<lambda>i. status_inodes sb ! i = FREE"])
        case nofree: none
        then have "search_free_inode sb = - 1" by (simp add: search_free_inode_def)
        with run' none full absent show thesis by (simp add: set_inode_in_superblock_def)
      next
        case free: (found i)
        then have "search_free_inode sb = int i" by (simp add: search_free_inode_def)
        with run' none free fresh [of i padre fname] absent padre f' show thesis
          by (simp add: set_inode_in_superblock_def)
      qed
    qed
  qed
qed

lemma fs_inv_new_inode:
  assumes inv: "fs_inv sb" and run: "new_inode env sb path md ty = Inr (r, sb')"
  shows "fs_inv sb'"
proof -
  have set: "fs_inv (snd (set_inode_in_superblock sb ino))" if ok: "inode_ok ino" for ino
  proof (cases rule: first_index_cases [of MAX_INODES "\<lambda>i. occupied sb i \<and>
      iname (inodes sb ! i) = iname ino \<and> file_parent (inodes sb ! i) = file_parent ino"])
    case none
    then show ?thesis
      using inv fs_inv_put [OF inv _ ok]
      by (cases rule: first_index_cases [of MAX_INODES "\<lambda>i. status_inodes sb ! i = FREE"])
        (simp_all add: set_inode_in_superblock_def search_free_inode_def)
  next
    case (found i)
    have "inode_ok ((inodes sb ! i)\<lparr>nlink := nlink (inodes sb ! i) + 1\<rparr>)"
      using fs_inv_inode [OF inv found(2)] by (simp add: inode_ok_def)
    with found inv show ?thesis by (simp add: set_inode_in_superblock_def fs_inv_upd)
  qed
  obtain padre f where padre: "get_parent_dir path = Inr padre"
    and f: "get_file_name (malloc_ok env) path = Inr f"
    using run by (auto simp: new_inode_def cres_simps)
  show ?thesis
  proof (cases f)
    case None
    with run inv padre f show ?thesis by (simp add: new_inode_def)
  next
    case (Some fname)
    have "sb' = snd (set_inode_in_superblock sb (new_node env path ty padre fname))"
      using run padre f Some by (auto simp: new_inode_def split: prod.splits)
    with set [OF inode_ok_new_node [OF padre]] show ?thesis by simp
  qed
qed

lemma fs_wf_new_inode:
  assumes wf: "fs_wf sb" and path: "path \<noteq> ROOT"
    and run: "new_inode env sb path md ty = Inr (r, sb')"
  shows "fs_wf sb'"
  using wf path run
proof (cases rule: new_inode_cases)
  case (exists i)
  have "inode_ok ((inodes sb ! i)\<lparr>nlink := nlink (inodes sb ! i) + 1\<rparr>)"
    using fs_inv_inode [OF fs_wf_inv [OF wf] exists(2)] by (simp add: inode_ok_def)
  with exists wf show ?thesis by (auto intro!: fs_wf_upd simp: same_id_def)
next
  case (fresh i padre fname)
  have "ipath (new_node env path ty padre fname) = path"
    using path_kept [OF fresh(6)] by (simp add: new_node_def)
  moreover have "names_ok (new_node env path ty padre fname)"
    by (rule names_ok_intro [OF fresh(6,7)]) (simp_all add: new_node_def)
  ultimately show ?thesis
    using fresh wf inode_ok_new_node [OF fresh(6)] by (auto intro!: fs_wf_put)
qed (use wf in simp_all)

section \<open>Writing\<close>

lemma inode_ok_content:
  "inode_ok ino \<Longrightarrow> length c = MAX_CONTENT \<Longrightarrow> c ! (MAX_CONTENT - 1) = NUL \<Longrightarrow>
   inode_ok (ino\<lparr>file_content := c, file_size := n\<rparr>)"
  by (simp add: inode_ok_def)

lemma length_cstr_content: "inode_ok ino \<Longrightarrow> length (cstr (file_content ino)) < MAX_CONTENT"
proof -
  assume ok: "inode_ok ino"
  let ?c = "file_content ino"
  have len: "length ?c = MAX_CONTENT" and last: "?c ! (MAX_CONTENT - 1) = NUL"
    using ok by (simp_all add: inode_ok_def)
  have "length (cstr ?c) \<noteq> MAX_CONTENT"
  proof
    assume "length (cstr ?c) = MAX_CONTENT"
    then have "cstr ?c = ?c"
      using len by (metis cstr_def takeWhile_eq_take take_all order_refl)
    moreover have "NUL \<in> set ?c"
      using len last nth_mem [of "MAX_CONTENT - 1" ?c] by simp
    ultimately show False using NUL_notin_cstr by metis
  qed
  with length_cstr_le [of ?c] len show ?thesis by linarith
qed

lemma strncpy_full:
  assumes "inode_ok ino"
  shows "length (strncpy_bytes (file_content ino) MAX_CONTENT) = MAX_CONTENT"
    and "strncpy_bytes (file_content ino) MAX_CONTENT ! (MAX_CONTENT - 1) = NUL"
    and "cstr (strncpy_bytes (file_content ino) MAX_CONTENT) = cstr (file_content ino)"
proof -
  have "length (file_content ino) = MAX_CONTENT" using assms by (simp add: inode_ok_def)
  then show "cstr (strncpy_bytes (file_content ino) MAX_CONTENT) = cstr (file_content ino)"
    by simp
  show "strncpy_bytes (file_content ino) MAX_CONTENT ! (MAX_CONTENT - 1) = NUL"
    using length_cstr_content [OF assms] \<open>length (file_content ino) = MAX_CONTENT\<close>
    by (simp add: strncpy_bytes_def Let_def nth_append)
qed simp

definition shared_copy :: "super_block \<Rightarrow> nat \<Rightarrow> nat \<Rightarrow> inode" where
  "shared_copy sb k i =
     (let src = inodes sb ! k; dst = inodes sb ! i
      in if occupied sb i \<and> nlink dst > 1 \<and> cstr (file_content dst) \<noteq> cstr (file_content src)
         then dst\<lparr>file_content := strncpy_bytes (file_content src) MAX_CONTENT,
                  file_size := file_size src\<rparr>
         else dst)"

lemma shared_copy_self [simp]: "shared_copy sb k k = inodes sb ! k"
  by (simp add: shared_copy_def)

lemma share_content_loop:
  assumes shape: "sb_shape sb" and k: "k < MAX_INODES" and n: "n \<le> MAX_INODES"
  shows "status_inodes (foldl (share_content k) sb [0..<n]) = status_inodes sb \<and>
    inodes (foldl (share_content k) sb [0..<n]) =
      map (\<lambda>i. if i < n then shared_copy sb k i else inodes sb ! i) [0..<MAX_INODES]"
  using n
proof (induction n)
  case 0
  have "map (\<lambda>i. inodes sb ! i) [0..<length (inodes sb)] = inodes sb" by (rule map_nth)
  then show ?case using shape by (simp add: sb_shape_def)
next
  case (Suc n)
  let ?sb = "foldl (share_content k) sb [0..<n]"
  let ?f = "\<lambda>n i. if i < n then shared_copy sb k i else inodes sb ! i"
  from Suc have st: "status_inodes ?sb = status_inodes sb"
    and ino: "inodes ?sb = map (?f n) [0..<MAX_INODES]" and n: "n < MAX_INODES" by simp_all
  have nk: "inodes ?sb ! n = inodes sb ! n" "inodes ?sb ! k = inodes sb ! k"
    using ino n k by (simp_all add: shared_copy_self)
  let ?test = "occupied sb n \<and> nlink (inodes sb ! n) > 1 \<and>
    cstr (file_content (inodes sb ! n)) \<noteq> cstr (file_content (inodes sb ! k))"
  have loop: "foldl (share_content k) sb [0..<Suc n] = share_content k ?sb n" by simp
  show ?case
  proof (cases ?test)
    case True
    then have "share_content k ?sb n = upd_inode ?sb n (shared_copy sb k n)"
      by (simp add: share_content_def shared_copy_def Let_def nk st)
    moreover have "(map (?f n) [0..<MAX_INODES])[n := shared_copy sb k n] = map (?f (Suc n)) [0..<MAX_INODES]"
      using n by (auto simp: list_eq_iff_nth_eq nth_list_update less_Suc_eq)
    ultimately show ?thesis unfolding loop by (simp add: ino st)
  next
    case False
    then have same: "shared_copy sb k n = inodes sb ! n" by (auto simp: shared_copy_def Let_def)
    from False have "share_content k ?sb n = ?sb"
      by (auto simp: share_content_def Let_def nk st)
    moreover have "map (?f n) [0..<MAX_INODES] = map (?f (Suc n)) [0..<MAX_INODES]"
      using same by (intro map_cong) (auto simp: less_Suc_eq)
    ultimately show ?thesis unfolding loop using ino st by simp
  qed
qed

text \<open>Rewriting inodes in place, identities kept, keeps the tree.\<close>

lemma fs_inv_pointwise:
  assumes "sb_shape sb" "status_inodes sb' = status_inodes sb" "length (inodes sb') = MAX_INODES"
    and "\<And>i. i < MAX_INODES \<Longrightarrow> inode_ok (inodes sb' ! i)"
    and "\<And>i. i < MAX_INODES \<Longrightarrow> status_inodes sb ! i = FREE \<or> occupied sb i"
  shows "fs_inv sb'"
  using assms by (auto simp: fs_inv_def sb_shape_def)

lemma fs_wf_pointwise:
  assumes wf: "fs_wf sb" and st: "status_inodes sb' = status_inodes sb"
    and len: "length (inodes sb') = MAX_INODES"
    and ok: "\<And>i. i < MAX_INODES \<Longrightarrow> inode_ok (inodes sb' ! i)"
    and id: "\<And>i. i < MAX_INODES \<Longrightarrow> same_id (inodes sb' ! i) (inodes sb ! i)"
  shows "fs_wf sb'"
proof -
  have "fs_inv sb'"
    using wf by (intro fs_inv_pointwise [OF _ st len ok]) (auto simp: fs_wf_def fs_inv_def)
  moreover have "ipath (inodes sb' ! i) = ipath (inodes sb ! i)"
      "names_ok (inodes sb' ! i) = names_ok (inodes sb ! i)"
      "itype (inodes sb' ! i) = itype (inodes sb ! i)"
      "mode (inodes sb' ! i) = mode (inodes sb ! i)" if "i < MAX_INODES" for i
    using id [OF that] by (simp_all add: same_id_def names_ok_def)
  ultimately show ?thesis
    using wf st by (simp add: fs_wf_def unique_paths_def)
qed

lemma store_content_eq_Inr:
  assumes "inode_ok ino"
  shows "store_content ino buf off = Inr ino' \<longleftrightarrow>
    0 \<le> off \<and> off + int (length buf) < int MAX_CONTENT \<and>
    ino' = ino\<lparr>file_content :=
        overwrite (overwrite (file_content ino) (nat off) (strncpy_bytes buf (length buf)))
          (nat off + length buf) [NUL],
      file_size := off + int (length buf)\<rparr>"
  using assms by (auto simp: store_content_def cres_simps Let_def inode_ok_def nat_add_distrib)

lemma store_content_eq_Inl:
  assumes "inode_ok ino"
  shows "store_content ino buf off = Inl e \<longleftrightarrow>
    e = OutOfBounds \<and> \<not> (0 \<le> off \<and> off + int (length buf) < int MAX_CONTENT)"
  using assms by (auto simp: store_content_def cres_simps Let_def inode_ok_def)

lemma inode_ok_store:
  assumes ok: "inode_ok ino" and st: "store_content ino buf off = Inr ino'"
  shows "inode_ok ino'"
proof -
  have b: "0 \<le> off" "nat off + length buf < MAX_CONTENT" and len: "length (file_content ino) = MAX_CONTENT"
    and last: "file_content ino ! (MAX_CONTENT - 1) = NUL"
    using st ok by (auto simp: store_content_eq_Inr [OF ok] inode_ok_def)
  show ?thesis
    using st b len last ok
    by (auto simp: store_content_eq_Inr [OF ok] nth_overwrite intro!: inode_ok_content)
qed

lemma same_id_store: "inode_ok ino \<Longrightarrow> store_content ino buf off = Inr ino' \<Longrightarrow> same_id ino' ino"
  by (auto simp: store_content_eq_Inr same_id_def)

lemma inode_ok_shared_copy:
  "inode_ok (inodes sb ! k) \<Longrightarrow> inode_ok (inodes sb ! i) \<Longrightarrow> inode_ok (shared_copy sb k i)"
  using strncpy_full(1,2) [of "inodes sb ! k"]
  by (auto simp: shared_copy_def Let_def inode_ok_content)

lemma same_id_shared_copy: "same_id (shared_copy sb k i) (inodes sb ! i)"
  by (simp add: shared_copy_def same_id_def Let_def)

text \<open>What a successful \<open>fisopfs_write\<close> leaves in the table, slot by slot.\<close>

lemma fisopfs_write_cases:
  assumes inv: "fs_inv sb" and ix: "get_inode_index sb path = int k" and k: "k < MAX_INODES"
    and run: "fisopfs_write env sb path buf off = Inr (r, sb')"
  obtains (refused) "sb' = sb" "r = - ENOENT \<or> r = - EFBIG"
      "uid (inodes sb ! k) \<noteq> context_uid env \<or> off > int MAX_CONTENT"
  | (stored) ino' where "uid (inodes sb ! k) = context_uid env"
      "store_content (inodes sb ! k) buf off = Inr ino'" "r = int (length buf)"
      "status_inodes sb' = status_inodes sb"
      "inodes sb' = map (shared_copy (upd_inode sb k ino') k) [0..<MAX_INODES]"
      "inodes sb' ! k = ino'"
proof (cases "uid (inodes sb ! k) \<noteq> context_uid env \<or> off > int MAX_CONTENT")
  case True
  with run ix show thesis by (auto intro!: refused simp: fisopfs_write_def Let_def split: if_splits)
next
  case False
  with run ix obtain ino' where st: "store_content (inodes sb ! k) buf off = Inr ino'"
    by (auto simp: fisopfs_write_def Let_def cres_simps)
  let ?sb = "upd_inode sb k ino'"
  have sh: "sb_shape ?sb" using inv by (simp add: fs_inv_def sb_shape_def)
  have loop: "status_inodes (foldl (share_content k) ?sb [0..<MAX_INODES]) = status_inodes sb"
    "inodes (foldl (share_content k) ?sb [0..<MAX_INODES]) = map (shared_copy ?sb k) [0..<MAX_INODES]"
    using share_content_loop [OF sh k order_refl] by (simp_all cong: map_cong)
  have "length buf < MAX_CONTENT"
    using st by (auto simp: store_content_eq_Inr [OF fs_inv_inode [OF inv k]])
  then have "c_int (int (length buf)) = int (length buf)" by (intro c_int_id) auto
  moreover have "inodes sb' = map (shared_copy ?sb k) [0..<MAX_INODES]"
      "r = c_int (int (length buf))" "status_inodes sb' = status_inodes sb"
    using run ix st False loop by (auto simp: fisopfs_write_def Let_def)
  moreover from this k inv have "inodes sb' ! k = ino'"
    by (simp add: fs_inv_def sb_shape_def)
  ultimately show thesis using False st by (intro stored) auto
qed

lemma write_pointwise:
  assumes inv: "fs_inv sb" and k: "k < MAX_INODES"
    and st: "store_content (inodes sb ! k) buf off = Inr ino'"
    and i: "i < MAX_INODES"
  shows "inode_ok (shared_copy (upd_inode sb k ino') k i)"
    and "same_id (shared_copy (upd_inode sb k ino') k i) (inodes sb ! i)"
proof -
  note ok = inode_ok_store [OF fs_inv_inode [OF inv k] st]
  note id = same_id_store [OF fs_inv_inode [OF inv k] st]
  have "inode_ok (inodes (upd_inode sb k ino') ! j)" if "j < MAX_INODES" for j
    using ok fs_inv_inode [OF inv that] by (simp add: nth_upd_inodes [OF inv k])
  with i k show "inode_ok (shared_copy (upd_inode sb k ino') k i)"
    by (intro inode_ok_shared_copy)
  show "same_id (shared_copy (upd_inode sb k ino') k i) (inodes sb ! i)"
    using same_id_shared_copy [of "upd_inode sb k ino'" k i] id
    by (auto simp: nth_upd_inodes [OF inv k] same_id_def split: if_splits)
qed

lemma get_inode_index_range:
  obtains (absent) "get_inode_index sb path = - 1"
  | (present) k where "get_inode_index sb path = int k" "k < MAX_INODES"
proof (cases "path = ROOT")
  case True
  then show ?thesis using present [of 0] by (simp add: get_inode_index_def)
next
  case False
  then show ?thesis
    using absent present
    by (cases rule: first_index_cases
        [of MAX_INODES "\<lambda>i. occupied sb i \<and> ipath (inodes sb ! i) = path"])
      (auto simp: get_inode_index_def)
qed

end
