(* ===== verification/FsKeep.thy ===== *)
theory FsKeep
  imports FsInv
begin

text \<open>
  Every handler keeps the table invariants: \<open>fs_inv\<close> unconditionally, \<open>fs_wf\<close> for the requests the
  kernel's name lookup lets through (\<open>fs_admissible\<close>: the root is not created or removed, and a new
  link name does not exist yet). Then the same for whole sessions.
\<close>

definition fs_admissible :: "super_block \<Rightarrow> fs_op \<Rightarrow> bool" where
  "fs_admissible sb q =
     (case q of
        Create p m \<Rightarrow> p \<noteq> ROOT
      | Mkdir p m \<Rightarrow> p \<noteq> ROOT
      | Rmdir p \<Rightarrow> p \<noteq> ROOT
      | Symlink old new \<Rightarrow> fs_lookup sb new = None
      | Link old new \<Rightarrow> fs_lookup sb new = None
      | _ \<Rightarrow> True)"

lemma fs_wf_root: "fs_wf sb \<Longrightarrow> ipath (inodes sb ! 0) = ROOT"
  by (simp add: fs_wf_def)

section \<open>Writing, truncating, times\<close>

lemma fs_inv_write:
  assumes inv: "fs_inv sb" and run: "fisopfs_write env sb path buf off = Inr (r, sb')"
  shows "fs_inv sb'"
proof (cases rule: get_inode_index_range [of sb path])
  case absent
  with run inv show ?thesis by (simp add: fisopfs_write_def)
next
  case (present k)
  from inv present run show ?thesis
  proof (cases rule: fisopfs_write_cases)
    case refused
    with inv show ?thesis by simp
  next
    case (stored ino')
    show ?thesis
      using inv write_pointwise(1) [OF inv present(2) stored(2)] stored(4,5)
      by (intro fs_inv_pointwise [where sb = sb]) (auto simp: fs_inv_def)
  qed
qed

lemma fs_wf_write:
  assumes wf: "fs_wf sb" and run: "fisopfs_write env sb path buf off = Inr (r, sb')"
  shows "fs_wf sb'"
proof (cases rule: get_inode_index_range [of sb path])
  case absent
  with run wf show ?thesis by (simp add: fisopfs_write_def)
next
  case (present k)
  note inv = fs_wf_inv [OF wf]
  from inv present run show ?thesis
  proof (cases rule: fisopfs_write_cases)
    case refused
    with wf show ?thesis by simp
  next
    case (stored ino')
    show ?thesis
      using write_pointwise [OF inv present(2) stored(2)] stored(4,5)
      by (intro fs_wf_pointwise [OF wf]) auto
  qed
qed

text \<open>The inode a successful truncation leaves.\<close>

definition truncated :: "inode \<Rightarrow> int \<Rightarrow> inode" where
  "truncated ino off = ino\<lparr>file_content :=
       (let c = file_content ino; fs = file_size ino
        in if off < fs then overwrite c (nat off) (replicate (nat (fs - off)) NUL)
           else overwrite c (nat fs) (replicate (nat (off - fs)) NUL)),
     file_size := off\<rparr>"

lemma overwrite_nothing [simp]: "overwrite xs i [] = xs"
  by (simp add: overwrite_def)

lemma nth_NUL_overwrite:
  "off + n \<le> length c \<Longrightarrow> i < length c \<Longrightarrow> c ! i = NUL \<Longrightarrow> overwrite c off (replicate n NUL) ! i = NUL"
  by (auto simp: nth_overwrite)

lemma fisopfs_truncate_cases:
  assumes inv: "fs_inv sb" and ix: "get_inode_index sb path = int k" and k: "k < MAX_INODES"
    and run: "fisopfs_truncate sb path off = Inr (r, sb')"
  obtains (refused) "sb' = sb" "r = - EISDIR"
      "itype (inodes sb ! k) \<noteq> FILE_TYPE_REGULAR \<or> u64 off > int MAX_CONTENT"
  | (resized) "r = 0" "itype (inodes sb ! k) = FILE_TYPE_REGULAR" "u64 off \<le> int MAX_CONTENT"
      "sb' = upd_inode sb k (truncated (inodes sb ! k) off)"
      "inode_ok (truncated (inodes sb ! k) off)"
proof (cases "itype (inodes sb ! k) \<noteq> FILE_TYPE_REGULAR \<or> u64 off > int MAX_CONTENT")
  case True
  with run ix show thesis by (auto intro!: refused simp: fisopfs_truncate_def Let_def split: if_splits)
next
  case False
  let ?ino = "inodes sb ! k"
  have ok: "inode_ok ?ino" using inv k by (rule fs_inv_inode)
  have sb': "r = 0 \<and> sb' = upd_inode sb k (truncated ?ino off)"
    using run ix False
    by (auto simp: fisopfs_truncate_def truncated_def Let_def cres_simps split: if_splits)
  have ok': "inode_ok (truncated ?ino off)"
    using run ix False ok
    by (auto simp: fisopfs_truncate_def truncated_def Let_def cres_simps inode_ok_def
        nth_NUL_overwrite split: if_splits)
  from sb' ok' False show thesis by (intro resized) auto
qed

lemma fs_inv_truncate:
  assumes inv: "fs_inv sb" and run: "fisopfs_truncate sb path off = Inr (r, sb')"
  shows "fs_inv sb'"
proof (cases rule: get_inode_index_range [of sb path])
  case absent
  with run inv show ?thesis by (simp add: fisopfs_truncate_def)
next
  case (present k)
  from inv present run show ?thesis
    by (cases rule: fisopfs_truncate_cases) (use inv present fs_inv_upd in auto)
qed

lemma fs_wf_truncate:
  assumes wf: "fs_wf sb" and run: "fisopfs_truncate sb path off = Inr (r, sb')"
  shows "fs_wf sb'"
proof (cases rule: get_inode_index_range [of sb path])
  case absent
  with run wf show ?thesis by (simp add: fisopfs_truncate_def)
next
  case (present k)
  from fs_wf_inv [OF wf] present run show ?thesis
    by (cases rule: fisopfs_truncate_cases)
      (use wf present in \<open>auto intro!: fs_wf_upd simp: same_id_def truncated_def\<close>)
qed

lemma utimens_result:
  "get_inode_index sb path = int k \<Longrightarrow>
   fisopfs_utimens sb path a m =
     (0, upd_inode sb k ((inodes sb ! k)\<lparr>atime := a, mtime := m\<rparr>))"
  by (simp add: fisopfs_utimens_def)

lemma fs_inv_utimens:
  assumes inv: "fs_inv sb"
  shows "fs_inv (snd (fisopfs_utimens sb path a m))"
proof (cases rule: get_inode_index_range [of sb path])
  case absent
  with inv show ?thesis by (simp add: fisopfs_utimens_def)
next
  case (present k)
  have "inode_ok ((inodes sb ! k)\<lparr>atime := a, mtime := m\<rparr>)"
    using fs_inv_inode [OF inv present(2)] by (simp add: inode_ok_def)
  with inv present show ?thesis by (simp add: utimens_result fs_inv_upd)
qed

lemma fs_wf_utimens:
  assumes wf: "fs_wf sb"
  shows "fs_wf (snd (fisopfs_utimens sb path a m))"
proof (cases rule: get_inode_index_range [of sb path])
  case absent
  with wf show ?thesis by (simp add: fisopfs_utimens_def)
next
  case (present k)
  have "inode_ok ((inodes sb ! k)\<lparr>atime := a, mtime := m\<rparr>)"
    using fs_inv_inode [OF fs_wf_inv [OF wf] present(2)] by (simp add: inode_ok_def)
  with wf present show ?thesis by (simp add: utimens_result fs_wf_upd same_id_def)
qed

section \<open>Removal\<close>

lemma fs_inv_unlink: "fs_inv sb \<Longrightarrow> fs_inv (snd (fisopfs_unlink sb path))"
  by (cases rule: get_inode_index_range [of sb path])
    (auto simp: fisopfs_unlink_def Let_def fs_inv_free)

lemma fs_inv_rmdir: "fs_inv sb \<Longrightarrow> fs_inv (snd (fisopfs_rmdir sb path))"
  by (cases rule: get_inode_index_range [of sb path])
    (auto simp: fisopfs_rmdir_def Let_def fs_inv_free)

lemma fs_wf_unlink:
  assumes "fs_wf sb"
  shows "fs_wf (snd (fisopfs_unlink sb path))"
proof (cases rule: get_inode_index_range [of sb path])
  case absent
  with assms show ?thesis by (simp add: fisopfs_unlink_def)
next
  case (present k)
  show ?thesis
  proof (cases "k = 0")
    case True
    with present assms show ?thesis by (auto simp: fisopfs_unlink_def Let_def fs_wf_def)
  next
    case False
    with present assms show ?thesis by (auto simp: fisopfs_unlink_def Let_def fs_wf_free)
  qed
qed

lemma fs_wf_rmdir:
  assumes wf: "fs_wf sb" and path: "path \<noteq> ROOT"
  shows "fs_wf (snd (fisopfs_rmdir sb path))"
  using wf
proof (cases rule: index_cases [of sb path])
  case absent
  with wf show ?thesis by (simp add: fisopfs_rmdir_def get_inode_index_wf)
next
  case (present k)
  have "k \<noteq> 0" using present(4) path fs_wf_root [OF wf] by metis
  with present wf show ?thesis
    by (auto simp: fisopfs_rmdir_def Let_def get_inode_index_wf fs_wf_free)
qed

section \<open>Links\<close>

lemma inode_ok_symlink:
  "get_parent_dir new = Inr parent \<Longrightarrow> inode_ok (symlink_inode env old new parent fname)"
  by (simp add: inode_ok_def symlink_inode_def min_less_iff_disj nth_append)

lemma inode_ok_linked:
  "inode_ok ino \<Longrightarrow> inode_ok (linked_inode ino new parent fname)"
  by (simp add: inode_ok_def linked_inode_def min_less_iff_disj)

lemma fisopfs_symlink_cases:
  assumes run: "fisopfs_symlink env sb old new = Inr (r, sb')"
  obtains (full) "r = - ENOSPC" "sb' = sb" "search_free_inode sb < 0"
  | (nomem) "r = - ENOMEM" "sb' = sb" "\<not> malloc_ok env"
  | (made) i parent fname where "r = 0" "search_free_inode sb = int i" "i < MAX_INODES"
      "status_inodes sb ! i = FREE" "get_parent_dir new = Inr parent"
      "get_file_name (malloc_ok env) new = Inr (Some fname)"
      "sb' = put_inode sb i (symlink_inode env old new parent fname)"
proof (cases rule: first_index_cases [of MAX_INODES "\<lambda>i. status_inodes sb ! i = FREE"])
  case none
  with run full show thesis by (simp add: fisopfs_symlink_def search_free_inode_def)
next
  case (found i)
  then have fr: "search_free_inode sb = int i" by (simp add: search_free_inode_def)
  from run fr obtain parent f where p: "get_parent_dir new = Inr parent"
    and f: "get_file_name (malloc_ok env) new = Inr f"
    by (auto simp: fisopfs_symlink_def cres_simps)
  show thesis
  proof (cases f)
    case None
    with f have "\<not> malloc_ok env" by (auto simp: get_file_name_def Let_def cres_simps split: if_splits)
    with run fr p f None nomem show thesis by (simp add: fisopfs_symlink_def)
  next
    case (Some fname)
    with run fr p f found made [of i parent fname] show thesis by (simp add: fisopfs_symlink_def)
  qed
qed

lemma fisopfs_link_cases:
  assumes inv: "fs_inv sb" and ix: "get_inode_index sb old = int k" and k: "k < MAX_INODES"
    and run: "fisopfs_link env sb old new = Inr (r, sb')"
  obtains (isdir) "r = - EISDIR" "sb' = sb" "itype (inodes sb ! k) \<noteq> FILE_TYPE_REGULAR"
  | (full) "r = - ENOSPC" "sb' = sb" "search_free_inode sb < 0"
  | (nomem) "r = - ENOMEM" "sb' = sb" "\<not> malloc_ok env"
  | (made) i parent fname where "r = 0" "itype (inodes sb ! k) = FILE_TYPE_REGULAR"
      "search_free_inode sb = int i" "i < MAX_INODES"
      "status_inodes sb ! i = FREE" "get_parent_dir new = Inr parent"
      "get_file_name (malloc_ok env) new = Inr (Some fname)"
      "sb' = (let sb1 = put_inode sb i (linked_inode (inodes sb ! k) new parent fname)
              in upd_inode sb1 k ((inodes sb1 ! k)\<lparr>nlink := nlink (inodes sb1 ! k) + 1\<rparr>))"
proof (cases "itype (inodes sb ! k) = FILE_TYPE_REGULAR")
  case False
  with run ix isdir show thesis by (auto simp: fisopfs_link_def Let_def)
next
  case reg: True
  show thesis
  proof (cases rule: first_index_cases [of MAX_INODES "\<lambda>i. status_inodes sb ! i = FREE"])
    case none
    with run ix reg full show thesis by (simp add: fisopfs_link_def search_free_inode_def)
  next
    case (found i)
    then have fr: "search_free_inode sb = int i" by (simp add: search_free_inode_def)
    from run fr ix reg obtain parent f where p: "get_parent_dir new = Inr parent"
      and f: "get_file_name (malloc_ok env) new = Inr f"
      by (auto simp: fisopfs_link_def Let_def cres_simps)
    show thesis
    proof (cases f)
      case None
      with f have "\<not> malloc_ok env" by (auto simp: get_file_name_def Let_def cres_simps split: if_splits)
      with run fr p f ix reg None nomem show thesis by (simp add: fisopfs_link_def)
    next
      case (Some fname)
      with run fr p f ix reg found made [of i parent fname] show thesis
        by (simp add: fisopfs_link_def Let_def cres_simps)
    qed
  qed
qed

lemma fs_inv_symlink:
  assumes inv: "fs_inv sb" and run: "fisopfs_symlink env sb old new = Inr (r, sb')"
  shows "fs_inv sb'"
  using run by (cases rule: fisopfs_symlink_cases)
    (use inv in \<open>auto intro: fs_inv_put inode_ok_symlink\<close>)

lemma fs_wf_symlink:
  assumes wf: "fs_wf sb" and new: "fs_lookup sb new = None"
    and run: "fisopfs_symlink env sb old new = Inr (r, sb')"
  shows "fs_wf sb'"
  using run
proof (cases rule: fisopfs_symlink_cases)
  case (made i parent fname)
  let ?n = "symlink_inode env old new parent fname"
  have "ipath ?n = new" using path_kept [OF made(5)] by (simp add: symlink_inode_def)
  moreover have "names_ok ?n"
    by (rule names_ok_intro [OF made(5,6)]) (simp_all add: symlink_inode_def)
  ultimately show ?thesis
    using made wf new inode_ok_symlink [OF made(5)] by (auto intro!: fs_wf_put)
qed (use wf in simp_all)

lemma inode_ok_nlink: "inode_ok (ino\<lparr>nlink := n\<rparr>) = inode_ok ino"
  by (simp add: inode_ok_def)

lemma fs_inv_link:
  assumes inv: "fs_inv sb" and run: "fisopfs_link env sb old new = Inr (r, sb')"
  shows "fs_inv sb'"
proof (cases rule: get_inode_index_range [of sb old])
  case absent
  with run inv show ?thesis by (simp add: fisopfs_link_def)
next
  case (present k)
  from inv present run show ?thesis
  proof (cases rule: fisopfs_link_cases)
    case (made i parent fname)
    let ?sb = "put_inode sb i (linked_inode (inodes sb ! k) new parent fname)"
    have inv': "fs_inv ?sb"
      using inv made(4) fs_inv_inode [OF inv present(2)] by (intro fs_inv_put inode_ok_linked)
    have "inode_ok ((inodes ?sb ! k)\<lparr>nlink := nlink (inodes ?sb ! k) + 1\<rparr>)"
      using fs_inv_inode [OF inv' present(2)] by (simp only: inode_ok_nlink)
    from fs_inv_upd [OF inv' present(2) this] made(8) show ?thesis by (simp only: Let_def)
  qed (use inv in simp_all)
qed

lemma fs_wf_link:
  assumes wf: "fs_wf sb" and new: "fs_lookup sb new = None"
    and run: "fisopfs_link env sb old new = Inr (r, sb')"
  shows "fs_wf sb'"
proof (cases rule: get_inode_index_range [of sb old])
  case absent
  with run wf show ?thesis by (simp add: fisopfs_link_def)
next
  case (present k)
  note inv = fs_wf_inv [OF wf]
  from inv present run show ?thesis
  proof (cases rule: fisopfs_link_cases)
    case (made i parent fname)
    let ?n = "linked_inode (inodes sb ! k) new parent fname"
    let ?sb = "put_inode sb i ?n"
    have "ipath ?n = new" using path_kept [OF made(6)] by (simp add: linked_inode_def)
    moreover have "names_ok ?n"
      by (rule names_ok_intro [OF made(6,7)]) (simp_all add: linked_inode_def)
    ultimately have wf': "fs_wf ?sb"
      using wf made(4,5) new fs_inv_inode [OF inv present(2)]
      by (intro fs_wf_put inode_ok_linked) auto
    have "inode_ok ((inodes ?sb ! k)\<lparr>nlink := nlink (inodes ?sb ! k) + 1\<rparr>)"
      using fs_inv_inode [OF fs_wf_inv [OF wf'] present(2)] by (simp only: inode_ok_nlink)
    from fs_wf_upd [OF wf' present(2) this] made(8) show ?thesis
      by (simp only: Let_def) (simp add: same_id_def)
  qed (use wf in simp_all)
qed

section \<open>Requests and sessions\<close>

lemma fs_inv_pairs:
  assumes "fs_inv sb"
  shows "fisopfs_unlink sb p = (r, sb') \<Longrightarrow> fs_inv sb'"
    and "fisopfs_rmdir sb p = (r, sb') \<Longrightarrow> fs_inv sb'"
    and "fisopfs_utimens sb p a m = (r, sb') \<Longrightarrow> fs_inv sb'"
  using assms by (metis fs_inv_unlink snd_conv, metis fs_inv_rmdir snd_conv, metis fs_inv_utimens snd_conv)

lemma fs_wf_pairs:
  assumes "fs_wf sb"
  shows "fisopfs_unlink sb p = (r, sb') \<Longrightarrow> fs_wf sb'"
    and "p \<noteq> ROOT \<Longrightarrow> fisopfs_rmdir sb p = (r, sb') \<Longrightarrow> fs_wf sb'"
    and "fisopfs_utimens sb p a m = (r, sb') \<Longrightarrow> fs_wf sb'"
  using assms by (metis fs_wf_unlink snd_conv, metis fs_wf_rmdir snd_conv, metis fs_wf_utimens snd_conv)

lemma fs_inv_operations:
  assumes "fs_inv sb" "operations env sb q = Inr (r, sb')"
  shows "fs_inv sb'"
  using assms
  by (cases q)
    (auto simp: fisopfs_create_def fisopfs_mkdir_def intro: fs_inv_new_inode fs_inv_write
      fs_inv_truncate fs_inv_symlink fs_inv_link fs_inv_pairs)

lemma fs_wf_operations:
  assumes "fs_wf sb" "fs_admissible sb q" "operations env sb q = Inr (r, sb')"
  shows "fs_wf sb'"
  using assms
  by (cases q)
    (auto simp: fisopfs_create_def fisopfs_mkdir_def fs_admissible_def intro: fs_wf_new_inode
      fs_wf_write fs_wf_truncate fs_wf_symlink fs_wf_link fs_wf_pairs)

fun admissible_run :: "super_block \<Rightarrow> (fs_env \<times> fs_op) list \<Rightarrow> bool" where
  "admissible_run sb [] = True"
| "admissible_run sb ((env, q) # qs) =
     (fs_admissible sb q \<and>
      (case operations env sb q of Inl e \<Rightarrow> True | Inr (r, sb') \<Rightarrow> admissible_run sb' qs))"

lemma fs_inv_run: "fs_inv sb \<Longrightarrow> run_ops sb qs = Inr sb' \<Longrightarrow> fs_inv sb'"
proof (induction qs arbitrary: sb)
  case (Cons x qs)
  obtain env q where x: "x = (env, q)" by (cases x)
  with Cons.prems obtain r sb1 where "operations env sb q = Inr (r, sb1)" "run_ops sb1 qs = Inr sb'"
    by (auto simp: cres_simps)
  with Cons show ?case by (blast intro: fs_inv_operations)
qed simp

lemma fs_wf_run: "fs_wf sb \<Longrightarrow> admissible_run sb qs \<Longrightarrow> run_ops sb qs = Inr sb' \<Longrightarrow> fs_wf sb'"
proof (induction qs arbitrary: sb)
  case (Cons x qs)
  obtain env q where x: "x = (env, q)" by (cases x)
  with Cons.prems obtain r sb1 where run: "operations env sb q = Inr (r, sb1)" "run_ops sb1 qs = Inr sb'"
    by (auto simp: cres_simps)
  with Cons.prems x have "fs_wf sb1" "admissible_run sb1 qs" by (auto intro: fs_wf_operations)
  with Cons.IH run show ?case by blast
qed simp

lemma create_root_nth:
  "i < MAX_INODES \<Longrightarrow> status_inodes (create_root env) ! i = (if i = 0 then OCCUPIED else FREE)"
  "i < MAX_INODES \<Longrightarrow> i \<noteq> 0 \<Longrightarrow> inodes (create_root env) ! i = zero_inode"
  by (simp_all add: create_root_def nth_list_update)

lemma fs_wf_create_root: "fs_wf (create_root env)"
proof -
  have root: "inodes (create_root env) ! 0 =
      \<lparr>iname = ''Root'', file_size = int MAX_CONTENT, itype = FILE_TYPE_DIRECTORY, ipath = ROOT,
         file_content = replicate MAX_CONTENT NUL, file_parent = NO_PARENT, nlink = 2,
         uid = getuid env, gid = getgid env, mode = S_IFDIR + 0x1ED,
         ctime = time_c env, mtime = time_m env, atime = time_a env\<rparr>"
    by (simp add: create_root_def)
  have "inode_ok (inodes (create_root env) ! i)" if "i < MAX_INODES" for i
    using that root by (cases "i = 0") (simp_all add: create_root_nth inode_ok_def zero_inode_def)
  then have "fs_inv (create_root env)"
    by (auto simp: fs_inv_def create_root_nth) (simp add: sb_shape_def create_root_def)
  then show ?thesis
    using root by (auto simp: fs_wf_def unique_paths_def create_root_nth names_ok_def S_ISLNK_def)
qed

end
