(* ===== verification/FsStore.thy ===== *)
theory FsStore
  imports FsKeep
begin

text \<open>
  The abstract contract of the inode table: a bounded store of named records, looked up by path.
  The locale \<open>bounded_store\<close> states the contract and derives what its clients need;
  the interpretation shows that the table of \<^verbatim>\<open>src/4-fs/fisopfs.c\<close> meets it, with the first free
  slot as the place of a new record and the freed slot as its removal.
\<close>

locale bounded_store =
  fixes lookup :: "'s \<Rightarrow> 'k \<Rightarrow> 'v option"
    and add :: "'v \<Rightarrow> 's \<Rightarrow> 's"
    and del :: "'k \<Rightarrow> 's \<Rightarrow> 's"
    and key :: "'v \<Rightarrow> 'k"
    and room :: "'s \<Rightarrow> nat"
    and inv :: "'s \<Rightarrow> bool"
    and valid :: "'v \<Rightarrow> bool"
    and removable :: "'k \<Rightarrow> bool"
  assumes inv_add: "inv s \<Longrightarrow> valid v \<Longrightarrow> lookup s (key v) = None \<Longrightarrow> 0 < room s \<Longrightarrow> inv (add v s)"
    and lookup_add: "inv s \<Longrightarrow> valid v \<Longrightarrow> lookup s (key v) = None \<Longrightarrow> 0 < room s \<Longrightarrow>
          lookup (add v s) = (lookup s)(key v \<mapsto> v)"
    and room_add: "inv s \<Longrightarrow> 0 < room s \<Longrightarrow> room (add v s) = room s - 1"
    and inv_del: "inv s \<Longrightarrow> removable k \<Longrightarrow> lookup s k \<noteq> None \<Longrightarrow> inv (del k s)"
    and lookup_del: "inv s \<Longrightarrow> removable k \<Longrightarrow> lookup s k \<noteq> None \<Longrightarrow>
          lookup (del k s) = (lookup s)(k := None)"
    and room_del: "inv s \<Longrightarrow> removable k \<Longrightarrow> lookup s k \<noteq> None \<Longrightarrow> room (del k s) = Suc (room s)"
begin

text \<open>Adding a fresh record and removing it again is invisible.\<close>

lemma add_then_del:
  assumes "inv s" "valid v" "lookup s (key v) = None" "0 < room s" "removable (key v)"
  shows "lookup (del (key v) (add v s)) = lookup s \<and> room (del (key v) (add v s)) = room s"
proof -
  have "inv (add v s)" "lookup (add v s) (key v) \<noteq> None" "room (add v s) = room s - 1"
    using assms by (simp_all add: inv_add lookup_add room_add)
  then show ?thesis
    using assms by (simp add: lookup_del room_del lookup_add fun_upd_idem)
qed

text \<open>As many fresh records as there is room for can be added, and all are then found.\<close>

lemma add_many:
  assumes "inv s" "distinct (map key vs)" "\<forall>v\<in>set vs. valid v \<and> lookup s (key v) = None"
    and "length vs \<le> room s"
  shows "inv (foldl (\<lambda>s v. add v s) s vs) \<and>
    room (foldl (\<lambda>s v. add v s) s vs) = room s - length vs \<and>
    lookup (foldl (\<lambda>s v. add v s) s vs) = lookup s ++ map_of (map (\<lambda>v. (key v, v)) vs)"
  using assms
proof (induction vs arbitrary: s)
  case Nil
  then show ?case by simp
next
  case (Cons v vs)
  have step: "inv (add v s)" "lookup (add v s) = (lookup s)(key v \<mapsto> v)" "room (add v s) = room s - 1"
    using Cons.prems by (simp_all add: inv_add lookup_add room_add)
  let ?run = "foldl (\<lambda>s v. add v s) (add v s) vs"
  have "\<forall>w\<in>set vs. valid w \<and> lookup (add v s) (key w) = None"
    using Cons.prems step(2) by (auto simp: image_iff)
  then have IH: "inv ?run \<and> room ?run = room (add v s) - length vs \<and>
      lookup ?run = lookup (add v s) ++ map_of (map (\<lambda>v. (key v, v)) vs)"
    using Cons.prems step by (intro Cons.IH) simp_all
  have "key v \<notin> fst ` set (map (\<lambda>v. (key v, v)) vs)"
    using Cons.prems(2) by (simp add: image_image)
  then have merge: "lookup (add v s) ++ map_of (map (\<lambda>v. (key v, v)) vs) =
      lookup s ++ map_of (map (\<lambda>v. (key v, v)) (v # vs))"
    unfolding step(2) list.map map_of.simps fst_conv snd_conv by (rule map_upd_add_fresh)
  have run: "foldl (\<lambda>s v. add v s) s (v # vs) = ?run" by simp
  have "room ?run = room s - length (v # vs)" using IH step(3) by simp
  with IH show ?case unfolding run merge [symmetric] by (intro conjI) simp_all
qed

lemma full_when_no_room:
  assumes "inv s" "distinct (map key vs)" "\<forall>v\<in>set vs. valid v \<and> lookup s (key v) = None"
    and "length vs = room s"
  shows "room (foldl (\<lambda>s v. add v s) s vs) = 0"
  using add_many [OF assms(1-3)] assms(4) by simp

end

section \<open>The inode table as a bounded store\<close>

definition fs_room :: "super_block \<Rightarrow> nat" where
  "fs_room sb = card {i. i < MAX_INODES \<and> status_inodes sb ! i = FREE}"

definition fs_add :: "inode \<Rightarrow> super_block \<Rightarrow> super_block" where
  "fs_add ino sb = put_inode sb (nat (search_free_inode sb)) ino"

definition fs_del :: "string \<Rightarrow> super_block \<Rightarrow> super_block" where
  "fs_del path sb = free_slot sb (nat (search_inode_by_path sb path))"

definition inode_valid :: "inode \<Rightarrow> bool" where
  "inode_valid ino \<longleftrightarrow> inode_ok ino \<and> names_ok ino"

lemma finite_slots [simp]: "finite {i. i < (n::nat) \<and> P i}"
  by (rule finite_subset [of _ "{..<n}"]) auto

lemma fs_room_pos: "0 < fs_room sb \<longleftrightarrow> 0 \<le> search_free_inode sb"
proof -
  have "0 < fs_room sb \<longleftrightarrow> (\<exists>i<MAX_INODES. status_inodes sb ! i = FREE)"
    by (auto simp: fs_room_def card_gt_0_iff)
  also have "\<dots> \<longleftrightarrow> \<not> search_free_inode sb < 0" by (auto simp: scan_simps)
  finally show ?thesis by linarith
qed

lemma fs_room_free:
  assumes "0 < fs_room sb"
  obtains i where "search_free_inode sb = int i" "i < MAX_INODES" "status_inodes sb ! i = FREE"
proof -
  have "search_free_inode sb = int (nat (search_free_inode sb))"
    using assms by (simp add: fs_room_pos)
  then show thesis using that search_free_inode_eq_int by metis
qed

lemma fs_room_put:
  assumes "fs_inv sb" "i < MAX_INODES" "status_inodes sb ! i = FREE"
  shows "fs_room sb = Suc (fs_room (put_inode sb i ino))"
  unfolding fs_room_def
  by (rule card_filter_upt_update [OF assms(2)]) (use assms in \<open>auto simp: fs_nth\<close>)

lemma fs_room_release:
  assumes "fs_inv sb" "i < MAX_INODES" "occupied sb i"
  shows "fs_room (free_slot sb i) = Suc (fs_room sb)"
  unfolding fs_room_def
  by (rule card_filter_upt_update [OF assms(2)]) (use assms in \<open>auto simp: fs_nth\<close>)

lemma fs_add_free:
  "search_free_inode sb = int i \<Longrightarrow> fs_add ino sb = put_inode sb i ino"
  by (simp add: fs_add_def)

lemma fs_del_present:
  assumes "fs_wf sb" "fs_lookup sb path \<noteq> None"
  obtains i where "i < MAX_INODES" "occupied sb i" "ipath (inodes sb ! i) = path"
    "fs_del path sb = free_slot sb i" "fs_lookup sb path = Some (inodes sb ! i)"
    "search_inode_by_path sb path = int i"
  using assms by (cases rule: index_cases [of sb path]) (auto simp: fs_del_def)

interpretation inode_store: bounded_store fs_lookup fs_add fs_del ipath fs_room fs_wf inode_valid
  "\<lambda>p. p \<noteq> ROOT"
proof unfold_locales
  fix sb v
  assume *: "fs_wf sb" "inode_valid v" "fs_lookup sb (ipath v) = None" "0 < fs_room sb"
  obtain i where i: "search_free_inode sb = int i" "i < MAX_INODES" "status_inodes sb ! i = FREE"
    using fs_room_free [OF *(4)] by blast
  have v: "inode_ok v" "names_ok v" using *(2) by (simp_all add: inode_valid_def)
  show "fs_wf (fs_add v sb)"
    using fs_wf_put [OF *(1) i(2,3) v *(3)] by (simp add: fs_add_free [OF i(1)])
  show "fs_lookup (fs_add v sb) = (fs_lookup sb)(ipath v \<mapsto> v)"
    using fs_lookup_put [OF *(1) i(2,3) v *(3)] by (simp add: fs_add_free [OF i(1)])
next
  fix sb v
  assume *: "fs_wf sb" "0 < fs_room sb"
  obtain i where i: "search_free_inode sb = int i" "i < MAX_INODES" "status_inodes sb ! i = FREE"
    using fs_room_free [OF *(2)] by blast
  show "fs_room (fs_add v sb) = fs_room sb - 1"
    using fs_room_put [OF fs_wf_inv [OF *(1)] i(2,3), of v] by (simp add: fs_add_free [OF i(1)])
next
  fix sb p
  assume *: "fs_wf sb" "p \<noteq> ROOT" "fs_lookup sb p \<noteq> None"
  obtain i where i: "i < MAX_INODES" "occupied sb i" "ipath (inodes sb ! i) = p"
    "fs_del p sb = free_slot sb i"
    using fs_del_present [OF *(1,3)] by blast
  have "i \<noteq> 0" using i(3) *(2) fs_wf_root [OF *(1)] by metis
  with i show "fs_wf (fs_del p sb)" using fs_wf_free [OF *(1)] by simp
  show "fs_lookup (fs_del p sb) = (fs_lookup sb)(p := None)"
    using fs_lookup_free [OF *(1) i(1,2)] i(3,4) by simp
  show "fs_room (fs_del p sb) = Suc (fs_room sb)"
    using fs_room_release [OF fs_wf_inv [OF *(1)] i(1,2)] i(4) by simp
qed

text \<open>Whether the directory \<open>parent\<close> has an entry \<open>name\<close>: the test of \<open>set_inode_in_superblock\<close>.\<close>

definition dir_has :: "super_block \<Rightarrow> string \<Rightarrow> string \<Rightarrow> bool" where
  "dir_has sb parent name \<longleftrightarrow>
     (\<exists>i<MAX_INODES. occupied sb i \<and> iname (inodes sb ! i) = name \<and> file_parent (inodes sb ! i) = parent)"

lemma new_inode_fresh:
  assumes wf: "fs_wf sb" and m: "malloc_ok env" and path: "path \<noteq> ROOT"
    and parent: "get_parent_dir path = Inr parent" and name: "get_file_name True path = Inr (Some name)"
    and new: "\<not> dir_has sb parent name" and room: "0 < fs_room sb"
  shows "new_inode env sb path md ty = Inr (0, fs_add (new_node env path ty parent name) sb)"
    and "inode_valid (new_node env path ty parent name)"
    and "ipath (new_node env path ty parent name) = path"
    and "fs_lookup sb path = None"
proof -
  let ?n = "new_node env path ty parent name"
  have short: "take (MAX_PATH_LEN - 1) name = name"
    using get_file_name_Some [OF name] get_parent_dir_bound [OF parent] by simp
  have id: "iname ?n = name" "file_parent ?n = parent" "ipath ?n = path"
    using short path_kept [OF parent] by (simp_all add: new_node_def)
  have none: "first_index MAX_INODES (\<lambda>i. occupied sb i \<and> iname (inodes sb ! i) = iname ?n \<and>
      file_parent (inodes sb ! i) = file_parent ?n) = - 1"
    using new unfolding dir_has_def id first_index_eq_minus1 by blast
  obtain i where i: "search_free_inode sb = int i" using fs_room_free [OF room] by blast
  show "new_inode env sb path md ty = Inr (0, fs_add ?n sb)"
    using m parent name none i by (simp add: new_inode_def set_inode_in_superblock_def fs_add_free)
  show "ipath ?n = path" by (rule id(3))
  show "inode_valid ?n"
    using inode_ok_new_node [OF parent] names_ok_intro [OF parent name]
    by (simp add: inode_valid_def new_node_def)
  show "fs_lookup sb path = None"
    using wf path new parent name unfolding fs_lookup_eq_None fs_wf_def names_ok_def dir_has_def
    by (metis Inr_inject option.inject)
qed

end
