(* ===== verification/FsTree.thy ===== *)
theory FsTree
  imports FsKeep
begin

text \<open>
  The table as a directory tree: every entry but the root lies in a directory of the table, and the sizes of
  plain files stay within the content array. A request that the kernel's name lookup lets through
  (\<open>request_ok\<close>) and whose write ends inside the array is always answered, and keeps the tree.
\<close>

section \<open>The tree\<close>

definition tree_map :: "(string \<Rightarrow> inode option) \<Rightarrow> bool" where
  "tree_map L \<longleftrightarrow> (\<forall>p ino. L p = Some ino \<longrightarrow>
     (p \<noteq> ROOT \<longrightarrow> (\<exists>d. L (file_parent ino) = Some d \<and> itype d = FILE_TYPE_DIRECTORY)) \<and>
     (itype ino = FILE_TYPE_DIRECTORY \<longrightarrow> \<not> S_ISLNK (mode ino)) \<and>
     (itype ino = FILE_TYPE_REGULAR \<and> \<not> S_ISLNK (mode ino) \<longrightarrow> 0 \<le> file_size ino \<and> file_size ino \<le> int MAX_CONTENT))"

definition fs_tree :: "super_block \<Rightarrow> bool" where
  "fs_tree sb \<longleftrightarrow> fs_wf sb \<and> tree_map (fs_lookup sb)"

lemma fs_tree_wf: "fs_tree sb \<Longrightarrow> fs_wf sb"
  by (simp add: fs_tree_def)

definition in_directory :: "super_block \<Rightarrow> string \<Rightarrow> bool" where
  "in_directory sb p \<longleftrightarrow> (\<exists>d ino. get_parent_dir p = Inr d \<and> fs_lookup sb d = Some ino \<and> itype ino = FILE_TYPE_DIRECTORY)"

lemma tree_map_same:
  assumes "tree_map L"
    and "\<And>p. L p = None \<and> L' p = None \<or> (\<exists>a b. L p = Some a \<and> L' p = Some b \<and> same_id b a \<and>
      (itype b = FILE_TYPE_REGULAR \<and> \<not> S_ISLNK (mode b) \<longrightarrow> 0 \<le> file_size b \<and> file_size b \<le> int MAX_CONTENT))"
  shows "tree_map L'"
  unfolding tree_map_def
proof (intro allI impI)
  fix p b assume b: "L' p = Some b"
  then obtain a where a: "L p = Some a" "same_id b a"
    "itype b = FILE_TYPE_REGULAR \<and> \<not> S_ISLNK (mode b) \<longrightarrow> 0 \<le> file_size b \<and> file_size b \<le> int MAX_CONTENT"
    using assms(2) [of p] by auto
  have t: "p \<noteq> ROOT \<Longrightarrow> \<exists>d. L (file_parent a) = Some d \<and> itype d = FILE_TYPE_DIRECTORY"
    "itype a = FILE_TYPE_DIRECTORY \<Longrightarrow> \<not> S_ISLNK (mode a)"
    using assms(1) a(1) unfolding tree_map_def by blast+
  have "\<exists>d. L' (file_parent b) = Some d \<and> itype d = FILE_TYPE_DIRECTORY" if "p \<noteq> ROOT"
    using t(1) [OF that] assms(2) [of "file_parent a"] a(2) by (auto simp: same_id_def)
  then show "(p \<noteq> ROOT \<longrightarrow> (\<exists>d. L' (file_parent b) = Some d \<and> itype d = FILE_TYPE_DIRECTORY)) \<and>
     (itype b = FILE_TYPE_DIRECTORY \<longrightarrow> \<not> S_ISLNK (mode b)) \<and>
     (itype b = FILE_TYPE_REGULAR \<and> \<not> S_ISLNK (mode b) \<longrightarrow> 0 \<le> file_size b \<and> file_size b \<le> int MAX_CONTENT)"
    using t(2) a(2,3) by (auto simp: same_id_def)
qed

lemma tree_map_add:
  assumes "tree_map L" "L p = None" "L (file_parent ino) = Some d" "itype d = FILE_TYPE_DIRECTORY"
    and "itype ino = FILE_TYPE_DIRECTORY \<longrightarrow> \<not> S_ISLNK (mode ino)"
    and "itype ino = FILE_TYPE_REGULAR \<and> \<not> S_ISLNK (mode ino) \<longrightarrow> 0 \<le> file_size ino \<and> file_size ino \<le> int MAX_CONTENT"
  shows "tree_map (L(p \<mapsto> ino))"
proof -
  have np: "file_parent o' \<noteq> p" if "L q = Some o'" "q \<noteq> ROOT" for q o'
    using assms(1,2) that unfolding tree_map_def by (metis option.distinct(1))
  have "file_parent ino \<noteq> p" using assms(2,3) by auto
  then show ?thesis using assms np unfolding tree_map_def by auto
qed

lemma tree_map_del:
  assumes "tree_map L" "\<And>q o'. L q = Some o' \<Longrightarrow> q \<noteq> ROOT \<Longrightarrow> file_parent o' \<noteq> p"
  shows "tree_map (L(p := None))"
  using assms unfolding tree_map_def by auto

section \<open>Requests\<close>

text \<open>
  The requests the kernel delivers after looking the names up: a new name lies in an existing directory,
  a new link name is not taken, a truncation follows symbolic links; and the writes that stay in the array
  or are refused.
\<close>

definition request_ok :: "fs_env \<Rightarrow> super_block \<Rightarrow> fs_op \<Rightarrow> bool" where
  "request_ok env sb q =
     (case q of
        Create p m \<Rightarrow> p \<noteq> ROOT \<and> in_directory sb p
      | Mkdir p m \<Rightarrow> p \<noteq> ROOT \<and> in_directory sb p
      | Rmdir p \<Rightarrow> p \<noteq> ROOT
      | Unlink p \<Rightarrow> True
      | Write p buf off \<Rightarrow> 0 \<le> off \<and> (off + int (length buf) < int MAX_CONTENT \<or> int MAX_CONTENT < off)
      | Truncate p off \<Rightarrow> - (2 ^ 63) \<le> off \<and> off < 2 ^ 63 \<and>
          (\<forall>ino. fs_lookup sb p = Some ino \<longrightarrow> \<not> S_ISLNK (mode ino))
      | Utimens p a m \<Rightarrow> True
      | Symlink old new \<Rightarrow> fs_lookup sb new = None \<and> in_directory sb new
      | Link old new \<Rightarrow> fs_lookup sb new = None \<and> in_directory sb new \<and> MAX_PATH_LEN - 1 \<le> path_room env)"

lemma request_ok_admissible: "request_ok env sb q \<Longrightarrow> fs_admissible sb q"
  by (cases q) (simp_all add: request_ok_def fs_admissible_def)

lemma in_directory_D:
  assumes "in_directory sb p"
  obtains d dino f where "get_parent_dir p = Inr d" "fs_lookup sb d = Some dino" "itype dino = FILE_TYPE_DIRECTORY"
    "get_file_name m p = Inr f" "m \<longrightarrow> f \<noteq> None"
proof -
  obtain d dino where d: "get_parent_dir p = Inr d" "fs_lookup sb d = Some dino" "itype dino = FILE_TYPE_DIRECTORY"
    using assms by (auto simp: in_directory_def)
  have "length p < 1024" using get_parent_dir_bound [OF d(1)] by simp
  then obtain n where n: "get_file_name True p = Inr (Some n)" using get_file_name_ok by blast
  show thesis
  proof (cases m)
    case True
    with d n that [of d dino "Some n"] show thesis by simp
  next
    case False
    then have "get_file_name m p = Inr None" by (simp add: get_file_name_def Let_def)
    with d False that [of d dino None] show thesis by simp
  qed
qed

lemma fs_tree_upd:
  assumes t: "fs_tree sb" and i: "i < MAX_INODES" "occupied sb i" and ok: "inode_ok ino"
    and id: "same_id ino (inodes sb ! i)"
    and size: "itype ino = FILE_TYPE_REGULAR \<and> \<not> S_ISLNK (mode ino) \<longrightarrow> 0 \<le> file_size ino \<and> file_size ino \<le> int MAX_CONTENT"
  shows "fs_tree (upd_inode sb i ino)"
proof -
  have wf: "fs_wf sb" and tm: "tree_map (fs_lookup sb)" using t by (simp_all add: fs_tree_def)
  have lk: "fs_lookup sb (ipath (inodes sb ! i)) = Some (inodes sb ! i)"
    using i by (auto simp: fs_lookup_eq_Some [OF fs_wf_unique [OF wf]])
  have "tree_map (fs_lookup (upd_inode sb i ino))"
    unfolding fs_lookup_upd [OF wf i ok id]
  proof (rule tree_map_same [OF tm])
    fix p
    show "fs_lookup sb p = None \<and> ((fs_lookup sb)(ipath (inodes sb ! i) \<mapsto> ino)) p = None \<or>
      (\<exists>a b. fs_lookup sb p = Some a \<and> ((fs_lookup sb)(ipath (inodes sb ! i) \<mapsto> ino)) p = Some b \<and> same_id b a \<and>
        (itype b = FILE_TYPE_REGULAR \<and> \<not> S_ISLNK (mode b) \<longrightarrow> 0 \<le> file_size b \<and> file_size b \<le> int MAX_CONTENT))"
    proof (cases "p = ipath (inodes sb ! i)")
      case True
      then show ?thesis using lk id size by simp
    next
      case False
      then show ?thesis using tm by (cases "fs_lookup sb p") (auto simp: tree_map_def)
    qed
  qed
  then show ?thesis using fs_wf_upd [OF wf i(1) ok id] by (simp add: fs_tree_def)
qed

lemma fs_tree_size:
  assumes "fs_tree sb" "i < MAX_INODES" "occupied sb i" "itype (inodes sb ! i) = FILE_TYPE_REGULAR" "\<not> S_ISLNK (mode (inodes sb ! i))"
  shows "0 \<le> file_size (inodes sb ! i)" "file_size (inodes sb ! i) \<le> int MAX_CONTENT"
proof -
  have "fs_lookup sb (ipath (inodes sb ! i)) = Some (inodes sb ! i)"
    using assms(2,3) fs_wf_unique [OF fs_tree_wf [OF assms(1)]] by (auto simp: fs_lookup_eq_Some)
  then show "0 \<le> file_size (inodes sb ! i)" "file_size (inodes sb ! i) \<le> int MAX_CONTENT"
    using assms(1,4,5) unfolding fs_tree_def tree_map_def by blast+
qed

text \<open>An update that changes nothing the tree depends on.\<close>

lemma fs_tree_upd_same:
  assumes "fs_tree sb" "i < MAX_INODES" "occupied sb i" "inode_ok ino" "same_id ino (inodes sb ! i)"
    "file_size ino = file_size (inodes sb ! i)"
  shows "fs_tree (upd_inode sb i ino)"
  using fs_tree_upd [OF assms(1-5)] fs_tree_size [OF assms(1-3)] assms(5,6) by (simp add: same_id_def)

lemma fs_tree_put:
  assumes t: "fs_tree sb" and i: "i < MAX_INODES" "status_inodes sb ! i = FREE" and ok: "inode_ok ino" "names_ok ino"
    and new: "fs_lookup sb (ipath ino) = None"
    and d: "fs_lookup sb (file_parent ino) = Some d" "itype d = FILE_TYPE_DIRECTORY"
    and lnk: "itype ino = FILE_TYPE_DIRECTORY \<longrightarrow> \<not> S_ISLNK (mode ino)"
    and size: "itype ino = FILE_TYPE_REGULAR \<and> \<not> S_ISLNK (mode ino) \<longrightarrow> 0 \<le> file_size ino \<and> file_size ino \<le> int MAX_CONTENT"
  shows "fs_tree (put_inode sb i ino)"
  using fs_wf_put [OF fs_tree_wf [OF t] i ok new] fs_lookup_put [OF fs_tree_wf [OF t] i ok new]
    tree_map_add [OF _ new d lnk size] t by (simp add: fs_tree_def)

lemma fs_tree_free:
  assumes t: "fs_tree sb" and i: "i < MAX_INODES" "occupied sb i" "i \<noteq> 0"
    and leaf: "\<And>q o'. fs_lookup sb q = Some o' \<Longrightarrow> q \<noteq> ROOT \<Longrightarrow> file_parent o' \<noteq> ipath (inodes sb ! i)"
  shows "fs_tree (free_slot sb i)"
  using fs_wf_free [OF fs_tree_wf [OF t] i(1,3)] fs_lookup_free [OF fs_tree_wf [OF t] i(1,2)]
    tree_map_del [OF _ leaf] t by (simp add: fs_tree_def)

section \<open>Every request is answered, and keeps the tree\<close>

lemma answered: "\<not> isl x \<Longrightarrow> \<exists>r s. x = Inr (r, s)"
  by (cases x) auto

lemma new_inode_tree:
  assumes t: "fs_tree sb" and p: "path \<noteq> ROOT" "in_directory sb path"
    and ty: "ty = FILE_TYPE_REGULAR \<or> ty = FILE_TYPE_DIRECTORY"
  shows "\<exists>r sb'. new_inode env sb path md ty = Inr (r, sb') \<and> fs_tree sb'"
proof -
  note wf = fs_tree_wf [OF t]
  obtain d dino f where d: "get_parent_dir path = Inr d" "fs_lookup sb d = Some dino" "itype dino = FILE_TYPE_DIRECTORY"
    "get_file_name (malloc_ok env) path = Inr f" by (rule in_directory_D [OF p(2)])
  have "\<not> isl (new_inode env sb path md ty)"
    using d(1,4) by (cases f) (simp_all add: new_inode_def split: prod.split)
  then obtain r sb' where run: "new_inode env sb path md ty = Inr (r, sb')" using answered by blast
  from wf p(1) run have "fs_tree sb'"
  proof (cases rule: new_inode_cases)
    case (exists i)
    then show ?thesis
      using fs_tree_upd_same [OF t exists(2,3)] fs_inv_inode [OF fs_wf_inv [OF wf] exists(2)]
      by (simp add: inode_ok_def same_id_def)
  next
    case (fresh i padre fname)
    let ?n = "new_node env path ty padre fname"
    have id: "ipath ?n = path" "file_parent ?n = d"
      using path_kept [OF fresh(6)] fresh(6) d(1) by (simp_all add: new_node_def)
    have "names_ok ?n" by (rule names_ok_intro [OF fresh(6,7)]) (simp_all add: new_node_def)
    then show ?thesis
      unfolding fresh(8) using fs_tree_put [OF t fresh(3,4) inode_ok_new_node [OF fresh(6)] _ _ _ d(3)] d(2) id fresh(5) ty
      by (auto simp: new_node_def S_ISLNK_def)
  qed (use t in simp_all)
  with run show ?thesis by blast
qed

lemma write_tree:
  assumes t: "fs_tree sb" and off: "0 \<le> off" "off + int (length buf) < int MAX_CONTENT \<or> int MAX_CONTENT < off"
  shows "\<exists>r sb'. fisopfs_write env sb path buf off = Inr (r, sb') \<and> fs_tree sb'"
proof (cases rule: get_inode_index_range [of sb path])
  case absent
  with t show ?thesis by (simp add: fisopfs_write_def)
next
  case (present k)
  note wf = fs_tree_wf [OF t] and inv = fs_wf_inv [OF fs_tree_wf [OF t]]
  have "\<exists>r sb'. fisopfs_write env sb path buf off = Inr (r, sb')"
  proof (cases "store_content (inodes sb ! k) buf off")
    case (Inl e)
    with store_content_eq_Inl [OF fs_inv_inode [OF inv present(2)]] off show ?thesis
      using present by (auto simp: fisopfs_write_def Let_def)
  qed (use present in \<open>auto simp: fisopfs_write_def Let_def\<close>)
  then obtain r sb' where run: "fisopfs_write env sb path buf off = Inr (r, sb')" by blast
  note wf' = fs_wf_write [OF wf run]
  from inv present run have "fs_tree sb'"
  proof (cases rule: fisopfs_write_cases)
    case refused
    with t show ?thesis by simp
  next
    case (stored ino')
    let ?sb = "upd_inode sb k ino'"
    note sc = stored(2) [unfolded store_content_eq_Inr [OF fs_inv_inode [OF inv present(2)]]]
    have src: "file_size ino' = off + int (length buf)" "0 \<le> file_size ino'" "file_size ino' \<le> int MAX_CONTENT"
      using sc by auto
    have "inodes ?sb ! k = ino'" using present(2) inv by (simp add: nth_upd_inodes)
    have new: "inodes sb' ! i = shared_copy ?sb k i" "same_id (inodes sb' ! i) (inodes sb ! i)" if "i < MAX_INODES" for i
      using write_pointwise(2) [OF inv present(2) stored(2) that] stored(5) that by simp_all
    have size: "0 \<le> file_size (inodes sb' ! i) \<and> file_size (inodes sb' ! i) \<le> int MAX_CONTENT"
      if "i < MAX_INODES" "occupied sb i" "itype (inodes sb ! i) = FILE_TYPE_REGULAR" "\<not> S_ISLNK (mode (inodes sb ! i))" for i
      using fs_tree_size [OF t that] src inv present(2) that(1)
      by (auto simp: new(1) shared_copy_def Let_def nth_upd_inodes)
    have "tree_map (fs_lookup sb')"
    proof (rule tree_map_same)
      show "tree_map (fs_lookup sb)" using t by (simp add: fs_tree_def)
      fix p
      show "fs_lookup sb p = None \<and> fs_lookup sb' p = None \<or>
        (\<exists>a b. fs_lookup sb p = Some a \<and> fs_lookup sb' p = Some b \<and> same_id b a \<and>
          (itype b = FILE_TYPE_REGULAR \<and> \<not> S_ISLNK (mode b) \<longrightarrow> 0 \<le> file_size b \<and> file_size b \<le> int MAX_CONTENT))"
      proof (cases "fs_lookup sb p")
        case None
        then have "fs_lookup sb' p = None"
          using new(2) stored(4) by (auto simp: fs_lookup_eq_None same_id_def)
        with None show ?thesis by simp
      next
        case (Some a)
        then obtain i where i: "i < MAX_INODES" "occupied sb i" "ipath (inodes sb ! i) = p" "inodes sb ! i = a"
          by (auto simp: fs_lookup_eq_Some [OF fs_wf_unique [OF wf]])
        have "fs_lookup sb' p = Some (inodes sb' ! i)"
          using i new(2) [OF i(1)] stored(4) by (auto simp: fs_lookup_eq_Some [OF fs_wf_unique [OF wf']] same_id_def)
        then show ?thesis using Some i size [OF i(1,2)] new(2) [OF i(1)] by (auto simp: same_id_def)
      qed
    qed
    with wf' show ?thesis by (simp add: fs_tree_def)
  qed
  with run show ?thesis by blast
qed

lemma u64_in_range:
  assumes "- (2 ^ 63) \<le> off" "off < 2 ^ 63" "u64 off \<le> int MAX_CONTENT"
  shows "0 \<le> off" "off \<le> int MAX_CONTENT"
proof -
  show n: "0 \<le> off"
  proof (rule ccontr)
    assume "\<not> 0 \<le> off"
    have "off mod 2 ^ 64 = (off + 2 ^ 64) mod 2 ^ 64" by simp
    also have "\<dots> = off + 2 ^ 64" by (rule mod_pos_pos_trivial) (use assms \<open>\<not> 0 \<le> off\<close> in simp_all)
    finally show False using assms by (simp add: u64_def)
  qed
  then have "off mod 2 ^ 64 = off" by (intro mod_pos_pos_trivial) (use assms in simp_all)
  then show "off \<le> int MAX_CONTENT" using assms(3) by (simp add: u64_def)
qed

lemma occupied_index:
  assumes "fs_wf sb" "get_inode_index sb path = int k"
  shows "k < MAX_INODES" "occupied sb k" "ipath (inodes sb ! k) = path"
  using assms(2) unfolding get_inode_index_wf [OF assms(1)] by (simp_all add: search_inode_by_path_eq_int)

lemma truncate_tree:
  assumes t: "fs_tree sb" and off: "- (2 ^ 63) \<le> off" "off < 2 ^ 63"
    and plain: "\<forall>ino. fs_lookup sb path = Some ino \<longrightarrow> \<not> S_ISLNK (mode ino)"
  shows "\<exists>r sb'. fisopfs_truncate sb path off = Inr (r, sb') \<and> fs_tree sb'"
proof (cases rule: get_inode_index_range [of sb path])
  case absent
  with t show ?thesis by (simp add: fisopfs_truncate_def)
next
  case (present k)
  note wf = fs_tree_wf [OF t] and inv = fs_wf_inv [OF fs_tree_wf [OF t]]
  note k = occupied_index [OF wf present(1)]
  let ?ino = "inodes sb ! k"
  have "fs_lookup sb path = Some ?ino" using k by (auto simp: fs_lookup_eq_Some [OF fs_wf_unique [OF wf]])
  then have np: "\<not> S_ISLNK (mode ?ino)" using plain by blast
  have len: "length (file_content ?ino) = MAX_CONTENT" using fs_inv_inode [OF inv k(1)] by (simp add: inode_ok_def)
  show ?thesis
  proof (cases "itype ?ino = FILE_TYPE_REGULAR \<and> u64 off \<le> int MAX_CONTENT")
    case False
    with present t show ?thesis by (auto simp: fisopfs_truncate_def Let_def)
  next
    case True
    note s = fs_tree_size [OF t k(1,2) _ np] and o = u64_in_range [OF off]
    have "\<not> isl (fisopfs_truncate sb path off)"
      using present True s o len by (simp add: fisopfs_truncate_def write_bytes_def Let_def)
    then obtain r sb' where run: "fisopfs_truncate sb path off = Inr (r, sb')" using answered by blast
    from inv present run have "fs_tree sb'"
    proof (cases rule: fisopfs_truncate_cases)
      case resized
      then show ?thesis using fs_tree_upd [OF t k(1,2)] o True by (simp add: same_id_def truncated_def)
    qed (use t in simp)
    with run show ?thesis by blast
  qed
qed

lemma unlink_tree: "fs_tree sb \<Longrightarrow> fs_tree (snd (fisopfs_unlink sb path))"
proof (cases rule: get_inode_index_range [of sb path])
  case absent
  assume "fs_tree sb"
  with absent show ?thesis by (simp add: fisopfs_unlink_def)
next
  case (present k)
  assume t: "fs_tree sb"
  note wf = fs_tree_wf [OF t]
  note k = occupied_index [OF wf present(1)]
  let ?ino = "inodes sb ! k"
  have lk: "fs_lookup sb path = Some ?ino" using k by (auto simp: fs_lookup_eq_Some [OF fs_wf_unique [OF wf]])
  show ?thesis
  proof (cases "itype ?ino \<noteq> FILE_TYPE_REGULAR \<and> \<not> S_ISLNK (mode ?ino)")
    case True
    with present t show ?thesis by (simp add: fisopfs_unlink_def Let_def)
  next
    case False
    then have nd: "itype ?ino \<noteq> FILE_TYPE_DIRECTORY"
      using t lk unfolding fs_tree_def tree_map_def by auto
    then have "k \<noteq> 0" using wf by (intro notI) (simp add: fs_wf_def)
    moreover have "file_parent o' \<noteq> ipath ?ino" if "fs_lookup sb q = Some o'" "q \<noteq> ROOT" for q o'
      using t lk nd that k(3) unfolding fs_tree_def tree_map_def by (metis option.inject)
    ultimately show ?thesis using False present k fs_tree_free [OF t k(1,2)] by (auto simp: fisopfs_unlink_def Let_def)
  qed
qed

lemma rmdir_tree: "fs_tree sb \<Longrightarrow> path \<noteq> ROOT \<Longrightarrow> fs_tree (snd (fisopfs_rmdir sb path))"
proof (cases rule: get_inode_index_range [of sb path])
  case absent
  assume "fs_tree sb"
  with absent show ?thesis by (simp add: fisopfs_rmdir_def)
next
  case (present k)
  assume t: "fs_tree sb" and p: "path \<noteq> ROOT"
  note wf = fs_tree_wf [OF t]
  note k = occupied_index [OF wf present(1)]
  have "k \<noteq> 0" using k(3) p fs_wf_root [OF wf] by metis
  moreover have "file_parent o' \<noteq> path" if "fs_lookup sb q = Some o'" "\<not> has_children sb path" for q o'
    using that unfolding has_children_def fs_lookup_eq_Some [OF fs_wf_unique [OF wf]] by auto
  ultimately show ?thesis
    using present t k fs_tree_free [OF t k(1,2)] by (auto simp: fisopfs_rmdir_def Let_def)
qed

lemma utimens_tree: "fs_tree sb \<Longrightarrow> fs_tree (snd (fisopfs_utimens sb path a m))"
proof (cases rule: get_inode_index_range [of sb path])
  case absent
  assume "fs_tree sb"
  with absent show ?thesis by (simp add: fisopfs_utimens_def)
next
  case (present k)
  assume t: "fs_tree sb"
  note k = occupied_index [OF fs_tree_wf [OF t] present(1)]
  have "inode_ok ((inodes sb ! k)\<lparr>atime := a, mtime := m\<rparr>)"
    using fs_inv_inode [OF fs_wf_inv [OF fs_tree_wf [OF t]] k(1)] by (simp add: inode_ok_def)
  with fs_tree_upd_same [OF t k(1,2)] show ?thesis by (simp add: utimens_result [OF present(1)] same_id_def)
qed

lemma symlink_tree:
  assumes t: "fs_tree sb" and new: "fs_lookup sb new = None" "in_directory sb new"
  shows "\<exists>r sb'. fisopfs_symlink env sb old new = Inr (r, sb') \<and> fs_tree sb'"
proof -
  obtain d dino f where d: "get_parent_dir new = Inr d" "fs_lookup sb d = Some dino" "itype dino = FILE_TYPE_DIRECTORY"
    "get_file_name (malloc_ok env) new = Inr f" by (rule in_directory_D [OF new(2)])
  have "\<not> isl (fisopfs_symlink env sb old new)"
    using d(1,4) by (cases f) (simp_all add: fisopfs_symlink_def Let_def)
  then obtain r sb' where run: "fisopfs_symlink env sb old new = Inr (r, sb')" using answered by blast
  from run have "fs_tree sb'"
  proof (cases rule: fisopfs_symlink_cases)
    case (made i parent fname)
    let ?n = "symlink_inode env old new parent fname"
    have id: "ipath ?n = new" "file_parent ?n = d" "S_ISLNK (mode ?n)" "itype ?n = FILE_TYPE_REGULAR"
      using path_kept [OF made(5)] made(5) d(1) by (simp_all add: symlink_inode_def S_ISLNK_def)
    have "names_ok ?n" by (rule names_ok_intro [OF made(5,6)]) (simp_all add: symlink_inode_def)
    then show ?thesis
      unfolding made(7) using fs_tree_put [OF t made(3,4) inode_ok_symlink [OF made(5)] _ _ _ d(3)] d(2) id new(1) by simp
  qed (use t in simp_all)
  with run show ?thesis by blast
qed

lemma link_tree:
  assumes t: "fs_tree sb" and new: "fs_lookup sb new = None" "in_directory sb new" and room: "MAX_PATH_LEN - 1 \<le> path_room env"
  shows "\<exists>r sb'. fisopfs_link env sb old new = Inr (r, sb') \<and> fs_tree sb'"
proof (cases rule: get_inode_index_range [of sb old])
  case absent
  with t show ?thesis by (simp add: fisopfs_link_def)
next
  case (present k)
  note wf = fs_tree_wf [OF t] and inv = fs_wf_inv [OF fs_tree_wf [OF t]]
  note k = occupied_index [OF wf present(1)]
  obtain d dino f where d: "get_parent_dir new = Inr d" "fs_lookup sb d = Some dino" "itype dino = FILE_TYPE_DIRECTORY"
    "get_file_name (malloc_ok env) new = Inr f" by (rule in_directory_D [OF new(2)])
  have "\<not> isl (fisopfs_link env sb old new)"
    using d(1,4) present room by (cases f) (simp_all add: fisopfs_link_def Let_def)
  then obtain r sb' where run: "fisopfs_link env sb old new = Inr (r, sb')" using answered by blast
  from inv present run have "fs_tree sb'"
  proof (cases rule: fisopfs_link_cases)
    case (made i parent fname)
    let ?n = "linked_inode (inodes sb ! k) new parent fname"
    let ?sb = "put_inode sb i ?n"
    have id: "ipath ?n = new" "file_parent ?n = d" "mode ?n = mode (inodes sb ! k)" "itype ?n = itype (inodes sb ! k)"
      "file_size ?n = file_size (inodes sb ! k)"
      using path_kept [OF made(6)] made(6) d(1) by (simp_all add: linked_inode_def)
    have "names_ok ?n" by (rule names_ok_intro [OF made(6,7)]) (simp_all add: linked_inode_def)
    then have t': "fs_tree ?sb"
      using fs_tree_put [OF t made(4,5) inode_ok_linked [OF fs_inv_inode [OF inv k(1)]] _ _ _ d(3)] d(2) id new(1) made(2)
        fs_tree_size [OF t k(1,2)] by simp
    have o: "occupied ?sb k" using k made(4) inv by (simp add: fs_nth)
    have "inode_ok ((inodes ?sb ! k)\<lparr>nlink := nlink (inodes ?sb ! k) + 1\<rparr>)"
      using fs_inv_inode [OF fs_wf_inv [OF fs_tree_wf [OF t']] k(1)] by (simp only: inode_ok_nlink)
    from fs_tree_upd_same [OF t' k(1) o this] made(8) show ?thesis
      by (simp only: Let_def) (simp add: same_id_def)
  qed (use t in simp_all)
  with run show ?thesis by blast
qed

lemma operations_tree:
  assumes "fs_tree sb" "request_ok env sb q"
  shows "\<exists>r sb'. operations env sb q = Inr (r, sb') \<and> fs_tree sb'"
proof (cases q)
  case (Rmdir p)
  with assms rmdir_tree [OF assms(1), of p] show ?thesis by (auto simp: request_ok_def intro!: prod.collapse [symmetric])
next
  case (Unlink p)
  with unlink_tree [OF assms(1), of p] show ?thesis by (auto intro!: prod.collapse [symmetric])
next
  case (Utimens p a m)
  with utimens_tree [OF assms(1), of p a m] show ?thesis by (auto intro!: prod.collapse [symmetric])
qed (use assms in \<open>auto simp: request_ok_def fisopfs_create_def fisopfs_mkdir_def
  intro!: new_inode_tree write_tree truncate_tree symlink_tree link_tree\<close>)

section \<open>Sessions\<close>

fun session_ok :: "super_block \<Rightarrow> (fs_env \<times> fs_op) list \<Rightarrow> bool" where
  "session_ok sb [] = True"
| "session_ok sb ((env, q) # qs) =
     (request_ok env sb q \<and> (case operations env sb q of Inl e \<Rightarrow> True | Inr (r, sb') \<Rightarrow> session_ok sb' qs))"

lemma session_tree:
  "fs_tree sb \<Longrightarrow> session_ok sb qs \<Longrightarrow> \<exists>sb'. run_ops sb qs = Inr sb' \<and> fs_tree sb'"
proof (induction qs arbitrary: sb)
  case (Cons x qs)
  obtain env q where x: "x = (env, q)" by (cases x)
  with Cons.prems have ok: "request_ok env sb q" by simp
  obtain r sb1 where run: "operations env sb q = Inr (r, sb1)" "fs_tree sb1"
    using operations_tree [OF Cons.prems(1) ok] by blast
  with Cons.prems(2) x have "session_ok sb1 qs" by simp
  with Cons.IH run x show ?case by simp
qed simp

lemma fs_tree_create_root: "fs_tree (create_root env)"
proof -
  have wf: "fs_wf (create_root env)" by (rule fs_wf_create_root)
  have "fs_lookup (create_root env) p = Some ino \<Longrightarrow> p = ROOT \<and> ino = inodes (create_root env) ! 0" for p ino
    using wf unfolding fs_lookup_eq_Some [OF fs_wf_unique [OF wf]]
    by (auto simp: create_root_nth fs_wf_def split: if_splits)
  moreover have "itype (inodes (create_root env) ! 0) = FILE_TYPE_DIRECTORY" "\<not> S_ISLNK (mode (inodes (create_root env) ! 0))"
    using wf by (simp_all add: fs_wf_def)
  ultimately show ?thesis using wf unfolding fs_tree_def tree_map_def by auto
qed

end
