(* ===== verification/FsProps.thy ===== *)
theory FsProps
  imports FsStore FsTree
begin

text \<open>
  The properties of the file system: what each handler of \<^verbatim>\<open>src/4-fs/fisopfs.c\<close> does to the
  tree seen through \<open>fs_lookup\<close>, which requests fail and how, and which round trips hold.
\<close>

section \<open>Reading after the lookup\<close>

lemma read_found:
  assumes "search_inode_by_path sb path = int i"
    and "file_size (inodes sb ! i) \<le> int MAX_CONTENT" "length (file_content (inodes sb ! i)) = MAX_CONTENT"
    and "0 \<le> off" "off < file_size (inodes sb ! i)" "0 \<le> n" "off + n \<le> file_size (inodes sb ! i)"
  shows "fisopfs_read sb path n off =
    Inr (n, take (nat n) (drop (nat off) (file_content (inodes sb ! i))))"
  using assms by (simp add: fisopfs_read_def u64_id read_bytes_def c_int_id)

lemma stored_content:
  assumes ok: "inode_ok ino" and st: "store_content ino buf off = Inr ino'"
  shows "file_size ino' = off + int (length buf)"
    and "take (length buf) (drop (nat off) (file_content ino')) = strncpy_bytes buf (length buf)"
    and "0 \<le> off" "off + int (length buf) < int MAX_CONTENT"
proof -
  have len: "length (file_content ino) = MAX_CONTENT" using ok by (simp add: inode_ok_def)
  show b: "0 \<le> off" "off + int (length buf) < int MAX_CONTENT"
    using st by (auto simp: store_content_eq_Inr [OF ok])
  show "file_size ino' = off + int (length buf)"
    using st by (auto simp: store_content_eq_Inr [OF ok])
  let ?o = "nat off" and ?n = "length buf"
  have "?o + ?n < MAX_CONTENT" using b by linarith
  then show "take ?n (drop ?o (file_content ino')) = strncpy_bytes buf (length buf)"
    using st len by (auto simp: store_content_eq_Inr [OF ok] list_eq_iff_nth_eq nth_overwrite)
qed

lemma truncated_content:
  assumes "inode_ok ino" "0 \<le> off" "off \<le> int MAX_CONTENT" "0 \<le> file_size ino"
    "file_size ino \<le> int MAX_CONTENT"
  shows "take (nat off) (file_content (truncated ino off)) =
    take (nat off) (take (nat (file_size ino)) (file_content ino) @ replicate MAX_CONTENT NUL)"
proof (rule nth_equalityI)
  let ?l = "take (nat off) (file_content (truncated ino off))"
  have len: "length (file_content ino) = MAX_CONTENT" using assms(1) by (simp add: inode_ok_def)
  have bnd: "nat off \<le> MAX_CONTENT" "nat (file_size ino) \<le> MAX_CONTENT" using assms by linarith+
  have lt: "length (file_content (truncated ino off)) = MAX_CONTENT"
    using assms len bnd by (auto simp: truncated_def Let_def)
  show "length ?l = length (take (nat off)
      (take (nat (file_size ino)) (file_content ino) @ replicate MAX_CONTENT NUL))"
    using lt len bnd by simp
  fix i assume "i < length ?l"
  then have i: "i < nat off" "i < MAX_CONTENT" using lt by simp_all
  show "?l ! i = take (nat off)
      (take (nat (file_size ino)) (file_content ino) @ replicate MAX_CONTENT NUL) ! i"
    using i assms len bnd by (auto simp: truncated_def Let_def nth_append nth_overwrite)
qed

section \<open>Sessions\<close>

text \<open>Whatever the requests are, a session that returns keeps the arrays of the table within their bounds.\<close>

lemma session_keeps_table:
  assumes "fs_inv sb" and "run_ops sb qs = Inr sb'"
  shows "fs_inv sb' \<and> (fs_wf sb \<and> admissible_run sb qs \<longrightarrow> fs_wf sb')"
  using fs_inv_run [OF assms] fs_wf_run [OF _ _ assms(2)] by blast


definition env0 :: fs_env where
  "env0 = \<lparr>getuid = 7, getgid = 8, time_c = 100, time_m = 101, time_a = 102, malloc_ok = True,
     context_uid = 7, path_room = 256\<rparr>"

definition sb0 :: super_block where
  "sb0 = create_root env0"

definition sb1 :: super_block where
  "sb1 = fs_add (new_node env0 ''/a'' FILE_TYPE_REGULAR ROOT ''a'') sb0"

lemma a_paths:
  "get_parent_dir ''/a'' = Inr ROOT" "get_file_name True ''/a'' = Inr (Some ''a'')"
  by (simp_all add: get_parent_dir_def get_file_name_def strrchr_def)

lemma fs_room_create_root: "fs_room (create_root env) = MAX_INODES - 1"
proof -
  have "{i. i < MAX_INODES \<and> status_inodes (create_root env) ! i = FREE} = {1..<MAX_INODES}"
    by (auto simp: create_root_nth split: if_splits intro: Suc_leI)
  then show ?thesis by (simp add: fs_room_def)
qed

lemma dir_has_create_root: "\<not> dir_has (create_root env) parent name" if "parent \<noteq> NO_PARENT"
proof -
  have "file_parent (inodes (create_root env) ! 0) = NO_PARENT" by (simp add: create_root_def)
  with that show ?thesis by (auto simp: dir_has_def create_root_nth split: if_splits)
qed

lemma fs_wf_sb0: "fs_wf sb0"
  by (simp add: sb0_def fs_wf_create_root)

lemma sb0_fresh:
  "malloc_ok env0" "\<not> dir_has sb0 ROOT ''a''" "0 < fs_room sb0"
  by (simp_all add: env0_def sb0_def dir_has_create_root fs_room_create_root)

lemmas sb0_new = new_inode_fresh [OF fs_wf_sb0 sb0_fresh(1) _ a_paths sb0_fresh(2,3), simplified]

lemma sb1_facts:
  "fs_wf sb1"
  "fs_lookup sb1 = (fs_lookup sb0)(''/a'' \<mapsto> new_node env0 ''/a'' FILE_TYPE_REGULAR ROOT ''a'')"
  "fs_room sb1 = MAX_INODES - 2"
  using inode_store.inv_add [OF fs_wf_sb0 sb0_new(2)] inode_store.lookup_add [OF fs_wf_sb0 sb0_new(2)]
    inode_store.room_add [OF fs_wf_sb0] sb0_new(3,4) sb0_fresh(3)
  by (simp_all add: sb1_def fs_room_create_root [of env0, folded sb0_def])

lemma sb1_a: "fs_lookup sb1 ''/a'' = Some (new_node env0 ''/a'' FILE_TYPE_REGULAR ROOT ''a'')"
  by (simp add: sb1_facts)

lemma sb1_node:
  "uid (new_node env0 p ty d n) = 7" "file_size (new_node env0 p ty d n) = 0"
  "itype (new_node env0 p ty d n) = ty" "context_uid env0 = 7"
  by (simp_all add: new_node_def env0_def)


section \<open>Creating and removing\<close>

text \<open>C6: Creating a file whose name is not yet an entry of its directory, while a slot is free,
  returns 0, makes the path (and no other) denote the new regular file, takes one slot, shows the
  attributes of an empty file with one link owned by the server's user, and lists the name in the
  directory.\<close>

theorem create_new_file:
  assumes wf: "fs_wf sb" and m: "malloc_ok env" and path: "path \<noteq> ROOT"
    and parent: "get_parent_dir path = Inr parent" and name: "get_file_name True path = Inr (Some name)"
    and new: "\<not> dir_has sb parent name" and room: "0 < fs_room sb"
  shows "\<exists>sb' ino. fisopfs_create env sb path md = Inr (0, sb') \<and> fs_wf sb' \<and>
    fs_lookup sb path = None \<and> fs_lookup sb' = (fs_lookup sb)(path \<mapsto> ino) \<and>
    fs_room sb' = fs_room sb - 1 \<and>
    fisopfs_getattr sb' path = (0, \<lparr>st_uid = getuid env, st_gid = getgid env, st_nlink = 1, st_size = 0,
      st_ctime = time_c env, st_mtime = time_m env, st_atime = time_a env, st_mode = S_IFREG + 0x1A4\<rparr>) \<and>
    name \<in> set (snd (fisopfs_readdir sb' parent))"
proof -
  let ?n = "new_node env path FILE_TYPE_REGULAR parent name" and ?sb = "fs_add (new_node env path FILE_TYPE_REGULAR parent name) sb"
  note fresh = new_inode_fresh [OF assms]
  have lk: "fs_lookup ?sb = (fs_lookup sb)(path \<mapsto> ?n)" and wf': "fs_wf ?sb"
    using inode_store.lookup_add [OF wf fresh(2)] inode_store.inv_add [OF wf fresh(2)] fresh(3,4) room
    by simp_all
  then have "fs_lookup ?sb path = Some ?n" by simp
  then obtain i where i: "search_inode_by_path ?sb path = int i" "i < MAX_INODES" "occupied ?sb i"
      "inodes ?sb ! i = ?n"
    using wf' by (elim lookup_index) auto
  have "iname ?n = name" "file_parent ?n = parent"
    using get_file_name_Some [OF name] get_parent_dir_bound [OF parent] by (simp_all add: new_node_def)
  then have "name \<in> set (snd (fisopfs_readdir ?sb parent))"
    using i by (auto simp: fisopfs_readdir_def intro!: image_eqI [of _ _ i])
  moreover have "fisopfs_getattr ?sb path = (0, stat_of ?n)"
    using i by (simp add: fisopfs_getattr_def)
  ultimately show ?thesis
    using lk wf' fresh(1,4) inode_store.room_add [OF wf room]
    by (intro exI [of _ ?sb] exI [of _ ?n]) (simp add: fisopfs_create_def stat_of_def new_node_def)
qed

theorem create_new_file_witness:
  "\<exists>sb' ino. fisopfs_create env0 sb0 ''/a'' 0 = Inr (0, sb') \<and>
     fs_lookup sb' = (fs_lookup sb0)(''/a'' \<mapsto> ino) \<and> ''a'' \<in> set (snd (fisopfs_readdir sb' ROOT))"
  using create_new_file [OF fs_wf_sb0 sb0_fresh(1) _ a_paths sb0_fresh(2,3), of 0] by auto

text \<open>Creating over an entry that already exists is not refused: it returns 0 and only raises the
  link count of that entry, whether a file or a directory is asked for.\<close>

lemma create_existing_entry:
  assumes wf: "fs_wf sb" and m: "malloc_ok env"
    and parent: "get_parent_dir path = Inr parent" and name: "get_file_name True path = Inr (Some name)"
    and i: "i < MAX_INODES" "occupied sb i" "iname (inodes sb ! i) = name"
      "file_parent (inodes sb ! i) = parent"
    and first: "\<forall>j<i. \<not> (occupied sb j \<and> iname (inodes sb ! j) = name \<and> file_parent (inodes sb ! j) = parent)"
  shows "fisopfs_create env sb path md =
      Inr (0, upd_inode sb i ((inodes sb ! i)\<lparr>nlink := nlink (inodes sb ! i) + 1\<rparr>)) \<and>
    fisopfs_mkdir env sb path md = fisopfs_create env sb path md"
proof -
  have "take (MAX_PATH_LEN - 1) name = name"
    using get_file_name_Some [OF name] get_parent_dir_bound [OF parent] by simp
  then have id: "iname (new_node env path ty parent name) = name"
      "file_parent (new_node env path ty parent name) = parent" for ty
    using path_kept [OF parent] by (simp_all add: new_node_def)
  have "first_index MAX_INODES (\<lambda>i. occupied sb i \<and> iname (inodes sb ! i) = name \<and>
      file_parent (inodes sb ! i) = parent) = int i"
    using i first unfolding first_index_eq_int by blast
  then show ?thesis
    using m parent name
    by (simp add: fisopfs_create_def fisopfs_mkdir_def new_inode_def set_inode_in_superblock_def id)
qed

lemma sb1_put: "sb1 = put_inode sb0 1 (new_node env0 ''/a'' FILE_TYPE_REGULAR ROOT ''a'')"
proof -
  have "search_free_inode sb0 = int 1"
    unfolding search_free_inode_eq_int by (simp add: sb0_def create_root_nth)
  then show ?thesis by (simp add: sb1_def fs_add_def)
qed

lemma sb1_slot1:
  "occupied sb1 1" "inodes sb1 ! 1 = new_node env0 ''/a'' FILE_TYPE_REGULAR ROOT ''a''"
  "file_parent (inodes sb1 ! 0) = NO_PARENT"
  using fs_wf_inv [OF fs_wf_sb0] unfolding sb1_put
  by (simp_all add: fs_nth) (simp add: sb0_def create_root_def)

lemma create_existing_entry_witness:
  "\<exists>sb'. fisopfs_create env0 sb1 ''/a'' 0 = Inr (0, sb') \<and> nlink (inodes sb' ! 1) = 2"
proof -
  have "\<forall>j<1. \<not> (occupied sb1 j \<and> iname (inodes sb1 ! j) = ''a'' \<and> file_parent (inodes sb1 ! j) = ROOT)"
    using sb1_slot1(3) by simp
  from create_existing_entry [OF sb1_facts(1) sb0_fresh(1) a_paths _ sb1_slot1(1) _ _ this, of 0]
  show ?thesis
    using sb1_slot1(2) fs_wf_inv [OF sb1_facts(1)] by (simp add: new_node_def nth_upd_inodes)
qed

text \<open>C30: Removing a regular file returns 0 and makes its path (and no other) denote nothing, frees one
  slot and makes \<open>getattr\<close> answer \<open>-ENOENT\<close>; a missing path and a directory are refused unchanged.\<close>

theorem unlink_removes:
  assumes wf: "fs_wf sb" and path: "path \<noteq> ROOT"
  shows "case fs_lookup sb path of
      None \<Rightarrow> fisopfs_unlink sb path = (- ENOENT, sb)
    | Some ino \<Rightarrow>
        if itype ino \<noteq> FILE_TYPE_REGULAR \<and> \<not> S_ISLNK (mode ino)
        then fisopfs_unlink sb path = (- EISDIR, sb)
        else \<exists>sb'. fisopfs_unlink sb path = (0, sb') \<and> fs_wf sb' \<and>
               fs_lookup sb' = (fs_lookup sb)(path := None) \<and> fs_room sb' = Suc (fs_room sb) \<and>
               fisopfs_getattr sb' path = (- ENOENT, zero_stat)"
proof (cases "fs_lookup sb path")
  case None
  then have "search_inode_by_path sb path = - 1"
    using wf by (cases rule: index_cases [OF wf, of path]) auto
  with None wf show ?thesis by (simp add: fisopfs_unlink_def get_inode_index_wf)
next
  case (Some ino)
  obtain i where i: "search_inode_by_path sb path = int i" "inodes sb ! i = ino"
      "get_inode_index sb path = int i"
    using lookup_index [OF wf Some] by blast
  have del: "fs_wf (fs_del path sb)" "fs_lookup (fs_del path sb) = (fs_lookup sb)(path := None)"
      "fs_room (fs_del path sb) = Suc (fs_room sb)"
    using inode_store.inv_del inode_store.lookup_del inode_store.room_del wf path Some by simp_all
  have "fs_del path sb = free_slot sb i" using i(1) by (simp add: fs_del_def)
  moreover have "search_inode_by_path (fs_del path sb) path = - 1"
    using del(1,2) by (cases rule: index_cases [OF del(1), of path]) auto
  ultimately show ?thesis
    using Some i del by (auto simp: fisopfs_unlink_def fisopfs_getattr_def)
qed

theorem unlink_removes_witness:
  "\<exists>sb'. fisopfs_unlink sb1 ''/a'' = (0, sb') \<and> fs_lookup sb' = (fs_lookup sb1)(''/a'' := None) \<and>
     fs_room sb' = Suc (fs_room sb1)"
  using unlink_removes [OF sb1_facts(1), of "''/a''"] by (auto simp: sb1_a sb1_node)

text \<open>C32: Removing a directory is refused, with the table unchanged, for a missing path, for anything
  that is not a directory and for a directory that still has an entry; otherwise it returns 0 and
  the path (and no other) denotes nothing.\<close>

theorem rmdir_outcomes:
  assumes wf: "fs_wf sb" and path: "path \<noteq> ROOT"
  shows "case fs_lookup sb path of
      None \<Rightarrow> fisopfs_rmdir sb path = (- ENOENT, sb)
    | Some ino \<Rightarrow>
        if itype ino \<noteq> FILE_TYPE_DIRECTORY then fisopfs_rmdir sb path = (- ENOTDIR, sb)
        else if \<exists>q o'. fs_lookup sb q = Some o' \<and> file_parent o' = path
        then fisopfs_rmdir sb path = (- ENOTEMPTY, sb)
        else \<exists>sb'. fisopfs_rmdir sb path = (0, sb') \<and> fs_wf sb' \<and>
               fs_lookup sb' = (fs_lookup sb)(path := None) \<and> fs_room sb' = Suc (fs_room sb)"
proof (cases "fs_lookup sb path")
  case None
  then have "search_inode_by_path sb path = - 1"
    using wf by (cases rule: index_cases [OF wf, of path]) auto
  with None wf show ?thesis by (simp add: fisopfs_rmdir_def get_inode_index_wf)
next
  case (Some ino)
  obtain i where i: "search_inode_by_path sb path = int i" "inodes sb ! i = ino"
      "get_inode_index sb path = int i"
    using lookup_index [OF wf Some] by blast
  have children: "has_children sb path \<longleftrightarrow> (\<exists>q o'. fs_lookup sb q = Some o' \<and> file_parent o' = path)"
    unfolding has_children_def fs_lookup_eq_Some [OF fs_wf_unique [OF wf]]
    by (simp add: Bex_def) blast
  have del: "fs_wf (fs_del path sb)" "fs_lookup (fs_del path sb) = (fs_lookup sb)(path := None)"
      "fs_room (fs_del path sb) = Suc (fs_room sb)"
    using inode_store.inv_del inode_store.lookup_del inode_store.room_del wf path Some by simp_all
  have "fs_del path sb = free_slot sb i" using i(1) by (simp add: fs_del_def)
  with Some i del children [symmetric] show ?thesis
    by (simp add: fisopfs_rmdir_def)
qed

theorem rmdir_outcomes_witness: "fisopfs_rmdir sb1 ''/a'' = (- ENOTDIR, sb1)"
  using rmdir_outcomes [OF sb1_facts(1), of "''/a''"] by (simp add: sb1_a sb1_node)

text \<open>C34: Creating a file and unlinking it again leaves every path denoting what it denoted before and
  gives the slot back.\<close>

theorem create_then_unlink:
  assumes wf: "fs_wf sb" and m: "malloc_ok env" and path: "path \<noteq> ROOT"
    and parent: "get_parent_dir path = Inr parent" and name: "get_file_name True path = Inr (Some name)"
    and new: "\<not> dir_has sb parent name" and room: "0 < fs_room sb"
  shows "\<exists>sb' sb''. run_ops sb [(env, Create path md), (env', Unlink path)] = Inr sb'' \<and>
    fisopfs_create env sb path md = Inr (0, sb') \<and> fisopfs_unlink sb' path = (0, sb'') \<and>
    fs_lookup sb'' = fs_lookup sb \<and> fs_room sb'' = fs_room sb"
proof -
  let ?n = "new_node env path FILE_TYPE_REGULAR parent name"
  note fresh = new_inode_fresh [OF assms]
  have wf': "fs_wf (fs_add ?n sb)" and lk: "fs_lookup (fs_add ?n sb) path = Some ?n"
    using inode_store.inv_add [OF wf fresh(2)] inode_store.lookup_add [OF wf fresh(2)] fresh(3,4) room
    by simp_all
  obtain i where i: "search_inode_by_path (fs_add ?n sb) path = int i"
      "inodes (fs_add ?n sb) ! i = ?n" "get_inode_index (fs_add ?n sb) path = int i"
    using lookup_index [OF wf' lk] by blast
  have "fisopfs_unlink (fs_add ?n sb) path = (0, fs_del path (fs_add ?n sb))"
    using i by (simp add: fisopfs_unlink_def fs_del_def new_node_def)
  moreover have "fs_lookup (fs_del path (fs_add ?n sb)) = fs_lookup sb \<and>
      fs_room (fs_del path (fs_add ?n sb)) = fs_room sb"
    using inode_store.add_then_del [OF wf fresh(2)] fresh(3,4) room path by metis
  ultimately show ?thesis
    using fresh(1) by (simp add: fisopfs_create_def)
qed

theorem create_then_unlink_witness:
  "\<exists>sb''. run_ops sb0 [(env0, Create ''/a'' 0), (env0, Unlink ''/a'')] = Inr sb'' \<and>
     fs_lookup sb'' = fs_lookup sb0"
  using create_then_unlink [OF fs_wf_sb0 sb0_fresh(1) _ a_paths sb0_fresh(2,3), of 0 env0] by auto

section \<open>Writing and reading\<close>

lemma fisopfs_write_owner:
  assumes wf: "fs_wf sb" and lk: "fs_lookup sb path = Some ino" and own: "uid ino = context_uid env"
    and off: "off \<le> int MAX_CONTENT"
  obtains (stored) k sb' ino' where "k < MAX_INODES" "get_inode_index sb path = int k" "inodes sb ! k = ino"
      "fisopfs_write env sb path buf off = Inr (int (length buf), sb')"
      "store_content ino buf off = Inr ino'" "fs_wf sb'" "status_inodes sb' = status_inodes sb"
      "inodes sb' = map (shared_copy (upd_inode sb k ino') k) [0..<MAX_INODES]"
      "inodes sb' ! k = ino'" "search_inode_by_path sb' path = int k"
  | (outside) "fisopfs_write env sb path buf off = Inl OutOfBounds"
      "\<not> (0 \<le> off \<and> off + int (length buf) < int MAX_CONTENT)"
proof -
  obtain k where k: "search_inode_by_path sb path = int k" "k < MAX_INODES" "occupied sb k"
      "ipath (inodes sb ! k) = path" "inodes sb ! k = ino" "get_inode_index sb path = int k"
    using lookup_index [OF wf lk] by blast
  have inv: "fs_inv sb" using wf by (rule fs_wf_inv)
  have ok: "inode_ok ino" using fs_inv_inode [OF inv k(2)] k(5) by simp
  show thesis
  proof (cases "store_content ino buf off")
    case (Inl e)
    then have "fisopfs_write env sb path buf off = Inl e"
      using k own off by (simp add: fisopfs_write_def)
    with Inl outside show thesis by (simp add: store_content_eq_Inl [OF ok])
  next
    case (Inr ino')
    then obtain r sb' where run: "fisopfs_write env sb path buf off = Inr (r, sb')"
      using k own off by (simp add: fisopfs_write_def)
    note wf' = fs_wf_write [OF wf run]
    show thesis
    proof (rule fisopfs_write_cases [OF inv k(6,2) run])
      assume "uid (inodes sb ! k) \<noteq> context_uid env \<or> off > int MAX_CONTENT"
      with k(5) own off show thesis by simp
    next
      fix ino''
      assume st: "store_content (inodes sb ! k) buf off = Inr ino''" "r = int (length buf)"
        "status_inodes sb' = status_inodes sb"
        "inodes sb' = map (shared_copy (upd_inode sb k ino'') k) [0..<MAX_INODES]"
        "inodes sb' ! k = ino''"
      have "ipath ino'' = path" using same_id_store [OF ok] st(1) k(4,5) by (simp add: same_id_def)
      then have "fs_lookup sb' path = Some ino''"
        using k(2,3) st(3,5) by (auto simp: fs_lookup_eq_Some [OF fs_wf_unique [OF wf']])
      then obtain k' where k': "search_inode_by_path sb' path = int k'" "k' < MAX_INODES"
          "occupied sb' k'" "ipath (inodes sb' ! k') = path"
        using lookup_index [OF wf'] by blast
      have "k' = k"
        using fs_wf_unique [OF wf'] k' k(2,3) st(3,5) \<open>ipath ino'' = path\<close>
        unfolding unique_paths_def by metis
      with st k k' wf' run show thesis by (intro stored [of k sb' ino'']) auto
    qed
  qed
qed

text \<open>C13: For a file the caller owns, a write of \<open>n\<close> bytes at an offset of at most 100 stays inside
  the inode exactly when the offset is not negative and \<open>offset + n\<close> is below 100; otherwise it
  stores outside the content array. No bound on \<open>offset + n\<close> is checked by the handler.\<close>

theorem write_bounds:
  assumes wf: "fs_wf sb" and lk: "fs_lookup sb path = Some ino" and own: "uid ino = context_uid env"
    and off: "off \<le> int MAX_CONTENT"
  shows "fisopfs_write env sb path buf off = Inl OutOfBounds \<longleftrightarrow>
    \<not> (0 \<le> off \<and> off + int (length buf) < int MAX_CONTENT)"
  using assms
proof (cases rule: fisopfs_write_owner [where buf = buf])
  case (stored k sb' ino')
  have "inode_ok ino" using fs_inv_inode [OF fs_wf_inv [OF wf] stored(1)] stored(3) by simp
  with stored show ?thesis by (auto simp: store_content_eq_Inr)
qed simp

theorem write_bounds_witness:
  "fisopfs_write env0 sb1 ''/a'' ''hi'' 98 = Inl OutOfBounds"
  using write_bounds [OF sb1_facts(1) sb1_a, of env0 98 "''hi''"] by (simp add: sb1_node)

text \<open>C10: A write by the owner that ends inside the content array is read back by a read of the same range:
  the data as far as its first zero byte, and zero bytes behind, so the data itself when it
  has no zero byte. The file then ends at the end of the write: bytes it had behind that point are no
  longer readable.\<close>

theorem write_read_back:
  assumes wf: "fs_wf sb" and lk: "fs_lookup sb path = Some ino" and own: "uid ino = context_uid env"
    and off: "0 \<le> off" "off + int (length buf) < int MAX_CONTENT" and buf: "buf \<noteq> []"
  shows "\<exists>sb'. fisopfs_write env sb path buf off = Inr (int (length buf), sb') \<and>
    fisopfs_read sb' path (int (length buf)) off =
      Inr (int (length buf), cstr buf @ replicate (length buf - length (cstr buf)) NUL) \<and>
    (NUL \<notin> set buf \<longrightarrow> fisopfs_read sb' path (int (length buf)) off = Inr (int (length buf), buf)) \<and>
    st_size (snd (fisopfs_getattr sb' path)) = off + int (length buf) \<and>
    (\<forall>n. fisopfs_read sb' path n (off + int (length buf)) = Inr (0, []))"
proof -
  have off': "off \<le> int MAX_CONTENT" using off by linarith
  from wf lk own off' show ?thesis
  proof (cases rule: fisopfs_write_owner [where buf = buf])
    case (stored k sb' ino')
    have ok: "inode_ok ino" using fs_inv_inode [OF fs_wf_inv [OF wf] stored(1)] stored(3) by simp
    note sc = stored_content [OF ok stored(5)]
    have "length (file_content ino') = MAX_CONTENT"
      using inode_ok_store [OF ok stored(5)] by (simp add: inode_ok_def)
    then have "fisopfs_read sb' path (int (length buf)) off = Inr (int (length buf), strncpy_bytes buf (length buf))"
      using read_found [OF stored(10), of off "int (length buf)"] stored(9) sc off buf by simp
    moreover have "strncpy_bytes buf (length buf) = cstr buf @ replicate (length buf - length (cstr buf)) NUL"
      by (simp add: strncpy_bytes_def Let_def)
    moreover have "st_size (snd (fisopfs_getattr sb' path)) = off + int (length buf)"
      using stored(9,10) sc(1) by (simp add: fisopfs_getattr_def stat_of_def)
    moreover have "fisopfs_read sb' path n (off + int (length buf)) = Inr (0, [])" for n
      using stored(9,10) sc(1) by (simp add: fisopfs_read_def)
    ultimately show ?thesis using stored(4) by simp
  next
    case outside
    with off show ?thesis by simp
  qed
qed

theorem write_read_back_witness:
  "\<exists>sb'. fisopfs_write env0 sb1 ''/a'' ''hi'' 3 = Inr (2, sb') \<and> fisopfs_read sb' ''/a'' 2 3 = Inr (2, ''hi'')"
  using write_read_back [OF sb1_facts(1) sb1_a, of env0 3 "''hi''"] by (auto simp: sb1_node)

text \<open>C35: A write to one file reaches every other entry of the table whose link count is above one,
  related to it or not: afterwards each of them holds the same string; every entry with at most
  one link is unchanged.\<close>

theorem write_reaches_all_linked:
  assumes wf: "fs_wf sb" and lk: "fs_lookup sb path = Some ino" and own: "uid ino = context_uid env"
    and off: "0 \<le> off" "off + int (length buf) < int MAX_CONTENT"
  shows "\<exists>sb' ino'. fisopfs_write env sb path buf off = Inr (int (length buf), sb') \<and>
    fs_lookup sb' path = Some ino' \<and>
    (\<forall>q o'. q \<noteq> path \<longrightarrow> fs_lookup sb q = Some o' \<longrightarrow>
       (if nlink o' > 1
        then \<exists>o''. fs_lookup sb' q = Some o'' \<and> cstr (file_content o'') = cstr (file_content ino') \<and>
               nlink o'' = nlink o' \<and> same_id o'' o'
        else fs_lookup sb' q = Some o'))"
proof -
  have off': "off \<le> int MAX_CONTENT" using off by linarith
  from wf lk own off' show ?thesis
  proof (cases rule: fisopfs_write_owner [where buf = buf])
    case outside
    with off show ?thesis by simp
  next
    case (stored k sb' ino')
    have inv: "fs_inv sb" using wf by (rule fs_wf_inv)
    have ok: "inode_ok ino'"
      using inode_ok_store [OF _ stored(5)] fs_inv_inode [OF inv stored(1)] stored(3) by simp
    let ?sb = "upd_inode sb k ino'"
    have src: "inodes ?sb ! k = ino'" using stored(1) inv by (simp add: nth_upd_inodes)
    have lk': "fs_lookup sb' path = Some ino'" using stored(9,10) by (simp add: fs_lookup_def)
    have other: "if nlink o' > 1
        then \<exists>o''. fs_lookup sb' q = Some o'' \<and> cstr (file_content o'') = cstr (file_content ino') \<and>
               nlink o'' = nlink o' \<and> same_id o'' o'
        else fs_lookup sb' q = Some o'" if q: "q \<noteq> path" "fs_lookup sb q = Some o'" for q o'
    proof -
      obtain i where i: "i < MAX_INODES" "occupied sb i" "ipath (inodes sb ! i) = q" "inodes sb ! i = o'"
        using lookup_index [OF wf q(2)] by blast
      have "i \<noteq> k"
        using i(3) q(1) lookup_index [OF wf lk] stored(2) by (metis of_nat_eq_iff)
      then have dst: "inodes ?sb ! i = o'" using i inv stored(1) by (simp add: nth_upd_inodes)
      have new: "inodes sb' ! i = shared_copy ?sb k i" using i(1) stored(8) by simp
      have "same_id (shared_copy ?sb k i) o'" using same_id_shared_copy [of ?sb k i] dst by simp
      then have "fs_lookup sb' q = Some (shared_copy ?sb k i)"
        using i stored(7) new by (auto simp: fs_lookup_eq_Some [OF fs_wf_unique [OF stored(6)]] same_id_def)
      then show ?thesis
        using src dst i(2) strncpy_full(3) [OF ok]
        by (auto simp: shared_copy_def Let_def same_id_def)
    qed
    show ?thesis using stored(4) lk' other by blast
  qed
qed

lemma sb1_root: "\<exists>r. fs_lookup sb1 ROOT = Some r \<and> nlink r = 2"
proof -
  have "occupied sb1 0" "ipath (inodes sb1 ! 0) = ROOT" "nlink (inodes sb1 ! 0) = 2"
    using sb1_facts(1) unfolding sb1_put
    by (simp_all add: fs_wf_def) (simp add: sb0_def create_root_def)
  then have "fs_lookup sb1 ROOT = Some (inodes sb1 ! 0)"
    unfolding fs_lookup_eq_Some [OF fs_wf_unique [OF sb1_facts(1)]] by (intro exI [of _ 0]) simp
  with \<open>nlink (inodes sb1 ! 0) = 2\<close> show ?thesis by simp
qed

theorem write_reaches_all_linked_witness:
  "\<exists>sb' f r. fisopfs_write env0 sb1 ''/a'' ''hi'' 0 = Inr (2, sb') \<and> fs_lookup sb' ''/a'' = Some f \<and>
     fs_lookup sb' ROOT = Some r \<and> cstr (file_content r) = cstr (file_content f)"
proof -
  obtain r where r: "fs_lookup sb1 ROOT = Some r" "nlink r = 2" using sb1_root by blast
  have "ROOT \<noteq> ''/a''" "nlink r > 1" using r(2) by simp_all
  then show ?thesis
    using write_reaches_all_linked [OF sb1_facts(1) sb1_a, of env0 0 "''hi''"] r(1)
    by (auto simp: sb1_node) metis
qed

text \<open>Truncating a regular file to a length of at most 100 returns 0 and leaves a file of exactly
  that length, whose bytes are the old ones as far as there were any and zero bytes behind; every
  other path denotes what it denoted. A longer or negative length is refused unchanged.\<close>

lemma truncate_resizes:
  assumes wf: "fs_wf sb" and lk: "fs_lookup sb path = Some ino" and reg: "itype ino = FILE_TYPE_REGULAR"
    and fs: "0 \<le> file_size ino" "file_size ino \<le> int MAX_CONTENT"
    and range: "- (2 ^ 63) \<le> len" "len < 2 ^ 63"
  shows "if 0 \<le> len \<and> len \<le> int MAX_CONTENT
    then \<exists>sb'. fisopfs_truncate sb path len = Inr (0, sb') \<and>
      st_size (snd (fisopfs_getattr sb' path)) = len \<and>
      (0 < len \<longrightarrow> fisopfs_read sb' path len 0 =
         Inr (len, take (nat len) (take (nat (file_size ino)) (file_content ino) @ replicate MAX_CONTENT NUL))) \<and>
      (\<forall>q. q \<noteq> path \<longrightarrow> fs_lookup sb' q = fs_lookup sb q)
    else fisopfs_truncate sb path len = Inr (- EISDIR, sb)"
proof -
  obtain k where k: "search_inode_by_path sb path = int k" "k < MAX_INODES" "occupied sb k"
      "ipath (inodes sb ! k) = path" "inodes sb ! k = ino" "get_inode_index sb path = int k"
    using lookup_index [OF wf lk] by blast
  have ok: "inode_ok ino" using fs_inv_inode [OF fs_wf_inv [OF wf] k(2)] k(5) by simp
  have clen: "length (file_content ino) = MAX_CONTENT" using ok by (simp add: inode_ok_def)
  show ?thesis
  proof (cases "0 \<le> len \<and> len \<le> int MAX_CONTENT")
    case False
    have "u64 len > int MAX_CONTENT"
    proof (cases "len < 0")
      case True
      have "len mod 2 ^ 64 = (len + 2 ^ 64) mod 2 ^ 64" by simp
      also have "\<dots> = len + 2 ^ 64" by (rule mod_pos_pos_trivial) (use True range in simp_all)
      finally show ?thesis using range by (simp add: u64_def)
    qed (use False range in \<open>simp add: u64_id\<close>)
    with False k reg show ?thesis by (simp add: fisopfs_truncate_def)
  next
    case True
    then have "u64 len \<le> int MAX_CONTENT" by (simp add: u64_id)
    then have run: "fisopfs_truncate sb path len = Inr (0, upd_inode sb k (truncated ino len))"
      using k reg True fs clen
      by (auto simp: fisopfs_truncate_def truncated_def Let_def write_bytes_def)
    note wf' = fs_wf_truncate [OF wf run]
    have id: "same_id (truncated ino len) ino" by (simp add: same_id_def truncated_def)
    have okt: "inode_ok (truncated ino len)"
      using fs_inv_inode [OF fs_wf_inv [OF wf'] k(2)] k(2) fs_wf_inv [OF wf] by (simp add: nth_upd_inodes)
    have lk': "fs_lookup (upd_inode sb k (truncated ino len)) = (fs_lookup sb)(path \<mapsto> truncated ino len)"
      using fs_lookup_upd [OF wf k(2,3) okt] id k(4,5) by simp
    then have "fs_lookup (upd_inode sb k (truncated ino len)) path = Some (truncated ino len)" by simp
    then obtain k' where k': "search_inode_by_path (upd_inode sb k (truncated ino len)) path = int k'"
        "inodes (upd_inode sb k (truncated ino len)) ! k' = truncated ino len"
      using lookup_index [OF wf'] by blast
    have size: "file_size (truncated ino len) = len" by (simp add: truncated_def)
    have "fisopfs_read (upd_inode sb k (truncated ino len)) path len 0 =
        Inr (len, take (nat len) (file_content (truncated ino len)))" if "0 < len"
      using read_found [OF k'(1), of 0 len] k'(2) size okt that True
      by (simp add: inode_ok_def)
    moreover have "st_size (snd (fisopfs_getattr (upd_inode sb k (truncated ino len)) path)) = len"
      using k' size by (simp add: fisopfs_getattr_def stat_of_def)
    ultimately show ?thesis
      using True run lk' truncated_content [OF ok _ _ fs, of len] by simp
  qed
qed

lemma truncate_resizes_witness:
  "\<exists>sb'. fisopfs_truncate sb1 ''/a'' 2 = Inr (0, sb') \<and> fisopfs_read sb' ''/a'' 2 0 = Inr (2, [NUL, NUL])"
  using truncate_resizes [OF sb1_facts(1) sb1_a, of 2] by (auto simp: sb1_node numeral_2_eq_2)

section \<open>Links\<close>

text \<open>A symbolic link made at a fresh path stores the first 99 bytes of its target, reads back
  through \<open>readlink\<close> as that string cut to the buffer, and changes no other path.\<close>

lemma symlink_readlink:
  assumes wf: "fs_wf sb" and m: "malloc_ok env" and room: "0 < fs_room sb"
    and parent: "get_parent_dir new = Inr parent" and name: "get_file_name True new = Inr (Some name)"
    and fresh: "fs_lookup sb new = None" and old: "NUL \<notin> set old" and n: "0 < n"
  shows "\<exists>sb'. fisopfs_symlink env sb old new = Inr (0, sb') \<and> fs_wf sb' \<and>
    fisopfs_readlink sb' new n = Inr (0, take (n - 1) (take (MAX_CONTENT - 1) old) @ [NUL]) \<and>
    (\<forall>q. q \<noteq> new \<longrightarrow> fs_lookup sb' q = fs_lookup sb q)"
proof -
  obtain i where i: "search_free_inode sb = int i" "i < MAX_INODES" "status_inodes sb ! i = FREE"
    using fs_room_free [OF room] by blast
  let ?n = "symlink_inode env old new parent name"
  have run: "fisopfs_symlink env sb old new = Inr (0, put_inode sb i ?n)"
    using i m parent name by (simp add: fisopfs_symlink_def)
  have wf': "fs_wf (put_inode sb i ?n)" by (rule fs_wf_symlink [OF wf fresh run])
  have p: "ipath ?n = new" using path_kept [OF parent] by (simp add: symlink_inode_def)
  have "names_ok ?n"
    by (rule names_ok_intro [OF parent name]) (simp_all add: symlink_inode_def)
  then have lk: "fs_lookup (put_inode sb i ?n) = (fs_lookup sb)(new \<mapsto> ?n)"
    using fs_lookup_put [OF wf i(2,3) inode_ok_symlink [OF parent]] p fresh by simp
  then have "fs_lookup (put_inode sb i ?n) new = Some ?n" by simp
  then obtain k where k: "search_inode_by_path (put_inode sb i ?n) new = int k"
      "inodes (put_inode sb i ?n) ! k = ?n"
    using lookup_index [OF wf'] by blast
  have "cstr (file_content ?n) = take (MAX_CONTENT - 1) old"
  proof -
    have "cstr (take 99 (old @ [NUL])) = take 99 old"
    proof -
      have "NUL \<notin> set (take 99 old)" using old by (auto dest: in_set_takeD)
      then show ?thesis by (cases "99 - length old") simp_all
    qed
    moreover have "length (cstr (take 99 (old @ [NUL]))) \<le> 99"
      using length_cstr_le [of "take 99 (old @ [NUL])"] by simp
    moreover have "NUL \<notin> set (take 99 old)" using old by (auto dest: in_set_takeD)
    ultimately show ?thesis
      by (simp add: symlink_inode_def strncpy_bytes_def Let_def)
  qed
  moreover have "S_ISLNK (mode ?n)" by (simp add: symlink_inode_def S_ISLNK_def)
  ultimately have "fisopfs_readlink (put_inode sb i ?n) new n =
      Inr (0, take (n - 1) (take (MAX_CONTENT - 1) old) @ [NUL])"
    using k n by (cases "length old < n"; cases "n \<le> 99"; cases "n = 100")
      (auto simp: fisopfs_readlink_def Let_def min.absorb1 min.absorb2)
  with run wf' lk show ?thesis by auto
qed

lemma symlink_readlink_witness:
  "\<exists>sb'. fisopfs_symlink env0 sb0 ''/t'' ''/l'' = Inr (0, sb') \<and>
     fisopfs_readlink sb' ''/l'' 16 = Inr (0, ''/t'' @ [NUL])"
proof -
  have path: "get_parent_dir ''/l'' = Inr ROOT" "get_file_name True ''/l'' = Inr (Some ''l'')"
    by (simp_all add: get_parent_dir_def get_file_name_def strrchr_def)
  have fresh: "fs_lookup sb0 ''/l'' = None"
    by (auto simp: fs_lookup_eq_None sb0_def create_root_nth split: if_splits)
      (simp add: create_root_def)
  show ?thesis
    using symlink_readlink [OF fs_wf_sb0 sb0_fresh(1,3) path fresh, of "''/t''" 16] by auto
qed

section \<open>Persistence\<close>

text \<open>A file system that is shut down and started again on the same persistence file has the same
  super block, provided the file can be opened and written and memory is available. When \<open>fwrite\<close> fails,
  shutdown ends the process with status 1; when the rest of the image is lost on the way from the buffer to the
  disk, shutdown succeeds; in both cases the next start makes a fresh root.\<close>

lemma destroy_then_init:
  assumes "\<not> open_fails h p"
  shows "if write_fails h
    then \<exists>h1. fisopfs_destroy (Some p) sb h = (Some 1, h1) \<and> files h1 p = Some ShortFile \<and>
        fst (fisopfs_init env (Some p) h1) = create_root env
    else if flush_fails h
    then \<exists>h1. fisopfs_destroy (Some p) sb h = (None, h1) \<and> files h1 p = Some ShortFile \<and>
        fst (fisopfs_init env (Some p) h1) = create_root env
    else \<exists>h1. fisopfs_destroy (Some p) sb h = (None, h1) \<and>
        fisopfs_init env (Some p) h1 =
          (if calloc_fails h then (create_root env, h1\<lparr>files := (files h1)(p \<mapsto> Image (create_root env))\<rparr>)
           else (sb, h1)) \<and>
        (\<forall>q. q \<noteq> p \<longrightarrow> files h1 q = files h q)"
  using assms
  by (auto simp: fisopfs_destroy_def fisopfs_init_def write_persistence_def read_persistence_def Let_def)

section \<open>Command line\<close>

lemma shift_args_from:
  "i + k + 2 \<le> length argv \<Longrightarrow>
   shift_args argv [i..<i + k] = Inr (take i argv @ take k (drop (i + 2) argv) @ drop (i + k) argv)"
proof (induction k arbitrary: i argv)
  case (Suc k)
  let ?a = "argv[i := argv ! (i + 2)]"
  have "shift_args argv [i..<i + Suc k] = shift_args ?a [Suc i..<Suc i + k]"
    using Suc.prems by (simp add: upt_conv_Cons del: upt_Suc)
  also have "\<dots> = Inr (take (Suc i) ?a @ take k (drop (Suc i + 2) ?a) @ drop (Suc i + k) ?a)"
    using Suc.prems by (intro Suc.IH) simp
  also have "take (Suc i) ?a = take i argv @ [argv ! (i + 2)]"
    using Suc.prems by (simp add: take_Suc_conv_app_nth)
  also have "drop (Suc i + 2) ?a = drop (Suc i + 2) argv" by simp
  also have "drop (Suc i + k) ?a = drop (i + Suc k) argv" by simp
  finally show ?case
    using Suc.prems by (simp add: take_Suc_drop del: upt_Suc)
qed simp

text \<open>\<open>main\<close> takes the word after the first \<open>--filedisk\<close> that has one as the persistence file
  and removes both words from the argument vector, keeping the others in order and the
  terminating null pointer where the new count says; without the option the vector is untouched.
  It never reads or writes outside the vector.\<close>

lemma filedisk_removed:
  assumes prog: "pre \<noteq> []" and no: "''--filedisk'' \<notin> set (tl pre)"
  shows "\<exists>argv'. fs_main_args (map Some (pre @ ''--filedisk'' # disk # post) @ [None]) =
      Inr (Some disk, length (pre @ post), argv') \<and>
    take (length (pre @ post) + 1) argv' = map Some (pre @ post) @ [None]"
proof -
  define argv where "argv = map Some (pre @ ''--filedisk'' # disk # post) @ [None]"
  let ?n = "length pre" and ?m = "length post"
  have len: "length argv = ?n + ?m + 3" by (simp add: argv_def)
  have at: "argv ! ?n = Some ''--filedisk''" "argv ! (?n + 1) = Some disk"
    by (simp_all add: argv_def nth_append)
  have before: "argv ! j \<noteq> Some ''--filedisk''" if "1 \<le> j" "j < ?n" for j
  proof -
    have "pre ! j \<in> set (tl pre)" using that prog by (cases pre; cases j) auto
    with no that show ?thesis by (auto simp: argv_def nth_append)
  qed
  have "find (\<lambda>i. argv ! i = Some ''--filedisk'') [1..<length argv - 1 - 1] = Some ?n"
    unfolding find_Some_iff
    using prog at before len
    by (intro exI [of _ "?n - 1"]) (cases pre; simp add: nth_append del: upt_Suc)
  then have run: "fs_main_args argv =
      Inr (Some disk, ?n + ?m, take ?n argv @ take (?m + 1) (drop (?n + 2) argv) @ drop (?n + (?m + 1)) argv)"
    using shift_args_from [of ?n "?m + 1" argv] len at(2) by (simp add: fs_main_args_def)
  have "take ?n argv = map Some pre" "drop (?n + 2) argv = map Some post @ [None]"
    by (simp_all add: argv_def)
  with run show ?thesis unfolding argv_def [symmetric] by simp
qed

theorem filedisk_removed_witness:
  "\<exists>argv'. fs_main_args [Some ''fs'', Some ''-f'', Some ''--filedisk'', Some ''d'', Some ''mnt'', None] =
     Inr (Some ''d'', 3, argv') \<and> take 4 argv' = [Some ''fs'', Some ''-f'', Some ''mnt'', None]"
  using filedisk_removed [of "[''fs'', ''-f'']" "''d''" "[''mnt'']"] by (simp add: eval_nat_numeral)

end
