(* ===== verification/KTypes.thy ===== *)
theory KTypes
  imports Prelude
begin

text \<open>
  The data of the kernel under \<^verbatim>\<open>src/3-sched\<close>: address arithmetic (\<^verbatim>\<open>inc/mmu.h\<close>,
  \<^verbatim>\<open>inc/memlayout.h\<close>, \<^verbatim>\<open>inc/types.h\<close>), trap frames, page and environment structures, CPUs,
  the big kernel lock, the scheduler statistics, and one record holding all of them.

  Pointers into the arrays \<open>pages\<close>, \<open>envs\<close> and \<open>cpus\<close> are indices; a pointer to a page table or
  page directory is the number of the physical page that holds it, since the kernel reaches
  physical memory through the linear map at \<open>KERNBASE\<close>. Physical memory is seen as 32-bit words.
\<close>

unbundle bit_operations_syntax

type_synonym u32 = "32 word"
type_synonym u16 = "16 word"

section \<open>Addresses\<close>

abbreviation (input) PGSIZE :: u32 where "PGSIZE \<equiv> 0x1000"
abbreviation (input) PTSIZE :: u32 where "PTSIZE \<equiv> 0x400000"
abbreviation (input) NPDENTRIES :: nat where "NPDENTRIES \<equiv> 1024"
abbreviation (input) NPTENTRIES :: nat where "NPTENTRIES \<equiv> 1024"
abbreviation (input) PTE_P :: u32 where "PTE_P \<equiv> 0x001"
abbreviation (input) PTE_W :: u32 where "PTE_W \<equiv> 0x002"
abbreviation (input) PTE_U :: u32 where "PTE_U \<equiv> 0x004"
abbreviation (input) PTE_PWT :: u32 where "PTE_PWT \<equiv> 0x008"
abbreviation (input) PTE_PCD :: u32 where "PTE_PCD \<equiv> 0x010"
abbreviation (input) PTE_SYSCALL :: u32 where "PTE_SYSCALL \<equiv> 0xE07"
abbreviation (input) FL_IF :: u32 where "FL_IF \<equiv> 0x200"
abbreviation (input) KERNBASE :: u32 where "KERNBASE \<equiv> 0xF0000000"
abbreviation (input) MMIOLIM :: u32 where "MMIOLIM \<equiv> 0xEFC00000"
abbreviation (input) MMIOBASE :: u32 where "MMIOBASE \<equiv> 0xEF800000"
abbreviation (input) UVPT :: u32 where "UVPT \<equiv> 0xEF400000"
abbreviation (input) UPAGES :: u32 where "UPAGES \<equiv> 0xEF000000"
abbreviation (input) UENVS :: u32 where "UENVS \<equiv> 0xEEC00000"
abbreviation (input) UTOP :: u32 where "UTOP \<equiv> 0xEEC00000"
abbreviation (input) UXSTACKTOP :: u32 where "UXSTACKTOP \<equiv> 0xEEC00000"
abbreviation (input) USTACKTOP :: u32 where "USTACKTOP \<equiv> 0xEEBFE000"
abbreviation (input) IOPHYSMEM :: u32 where "IOPHYSMEM \<equiv> 0x0A0000"
abbreviation (input) EXTPHYSMEM :: u32 where "EXTPHYSMEM \<equiv> 0x100000"
abbreviation (input) MPENTRY_PADDR :: u32 where "MPENTRY_PADDR \<equiv> 0x7000"
abbreviation (input) GD_UT :: u16 where "GD_UT \<equiv> 0x18"
abbreviation (input) GD_UD :: u16 where "GD_UD \<equiv> 0x20"

definition PGNUM :: "u32 \<Rightarrow> nat" where
  "PGNUM la = unat (drop_bit 12 la)"

definition PDX :: "u32 \<Rightarrow> nat" where
  "PDX la = unat (drop_bit 22 la AND 0x3FF)"

definition PTX :: "u32 \<Rightarrow> nat" where
  "PTX la = unat (drop_bit 12 la AND 0x3FF)"

definition PGADDR :: "nat \<Rightarrow> nat \<Rightarrow> u32 \<Rightarrow> u32" where
  "PGADDR d t off = push_bit 22 (word_of_nat d) OR push_bit 12 (word_of_nat t) OR off"

definition PTE_ADDR :: "u32 \<Rightarrow> u32" where
  "PTE_ADDR pte = pte AND NOT 0xFFF"

definition ROUNDDOWN :: "u32 \<Rightarrow> u32 \<Rightarrow> u32" where
  "ROUNDDOWN a n = a - a mod n"

definition ROUNDUP :: "u32 \<Rightarrow> u32 \<Rightarrow> u32" where
  "ROUNDUP a n = ROUNDDOWN (a + n - 1) n"

section \<open>Error codes\<close>

abbreviation (input) E_UNSPECIFIED :: int where "E_UNSPECIFIED \<equiv> 1"
abbreviation (input) E_BAD_ENV :: int where "E_BAD_ENV \<equiv> 2"
abbreviation (input) E_INVAL :: int where "E_INVAL \<equiv> 3"
abbreviation (input) E_NO_MEM :: int where "E_NO_MEM \<equiv> 4"
abbreviation (input) E_NO_FREE_ENV :: int where "E_NO_FREE_ENV \<equiv> 5"
abbreviation (input) E_FAULT :: int where "E_FAULT \<equiv> 6"
abbreviation (input) E_IPC_NOT_RECV :: int where "E_IPC_NOT_RECV \<equiv> 7"

section \<open>Trap frames\<close>

record push_regs =
  reg_edi :: u32
  reg_esi :: u32
  reg_ebp :: u32
  reg_oesp :: u32
  reg_ebx :: u32
  reg_edx :: u32
  reg_ecx :: u32
  reg_eax :: u32

record trapframe =
  tf_regs :: push_regs
  tf_es :: u16
  tf_ds :: u16
  tf_trapno :: u32
  tf_err :: u32
  tf_eip :: u32
  tf_cs :: u16
  tf_eflags :: u32
  tf_esp :: u32
  tf_ss :: u16

definition zero_regs :: push_regs where
  "zero_regs = \<lparr>reg_edi = 0, reg_esi = 0, reg_ebp = 0, reg_oesp = 0, reg_ebx = 0, reg_edx = 0,
     reg_ecx = 0, reg_eax = 0\<rparr>"

definition zero_tf :: trapframe where
  "zero_tf = \<lparr>tf_regs = zero_regs, tf_es = 0, tf_ds = 0, tf_trapno = 0, tf_err = 0, tf_eip = 0,
     tf_cs = 0, tf_eflags = 0, tf_esp = 0, tf_ss = 0\<rparr>"

section \<open>Pages, environments, CPUs\<close>

record page_info =
  pp_link :: "nat option"
  pp_ref :: u16

datatype env_status = ENV_FREE | ENV_DYING | ENV_RUNNABLE | ENV_RUNNING | ENV_NOT_RUNNABLE

datatype env_type = ENV_TYPE_USER

abbreviation (input) NENV :: nat where "NENV \<equiv> 1024"
abbreviation (input) MAX_PRIORITY :: int where "MAX_PRIORITY \<equiv> 5"
abbreviation (input) MIN_PRIORITY :: int where "MIN_PRIORITY \<equiv> 0"

definition ENVX :: "u32 \<Rightarrow> nat" where
  "ENVX envid = unat (envid AND 0x3FF)"

record env =
  env_tf :: trapframe
  env_link :: "nat option"
  env_id :: u32
  env_parent_id :: u32
  env_ty :: env_type
  env_status :: env_status
  env_runs :: u32
  env_cpunum :: int
  env_pgdir :: "nat option"
  env_pgfault_upcall :: u32
  env_ipc_recving :: bool
  env_ipc_dstva :: u32
  env_ipc_value :: u32
  env_ipc_from :: u32
  env_ipc_perm :: u32
  env_priority :: int

definition zero_env :: env where
  "zero_env = \<lparr>env_tf = zero_tf, env_link = None, env_id = 0, env_parent_id = 0,
     env_ty = ENV_TYPE_USER, env_status = ENV_FREE, env_runs = 0, env_cpunum = 0, env_pgdir = None,
     env_pgfault_upcall = 0, env_ipc_recving = False, env_ipc_dstva = 0, env_ipc_value = 0,
     env_ipc_from = 0, env_ipc_perm = 0, env_priority = 0\<rparr>"

datatype cpu_status = CPU_UNUSED | CPU_STARTED | CPU_HALTED

record cpu_info =
  cpu_status :: cpu_status
  cpu_env :: "nat option"

record spinlock =
  locked :: u32
  lock_cpu :: "nat option"

record sched_stats =
  history :: "int list"
  scheduler_calls :: int
  process_execution_count :: "int list"
  history_index :: int
  total_boots :: int

definition zero_sched_stats :: sched_stats where
  "zero_sched_stats = \<lparr>history = replicate NENV 0, scheduler_calls = 0,
     process_execution_count = replicate NENV 0, history_index = 0, total_boots = 0\<rparr>"

section \<open>The kernel state\<close>

text \<open>
  \<open>cr3\<close> is the page directory the running CPU uses; \<open>invlpgs\<close> records the addresses whose
  translation was flushed; \<open>nextfree\<close> and \<open>mmio_base\<close> are the static variables of
  \<open>boot_alloc\<close> and \<open>mmio_map_region\<close>.
\<close>

record kstate =
  npages :: nat
  pages :: "page_info list"
  page_free_list :: "nat option"
  phys :: "nat \<Rightarrow> nat \<Rightarrow> u32"
  kern_pgdir :: nat
  cr3 :: nat
  invlpgs :: "u32 list"
  nextfree :: "u32 option"
  mmio_base :: u32
  user_mem_check_addr :: u32
  envs :: "env list"
  env_free_list :: "nat option"
  cpus :: "cpu_info list"
  thiscpu :: nat
  kernel_lock :: spinlock
  sched_stats :: sched_stats

definition curenv :: "kstate \<Rightarrow> nat option" where
  "curenv s = cpu_env (cpus s ! thiscpu s)"

definition set_curenv :: "nat option \<Rightarrow> kstate \<Rightarrow> kstate" where
  "set_curenv e s = s\<lparr>cpus := (cpus s)[thiscpu s := (cpus s ! thiscpu s)\<lparr>cpu_env := e\<rparr>]\<rparr>"

definition upd_env :: "nat \<Rightarrow> (env \<Rightarrow> env) \<Rightarrow> kstate \<Rightarrow> kstate" where
  "upd_env i f s = s\<lparr>envs := (envs s)[i := f (envs s ! i)]\<rparr>"

definition upd_page :: "nat \<Rightarrow> (page_info \<Rightarrow> page_info) \<Rightarrow> kstate \<Rightarrow> kstate" where
  "upd_page p f s = s\<lparr>pages := (pages s)[p := f (pages s ! p)]\<rparr>"

definition write_word :: "nat \<Rightarrow> nat \<Rightarrow> u32 \<Rightarrow> kstate \<Rightarrow> kstate" where
  "write_word p i w s = s\<lparr>phys := (phys s)(p := (phys s p)(i := w))\<rparr>"

end
