(* ===== verification/KPmap.thy ===== *)
theory KPmap
  imports KTypes
begin

text \<open>
  Physical pages and page tables: the functions of \<^verbatim>\<open>src/3-sched/kern/pmap.c\<close> and the inline
  helpers of \<^verbatim>\<open>kern/pmap.h\<close>. A function that may panic or follow a bad pointer returns a fault;
  a pointer to a page table entry is the pair of the physical page and the entry's index in it.
\<close>

section \<open>Detecting memory\<close>

text \<open>
  \<open>i386_detect_memory\<close> from the three values the CMOS returns (in kilobytes; the last is
  \<open>nvram_read(NVRAM_EXT16LO)\<close>), giving \<open>npages\<close> and \<open>npages_basemem\<close>.
\<close>

definition nvram_read :: "(nat \<Rightarrow> u32) \<Rightarrow> nat \<Rightarrow> u32" where
  "nvram_read mc146818_read r = mc146818_read r OR push_bit 8 (mc146818_read (r + 1))"

definition i386_detect_memory :: "u32 \<Rightarrow> u32 \<Rightarrow> u32 \<Rightarrow> u32 \<times> u32" where
  "i386_detect_memory basemem extmem nvram_ext16 =
     (let ext16mem = nvram_ext16 * 64;
          totalmem = (if ext16mem \<noteq> 0 then 16 * 1024 + ext16mem
                      else if extmem \<noteq> 0 then 1024 + extmem else basemem)
      in (totalmem div 4, basemem div 4))"

section \<open>Address conversions\<close>

definition PADDR :: "u32 \<Rightarrow> u32 cres" where
  "PADDR kva = bindR (guardR (KERNBASE \<le> kva) (Panic ''PADDR called with invalid kva''))
     (\<lambda>_. Inr (kva - KERNBASE))"

definition KADDR :: "kstate \<Rightarrow> u32 \<Rightarrow> u32 cres" where
  "KADDR s pa = bindR (guardR (PGNUM pa < npages s) (Panic ''KADDR called with invalid pa''))
     (\<lambda>_. Inr (pa + KERNBASE))"

definition page2pa :: "nat \<Rightarrow> u32" where
  "page2pa p = push_bit 12 (word_of_nat p)"

definition pa2page :: "kstate \<Rightarrow> u32 \<Rightarrow> nat cres" where
  "pa2page s pa = bindR (guardR (PGNUM pa < npages s) (Panic ''pa2page called with invalid pa''))
     (\<lambda>_. Inr (PGNUM pa))"

section \<open>Boot-time allocation\<close>

text \<open>\<open>kend\<close> is the linker symbol \<open>end\<close>.\<close>

definition boot_alloc :: "u32 \<Rightarrow> u32 \<Rightarrow> kstate \<Rightarrow> (u32 \<times> kstate) cres" where
  "boot_alloc kend n s =
     (let nf = (case nextfree s of None \<Rightarrow> ROUNDUP kend PGSIZE | Some a \<Rightarrow> a)
      in bindR (PADDR (nf + n)) (\<lambda>lst.
         bindR (guardR (lst < PGSIZE * word_of_nat (npages s)) (Panic ''boot_alloc: Not enough memory''))
           (\<lambda>_. bindR (KADDR s lst) (\<lambda>kva.
             Inr (nf, s\<lparr>nextfree := Some (ROUNDUP kva PGSIZE)\<rparr>)))))"

text \<open>
  One iteration of the loop of \<open>page_init\<close>; \<open>boot_alloc(0)\<close> is only called for pages of extended
  memory.
\<close>

definition page_init_step :: "u32 \<Rightarrow> nat \<Rightarrow> kstate \<Rightarrow> kstate cres" where
  "page_init_step kend i s0 =
     (let s = upd_page i (\<lambda>p. p\<lparr>pp_link := None\<rparr>) s0;
          release = (\<lambda>s. s\<lparr>pages := (pages s)[i := \<lparr>pp_link = page_free_list s, pp_ref = 0\<rparr>],
                           page_free_list := Some i\<rparr>)
      in if i = 0 then Inr s
         else if PGNUM MPENTRY_PADDR = i then Inr s
         else if PGNUM IOPHYSMEM \<le> i \<and> i < PGNUM EXTPHYSMEM then Inr s
         else if PGNUM EXTPHYSMEM \<le> i then
           bindR (boot_alloc kend 0 s) (\<lambda>(kva, s1).
           bindR (PADDR kva) (\<lambda>pa. if i < PGNUM pa then Inr s1 else Inr (release s1)))
         else Inr (release s))"

definition page_init :: "u32 \<Rightarrow> kstate \<Rightarrow> kstate cres" where
  "page_init kend s = foldR (page_init_step kend) [0..<npages s] s"

section \<open>The page allocator\<close>

definition page_alloc :: "bool \<Rightarrow> kstate \<Rightarrow> (nat option \<times> kstate) cres" where
  "page_alloc zero s =
     (case page_free_list s of
        None \<Rightarrow> Inr (None, s)
      | Some p \<Rightarrow>
          let s1 = upd_page p (\<lambda>i. i\<lparr>pp_link := None\<rparr>) (s\<lparr>page_free_list := pp_link (pages s ! p)\<rparr>)
          in if zero then
               bindR (KADDR s1 (page2pa p)) (\<lambda>_. Inr (Some p, s1\<lparr>phys := (phys s1)(p := (\<lambda>_. 0))\<rparr>))
             else Inr (Some p, s1))"

definition page_free :: "nat \<Rightarrow> kstate \<Rightarrow> kstate cres" where
  "page_free p s =
     bindR (guardR (pp_ref (pages s ! p) = 0) (Panic ''page_free: pp_ref is nonzero'')) (\<lambda>_.
     bindR (guardR (pp_link (pages s ! p) = None) (Panic ''page_free: pp_link is not NULL'')) (\<lambda>_.
       Inr ((upd_page p (\<lambda>i. i\<lparr>pp_link := page_free_list s\<rparr>) s)\<lparr>page_free_list := Some p\<rparr>)))"

definition page_decref :: "nat \<Rightarrow> kstate \<Rightarrow> kstate cres" where
  "page_decref p s =
     (let s1 = upd_page p (\<lambda>i. i\<lparr>pp_ref := pp_ref i - 1\<rparr>) s
      in if pp_ref (pages s1 ! p) = 0 then page_free p s1 else Inr s1)"

definition page_incref :: "nat \<Rightarrow> kstate \<Rightarrow> kstate" where
  "page_incref p s = upd_page p (\<lambda>i. i\<lparr>pp_ref := pp_ref i + 1\<rparr>) s"

section \<open>Page tables\<close>

definition pgdir_walk :: "nat \<Rightarrow> u32 \<Rightarrow> bool \<Rightarrow> kstate \<Rightarrow> ((nat \<times> nat) option \<times> kstate) cres" where
  "pgdir_walk pgdir va create s =
     (let pdx = PDX va
      in bindR
        (if phys s pgdir pdx = 0 \<and> create then
           bindR (page_alloc True s) (\<lambda>(page, s1).
             case page of
               None \<Rightarrow> Inr s1
             | Some p \<Rightarrow>
                 Inr (write_word pgdir pdx (page2pa p OR PTE_P OR PTE_W OR PTE_U) (page_incref p s1)))
         else Inr s)
        (\<lambda>s2. if phys s2 pgdir pdx \<noteq> 0 then
                bindR (KADDR s2 (PTE_ADDR (phys s2 pgdir pdx)))
                  (\<lambda>_. Inr (Some (PGNUM (PTE_ADDR (phys s2 pgdir pdx)), PTX va), s2))
              else Inr (None, s2)))"

text \<open>
  \<open>page_lookup\<close> does not create tables, so it leaves the state alone; it returns the page and the
  entry, which is what \<open>pte_store\<close> receives. The source tests \<open>*pte && PTE_P\<close>, that is, whether
  the entry is not zero.
\<close>

definition page_lookup :: "nat \<Rightarrow> u32 \<Rightarrow> kstate \<Rightarrow> (nat \<times> nat \<times> nat) option cres" where
  "page_lookup pgdir va s =
     bindR (pgdir_walk pgdir va False s) (\<lambda>(pte, _).
       case pte of
         None \<Rightarrow> Inr None
       | Some (t, i) \<Rightarrow>
           if phys s t i = 0 then Inr None
           else bindR (pa2page s (PTE_ADDR (phys s t i))) (\<lambda>p. Inr (Some (p, t, i))))"

definition tlb_invalidate :: "nat \<Rightarrow> u32 \<Rightarrow> kstate \<Rightarrow> kstate" where
  "tlb_invalidate pgdir va s =
     (if curenv s = None \<or> env_pgdir (envs s ! the (curenv s)) = Some pgdir
      then s\<lparr>invlpgs := va # invlpgs s\<rparr> else s)"

definition page_remove :: "nat \<Rightarrow> u32 \<Rightarrow> kstate \<Rightarrow> kstate cres" where
  "page_remove pgdir va s =
     bindR (page_lookup pgdir va s) (\<lambda>found.
       case found of
         None \<Rightarrow> Inr s
       | Some (p, t, i) \<Rightarrow>
           bindR (page_decref p s) (\<lambda>s1. Inr (tlb_invalidate pgdir va (write_word t i 0 s1))))"

definition page_insert :: "nat \<Rightarrow> nat \<Rightarrow> u32 \<Rightarrow> u32 \<Rightarrow> kstate \<Rightarrow> (int \<times> kstate) cres" where
  "page_insert pgdir pp va perm s =
     bindR (pgdir_walk pgdir va True s) (\<lambda>(pte, s1).
       case pte of
         None \<Rightarrow> Inr (- E_NO_MEM, s1)
       | Some (t, i) \<Rightarrow>
           bindR (page_remove pgdir va (page_incref pp s1)) (\<lambda>s2.
             Inr (0, write_word t i (page2pa pp OR perm OR PTE_P) s2)))"

section \<open>Static mappings\<close>

text \<open>
  The addresses \<open>lo, lo + PGSIZE, \<dots>\<close> below \<open>hi\<close> of a \<open>for\<close> loop over pages; the callers' \<open>hi\<close> are
  multiples of the page size, so the counter never wraps.
\<close>

definition va_range :: "u32 \<Rightarrow> u32 \<Rightarrow> u32 list" where
  "va_range lo hi = map (\<lambda>i. lo + word_of_nat i * PGSIZE) [0..<(unat hi - unat lo + 4095) div 4096]"

definition boot_map_step :: "nat \<Rightarrow> u32 \<Rightarrow> u32 \<Rightarrow> u32 \<Rightarrow> u32 \<Rightarrow> kstate \<Rightarrow> kstate cres" where
  "boot_map_step pgdir va pa perm i s =
     bindR (pgdir_walk pgdir (va + i) True s) (\<lambda>(pte, s1).
     bindR (page_remove pgdir (va + i) s1) (\<lambda>s2.
       case pte of
         None \<Rightarrow> Inl NullDeref
       | Some (t, k) \<Rightarrow> Inr (write_word t k ((pa + i) OR perm OR PTE_P) s2)))"

definition boot_map_region :: "nat \<Rightarrow> u32 \<Rightarrow> u32 \<Rightarrow> u32 \<Rightarrow> u32 \<Rightarrow> kstate \<Rightarrow> kstate cres" where
  "boot_map_region pgdir va sz pa perm s =
     foldR (boot_map_step pgdir va pa perm) (va_range 0 sz) s"

definition mmio_map_region :: "u32 \<Rightarrow> u32 \<Rightarrow> kstate \<Rightarrow> (u32 \<times> kstate) cres" where
  "mmio_map_region pa sz s =
     (let pa' = ROUNDDOWN pa PGSIZE; sz' = ROUNDUP sz PGSIZE; base = mmio_base s
      in bindR (guardR (base + sz' < MMIOLIM) (Panic ''mmio_map_region: MMIOLIMIT overflow'')) (\<lambda>_.
         bindR (boot_map_region (kern_pgdir s) base sz' pa' (PTE_W OR PTE_P OR PTE_PCD OR PTE_PWT) s)
           (\<lambda>s1. Inr (base, s1\<lparr>mmio_base := base + sz'\<rparr>))))"

section \<open>Checking user memory\<close>

fun user_mem_scan :: "nat \<Rightarrow> u32 \<Rightarrow> u32 \<Rightarrow> u32 list \<Rightarrow> kstate \<Rightarrow> (int \<times> kstate) cres" where
  "user_mem_scan pgdir va_lo perm [] s = Inr (0, s)"
| "user_mem_scan pgdir va_lo perm (va_act # vas) s =
     bindR (pgdir_walk pgdir va_act False s) (\<lambda>(pte, _).
       case pte of
         None \<Rightarrow> Inr (- E_FAULT,
           s\<lparr>user_mem_check_addr := (if va_act > va_lo then va_act else va_lo)\<rparr>)
       | Some (t, i) \<Rightarrow>
           if phys s t i AND (perm OR PTE_P) \<noteq> perm OR PTE_P then
             Inr (- E_FAULT, s\<lparr>user_mem_check_addr := (if va_act > va_lo then va_act else va_lo)\<rparr>)
           else user_mem_scan pgdir va_lo perm vas s)"

text \<open>
  The comment above the function names \<open>ULIM\<close> as the limit and promises the first erroneous address; the code
  compares with \<open>UTOP\<close>, and when the range ends above it, it records \<open>va\<close> whatever page is the first bad one.
\<close>

definition user_mem_check :: "nat \<Rightarrow> u32 \<Rightarrow> u32 \<Rightarrow> u32 \<Rightarrow> kstate \<Rightarrow> (int \<times> kstate) cres" where
  "user_mem_check e va len perm s =
     (let va_hi = ROUNDUP (va + len) PGSIZE
      in if va_hi > UTOP then Inr (- E_FAULT, s\<lparr>user_mem_check_addr := va\<rparr>)
         else if va_range (ROUNDDOWN va PGSIZE) va_hi = [] then Inr (0, s)
         else case env_pgdir (envs s ! e) of
                None \<Rightarrow> Inl NullDeref
              | Some pgdir \<Rightarrow> user_mem_scan pgdir va perm (va_range (ROUNDDOWN va PGSIZE) va_hi) s)"

end
