(* ===== verification/KEnv.thy ===== *)
theory KEnv
  imports KPmap
begin

text \<open>
  Environments: the functions of \<^verbatim>\<open>src/3-sched/kern/env.c\<close> that do not schedule, and the big
  kernel lock of \<^verbatim>\<open>kern/spinlock.c\<close>. Loading segment registers, printing and the final
  \<open>iret\<close> of \<open>context_switch\<close> have no counterpart; loading \<open>%cr3\<close> sets \<open>cr3\<close>.
\<close>

section \<open>The kernel lock\<close>

definition holding :: "kstate \<Rightarrow> bool" where
  "holding s \<longleftrightarrow> locked (kernel_lock s) \<noteq> 0 \<and> lock_cpu (kernel_lock s) = Some (thiscpu s)"

text \<open>
  One turn of \<open>spin_lock\<close>: with the debugging checks compiled in, it panics when this CPU holds the
  lock; otherwise the exchange either acquires the lock (\<open>True\<close>) or the CPU spins (\<open>False\<close>).
\<close>

definition spin_lock :: "kstate \<Rightarrow> (bool \<times> kstate) cres" where
  "spin_lock s =
     bindR (guardR (\<not> holding s) (Panic ''already holding'')) (\<lambda>_.
       if locked (kernel_lock s) = 0
       then Inr (True, s\<lparr>kernel_lock := \<lparr>locked = 1, lock_cpu = Some (thiscpu s)\<rparr>\<rparr>)
       else Inr (False, s\<lparr>kernel_lock := (kernel_lock s)\<lparr>locked := 1\<rparr>\<rparr>))"

definition spin_unlock :: "kstate \<Rightarrow> kstate cres" where
  "spin_unlock s =
     bindR (guardR (holding s) (Panic ''spin_unlock''))
       (\<lambda>_. Inr (s\<lparr>kernel_lock := \<lparr>locked = 0, lock_cpu = None\<rparr>\<rparr>))"

section \<open>Identifiers\<close>

definition envid2env :: "u32 \<Rightarrow> bool \<Rightarrow> kstate \<Rightarrow> (int \<times> nat option) cres" where
  "envid2env envid checkperm s =
     (if envid = 0 then Inr (0, curenv s)
      else let i = ENVX envid; e = envs s ! i
        in if env_status e = ENV_FREE \<or> env_id e \<noteq> envid then Inr (- E_BAD_ENV, None)
           else if checkperm \<and> curenv s \<noteq> Some i then
             (case curenv s of
                None \<Rightarrow> Inl NullDeref
              | Some c \<Rightarrow>
                  if env_parent_id e \<noteq> env_id (envs s ! c) then Inr (- E_BAD_ENV, None)
                  else Inr (0, Some i))
           else Inr (0, Some i))"

section \<open>Initialisation\<close>

definition env_init :: "kstate \<Rightarrow> kstate" where
  "env_init s =
     (let s1 = foldl (\<lambda>s i. upd_env i (\<lambda>e. e\<lparr>env_id := 0, env_status := ENV_FREE,
                 env_link := Some (i + 1)\<rparr>) s) s [0..<NENV]
      in (upd_env (NENV - 1) (\<lambda>e. e\<lparr>env_link := None\<rparr>) s1)\<lparr>env_free_list := Some 0\<rparr>)"

section \<open>Allocation\<close>

definition env_setup_vm :: "nat \<Rightarrow> kstate \<Rightarrow> (int \<times> kstate) cres" where
  "env_setup_vm e s =
     bindR (page_alloc True s) (\<lambda>(page, s1).
       case page of
         None \<Rightarrow> Inr (- E_NO_MEM, s1)
       | Some p \<Rightarrow>
           bindR (KADDR s1 (page2pa p)) (\<lambda>_.
             let s2 = upd_env e (\<lambda>x. x\<lparr>env_pgdir := Some p\<rparr>) s1;
                 s3 = page_incref p (s2\<lparr>phys := (phys s2)(p := phys s2 (kern_pgdir s2))\<rparr>)
             in Inr (0, write_word p (PDX UVPT) (page2pa p OR PTE_P OR PTE_U) s3)))"

text \<open>The identifier of a new environment in slot \<open>e\<close> whose last identifier was \<open>old\<close>.\<close>

definition next_env_id :: "u32 \<Rightarrow> nat \<Rightarrow> u32" where
  "next_env_id old e =
     (let generation = (old + 0x1000) AND NOT 0x3FF
      in (if sint generation \<le> 0 then 0x1000 else generation) OR word_of_nat e)"

definition user_tf :: trapframe where
  "user_tf = zero_tf\<lparr>tf_ds := GD_UD OR 3, tf_es := GD_UD OR 3, tf_ss := GD_UD OR 3,
     tf_esp := USTACKTOP, tf_cs := GD_UT OR 3, tf_eflags := FL_IF\<rparr>"

definition env_alloc :: "u32 \<Rightarrow> kstate \<Rightarrow> (int \<times> nat option \<times> kstate) cres" where
  "env_alloc parent_id s =
     (case env_free_list s of
        None \<Rightarrow> Inr (- E_NO_FREE_ENV, None, s)
      | Some e \<Rightarrow>
          bindR (env_setup_vm e s) (\<lambda>(r, s1).
            if r < 0 then Inr (r, None, s1)
            else
              let s2 = upd_env e (\<lambda>x. x\<lparr>env_id := next_env_id (env_id x) e,
                         env_parent_id := parent_id, env_ty := ENV_TYPE_USER,
                         env_status := ENV_RUNNABLE, env_runs := 0\<rparr>) s1
              in bindR (envid2env parent_id False s2) (\<lambda>(_, parent).
                let prio = (case parent of None \<Rightarrow> MAX_PRIORITY | Some p \<Rightarrow> env_priority (envs s2 ! p));
                    s3 = upd_env e (\<lambda>x. x\<lparr>env_priority := prio, env_tf := user_tf,
                           env_pgfault_upcall := 0, env_ipc_recving := False\<rparr>) s2
                in Inr (0, Some e, s3\<lparr>env_free_list := env_link (envs s3 ! e)\<rparr>))))"

text \<open>\<open>region_alloc\<close> maps fresh pages over a range; it panics when it cannot.\<close>

definition region_alloc_step :: "nat \<Rightarrow> u32 \<Rightarrow> kstate \<Rightarrow> kstate cres" where
  "region_alloc_step pgdir va s =
     bindR (page_alloc False s) (\<lambda>(page, s1).
       case page of
         None \<Rightarrow> Inl (Panic ''region_alloc: could not alloc page'')
       | Some p \<Rightarrow>
           bindR (page_insert pgdir p va (PTE_U OR PTE_W) s1) (\<lambda>(r, s2).
             if r \<noteq> 0 then Inl (Panic ''region_alloc: page_insert falied'') else Inr s2))"

definition region_alloc :: "nat \<Rightarrow> u32 \<Rightarrow> u32 \<Rightarrow> kstate \<Rightarrow> kstate cres" where
  "region_alloc e va len s =
     (let va_lo = ROUNDDOWN va PGSIZE; va_hi = ROUNDUP (va + len) PGSIZE
      in if va_hi > UTOP then Inl (Panic ''region_alloc: cannot map in high va'')
         else case env_pgdir (envs s ! e) of
                None \<Rightarrow> if va_range va_lo va_hi = [] then Inr s else Inl NullDeref
              | Some pgdir \<Rightarrow> foldR (region_alloc_step pgdir) (va_range va_lo va_hi) s)"

section \<open>Freeing\<close>

definition env_free_pte :: "nat \<Rightarrow> nat \<Rightarrow> nat \<Rightarrow> nat \<Rightarrow> kstate \<Rightarrow> kstate cres" where
  "env_free_pte pgdir pdeno pt pteno s =
     (if phys s pt pteno AND PTE_P \<noteq> 0 then page_remove pgdir (PGADDR pdeno pteno 0) s else Inr s)"

definition env_free_pde :: "nat \<Rightarrow> nat \<Rightarrow> kstate \<Rightarrow> kstate cres" where
  "env_free_pde pgdir pdeno s =
     (if phys s pgdir pdeno AND PTE_P = 0 then Inr s
      else let pa = PTE_ADDR (phys s pgdir pdeno)
        in bindR (KADDR s pa) (\<lambda>_.
           bindR (foldR (env_free_pte pgdir pdeno (PGNUM pa)) [0..<1024] s) (\<lambda>s1.
             let s2 = write_word pgdir pdeno 0 s1
             in bindR (pa2page s2 pa) (\<lambda>p. page_decref p s2))))"

definition env_free :: "nat \<Rightarrow> kstate \<Rightarrow> kstate cres" where
  "env_free e s =
     (let s0 = (if curenv s = Some e then s\<lparr>cr3 := kern_pgdir s\<rparr> else s)
      in case env_pgdir (envs s0 ! e) of
           None \<Rightarrow> Inl NullDeref
         | Some pgdir \<Rightarrow>
             bindR (foldR (env_free_pde pgdir) [0..<PDX UTOP] s0) (\<lambda>s1.
               let s2 = upd_env e (\<lambda>x. x\<lparr>env_pgdir := None\<rparr>) s1
               in bindR (pa2page s2 (page2pa pgdir)) (\<lambda>p.
                  bindR (page_decref p s2) (\<lambda>s3.
                    Inr ((upd_env e (\<lambda>x. x\<lparr>env_status := ENV_FREE, env_link := env_free_list s3\<rparr>) s3)
                           \<lparr>env_free_list := Some e\<rparr>)))))"

section \<open>Running\<close>

text \<open>
  How a CPU leaves the kernel when a function does not return: it resumes an environment, halts
  until an interrupt, or stays in the kernel monitor.
\<close>

datatype resume = Resume nat | Halted | Monitor

definition env_load_pgdir :: "nat \<Rightarrow> kstate \<Rightarrow> kstate cres" where
  "env_load_pgdir e s =
     (case env_pgdir (envs s ! e) of
        None \<Rightarrow> Inl (Panic ''PADDR called with invalid kva'')
      | Some p \<Rightarrow> Inr (s\<lparr>cr3 := p\<rparr>))"

definition env_run :: "nat \<Rightarrow> kstate \<Rightarrow> (resume \<times> kstate) cres" where
  "env_run e s =
     (let s1 = (case curenv s of
                  None \<Rightarrow> s
                | Some c \<Rightarrow> if env_status (envs s ! c) = ENV_RUNNING
                            then upd_env c (\<lambda>x. x\<lparr>env_status := ENV_RUNNABLE\<rparr>) s else s);
          s2 = set_curenv (Some e) s1;
          s3 = upd_env e (\<lambda>x. x\<lparr>env_status := ENV_RUNNING, env_runs := env_runs x + 1\<rparr>) s2
      in bindR (env_load_pgdir e s3) (\<lambda>s4.
         bindR (spin_unlock s4) (\<lambda>s5.
           Inr (Resume e, upd_env e (\<lambda>x. x\<lparr>env_cpunum := int (thiscpu s5)\<rparr>) s5))))"

end
