(* ===== verification/KSched.thy ===== *)
theory KSched
  imports KEnv
begin

text \<open>
  The scheduler of \<^verbatim>\<open>src/3-sched/kern/sched.c\<close> in both its compile-time variants, and
  \<open>env_destroy\<close> of \<^verbatim>\<open>kern/env.c\<close>, which schedules when the current environment dies.
\<close>

abbreviation (input) BOOST_INTERVAL :: int where "BOOST_INTERVAL \<equiv> 20"
abbreviation (input) MAX_EXECUTIONS_SLICE :: int where "MAX_EXECUTIONS_SLICE \<equiv> 3"

text \<open>The build defines exactly one of the two symbols (round robin unless told otherwise).\<close>

datatype sched_config = SCHED_ROUND_ROBIN | SCHED_PRIORITIES

section \<open>Statistics\<close>

definition upd_stats :: "(sched_stats \<Rightarrow> sched_stats) \<Rightarrow> kstate \<Rightarrow> kstate" where
  "upd_stats f s = s\<lparr>sched_stats := f (sched_stats s)\<rparr>"

definition add_counts_to_sched :: "int \<Rightarrow> kstate \<Rightarrow> kstate cres" where
  "add_counts_to_sched index s =
     bindR (guardR (0 \<le> index \<and> index < int NENV) OutOfBounds) (\<lambda>_.
       let i = ENVX (env_id (envs s ! nat index));
           st = sched_stats s;
           h = history_index st
       in bindR (guardR (0 \<le> h \<and> h < int NENV) OutOfBounds) (\<lambda>_.
            Inr (upd_stats (\<lambda>st. st\<lparr>
              process_execution_count := (process_execution_count st)
                [i := c_int (process_execution_count st ! i + 1)],
              history_index := h + 1,
              history := (history st)[nat h := int i]\<rparr>) s)))"

definition boost_all_envs :: "kstate \<Rightarrow> kstate" where
  "boost_all_envs s =
     s\<lparr>envs := map (\<lambda>e. if env_status e \<noteq> ENV_FREE \<and> env_priority e < MAX_PRIORITY
                       then e\<lparr>env_priority := env_priority e + 1\<rparr> else e) (envs s)\<rparr>"

section \<open>Halting\<close>

definition sched_halt :: "kstate \<Rightarrow> (resume \<times> kstate) cres" where
  "sched_halt s =
     (if find (\<lambda>i. env_status (envs s ! i) \<in> {ENV_RUNNABLE, ENV_RUNNING, ENV_DYING}) [0..<NENV] = None
      then Inr (Monitor, s)
      else
        let s1 = (set_curenv None s)\<lparr>cr3 := kern_pgdir s\<rparr>;
            s2 = s1\<lparr>cpus := (cpus s1)[thiscpu s1 := (cpus s1 ! thiscpu s1)\<lparr>cpu_status := CPU_HALTED\<rparr>]\<rparr>
        in bindR (spin_unlock s2) (\<lambda>s3. Inr (Halted, s3)))"

section \<open>Choosing an environment\<close>

definition sched_start :: "kstate \<Rightarrow> nat" where
  "sched_start s = (case curenv s of None \<Rightarrow> 0 | Some c \<Rightarrow> ENVX (env_id (envs s ! c)))"

text \<open>The part of \<open>sched_yield\<close> after both variants: keep the current environment, or halt.\<close>

definition sched_rest :: "kstate \<Rightarrow> (resume \<times> kstate) cres" where
  "sched_rest s =
     (case curenv s of
        Some c \<Rightarrow> if env_status (envs s ! c) = ENV_RUNNING then env_run c s else sched_halt s
      | None \<Rightarrow> sched_halt s)"

definition sched_round_robin :: "nat \<Rightarrow> kstate \<Rightarrow> (resume \<times> kstate) cres" where
  "sched_round_robin start s =
     (case find (\<lambda>i. env_status (envs s ! ((start + i) mod NENV)) = ENV_RUNNABLE) [0..<NENV] of
        Some i \<Rightarrow>
          let index = (start + i) mod NENV
          in bindR (add_counts_to_sched (int index) s) (\<lambda>s1. env_run index s1)
      | None \<Rightarrow> sched_rest s)"

text \<open>One iteration of the search for the best priority: the best environment so far and its priority.\<close>

definition best_step :: "kstate \<Rightarrow> nat \<Rightarrow> nat option \<times> int \<Rightarrow> nat \<Rightarrow> nat option \<times> int" where
  "best_step s start best i =
     (let index = (start + i) mod NENV; e = envs s ! index
      in if env_status e = ENV_RUNNABLE \<and> (fst best = None \<or> env_priority e > snd best)
         then (Some index, env_priority e) else best)"

definition best_env :: "kstate \<Rightarrow> nat \<Rightarrow> nat option" where
  "best_env s start = fst (foldl (best_step s start) (None, MIN_PRIORITY) [0..<NENV])"

text \<open>
  The source passes the identifier of the chosen environment where an index is expected, and
  indexes the execution counts with it as well.
\<close>

definition sched_priorities :: "nat \<Rightarrow> kstate \<Rightarrow> (resume \<times> kstate) cres" where
  "sched_priorities start s =
     (let s1 = (if scheduler_calls (sched_stats s) \<ge> BOOST_INTERVAL
                then upd_stats (\<lambda>st. st\<lparr>total_boots := c_int (total_boots st + 1)\<rparr>) (boost_all_envs s)
                else s)
      in case best_env s1 start of
           Some b \<Rightarrow>
             let id = sint (env_id (envs s1 ! b))
             in bindR (add_counts_to_sched id s1) (\<lambda>s2.
                bindR (guardR (0 \<le> id \<and> id < int NENV) OutOfBounds) (\<lambda>_.
                  let s3 = (if process_execution_count (sched_stats s2) ! nat id mod MAX_EXECUTIONS_SLICE = 0
                              \<and> env_priority (envs s2 ! b) > MIN_PRIORITY
                            then upd_env b (\<lambda>e. e\<lparr>env_priority := env_priority e - 1\<rparr>) s2 else s2)
                  in env_run b s3))
         | None \<Rightarrow> sched_rest s1)"

definition sched_yield :: "sched_config \<Rightarrow> kstate \<Rightarrow> (resume \<times> kstate) cres" where
  "sched_yield cfg s =
     (let s0 = upd_stats (\<lambda>st. st\<lparr>scheduler_calls := c_int (scheduler_calls st + 1)\<rparr>) s;
          start = sched_start s0
      in case cfg of
           SCHED_ROUND_ROBIN \<Rightarrow> sched_round_robin start s0
         | SCHED_PRIORITIES \<Rightarrow> sched_priorities start s0)"

section \<open>Destroying an environment\<close>

text \<open>\<open>None\<close>: the function returned to its caller; \<open>Some r\<close>: it did not, and the CPU continued with \<open>r\<close>.\<close>

definition env_destroy :: "sched_config \<Rightarrow> nat \<Rightarrow> kstate \<Rightarrow> (resume option \<times> kstate) cres" where
  "env_destroy cfg e s =
     (if env_status (envs s ! e) = ENV_RUNNING \<and> curenv s \<noteq> Some e
      then Inr (None, upd_env e (\<lambda>x. x\<lparr>env_status := ENV_DYING\<rparr>) s)
      else bindR (env_free e s) (\<lambda>s1.
        if curenv s1 = Some e then
          bindR (sched_yield cfg (set_curenv None s1)) (\<lambda>(r, s2). Inr (Some r, s2))
        else Inr (None, s1)))"

definition user_mem_assert ::
  "sched_config \<Rightarrow> nat \<Rightarrow> u32 \<Rightarrow> u32 \<Rightarrow> u32 \<Rightarrow> kstate \<Rightarrow> (resume option \<times> kstate) cres" where
  "user_mem_assert cfg e va len perm s =
     bindR (user_mem_check e va len (perm OR PTE_U) s) (\<lambda>(r, s1).
       if r < 0 then env_destroy cfg e s1 else Inr (None, s1))"

end
