(* ===== verification/KAddr.thy ===== *)
theory KAddr
  imports KPmap
begin

text \<open>
  Address arithmetic of \<^verbatim>\<open>src/3-sched/inc/mmu.h\<close> in terms of natural numbers: the parts of an
  address, and the page and permission parts of a page table entry.
\<close>

lemma mask12: "(0xFFF::u32) = mask 12" by (simp add: mask_eq_exp_minus_1)
lemma mask10: "(0x3FF::u32) = mask 10" by (simp add: mask_eq_exp_minus_1)

lemma unat_u32: "unat (w::u32) < 4294967296"
  using unsigned_less [of w, where 'a = nat] by simp

lemma unat_drop: "unat (drop_bit n (w::u32)) = unat w div 2 ^ n"
  using drop_bit_eq_div [of n "unat w"] by (simp only: unat_drop_bit_eq)

lemma unat_low: "unat (w AND mask n :: u32) = unat w mod 2 ^ n"
  using take_bit_eq_mod [of n "unat w"] unsigned_take_bit_eq [of n w, where 'a = nat]
  by (simp only: take_bit_eq_mask [symmetric])

lemma PGNUM_div: "PGNUM w = unat w div 4096"
  by (simp add: PGNUM_def unat_drop)

lemma PTX_mod: "PTX w = unat w div 4096 mod 1024"
  by (simp add: PTX_def unat_drop mask10 unat_low)

lemma PDX_div: "PDX w = unat w div 4194304"
  using unat_u32 [of w] by (simp add: PDX_def unat_drop mask10 unat_low)

lemma PGNUM_bound: "PGNUM w < 1048576"
  using unat_u32 [of w] by (simp add: PGNUM_div)

lemma PDX_bound [simp]: "PDX w < 1024"
  using unat_u32 [of w] by (simp add: PDX_div)

lemma PTX_bound [simp]: "PTX w < 1024"
  by (simp add: PTX_mod)

lemma PGNUM_split: "PGNUM w = 1024 * PDX w + PTX w"
  using div_mult2_eq [of "unat w" 4096 1024] by (simp add: PGNUM_div PTX_mod PDX_div)

lemma PDX_PGNUM: "PDX w = PGNUM w div 1024"
  using div_mult2_eq [of "unat w" 4096 1024] by (simp add: PGNUM_div PDX_div)

lemma PTX_PGNUM: "PTX w = PGNUM w mod 1024"
  by (simp add: PGNUM_div PTX_mod)

lemma PGNUM_eq_iff: "PGNUM v = PGNUM w \<longleftrightarrow> PDX v = PDX w \<and> PTX v = PTX w"
  by (metis PDX_PGNUM PTX_PGNUM PGNUM_split)

lemma unat_of_nat_u32: "n < 4294967296 \<Longrightarrow> unat (word_of_nat n :: u32) = n"
  by (simp only: unsigned_of_nat) (simp add: take_bit_nat_eq_self)

lemma bit_small:
  assumes "a < 2 ^ m" "bit (word_of_nat a :: u32) n"
  shows "n < m"
proof -
  have "bit a n" using assms(2) by (simp add: bit_simps)
  then have "bit (take_bit m a) n" using assms(1) by (simp add: take_bit_nat_eq_self)
  then show ?thesis by (simp add: bit_take_bit_iff)
qed

lemma PGADDR_parts:
  assumes "d < 1024" "t < 1024"
  shows "PDX (PGADDR d t 0) = d" "PTX (PGADDR d t 0) = t"
proof -
  have dt: "d < 2 ^ 10" "t < 2 ^ 10" using assms by simp_all
  have "push_bit 22 (word_of_nat d :: u32) AND push_bit 12 (word_of_nat t) = 0"
    by (rule bit_word_eqI) (auto simp: bit_push_bit_iff bit_and_iff dest: bit_small [OF dt(1)] bit_small [OF dt(2)])
  then have "PGADDR d t 0 = word_of_nat (d * 4194304 + t * 4096)"
    unfolding PGADDR_def by (simp add: disjunctive_add_eq_or [symmetric] push_bit_eq_mult)
  moreover have "d * 4194304 + t * 4096 < 4294967296" using assms by simp
  ultimately have u: "unat (PGADDR d t 0) = d * 4194304 + t * 4096" by (simp only: unat_of_nat_u32)
  show "PDX (PGADDR d t 0) = d" "PTX (PGADDR d t 0) = t"
  proof -
    have "(d * 4194304 + t * 4096) div 4096 = d * 1024 + t"
    proof -
      have "d * 4194304 + t * 4096 = (d * 1024 + t) * 4096" by simp
      then show ?thesis by (simp only: nonzero_mult_div_cancel_right)
    qed
    with assms show "PDX (PGADDR d t 0) = d" "PTX (PGADDR d t 0) = t"
      unfolding PDX_PGNUM PTX_PGNUM PGNUM_div u by simp_all
  qed
qed

lemma low12: "(w::u32) < 0x1000 \<longleftrightarrow> unat w < 4096"
  by (simp add: word_less_nat_alt)

lemma low12_take: "(w::u32) < 0x1000 \<Longrightarrow> take_bit 12 w = w"
  unfolding low12 take_bit_eq_mask
  by (rule unsigned_word_eqI [where 'a = nat]) (simp only: unat_low, simp)

lemma low12_iff: "(w::u32) < 0x1000 \<longleftrightarrow> take_bit 12 w = w"
proof
  assume "take_bit 12 w = w"
  then have "unat w = unat w mod 4096" using unat_low [of w 12] by (simp only: take_bit_eq_mask) simp
  then show "w < 0x1000" unfolding low12 by (metis mod_less_divisor zero_less_numeral)
qed (rule low12_take)

lemma low12_bit: "(w::u32) < 0x1000 \<Longrightarrow> bit w n \<Longrightarrow> n < 12"
  by (metis low12_take bit_take_bit_iff)

lemma PGNUM_PTE_ADDR [simp]: "PGNUM (PTE_ADDR w) = PGNUM w"
proof -
  have "drop_bit 12 (PTE_ADDR w) = drop_bit 12 w"
    unfolding PTE_ADDR_def mask12 
    by (rule bit_word_eqI) (auto simp: bit_simps dest: bit_imp_le_length)
  then show ?thesis by (simp add: PGNUM_def)
qed

lemma page2pa_and: "(w::u32) < 0x1000 \<Longrightarrow> page2pa p AND w = 0"
  unfolding page2pa_def by (rule bit_word_eqI) (auto simp: bit_simps dest: low12_bit)

lemma page2pa_or: "w < 0x1000 \<Longrightarrow> page2pa p OR w = page2pa p + w"
  by (simp add: disjunctive_add_eq_or page2pa_and)

lemma unat_page2pa: "p < 1048576 \<Longrightarrow> unat (page2pa p) = p * 4096"
proof -
  assume p: "p < 1048576"
  have "page2pa p = word_of_nat (p * 4096)" by (simp add: page2pa_def push_bit_eq_mult)
  with p show ?thesis by (simp only: unsigned_of_nat) (simp add: take_bit_nat_eq_self)
qed

lemma unat_pte: "p < 1048576 \<Longrightarrow> w < 0x1000 \<Longrightarrow> unat (page2pa p OR w) = p * 4096 + unat w"
  by (simp add: page2pa_or unat_word_ariths unat_page2pa low12)

lemma PGNUM_pte [simp]: "p < 1048576 \<Longrightarrow> w < 0x1000 \<Longrightarrow> PGNUM (page2pa p OR w) = p"
  by (simp add: PGNUM_div unat_pte low12)

lemma pte_low [simp]: "w < 0x1000 \<Longrightarrow> (page2pa p OR w) AND 0xFFF = w"
  unfolding mask12 page2pa_def by (rule bit_word_eqI) (auto simp: bit_simps dest: low12_bit)
section \<open>Rounding\<close>

lemma unat_ROUNDDOWN: "unat (ROUNDDOWN a PGSIZE) = unat a div 4096 * 4096"
proof -
  have "unat (a mod PGSIZE) = unat a mod 4096" by (simp add: unat_mod)
  moreover from this have "a mod PGSIZE \<le> a" by (simp add: word_le_nat_alt)
  ultimately have "unat (a - a mod PGSIZE) = unat a - unat a mod 4096" by (simp only: unat_sub)
  then show ?thesis unfolding ROUNDDOWN_def by (simp only: minus_mod_eq_div_mult)
qed

lemma unat_ROUNDUP:
  assumes "unat a + 4095 < 4294967296"
  shows "unat (ROUNDUP a PGSIZE) = (unat a + 4095) div 4096 * 4096"
proof -
  have "unat (a + PGSIZE - 1) = unat a + 4095"
  proof -
    have "a + PGSIZE - 1 = a + 0xFFF" by simp
    then show ?thesis using assms by (simp add: unat_word_ariths)
  qed
  then show ?thesis by (simp add: ROUNDUP_def unat_ROUNDDOWN)
qed

lemma ROUNDUP_aligned:
  assumes "unat a mod 4096 = 0"
  shows "ROUNDUP a PGSIZE = a"
proof (rule unsigned_word_eqI [where 'a = nat])
  obtain k where k: "unat a = 4096 * k" using assms by (metis mod_0_imp_dvd dvdE)
  with unat_u32 [of a] have "k \<le> 1048575" by simp
  with k show "unat (ROUNDUP a PGSIZE) = unat a" by (simp add: unat_ROUNDUP)
qed

end
