(* ===== verification/FreeList.thy ===== *)
theory FreeList
  imports Prelude
begin

text \<open>
  Singly linked free lists threaded through an array, as the kernel keeps its free environments
  (\<open>env_link\<close>) and free pages (\<open>pp_link\<close>), and the interface both allocators offer.
\<close>

section \<open>Chains of links\<close>

fun chain :: "(nat \<Rightarrow> nat option) \<Rightarrow> nat option \<Rightarrow> nat list \<Rightarrow> bool" where
  "chain link p [] \<longleftrightarrow> p = None"
| "chain link p (x # xs) \<longleftrightarrow> p = Some x \<and> chain link (link x) xs"

fun unroll :: "(nat \<Rightarrow> nat option) \<Rightarrow> nat \<Rightarrow> nat option \<Rightarrow> nat list" where
  "unroll link 0 p = []"
| "unroll link (Suc n) p = (case p of None \<Rightarrow> [] | Some x \<Rightarrow> x # unroll link n (link x))"

lemma chain_None [simp]: "chain link None xs \<longleftrightarrow> xs = []"
  by (cases xs) auto

lemma chain_Some: "chain link (Some x) xs \<longleftrightarrow> (\<exists>ys. xs = x # ys \<and> chain link (link x) ys)"
  by (cases xs) auto

lemma chain_cong:
  "(\<And>x. x \<in> set xs \<Longrightarrow> link x = link' x) \<Longrightarrow> chain link p xs = chain link' p xs"
  by (induction xs arbitrary: p) auto

lemma chain_unique: "chain link p xs \<Longrightarrow> chain link p ys \<Longrightarrow> xs = ys"
  by (induction xs arbitrary: p ys) (auto simp: chain_Some)

lemma chain_suffix: "chain link p (xs @ y # ys) \<Longrightarrow> chain link (link y) ys"
  by (induction xs arbitrary: p) auto

lemma chain_distinct: "chain link p xs \<Longrightarrow> distinct xs"
proof (induction xs arbitrary: p)
  case (Cons x xs)
  then have tl: "chain link (link x) xs" by simp
  have "x \<notin> set xs"
  proof
    assume "x \<in> set xs"
    then obtain ys zs where xs: "xs = ys @ x # zs" by (auto dest: split_list)
    then have "chain link (link x) zs" using chain_suffix tl by blast
    then have "xs = zs" using chain_unique tl by blast
    with xs show False by simp
  qed
  with Cons.IH [OF tl] show ?case by simp
qed simp

lemma chain_unroll: "chain link p xs \<Longrightarrow> length xs \<le> n \<Longrightarrow> unroll link n p = xs"
proof (induction xs arbitrary: p n)
  case Nil
  then show ?case by (cases n) auto
next
  case (Cons x xs)
  then show ?case by (cases n) auto
qed

lemma chain_bounded: "chain link p xs \<Longrightarrow> set xs \<subseteq> {..<n} \<Longrightarrow> length xs \<le> n"
  using chain_distinct [of link p xs] card_mono [of "{..<n}" "set xs"]
  by (simp add: distinct_card)

section \<open>The allocator interface\<close>

text \<open>
  \<open>acquire\<close> pops the head of the free list or answers \<open>None\<close>; \<open>release\<close> pushes an element that the
  caller holds. \<open>pool s\<close> is the free list of the state \<open>s\<close>.
\<close>

locale free_pool =
  fixes inv :: "'s \<Rightarrow> bool"
    and pool :: "'s \<Rightarrow> nat list"
    and held :: "'s \<Rightarrow> nat \<Rightarrow> bool"
    and acquire :: "'s \<Rightarrow> (nat option \<times> 's) cres"
    and release :: "nat \<Rightarrow> 's \<Rightarrow> 's cres"
  assumes acquire_none: "inv s \<Longrightarrow> pool s = [] \<Longrightarrow> acquire s = Inr (None, s)"
    and acquire_some: "inv s \<Longrightarrow> pool s = x # xs \<Longrightarrow>
      \<exists>s'. acquire s = Inr (Some x, s') \<and> inv s' \<and> pool s' = xs \<and> held s' x"
    and release_held: "inv s \<Longrightarrow> held s x \<Longrightarrow>
      \<exists>s'. release x s = Inr s' \<and> inv s' \<and> pool s' = x # pool s"
    and pool_distinct: "inv s \<Longrightarrow> distinct (pool s)"
begin

lemma release_then_acquire:
  assumes "inv s" "held s x"
  obtains s1 s2 where "release x s = Inr s1" "acquire s1 = Inr (Some x, s2)" "inv s2"
    "pool s2 = pool s"
  using release_held [OF assms] acquire_some by metis

text \<open>\<open>n\<close> allocations in a row, stopping at the first that fails.\<close>

fun acquire_n :: "nat \<Rightarrow> 's \<Rightarrow> (nat list \<times> 's) cres" where
  "acquire_n 0 s = Inr ([], s)"
| "acquire_n (Suc n) s = bindR (acquire s) (\<lambda>(r, s1).
     case r of None \<Rightarrow> Inr ([], s1)
     | Some x \<Rightarrow> bindR (acquire_n n s1) (\<lambda>(xs, s2). Inr (x # xs, s2)))"

lemma acquire_n_pool:
  "inv s \<Longrightarrow> \<exists>s'. acquire_n n s = Inr (take n (pool s), s') \<and> inv s' \<and> pool s' = drop n (pool s)"
proof (induction n arbitrary: s)
  case (Suc n)
  show ?case
  proof (cases "pool s")
    case Nil
    with Suc.prems show ?thesis by (simp add: acquire_none)
  next
    case (Cons x xs)
    from acquire_some [OF Suc.prems Cons] obtain s1
      where s1: "acquire s = Inr (Some x, s1)" "inv s1" "pool s1 = xs" by blast
    with Suc.IH [OF s1(2)] Cons show ?thesis by auto
  qed
qed simp

lemma acquire_all:
  assumes "inv s"
  obtains s' where "acquire_n (length (pool s)) s = Inr (pool s, s')" "inv s'"
    "acquire s' = Inr (None, s')" "distinct (pool s)"
  using acquire_n_pool [OF assms, of "length (pool s)"] acquire_none pool_distinct [OF assms] by auto

end

end
