(* ===== verification/KPages.thy ===== *)
theory KPages
  imports KAddr FreeList
begin

text \<open>
  The free list of physical pages: its invariant, what \<open>page_alloc\<close>, \<open>page_free\<close>,
  \<open>page_decref\<close> do to it, and the pages \<open>page_init\<close> puts on it.
\<close>

section \<open>The invariant\<close>

definition page_link :: "kstate \<Rightarrow> nat \<Rightarrow> nat option" where
  "page_link s p = pp_link (pages s ! p)"

definition page_pool :: "kstate \<Rightarrow> nat list" where
  "page_pool s = unroll (page_link s) (npages s) (page_free_list s)"

definition page_ref :: "kstate \<Rightarrow> nat \<Rightarrow> nat" where
  "page_ref s p = unat (pp_ref (pages s ! p))"

definition page_inv :: "kstate \<Rightarrow> bool" where
  "page_inv s \<longleftrightarrow> length (pages s) = npages s \<and> npages s \<le> 1048576 \<and>
     chain (page_link s) (page_free_list s) (page_pool s) \<and>
     (\<forall>p\<in>set (page_pool s). p < npages s \<and> page_ref s p = 0) \<and>
     (\<forall>p<npages s. p \<notin> set (page_pool s) \<longrightarrow> page_link s p = None)"

definition page_held :: "kstate \<Rightarrow> nat \<Rightarrow> bool" where
  "page_held s p \<longleftrightarrow> p < npages s \<and> p \<notin> set (page_pool s) \<and> page_ref s p = 0"

lemma page_inv_intro:
  assumes "length (pages s) = npages s" "npages s \<le> 1048576"
    and "chain (page_link s) (page_free_list s) xs"
    and "\<And>p. p \<in> set xs \<Longrightarrow> p < npages s \<and> page_ref s p = 0"
    and "\<And>p. p < npages s \<Longrightarrow> p \<notin> set xs \<Longrightarrow> page_link s p = None"
  shows "page_inv s" "page_pool s = xs"
proof -
  have "set xs \<subseteq> {..<npages s}" using assms(4) by auto
  then have "length xs \<le> npages s" by (rule chain_bounded [OF assms(3)])
  then show pool: "page_pool s = xs" unfolding page_pool_def by (rule chain_unroll [OF assms(3)])
  show "page_inv s" unfolding page_inv_def pool using assms by blast
qed

lemma page_inv_D:
  assumes "page_inv s"
  shows "length (pages s) = npages s" "npages s \<le> 1048576"
    "chain (page_link s) (page_free_list s) (page_pool s)" "distinct (page_pool s)"
    "p \<in> set (page_pool s) \<Longrightarrow> p < npages s" "p \<in> set (page_pool s) \<Longrightarrow> page_ref s p = 0"
    "p < npages s \<Longrightarrow> p \<notin> set (page_pool s) \<Longrightarrow> page_link s p = None"
  using assms chain_distinct unfolding page_inv_def by blast+

lemma page_pool_head: "page_inv s \<Longrightarrow> page_free_list s = None \<longleftrightarrow> page_pool s = []"
  using page_inv_D(3) [of s] by (cases "page_pool s") auto

text \<open>Dropping references never leaves a page without one outside the free list.\<close>

lemma held_decref:
  assumes "npages s' = npages s" "page_ref s q \<ge> 1"
    and "page_pool s' = (if page_ref s q = 1 then q # page_pool s else page_pool s)"
    and "page_ref s' = (page_ref s)(q := page_ref s q - 1)"
  shows "page_held s' = page_held s"
  using assms by (auto simp: page_held_def fun_eq_iff)

lemma held_cong:
  "npages s' = npages s \<Longrightarrow> page_pool s' = page_pool s \<Longrightarrow> page_ref s' = page_ref s \<Longrightarrow>
   page_held s' = page_held s"
  by (simp add: page_held_def fun_eq_iff)

section \<open>Selectors of the updated state\<close>

lemma upd_page_sel [simp]:
  "npages (upd_page p f s) = npages s" "page_free_list (upd_page p f s) = page_free_list s"
  "phys (upd_page p f s) = phys s" "envs (upd_page p f s) = envs s" "cpus (upd_page p f s) = cpus s"
  "kern_pgdir (upd_page p f s) = kern_pgdir s" "length (pages (upd_page p f s)) = length (pages s)"
  "nextfree (upd_page p f s) = nextfree s" "curenv (upd_page p f s) = curenv s"
  "thiscpu (upd_page p f s) = thiscpu s" "env_free_list (upd_page p f s) = env_free_list s"
  "cr3 (upd_page p f s) = cr3 s"
  by (simp_all add: upd_page_def curenv_def)

lemma write_word_sel [simp]:
  "npages (write_word t i w s) = npages s" "page_free_list (write_word t i w s) = page_free_list s"
  "pages (write_word t i w s) = pages s" "envs (write_word t i w s) = envs s"
  "cpus (write_word t i w s) = cpus s" "kern_pgdir (write_word t i w s) = kern_pgdir s"
  "nextfree (write_word t i w s) = nextfree s" "curenv (write_word t i w s) = curenv s"
  "thiscpu (write_word t i w s) = thiscpu s"
  "phys (write_word t i w s) t' j = (if t' = t \<and> j = i then w else phys s t' j)"
  "env_free_list (write_word t i w s) = env_free_list s" "cr3 (write_word t i w s) = cr3 s"
  by (simp_all add: write_word_def curenv_def)

lemma nth_upd_page:
  "page_inv s \<Longrightarrow> p < npages s \<Longrightarrow>
   pages (upd_page p f s) ! q = (if q = p then f (pages s ! p) else pages s ! q)"
  using page_inv_D(1) [of s] by (auto simp: upd_page_def)

text \<open>A change of memory, or of any component but the page array, keeps the free list.\<close>

lemma page_inv_cong:
  assumes "npages s' = npages s" "pages s' = pages s" "page_free_list s' = page_free_list s"
  shows "page_inv s' = page_inv s" "page_pool s' = page_pool s" "page_ref s' = page_ref s"
    "page_link s' = page_link s"
proof -
  have l: "page_link s' = page_link s" "page_ref s' = page_ref s"
    using assms by (simp_all add: page_link_def page_ref_def fun_eq_iff)
  then have "page_pool s' = page_pool s" using assms by (simp add: page_pool_def)
  with l assms show "page_inv s' = page_inv s" "page_pool s' = page_pool s"
    "page_ref s' = page_ref s" "page_link s' = page_link s" by (simp_all add: page_inv_def)
qed

lemma page_write_word [simp]:
  "page_inv (write_word t i w s) = page_inv s" "page_pool (write_word t i w s) = page_pool s"
  "page_ref (write_word t i w s) = page_ref s"
  using page_inv_cong [of "write_word t i w s" s] by simp_all

section \<open>Allocating and freeing\<close>

definition popped :: "bool \<Rightarrow> nat \<Rightarrow> kstate \<Rightarrow> kstate" where
  "popped zero p s =
     (let s1 = upd_page p (\<lambda>i. i\<lparr>pp_link := None\<rparr>) (s\<lparr>page_free_list := page_link s p\<rparr>)
      in if zero then s1\<lparr>phys := (phys s1)(p := (\<lambda>_. 0))\<rparr> else s1)"

lemma popped_sel [simp]:
  "npages (popped z p s) = npages s" "envs (popped z p s) = envs s" "cpus (popped z p s) = cpus s"
  "kern_pgdir (popped z p s) = kern_pgdir s" "curenv (popped z p s) = curenv s"
  "phys (popped z p s) = (if z then (phys s)(p := (\<lambda>_. 0)) else phys s)"
  by (simp_all add: popped_def Let_def curenv_def)

lemma page_alloc_empty: "page_inv s \<Longrightarrow> page_pool s = [] \<Longrightarrow> page_alloc z s = Inr (None, s)"
  using page_pool_head [of s] by (simp add: page_alloc_def)

lemma page_alloc_cons:
  assumes inv: "page_inv s" and pool: "page_pool s = p # ps"
  shows "page_alloc z s = Inr (Some p, popped z p s)" "page_inv (popped z p s)"
    "page_pool (popped z p s) = ps" "page_ref (popped z p s) = page_ref s"
    "p < npages s" "page_ref s p = 0" "p \<notin> set ps"
proof -
  note D = page_inv_D [OF inv]
  have fl: "page_free_list s = Some p" using D(3) pool by simp
  show p: "p < npages s" "page_ref s p = 0" "p \<notin> set ps" using D(4-6) pool by auto
  have "KADDR s1 (page2pa p) = Inr (page2pa p + KERNBASE)" if "npages s1 = npages s" for s1
    using p(1) D(2) PGNUM_pte [of p 0] that by (simp add: KADDR_def)
  then show "page_alloc z s = Inr (Some p, popped z p s)"
    using fl by (simp add: page_alloc_def popped_def page_link_def Let_def)
  have nth: "pages (popped z p s) ! q = (if q = p then (pages s ! p)\<lparr>pp_link := None\<rparr> else pages s ! q)" for q
    using p(1) D(1) by (auto simp: popped_def Let_def upd_page_def)
  show ref: "page_ref (popped z p s) = page_ref s"
    by (auto simp: page_ref_def nth fun_eq_iff)
  have ch: "chain (page_link s) (page_link s p) ps" using D(3) pool by simp
  have link: "page_link (popped z p s) q = (if q = p then None else page_link s q)" for q
    by (simp add: page_link_def nth)
  have ch': "chain (page_link (popped z p s)) (page_free_list (popped z p s)) ps"
  proof -
    have "page_free_list (popped z p s) = page_link s p" by (simp add: popped_def Let_def)
    moreover have "chain (page_link (popped z p s)) (page_link s p) ps"
      using ch p(3) by (subst chain_cong [where link' = "page_link s"]) (auto simp: link)
    ultimately show ?thesis by simp
  qed
  have len: "length (pages (popped z p s)) = npages (popped z p s)" "npages (popped z p s) \<le> 1048576"
    using D(1,2) by (simp_all add: popped_def Let_def)
  have "page_inv (popped z p s) \<and> page_pool (popped z p s) = ps"
  proof (intro conjI page_inv_intro [OF len ch'])
  qed (use D(5,6,7) pool in \<open>auto simp: ref link\<close>)
  then show "page_inv (popped z p s)" "page_pool (popped z p s) = ps" by simp_all
qed

definition pushed :: "nat \<Rightarrow> kstate \<Rightarrow> kstate" where
  "pushed p s = (upd_page p (\<lambda>i. i\<lparr>pp_link := page_free_list s\<rparr>) s)\<lparr>page_free_list := Some p\<rparr>"

lemma pushed_sel [simp]:
  "npages (pushed p s) = npages s" "envs (pushed p s) = envs s" "cpus (pushed p s) = cpus s"
  "kern_pgdir (pushed p s) = kern_pgdir s" "phys (pushed p s) = phys s" "curenv (pushed p s) = curenv s"
  by (simp_all add: pushed_def curenv_def upd_page_def)

lemma page_free_held:
  assumes inv: "page_inv s" and held: "page_held s p"
  shows "page_free p s = Inr (pushed p s)" "page_inv (pushed p s)"
    "page_pool (pushed p s) = p # page_pool s" "page_ref (pushed p s) = page_ref s"
proof -
  note D = page_inv_D [OF inv]
  have p: "p < npages s" "p \<notin> set (page_pool s)" "page_ref s p = 0"
    using held by (simp_all add: page_held_def)
  have "pp_link (pages s ! p) = None" using D(7) p by (simp add: page_link_def)
  moreover have "pp_ref (pages s ! p) = 0" using p(3) by (simp add: page_ref_def unsigned_eq_0_iff)
  ultimately show "page_free p s = Inr (pushed p s)"
    by (simp add: page_free_def pushed_def)
  have nth: "pages (pushed p s) ! q =
      (if q = p then (pages s ! p)\<lparr>pp_link := page_free_list s\<rparr> else pages s ! q)" for q
    using p(1) D(1) by (auto simp: pushed_def upd_page_def)
  show ref: "page_ref (pushed p s) = page_ref s"
    by (auto simp: page_ref_def nth fun_eq_iff)
  have link: "page_link (pushed p s) q = (if q = p then page_free_list s else page_link s q)" for q
    by (simp add: page_link_def nth)
  have "chain (page_link (pushed p s)) (page_free_list s) (page_pool s)"
    using D(3) p(2) by (subst chain_cong [where link' = "page_link s"]) (auto simp: link)
  then have ch: "chain (page_link (pushed p s)) (page_free_list (pushed p s)) (p # page_pool s)"
    by (simp add: link) (simp add: pushed_def)
  have len: "length (pages (pushed p s)) = npages (pushed p s)" "npages (pushed p s) \<le> 1048576"
    using D(1,2) by (simp_all add: pushed_def upd_page_def)
  have "page_inv (pushed p s) \<and> page_pool (pushed p s) = p # page_pool s"
  proof (intro conjI page_inv_intro [OF len ch])
  qed (use D(5,6,7) p in \<open>auto simp: ref link\<close>)
  then show "page_inv (pushed p s)" "page_pool (pushed p s) = p # page_pool s" by simp_all
qed

interpretation page_list: free_pool page_inv page_pool page_held "page_alloc z" page_free
proof
  fix s :: kstate and x xs assume a: "page_inv s" "page_pool s = x # xs"
  from page_alloc_cons [OF a] show "\<exists>s'. page_alloc z s = Inr (Some x, s') \<and> page_inv s' \<and> page_pool s' = xs \<and> page_held s' x"
    by (auto simp: page_held_def)
next
  fix s x assume "page_inv s" "page_held s x"
  then show "\<exists>s'. page_free x s = Inr s' \<and> page_inv s' \<and> page_pool s' = x # page_pool s"
    using page_free_held by blast
qed (auto intro: page_alloc_empty dest: page_inv_D(4))

section \<open>Reference counts\<close>

lemma page_incref_sel [simp]:
  "npages (page_incref p s) = npages s" "envs (page_incref p s) = envs s"
  "cpus (page_incref p s) = cpus s" "kern_pgdir (page_incref p s) = kern_pgdir s"
  "phys (page_incref p s) = phys s" "curenv (page_incref p s) = curenv s"
  "thiscpu (page_incref p s) = thiscpu s" "env_free_list (page_incref p s) = env_free_list s"
  "cr3 (page_incref p s) = cr3 s"
  by (simp_all add: page_incref_def)

lemma page_incref_props:
  assumes inv: "page_inv s" and p: "p < npages s" "p \<notin> set (page_pool s)" "page_ref s p < 65535"
  shows "page_inv (page_incref p s)" "page_pool (page_incref p s) = page_pool s"
    "page_ref (page_incref p s) = (page_ref s)(p := page_ref s p + 1)"
proof -
  note D = page_inv_D [OF inv]
  have nth: "pages (page_incref p s) ! q =
      (if q = p then (pages s ! p)\<lparr>pp_ref := pp_ref (pages s ! p) + 1\<rparr> else pages s ! q)" for q
    unfolding page_incref_def using nth_upd_page [OF inv p(1)] by simp
  show ref: "page_ref (page_incref p s) = (page_ref s)(p := page_ref s p + 1)"
    using p(3) by (auto simp: page_ref_def nth fun_eq_iff unat_word_ariths)
  have link: "page_link (page_incref p s) = page_link s"
    by (auto simp: page_link_def nth fun_eq_iff)
  have len: "length (pages (page_incref p s)) = npages (page_incref p s)"
      "npages (page_incref p s) \<le> 1048576"
    and ch: "chain (page_link (page_incref p s)) (page_free_list (page_incref p s)) (page_pool s)"
    using D(1-3) link by (simp_all add: page_incref_def page_link_def)
  have "page_inv (page_incref p s) \<and> page_pool (page_incref p s) = page_pool s"
  proof (intro conjI page_inv_intro [OF len ch])
  qed (use D(5,6,7) p(2) in \<open>auto simp: ref link\<close>)
  then show "page_inv (page_incref p s)" "page_pool (page_incref p s) = page_pool s" by simp_all
qed

text \<open>Dropping a reference: the count goes down, and the page joins the free list with the last one.\<close>

lemma page_decref_props:
  assumes inv: "page_inv s" and p: "p < npages s" "page_ref s p > 0"
  obtains s' where "page_decref p s = Inr s'" "page_inv s'"
    "page_pool s' = (if page_ref s p = 1 then p # page_pool s else page_pool s)"
    "page_ref s' = (page_ref s)(p := page_ref s p - 1)"
    "phys s' = phys s" "npages s' = npages s" "envs s' = envs s" "cpus s' = cpus s"
    "kern_pgdir s' = kern_pgdir s" "curenv s' = curenv s"
proof -
  note D = page_inv_D [OF inv]
  let ?s1 = "upd_page p (\<lambda>i. i\<lparr>pp_ref := pp_ref i - 1\<rparr>) s"
  have out: "p \<notin> set (page_pool s)" using D(6) p(2) by auto
  have nth: "pages ?s1 ! q =
      (if q = p then (pages s ! p)\<lparr>pp_ref := pp_ref (pages s ! p) - 1\<rparr> else pages s ! q)" for q
    using nth_upd_page [OF inv p(1)] by simp
  have "unat (pp_ref (pages s ! p) - 1) = unat (pp_ref (pages s ! p)) - 1"
    using p(2) by (intro unat_minus_one) (auto simp: page_ref_def)
  then have ref: "page_ref ?s1 = (page_ref s)(p := page_ref s p - 1)"
    by (auto simp: page_ref_def nth fun_eq_iff)
  have link: "page_link ?s1 = page_link s" by (auto simp: page_link_def nth fun_eq_iff)
  have len: "length (pages ?s1) = npages ?s1" "npages ?s1 \<le> 1048576"
    and ch: "chain (page_link ?s1) (page_free_list ?s1) (page_pool s)"
    using D(1-3) link by simp_all
  have "page_inv ?s1 \<and> page_pool ?s1 = page_pool s"
  proof (intro conjI page_inv_intro [OF len ch])
  qed (use D(5,6,7) out in \<open>auto simp: ref link\<close>)
  then have s1: "page_inv ?s1" "page_pool ?s1 = page_pool s" by simp_all
  have zero: "pp_ref (pages ?s1 ! p) = 0 \<longleftrightarrow> page_ref s p = 1"
  proof -
    have "pp_ref (pages ?s1 ! p) = 0 \<longleftrightarrow> page_ref ?s1 p = 0"
      by (simp add: page_ref_def unsigned_eq_0_iff)
    also have "\<dots> \<longleftrightarrow> page_ref s p = 1" unfolding ref using p(2) by auto
    finally show ?thesis .
  qed
  show thesis
  proof (cases "page_ref s p = 1")
    case False
    with zero have "page_decref p s = Inr ?s1" by (simp add: page_decref_def Let_def)
    with False s1 ref show ?thesis by (intro that [of ?s1]) simp_all
  next
    case True
    then have "page_held ?s1 p" using p(1) out s1(2) by (simp add: page_held_def ref)
    note fr = page_free_held [OF s1(1) this]
    from True zero fr(1) have "page_decref p s = Inr (pushed p ?s1)"
      by (simp add: page_decref_def Let_def)
    with True s1 ref fr show ?thesis by (intro that [of "pushed p ?s1"]) simp_all
  qed
qed

end
