(* ===== verification/KVm.thy ===== *)
theory KVm
  imports KPages
begin

text \<open>
  Address spaces: the map from virtual pages to physical pages that a two-level page table stands
  for, the invariant that ties reference counts to mappings over all address spaces, and the
  effect of the page table operations on both.
\<close>

section \<open>Tables, mappings, and what an address space means\<close>

text \<open>The page directory entries below \<open>UTOP\<close>: the part of an address space that belongs to a user.\<close>

abbreviation (input) NUPDE :: nat where "NUPDE \<equiv> 955"

lemma PDX_user: "va < UTOP \<Longrightarrow> PDX va < NUPDE"
  by (simp add: PDX_div word_less_nat_alt)

definition pt_of :: "kstate \<Rightarrow> nat \<Rightarrow> nat \<Rightarrow> nat" where
  "pt_of s pd i = PGNUM (phys s pd i)"

definition tables :: "kstate \<Rightarrow> nat set \<Rightarrow> nat set" where
  "tables s pds = {pt_of s pd i | pd i. pd \<in> pds \<and> i < NUPDE \<and> phys s pd i \<noteq> 0}"

definition leafs :: "kstate \<Rightarrow> nat set \<Rightarrow> nat \<Rightarrow> (nat \<times> nat \<times> nat) set" where
  "leafs s pds q = {(pd, i, k). pd \<in> pds \<and> i < NUPDE \<and> k < 1024 \<and> phys s pd i \<noteq> 0 \<and>
     phys s (pt_of s pd i) k \<noteq> 0 \<and> PGNUM (phys s (pt_of s pd i) k) = q}"

definition translate :: "kstate \<Rightarrow> nat \<Rightarrow> u32 \<Rightarrow> (nat \<times> u32) option" where
  "translate s pd va =
     (if phys s pd (PDX va) = 0 then None
      else let w = phys s (pt_of s pd (PDX va)) (PTX va)
           in if w = 0 then None else Some (PGNUM w, w AND 0xFFF))"

text \<open>
  \<open>ext q\<close> counts the references to \<open>q\<close> that are not (or not yet) page table entries.
\<close>

definition vm_inv :: "nat set \<Rightarrow> (nat \<Rightarrow> nat) \<Rightarrow> kstate \<Rightarrow> bool" where
  "vm_inv pds ext s \<longleftrightarrow> page_inv s \<and> finite pds \<and>
     (\<forall>pd\<in>pds. pd < npages s \<and> page_ref s pd = 1) \<and>
     (\<forall>t\<in>tables s pds. t < npages s \<and> page_ref s t = 1 \<and> t \<notin> pds) \<and>
     (\<forall>pd\<in>pds. \<forall>i<NUPDE. \<forall>pd'\<in>pds. \<forall>i'<NUPDE. phys s pd i \<noteq> 0 \<and> phys s pd' i' \<noteq> 0 \<and>
        pt_of s pd i = pt_of s pd' i' \<longrightarrow> pd = pd' \<and> i = i') \<and>
     (\<forall>pd\<in>pds. \<forall>i<NUPDE. phys s pd i \<noteq> 0 \<longrightarrow> phys s pd i AND PTE_P \<noteq> 0) \<and>
     (\<forall>t\<in>tables s pds. \<forall>k<1024. phys s t k \<noteq> 0 \<longrightarrow> phys s t k AND PTE_P \<noteq> 0) \<and>
     (\<forall>q. leafs s pds q \<noteq> {} \<longrightarrow> q < npages s \<and> q \<notin> pds \<and> q \<notin> tables s pds) \<and>
     (\<forall>q. q \<in> pds \<or> q \<in> tables s pds \<longrightarrow> ext q = 0) \<and>
     (\<forall>q<npages s. q \<notin> pds \<and> q \<notin> tables s pds \<longrightarrow> page_ref s q = card (leafs s pds q) + ext q)"

lemma vm_inv_D:
  assumes "vm_inv pds ext s"
  shows "page_inv s" "finite pds"
    "pd \<in> pds \<Longrightarrow> pd < npages s" "pd \<in> pds \<Longrightarrow> page_ref s pd = 1"
    "t \<in> tables s pds \<Longrightarrow> t < npages s" "t \<in> tables s pds \<Longrightarrow> page_ref s t = 1"
    "t \<in> tables s pds \<Longrightarrow> t \<notin> pds"
    "pt_of s pd i = pt_of s pd' i' \<Longrightarrow> pd \<in> pds \<Longrightarrow> i < NUPDE \<Longrightarrow> pd' \<in> pds \<Longrightarrow> i' < NUPDE \<Longrightarrow>
       phys s pd i \<noteq> 0 \<Longrightarrow> phys s pd' i' \<noteq> 0 \<Longrightarrow> pd = pd' \<and> i = i'"
    "x \<in> leafs s pds q \<Longrightarrow> q < npages s" "x \<in> leafs s pds q \<Longrightarrow> q \<notin> pds"
    "x \<in> leafs s pds q \<Longrightarrow> q \<notin> tables s pds"
    "q < npages s \<Longrightarrow> q \<notin> pds \<Longrightarrow> q \<notin> tables s pds \<Longrightarrow> page_ref s q = card (leafs s pds q) + ext q"
    "pd \<in> pds \<Longrightarrow> i < NUPDE \<Longrightarrow> phys s pd i \<noteq> 0 \<Longrightarrow> phys s pd i AND PTE_P \<noteq> 0"
    "t \<in> tables s pds \<Longrightarrow> k < 1024 \<Longrightarrow> phys s t k \<noteq> 0 \<Longrightarrow> phys s t k AND PTE_P \<noteq> 0"
    "q \<in> pds \<Longrightarrow> ext q = 0" "q \<in> tables s pds \<Longrightarrow> ext q = 0"
  using assms unfolding vm_inv_def by blast+

lemma pt_of_table: "pd \<in> pds \<Longrightarrow> i < NUPDE \<Longrightarrow> phys s pd i \<noteq> 0 \<Longrightarrow> pt_of s pd i \<in> tables s pds"
  by (auto simp: tables_def)

lemma finite_leafs: "finite pds \<Longrightarrow> finite (leafs s pds q)"
  by (rule finite_subset [of _ "pds \<times> {..<NUPDE} \<times> {..<1024}"]) (auto simp: leafs_def)

text \<open>None of this looks at anything but memory and the page array.\<close>

lemma vm_cong:
  assumes "phys s' = phys s"
  shows "pt_of s' = pt_of s" "tables s' = tables s" "leafs s' = leafs s" "translate s' = translate s"
proof -
  show p: "pt_of s' = pt_of s" using assms by (simp add: pt_of_def fun_eq_iff)
  show "tables s' = tables s" "leafs s' = leafs s" "translate s' = translate s"
    by (simp_all add: tables_def leafs_def translate_def fun_eq_iff p assms)
qed

lemma vm_inv_cong:
  assumes "npages s' = npages s" "pages s' = pages s" "page_free_list s' = page_free_list s"
    "phys s' = phys s"
  shows "vm_inv pds ext s' = vm_inv pds ext s"
  unfolding vm_inv_def vm_cong [OF assms(4)] page_inv_cong [OF assms(1-3)] assms(1,4) ..

section \<open>Changing reference counts\<close>

lemma vm_refs:
  assumes inv: "vm_inv pds ext s" and phys: "phys s' = phys s" "npages s' = npages s"
    and p: "page_inv s'" "page_ref s' = (page_ref s)(q := n)"
    and q: "q \<notin> pds" "q \<notin> tables s pds" "n = card (leafs s pds q) + e"
  shows "vm_inv pds (ext(q := e)) s'"
  using inv q unfolding vm_inv_def vm_cong [OF phys(1)] phys p(2) by (auto simp: p(1))

lemma vm_incref:
  assumes inv: "vm_inv pds ext s" and q: "q < npages s" "q \<notin> pds" "q \<notin> tables s pds"
    and free: "q \<notin> set (page_pool s)" and max: "page_ref s q < 65535"
  shows "vm_inv pds (ext(q := Suc (ext q))) (page_incref q s)"
    "page_pool (page_incref q s) = page_pool s"
proof -
  note pr = page_incref_props [OF vm_inv_D(1) [OF inv] q(1) free max]
  show "page_pool (page_incref q s) = page_pool s" by (rule pr(2))
  show "vm_inv pds (ext(q := Suc (ext q))) (page_incref q s)"
    by (rule vm_refs [OF inv _ _ pr(1,3) q(2,3)]) (use vm_inv_D(12) [OF inv q] in simp_all)
qed

lemma vm_decref:
  assumes inv: "vm_inv pds ext s" and q: "q < npages s" "q \<notin> pds" "q \<notin> tables s pds" "ext q > 0"
  obtains s' where "page_decref q s = Inr s'" "vm_inv pds (ext(q := ext q - 1)) s'"
    "page_pool s' = (if page_ref s q = 1 then q # page_pool s else page_pool s)"
    "page_ref s' = (page_ref s)(q := page_ref s q - 1)"
    "phys s' = phys s" "npages s' = npages s" "envs s' = envs s" "cpus s' = cpus s"
    "kern_pgdir s' = kern_pgdir s" "curenv s' = curenv s"
proof -
  have ref: "page_ref s q = card (leafs s pds q) + ext q" using vm_inv_D(12) [OF inv q(1-3)] .
  with q(4) have "page_ref s q > 0" by simp
  then show thesis
  proof (rule page_decref_props [OF vm_inv_D(1) [OF inv] q(1)])
    fix s'
    assume s': "page_decref q s = Inr s'" "page_inv s'"
      "page_pool s' = (if page_ref s q = 1 then q # page_pool s else page_pool s)"
      "page_ref s' = (page_ref s)(q := page_ref s q - 1)"
      "phys s' = phys s" "npages s' = npages s" "envs s' = envs s" "cpus s' = cpus s"
      "kern_pgdir s' = kern_pgdir s" "curenv s' = curenv s"
    have "vm_inv pds (ext(q := ext q - 1)) s'"
      by (rule vm_refs [OF inv s'(5,6,2,4) q(2,3)]) (use ref q(4) in simp)
    with s' show thesis by (intro that)
  qed
qed

section \<open>Writing a page table entry\<close>

definition slot :: "kstate \<Rightarrow> nat set \<Rightarrow> nat \<Rightarrow> nat \<Rightarrow> nat \<Rightarrow> bool" where
  "slot s pds pd i k \<longleftrightarrow> pd \<in> pds \<and> i < NUPDE \<and> k < 1024 \<and> phys s pd i \<noteq> 0"

lemma slot_D: "slot s pds pd i k \<Longrightarrow> pd \<in> pds \<and> i < NUPDE \<and> k < 1024 \<and> phys s pd i \<noteq> 0"
  by (simp add: slot_def)

lemma slot_table:
  assumes "vm_inv pds ext s" "slot s pds pd i k"
  shows "pt_of s pd i \<in> tables s pds" "pd' \<in> pds \<Longrightarrow> pd' \<noteq> pt_of s pd i"
    "pd' \<in> pds \<Longrightarrow> i' < NUPDE \<Longrightarrow> phys s pd' i' \<noteq> 0 \<Longrightarrow>
       pt_of s pd' i' = pt_of s pd i \<longleftrightarrow> pd' = pd \<and> i' = i"
proof -
  show t: "pt_of s pd i \<in> tables s pds" using assms(2) by (auto simp: slot_def intro: pt_of_table)
  show "pd' \<in> pds \<Longrightarrow> pd' \<noteq> pt_of s pd i" using vm_inv_D(7) [OF assms(1) t] by auto
  show "pd' \<in> pds \<Longrightarrow> i' < NUPDE \<Longrightarrow> phys s pd' i' \<noteq> 0 \<Longrightarrow>
       pt_of s pd' i' = pt_of s pd i \<longleftrightarrow> pd' = pd \<and> i' = i"
    using vm_inv_D(8) [OF assms(1), of pd' i' pd i] assms(2) by (auto simp: slot_def)
qed

lemma write_slot:
  assumes inv: "vm_inv pds ext s" and loc: "slot s pds pd i k"
  shows "pd' \<in> pds \<Longrightarrow> phys (write_word (pt_of s pd i) k w s) pd' j = phys s pd' j"
    "pd' \<in> pds \<Longrightarrow> pt_of (write_word (pt_of s pd i) k w s) pd' j = pt_of s pd' j"
    "tables (write_word (pt_of s pd i) k w s) pds = tables s pds"
    "leafs (write_word (pt_of s pd i) k w s) pds q =
       leafs s pds q - {(pd, i, k)} \<union> (if w \<noteq> 0 \<and> PGNUM w = q then {(pd, i, k)} else {})"
proof -
  let ?s = "write_word (pt_of s pd i) k w s"
  show ph: "phys ?s pd' j = phys s pd' j" if "pd' \<in> pds" for pd' j
    using slot_table(2) [OF inv loc that] by simp
  then show pt: "pt_of ?s pd' j = pt_of s pd' j" if "pd' \<in> pds" for pd' j
    using that unfolding pt_of_def by simp
  show "tables ?s pds = tables s pds"
    unfolding tables_def using ph pt by (auto; metis)
  have l: "phys ?s (pt_of s pd' i') k' =
      (if (pd', i', k') = (pd, i, k) then w else phys s (pt_of s pd' i') k')"
    if "pd' \<in> pds" "i' < NUPDE" "phys s pd' i' \<noteq> 0" for pd' i' k'
    using slot_table(3) [OF inv loc that] by auto
  show "leafs ?s pds q =
       leafs s pds q - {(pd, i, k)} \<union> (if w \<noteq> 0 \<and> PGNUM w = q then {(pd, i, k)} else {})"
  proof (rule set_eqI)
    fix x :: "nat \<times> nat \<times> nat"
    obtain a b c where x: "x = (a, b, c)" by (cases x)
    show "x \<in> leafs ?s pds q \<longleftrightarrow> x \<in> leafs s pds q - {(pd, i, k)} \<union>
        (if w \<noteq> 0 \<and> PGNUM w = q then {(pd, i, k)} else {})"
    proof (cases "a \<in> pds \<and> b < NUPDE \<and> phys s a b \<noteq> 0")
      case True
      then show ?thesis
        unfolding x leafs_def using slot_D [OF loc] by (auto simp: ph pt l simp del: write_word_sel)
    next
      case False
      then have "\<not> (a \<in> pds \<and> b < NUPDE \<and> phys ?s a b \<noteq> 0)" using ph [of a b] by auto
      with False show ?thesis unfolding x leafs_def using slot_D [OF loc] by (auto simp del: write_word_sel)
    qed
  qed
qed

lemma vm_write:
  assumes inv: "vm_inv pds ext s" and loc: "slot s pds pd i k"
    and w: "w \<noteq> 0 \<Longrightarrow> w AND PTE_P \<noteq> 0 \<and> PGNUM w < npages s \<and> PGNUM w \<notin> pds \<and> PGNUM w \<notin> tables s pds"
    and keep: "\<And>q. q \<in> pds \<or> q \<in> tables s pds \<Longrightarrow> ext' q = ext q"
    and ext: "\<And>q. q < npages s \<Longrightarrow> q \<notin> pds \<Longrightarrow> q \<notin> tables s pds \<Longrightarrow>
      card (leafs s pds q) + ext q =
      card (leafs s pds q - {(pd, i, k)} \<union> (if w \<noteq> 0 \<and> PGNUM w = q then {(pd, i, k)} else {})) + ext' q"
  shows "vm_inv pds ext' (write_word (pt_of s pd i) k w s)"
proof -
  note W = write_slot(3,4) [OF inv loc, where w = w] and D = vm_inv_D [OF inv]
  have ph: "phys (write_word (pt_of s pd i) k w s) pd' j = phys s pd' j"
    "pt_of (write_word (pt_of s pd i) k w s) pd' j = pt_of s pd' j" if "pd' \<in> pds" for pd' j
    using write_slot(1,2) [OF inv loc that] by blast+
  have one: "q < npages s \<and> q \<notin> pds \<and> q \<notin> tables s pds"
    if "leafs (write_word (pt_of s pd i) k w s) pds q \<noteq> {}" for q
  proof (cases "w \<noteq> 0 \<and> PGNUM w = q")
    case False
    with that obtain x where "x \<in> leafs s pds q" by (auto simp: W split: if_splits)
    then show ?thesis using D(9-11) by blast
  qed (use w in auto)
  have "page_ref s q = card (leafs (write_word (pt_of s pd i) k w s) pds q) + ext' q"
    if "q < npages s" "q \<notin> pds" "q \<notin> tables s pds" for q
    using ext [OF that] D(12) [OF that] by (simp add: W)
  moreover have "pd1 = pd2 \<and> i1 = i2"
    if "pd1 \<in> pds" "i1 < NUPDE" "pd2 \<in> pds" "i2 < NUPDE" "phys s pd1 i1 \<noteq> 0" "phys s pd2 i2 \<noteq> 0"
      "pt_of s pd1 i1 = pt_of s pd2 i2" for pd1 i1 pd2 i2
    using D(8) that by blast
  moreover have "phys (write_word (pt_of s pd i) k w s) t c AND PTE_P \<noteq> 0"
    if "t \<in> tables s pds" "c < 1024" "phys (write_word (pt_of s pd i) k w s) t c \<noteq> 0" for t c
    using D(14) [of t c] w that by (auto split: if_splits)
  ultimately show ?thesis
    unfolding vm_inv_def using D(1-7,13,15,16) one keep
    by (auto simp: W(1) ph simp del: write_word_sel(10))
qed

lemma vm_clear:
  assumes inv: "vm_inv pds ext s" and loc: "slot s pds pd i k"
    and old: "phys s (pt_of s pd i) k \<noteq> 0" "PGNUM (phys s (pt_of s pd i) k) = q"
  shows "vm_inv pds (ext(q := Suc (ext q))) (write_word (pt_of s pd i) k 0 s)"
proof (rule vm_write [OF inv loc])
  fix r
  have mem: "(pd, i, k) \<in> leafs s pds r \<longleftrightarrow> r = q"
    using slot_D [OF loc] old by (auto simp: leafs_def)
  have fin: "finite (leafs s pds r)" using finite_leafs vm_inv_D(2) [OF inv] by blast
  show "card (leafs s pds r) + ext r =
      card (leafs s pds r - {(pd, i, k)} \<union> (if 0 \<noteq> (0::u32) \<and> PGNUM 0 = r then {(pd, i, k)} else {})) +
      (ext(q := Suc (ext q))) r"
  proof (cases "r = q")
    case True
    with mem fin have "card (leafs s pds r) = Suc (card (leafs s pds r - {(pd, i, k)}))"
      by (intro card.remove) auto
    with True show ?thesis by simp
  qed (use mem in simp)
next
  have "(pd, i, k) \<in> leafs s pds q" using slot_D [OF loc] old by (auto simp: leafs_def)
  from vm_inv_D(10,11) [OF inv this]
  show "r \<in> pds \<or> r \<in> tables s pds \<Longrightarrow> (ext(q := Suc (ext q))) r = ext r" for r by auto
qed simp

lemma vm_set:
  assumes inv: "vm_inv pds ext s" and loc: "slot s pds pd i k"
    and old: "phys s (pt_of s pd i) k = 0"
    and w: "w AND PTE_P \<noteq> 0" "PGNUM w = q" "q < npages s" "q \<notin> pds" "q \<notin> tables s pds" "ext q > 0"
  shows "vm_inv pds (ext(q := ext q - 1)) (write_word (pt_of s pd i) k w s)"
proof (rule vm_write [OF inv loc])
  have w0: "w \<noteq> 0" using w(1) by auto
  show "w AND PTE_P \<noteq> 0 \<and> PGNUM w < npages s \<and> PGNUM w \<notin> pds \<and> PGNUM w \<notin> tables s pds"
    using w by simp
  show "r \<in> pds \<or> r \<in> tables s pds \<Longrightarrow> (ext(q := ext q - 1)) r = ext r" for r using w(4,5) by auto
  fix r
  have "(pd, i, k) \<notin> leafs s pds r" using old by (auto simp: leafs_def)
  then show "card (leafs s pds r) + ext r =
      card (leafs s pds r - {(pd, i, k)} \<union> (if w \<noteq> 0 \<and> PGNUM w = r then {(pd, i, k)} else {})) +
      (ext(q := ext q - 1)) r"
    using w0 w(2,6) finite_leafs [OF vm_inv_D(2) [OF inv], of s r] by auto
qed

end
