(* ===== verification/KVmOps.thy ===== *)
theory KVmOps
  imports KVm
begin

text \<open>
  What the page table operations of \<^verbatim>\<open>src/3-sched/kern/pmap.c\<close> do to an address space: each is
  an operation on the map \<open>translate s pd\<close> and keeps the invariant \<open>vm_inv\<close>.
\<close>

section \<open>Permission bits\<close>

lemma or_P_low: "(w::u32) < 0x1000 \<Longrightarrow> w OR 1 < 0x1000"
  by (simp add: low12_iff)

lemma and_or_P: "(v OR (w::u32)) AND 1 \<noteq> 0 \<longleftrightarrow> v AND 1 \<noteq> 0 \<or> w AND 1 \<noteq> 0"
  unfolding and_one_eq even_iff_mod_2_eq_zero [symmetric] bit_0 [symmetric] bit_or_iff by simp

lemma or_P_nonzero: "(w::u32) OR 1 \<noteq> 0"
proof
  assume "w OR 1 = 0"
  then have "bit (w OR 1) 0 = bit (0::u32) 0" by simp
  then show False by (simp add: bit_simps)
qed

section \<open>Walking and extending a page directory\<close>

lemma pte_nonzero: "p < 1048576 \<Longrightarrow> w < 0x1000 \<Longrightarrow> w \<noteq> 0 \<Longrightarrow> page2pa p OR w \<noteq> 0"
  using unat_pte [of p w] by (auto simp: unsigned_eq_0_iff)

lemma walk_present:
  assumes inv: "vm_inv pds ext s" and pd: "pd \<in> pds" "PDX va < NUPDE" "phys s pd (PDX va) \<noteq> 0"
  shows "pgdir_walk pd va c s = Inr (Some (pt_of s pd (PDX va), PTX va), s)"
proof -
  have "pt_of s pd (PDX va) < npages s" using vm_inv_D(5) [OF inv pt_of_table [OF pd]] .
  then show ?thesis using pd(3) by (simp add: pgdir_walk_def KADDR_def pt_of_def)
qed

lemma walk_absent: "phys s pd (PDX va) = 0 \<Longrightarrow> pgdir_walk pd va False s = Inr (None, s)"
  by (simp add: pgdir_walk_def)

lemma walk_no_memory:
  "page_inv s \<Longrightarrow> phys s pd (PDX va) = 0 \<Longrightarrow> page_pool s = [] \<Longrightarrow>
   pgdir_walk pd va True s = Inr (None, s)"
  by (simp add: pgdir_walk_def page_alloc_empty)

definition with_table :: "nat \<Rightarrow> nat \<Rightarrow> nat \<Rightarrow> kstate \<Rightarrow> kstate" where
  "with_table p pd i s =
     write_word pd i (page2pa p OR PTE_P OR PTE_W OR PTE_U) (page_incref p (popped True p s))"

lemma with_table_sel [simp]:
  "npages (with_table p pd i s) = npages s" "envs (with_table p pd i s) = envs s"
  "cpus (with_table p pd i s) = cpus s" "kern_pgdir (with_table p pd i s) = kern_pgdir s"
  "curenv (with_table p pd i s) = curenv s"
  by (simp_all add: with_table_def)

lemma with_table_pages:
  assumes inv: "page_inv s" and pool: "page_pool s = p # ps"
  shows "page_inv (with_table p pd i s)" "page_pool (with_table p pd i s) = ps"
    "page_ref (with_table p pd i s) = (page_ref s)(p := 1)"
proof -
  note A = page_alloc_cons(2-4) [OF inv pool, where z = True] page_alloc_cons(5-7) [OF inv pool]
  have "p < npages (popped True p s)" "p \<notin> set (page_pool (popped True p s))"
      "page_ref (popped True p s) p < 65535"
    using A by simp_all
  note I = page_incref_props [OF A(1) this]
  from I A show "page_inv (with_table p pd i s)" "page_pool (with_table p pd i s) = ps"
    "page_ref (with_table p pd i s) = (page_ref s)(p := 1)"
    by (simp_all add: with_table_def)
qed

lemma vm_add_table:
  assumes inv: "vm_inv pds ext s" and pool: "page_pool s = p # ps"
    and loc: "pd \<in> pds" "i < NUPDE" "phys s pd i = 0"
  defines "s' \<equiv> with_table p pd i s"
  shows "vm_inv pds ext s'" "phys s' pd i \<noteq> 0" "pt_of s' pd i = p" "phys s' p = (\<lambda>_. 0)"
    "pd' \<in> pds \<Longrightarrow> PDX va < NUPDE \<Longrightarrow> translate s' pd' va = translate s pd' va"
    "tables s' pds = insert p (tables s pds)" "leafs s' pds = leafs s pds"
proof -
  note D = vm_inv_D [OF inv]
  note A = page_alloc_cons [OF D(1) pool]
  note P = with_table_pages [OF D(1) pool, of pd i, folded s'_def]
  have p: "p < npages s" "p \<notin> pds" "p \<notin> tables s pds"
    using A(5,6) D(4) [of p] D(6) [of p] by auto
  have p20: "p < 1048576" using p(1) page_inv_D(2) [OF D(1)] by simp
  let ?w = "page2pa p OR 7"
  have w: "?w \<noteq> 0" "PGNUM ?w = p" using p20 pte_nonzero [of p 7] by simp_all
  have noleaf: "leafs s pds p = {}"
    using D(12) [OF p] A(6) finite_leafs [OF D(2), of s p] by simp
  have ph: "phys s' t j = (if t = pd \<and> j = i then ?w else if t = p then 0 else phys s t j)" for t j
    by (simp add: s'_def with_table_def)
  have pd: "phys s' pd' j = (if pd' = pd \<and> j = i then ?w else phys s pd' j)"
    "pt_of s' pd' j = (if pd' = pd \<and> j = i then p else pt_of s pd' j)" if "pd' \<in> pds" for pd' j
    using that p(2) w(2) unfolding pt_of_def ph by auto
  have tab: "phys s' t j = phys s t j" if "t \<in> tables s pds" for t j
    using that D(7) [OF that] p(3) loc(1) unfolding ph by auto
  show "phys s' pd i \<noteq> 0" "pt_of s' pd i = p" using pd loc(1) w by auto
  show zero: "phys s' p = (\<lambda>_. 0)" using p(2) loc(1) by (auto simp: ph fun_eq_iff)
  show tabs: "tables s' pds = insert p (tables s pds)"
  proof (rule set_eqI)
    fix t
    show "t \<in> tables s' pds \<longleftrightarrow> t \<in> insert p (tables s pds)"
    proof
      assume "t \<in> tables s' pds"
      then obtain a b where "a \<in> pds" "b < NUPDE" "phys s' a b \<noteq> 0" "t = pt_of s' a b"
        by (auto simp: tables_def)
      then show "t \<in> insert p (tables s pds)" by (auto simp: pd tables_def split: if_splits)
    next
      assume "t \<in> insert p (tables s pds)"
      then consider "t = p" | a b where "a \<in> pds" "b < NUPDE" "phys s a b \<noteq> 0" "t = pt_of s a b"
        by (auto simp: tables_def)
      then show "t \<in> tables s' pds"
      proof cases
        case 1
        have "phys s' pd i \<noteq> 0" "pt_of s' pd i = p" using pd loc(1) w by auto
        with 1 loc(1,2) show ?thesis using pt_of_table by metis
      next
        case 2
        then have "\<not> (a = pd \<and> b = i)" using loc(3) by auto
        then have "phys s' a b = phys s a b" "pt_of s' a b = pt_of s a b" using pd [OF 2(1)] by auto
        with 2 show ?thesis using pt_of_table [of a pds b s'] by simp
      qed
    qed
  qed
  show lf: "leafs s' pds = leafs s pds"
  proof (rule ext, rule set_eqI)
    fix q and x :: "nat \<times> nat \<times> nat"
    obtain a b c where x: "x = (a, b, c)" by (cases x)
    show "x \<in> leafs s' pds q \<longleftrightarrow> x \<in> leafs s pds q"
    proof (cases "a \<in> pds \<and> b < NUPDE \<and> \<not> (a = pd \<and> b = i)")
      case True
      then have e: "phys s' a b = phys s a b" "pt_of s' a b = pt_of s a b" using pd by auto
      show ?thesis
      proof (cases "phys s a b = 0")
        case False
        with True have "pt_of s a b \<in> tables s pds" by (auto intro: pt_of_table)
        from tab [OF this] e show ?thesis by (simp add: x leafs_def)
      qed (use e in \<open>simp add: x leafs_def\<close>)
    next
      case False
      then show ?thesis using loc pd [OF loc(1)] zero by (auto simp: x leafs_def)
    qed
  qed
  show "translate s' pd' va = translate s pd' va" if "pd' \<in> pds" "PDX va < NUPDE" for pd' va
  proof (cases "pd' = pd \<and> PDX va = i")
    case True
    then show ?thesis using loc(1,3) pd [of pd i] zero w(1) by (simp add: translate_def)
  next
    case False
    then have e: "phys s' pd' (PDX va) = phys s pd' (PDX va)" "pt_of s' pd' (PDX va) = pt_of s pd' (PDX va)"
      using pd [OF that(1)] by auto
    show ?thesis
    proof (cases "phys s pd' (PDX va) = 0")
      case False
      with that have "pt_of s pd' (PDX va) \<in> tables s pds" by (auto intro: pt_of_table)
      from tab [OF this] e show ?thesis by (simp add: translate_def)
    qed (simp add: translate_def e)
  qed
  have inj: "pd1 = pd2 \<and> i1 = i2"
    if h: "pd1 \<in> pds" "i1 < NUPDE" "pd2 \<in> pds" "i2 < NUPDE" "phys s' pd1 i1 \<noteq> 0" "phys s' pd2 i2 \<noteq> 0"
      "pt_of s' pd1 i1 = pt_of s' pd2 i2" for pd1 i1 pd2 i2
  proof -
    have t: "pt_of s a b \<noteq> p" if "a \<in> pds" "b < NUPDE" "phys s a b \<noteq> 0" for a b
      using pt_of_table [OF that] p(3) by auto
    show ?thesis using h t [of pd1 i1] t [of pd2 i2] D(8) [of pd1 i1 pd2 i2]
      by (auto simp: pd split: if_splits)
  qed
  have dirs: "\<forall>q\<in>pds. q < npages s \<and> page_ref s' q = 1"
    using D(3,4) p(2) by (auto simp: P(3))
  have tbls: "\<forall>t\<in>tables s' pds. t < npages s \<and> page_ref s' t = 1 \<and> t \<notin> pds"
    using D(5-7) p by (auto simp: tabs P(3))
  have lfs: "\<forall>q. leafs s' pds q \<noteq> {} \<longrightarrow> q < npages s \<and> q \<notin> pds \<and> q \<notin> tables s' pds"
    using D(9-11) noleaf unfolding lf tabs by blast
  have refs: "\<forall>q<npages s. q \<notin> pds \<and> q \<notin> tables s' pds \<longrightarrow> page_ref s' q = card (leafs s' pds q) + ext q"
    using D(12) by (auto simp: tabs lf P(3))
  have "?w AND PTE_P \<noteq> 0" by (simp add: and_or_P)
  then have pdp: "\<forall>q\<in>pds. \<forall>j<NUPDE. phys s' q j \<noteq> 0 \<longrightarrow> phys s' q j AND PTE_P \<noteq> 0"
    using D(13) by (auto simp: pd)
  have ptp: "\<forall>t\<in>tables s' pds. \<forall>k<1024. phys s' t k \<noteq> 0 \<longrightarrow> phys s' t k AND PTE_P \<noteq> 0"
    using D(14) zero tab by (auto simp: tabs)
  have "ext p = 0" using D(12) [OF p] A(6) by simp
  then have exts: "\<forall>q. q \<in> pds \<or> q \<in> tables s' pds \<longrightarrow> ext q = 0"
    using D(15,16) by (auto simp: tabs)
  show "vm_inv pds ext s'"
    unfolding vm_inv_def using P(1) D(2) dirs tbls lfs refs inj pdp ptp exts by (simp add: s'_def)
qed

lemma with_table_slot:
  assumes "vm_inv pds ext s" "page_pool s = p # ps" "pd \<in> pds" "PDX va < NUPDE" "phys s pd (PDX va) = 0"
  shows "pgdir_walk pd va True s = Inr (Some (p, PTX va), with_table p pd (PDX va) s)"
proof -
  note D = vm_inv_D [OF assms(1)]
  have p: "p < npages s" using page_alloc_cons(5) [OF D(1) assms(2)] .
  then have "p < 1048576" using page_inv_D(2) [OF D(1)] by simp
  then have w: "page2pa p OR 7 \<noteq> 0" "PGNUM (page2pa p OR 7) = p"
    using pte_nonzero [of p 7] by simp_all
  have alloc: "page_alloc True s = Inr (Some p, popped True p s)"
    using page_alloc_cons(1) [OF D(1) assms(2)] .
  from w p alloc assms(5) show ?thesis
    by (simp add: pgdir_walk_def KADDR_def with_table_def)
qed

text \<open>A successful walk with \<open>create\<close> ends at a slot of the page table, and maps nothing new.\<close>

lemma walk_create:
  assumes inv: "vm_inv pds ext s" and pd: "pd \<in> pds" "PDX va < NUPDE"
    and mem: "phys s pd (PDX va) \<noteq> 0 \<or> page_pool s \<noteq> []"
  obtains s' where "pgdir_walk pd va True s = Inr (Some (pt_of s' pd (PDX va), PTX va), s')"
    "vm_inv pds ext s'" "slot s' pds pd (PDX va) (PTX va)"
    "\<And>pd' va'. pd' \<in> pds \<Longrightarrow> PDX va' < NUPDE \<Longrightarrow> translate s' pd' va' = translate s pd' va'"
    "page_pool s' = (if phys s pd (PDX va) = 0 then tl (page_pool s) else page_pool s)"
    "tables s' pds \<subseteq> tables s pds \<union> set (page_pool s)"
    "leafs s' pds = leafs s pds" "npages s' = npages s" "envs s' = envs s" "cpus s' = cpus s"
    "\<And>q. q \<notin> set (page_pool s) \<Longrightarrow> page_ref s' q = page_ref s q"
proof (cases "phys s pd (PDX va) = 0")
  case False
  with assms show thesis
    by (intro that [of s]) (auto simp: walk_present slot_def)
next
  case True
  with mem obtain p ps where pool: "page_pool s = p # ps" by (cases "page_pool s") auto
  note V = vm_add_table [OF inv pool pd True] and P = with_table_pages [OF vm_inv_D(1) [OF inv] pool]
  show thesis
  proof (rule that [of "with_table p pd (PDX va) s"])
    show "pgdir_walk pd va True s =
        Inr (Some (pt_of (with_table p pd (PDX va) s) pd (PDX va), PTX va), with_table p pd (PDX va) s)"
      using with_table_slot [OF inv pool pd True] V(3) by simp
  qed (use True V P pool pd in \<open>auto simp: slot_def\<close>)
qed

section \<open>Looking up\<close>

lemma lookup_translate:
  assumes inv: "vm_inv pds ext s" and pd: "pd \<in> pds" "PDX va < NUPDE"
  shows "page_lookup pd va s = Inr (map_option (\<lambda>(q, perm). (q, pt_of s pd (PDX va), PTX va)) (translate s pd va))"
proof (cases "phys s pd (PDX va) = 0")
  case True
  then show ?thesis by (simp add: page_lookup_def walk_absent translate_def)
next
  case False
  note w = walk_present [OF inv pd False]
  have "PGNUM (phys s (pt_of s pd (PDX va)) (PTX va)) < npages s"
    if "phys s (pt_of s pd (PDX va)) (PTX va) \<noteq> 0"
    using vm_inv_D(9) [OF inv, of "(pd, PDX va, PTX va)"] that False pd by (auto simp: leafs_def)
  with w False show ?thesis by (simp add: page_lookup_def translate_def pa2page_def Let_def)
qed

lemma translate_write:
  assumes inv: "vm_inv pds ext s" and loc: "slot s pds pd i k" and pd': "pd' \<in> pds" "PDX va < NUPDE"
  shows "translate (write_word (pt_of s pd i) k w s) pd' va =
    (if pd' = pd \<and> PDX va = i \<and> PTX va = k then (if w = 0 then None else Some (PGNUM w, w AND 0xFFF))
     else translate s pd' va)"
proof -
  note W = write_slot(1,2) [OF inv loc pd'(1)]
  have "phys (write_word (pt_of s pd i) k w s) (pt_of s pd' (PDX va)) (PTX va) =
      (if pd' = pd \<and> PDX va = i \<and> PTX va = k then w else phys s (pt_of s pd' (PDX va)) (PTX va))"
    if "phys s pd' (PDX va) \<noteq> 0"
    using slot_table(3) [OF inv loc pd' that] by auto
  with slot_D [OF loc] show ?thesis
    unfolding translate_def W by (auto simp del: write_word_sel(10) simp: Let_def)
qed

section \<open>Removing a mapping\<close>

lemma page_decref_write:
  "page_decref p (write_word t i w s) = map_sum id (write_word t i w) (page_decref p s)"
  by (simp add: page_decref_def page_free_def upd_page_def write_word_def Let_def guardR_def)

lemma tlb_sel [simp]:
  "npages (tlb_invalidate pd va s) = npages s" "pages (tlb_invalidate pd va s) = pages s"
  "page_free_list (tlb_invalidate pd va s) = page_free_list s" "phys (tlb_invalidate pd va s) = phys s"
  "envs (tlb_invalidate pd va s) = envs s" "cpus (tlb_invalidate pd va s) = cpus s"
  by (simp_all add: tlb_invalidate_def)

lemma remove_unmapped:
  assumes "vm_inv pds ext s" "pd \<in> pds" "PDX va < NUPDE" "translate s pd va = None"
  shows "page_remove pd va s = Inr s"
  using lookup_translate [OF assms(1-3)] assms(4) by (simp add: page_remove_def)

lemma remove_mapped:
  assumes inv: "vm_inv pds ext s" and pd: "pd \<in> pds" "PDX va < NUPDE"
    and map: "translate s pd va = Some (q, perm)"
  obtains s' where "page_remove pd va s = Inr s'" "vm_inv pds ext s'"
    "\<And>pd' va'. pd' \<in> pds \<Longrightarrow> PDX va' < NUPDE \<Longrightarrow> translate s' pd' va' =
       (if pd' = pd \<and> PGNUM va' = PGNUM va then None else translate s pd' va')"
    "page_ref s' = (page_ref s)(q := page_ref s q - 1)"
    "page_pool s' = (if page_ref s q = 1 then q # page_pool s else page_pool s)"
    "\<And>t j. t \<notin> tables s pds \<Longrightarrow> phys s' t j = phys s t j"
    "tables s' pds = tables s pds" "leafs s' pds = (leafs s pds)(q := leafs s pds q - {(pd, PDX va, PTX va)})"
    "npages s' = npages s" "envs s' = envs s" "cpus s' = cpus s"
    "page_ref s q \<ge> 1" "q < npages s" "q \<notin> pds" "q \<notin> tables s pds"
proof -
  let ?t = "pt_of s pd (PDX va)" and ?k = "PTX va"
  have here: "phys s pd (PDX va) \<noteq> 0" "phys s ?t ?k \<noteq> 0" "PGNUM (phys s ?t ?k) = q"
    using map by (auto simp: translate_def Let_def split: if_splits)
  then have loc: "slot s pds pd (PDX va) ?k" using pd by (simp add: slot_def)
  have leaf: "(pd, PDX va, ?k) \<in> leafs s pds q" using pd here by (simp add: leafs_def)
  note q = vm_inv_D(9-11) [OF inv leaf]
  let ?s0 = "write_word ?t ?k 0 s"
  have inv0: "vm_inv pds (ext(q := Suc (ext q))) ?s0" by (rule vm_clear [OF inv loc here(2,3)])
  note W = write_slot [OF inv loc]
  have q0: "q < npages ?s0" "q \<notin> tables ?s0 pds" using q W(3) by simp_all
  obtain s1 where s1: "page_decref q ?s0 = Inr s1"
      "vm_inv pds ((ext(q := Suc (ext q)))(q := (ext(q := Suc (ext q))) q - 1)) s1"
      "page_pool s1 = (if page_ref ?s0 q = 1 then q # page_pool ?s0 else page_pool ?s0)"
      "page_ref s1 = (page_ref ?s0)(q := page_ref ?s0 q - 1)"
      "phys s1 = phys ?s0" "npages s1 = npages ?s0" "envs s1 = envs ?s0" "cpus s1 = cpus ?s0"
    by (rule vm_decref [OF inv0 q0(1) q(2) q0(2)]) simp_all
  from s1(1) obtain s2 where s2: "page_decref q s = Inr s2" "s1 = write_word ?t ?k 0 s2"
    by (cases "page_decref q s") (auto simp: page_decref_write)
  have rem: "page_remove pd va s = Inr (tlb_invalidate pd va s1)"
    using lookup_translate [OF inv pd] map s2 by (simp add: page_remove_def)
  have t: "PDX va' = PDX va \<and> PTX va' = PTX va \<longleftrightarrow> PGNUM va' = PGNUM va" for va'
    by (simp add: PGNUM_eq_iff)
  have cong: "vm_inv pds ext (tlb_invalidate pd va s1) = vm_inv pds ext s1"
    by (rule vm_inv_cong) simp_all
  have pcong: "page_pool (tlb_invalidate pd va s1) = page_pool s1"
    "page_ref (tlb_invalidate pd va s1) = page_ref s1"
    by (rule page_inv_cong; simp)+
  note same = vm_cong [of "tlb_invalidate pd va s1" s1] vm_cong [OF s1(5)]
  have ref: "page_ref s q \<ge> 1"
    using vm_inv_D(12) [OF inv q] leaf finite_leafs [OF vm_inv_D(2) [OF inv], of s q]
    by (metis One_nat_def Suc_leI add_gr_0 card_gt_0_iff empty_iff)
  have lf: "leafs ?s0 pds = (leafs s pds)(q := leafs s pds q - {(pd, PDX va, PTX va)})"
  proof (rule HOL.ext)
    fix r
    have "(pd, PDX va, PTX va) \<notin> leafs s pds r" if "r \<noteq> q" using that here by (auto simp: leafs_def)
    then show "leafs ?s0 pds r = ((leafs s pds)(q := leafs s pds q - {(pd, PDX va, PTX va)})) r"
      by (simp add: W(4))
  qed
  show thesis
  proof (rule that [OF rem])
    show "vm_inv pds ext (tlb_invalidate pd va s1)" using s1(2) by (simp add: cong)
    show "translate (tlb_invalidate pd va s1) pd' va' =
        (if pd' = pd \<and> PGNUM va' = PGNUM va then None else translate s pd' va')"
      if "pd' \<in> pds" "PDX va' < NUPDE" for pd' va'
      unfolding same(4) [OF tlb_sel(4)] same(8) translate_write [OF inv loc that] t by simp
    show "phys (tlb_invalidate pd va s1) t j = phys s t j" if "t \<notin> tables s pds" for t j
      using that slot_table(1) [OF inv loc] by (auto simp: s1(5))
  qed (use s1 lf ref q W(3) in \<open>simp_all add: pcong same(2,3) [OF tlb_sel(4)] same(6,7)\<close>)
qed

section \<open>Inserting a mapping\<close>

lemma insert_no_memory:
  "page_inv s \<Longrightarrow> phys s pd (PDX va) = 0 \<Longrightarrow> page_pool s = [] \<Longrightarrow>
   page_insert pd pp va perm s = Inr (- E_NO_MEM, s)"
  by (simp add: page_insert_def walk_no_memory)

lemma slot_unmapped:
  "slot s pds pd (PDX va) (PTX va) \<Longrightarrow> translate s pd va = None \<Longrightarrow>
   phys s (pt_of s pd (PDX va)) (PTX va) = 0"
  by (auto simp: slot_def translate_def Let_def split: if_splits)

text \<open>\<open>page_remove\<close> on an address whose page table exists: both cases together.\<close>

lemma remove_slot:
  assumes inv: "vm_inv pds ext s" and loc: "slot s pds pd (PDX va) (PTX va)"
  obtains s' where "page_remove pd va s = Inr s'" "vm_inv pds ext s'"
    "\<And>pd' va'. pd' \<in> pds \<Longrightarrow> PDX va' < NUPDE \<Longrightarrow> translate s' pd' va' =
       (if pd' = pd \<and> PGNUM va' = PGNUM va then None else translate s pd' va')"
    "slot s' pds pd (PDX va) (PTX va)" "pt_of s' pd (PDX va) = pt_of s pd (PDX va)"
    "tables s' pds = tables s pds" "npages s' = npages s" "envs s' = envs s" "cpus s' = cpus s"
    "\<And>t j. t \<notin> tables s pds \<Longrightarrow> phys s' t j = phys s t j" "set (page_pool s) \<subseteq> set (page_pool s')"
    "page_held s' = page_held s"
proof (cases "translate s pd va")
  case None
  note l = slot_D [OF loc]
  from None l have "page_remove pd va s = Inr s" by (intro remove_unmapped [OF inv]) auto
  moreover have "translate s pd' va' = None" if "pd' = pd \<and> PGNUM va' = PGNUM va" for pd' va'
  proof -
    have "translate s pd' va' = translate s pd va" using that by (simp add: translate_def PGNUM_eq_iff)
    with None show ?thesis by simp
  qed
  ultimately show thesis using inv loc by (intro that [of s]) auto
next
  case (Some m)
  obtain q perm where m: "m = (q, perm)" by (cases m)
  note l = slot_D [OF loc]
  from l have pd: "pd \<in> pds" "PDX va < NUPDE" by simp_all
  show thesis
  proof (rule remove_mapped [OF inv pd Some [unfolded m]])
    fix s'
    assume s': "page_remove pd va s = Inr s'" "vm_inv pds ext s'"
      "\<And>pd' va'. pd' \<in> pds \<Longrightarrow> PDX va' < NUPDE \<Longrightarrow> translate s' pd' va' =
         (if pd' = pd \<and> PGNUM va' = PGNUM va then None else translate s pd' va')"
      "\<And>t j. t \<notin> tables s pds \<Longrightarrow> phys s' t j = phys s t j" "tables s' pds = tables s pds"
      "npages s' = npages s" "envs s' = envs s" "cpus s' = cpus s"
      "page_pool s' = (if page_ref s q = 1 then q # page_pool s else page_pool s)"
      "page_ref s' = (page_ref s)(q := page_ref s q - 1)" "page_ref s q \<ge> 1"
    moreover from this have "page_held s' = page_held s" by (intro held_decref [of s' s q]) simp_all
    moreover have "pd \<notin> tables s pds" using vm_inv_D(7) [OF inv] pd(1) by blast
    ultimately show thesis using loc pd by (intro that [of s']) (auto simp: slot_def pt_of_def)
  qed
qed

lemma insert_maps:
  assumes inv: "vm_inv pds ext s" and pd: "pd \<in> pds" "PDX va < NUPDE"
    and mem: "phys s pd (PDX va) \<noteq> 0 \<or> page_pool s \<noteq> []"
    and pp: "pp < npages s" "pp \<notin> pds" "pp \<notin> tables s pds" "pp \<notin> set (page_pool s)"
      "page_ref s pp < 65535"
    and perm: "perm < 0x1000"
  obtains s' where "page_insert pd pp va perm s = Inr (0, s')" "vm_inv pds ext s'"
    "\<And>pd' va'. pd' \<in> pds \<Longrightarrow> PDX va' < NUPDE \<Longrightarrow> translate s' pd' va' =
       (if pd' = pd \<and> PGNUM va' = PGNUM va then Some (pp, perm OR PTE_P) else translate s pd' va')"
    "npages s' = npages s" "envs s' = envs s" "cpus s' = cpus s"
    "tables s' pds \<subseteq> tables s pds \<union> set (page_pool s)"
proof -
  from inv pd mem obtain s1 where
    w: "pgdir_walk pd va True s = Inr (Some (pt_of s1 pd (PDX va), PTX va), s1)"
    and s1: "vm_inv pds ext s1" "slot s1 pds pd (PDX va) (PTX va)"
      "\<And>pd' va'. pd' \<in> pds \<Longrightarrow> PDX va' < NUPDE \<Longrightarrow> translate s1 pd' va' = translate s pd' va'"
    and pool1: "page_pool s1 = (if phys s pd (PDX va) = 0 then tl (page_pool s) else page_pool s)"
    and tab1: "tables s1 pds \<subseteq> tables s pds \<union> set (page_pool s)"
    and sel1: "npages s1 = npages s" "envs s1 = envs s" "cpus s1 = cpus s"
    and ref1: "\<And>q. q \<notin> set (page_pool s) \<Longrightarrow> page_ref s1 q = page_ref s q"
    by (rule walk_create) blast
  have pp1: "pp < npages s1" "pp \<notin> tables s1 pds" "pp \<notin> set (page_pool s1)" "page_ref s1 pp < 65535"
  proof -
    have "set (tl (page_pool s)) \<subseteq> set (page_pool s)" by (cases "page_pool s") auto
    then show "pp < npages s1" "pp \<notin> tables s1 pds" "pp \<notin> set (page_pool s1)" "page_ref s1 pp < 65535"
      using pp tab1 sel1 ref1 pool1 by (auto split: if_splits)
  qed
  let ?s2 = "page_incref pp s1" and ?e = "ext(pp := Suc (ext pp))"
  have inv2: "vm_inv pds ?e ?s2" by (rule vm_incref(1) [OF s1(1) pp1(1) pp(2) pp1(2-4)])
  note same = vm_cong [of ?s2 s1, OF page_incref_sel(5)]
  have loc2: "slot ?s2 pds pd (PDX va) (PTX va)" using s1(2) by (simp add: slot_def)
  from inv2 loc2 obtain s3 where
    rem: "page_remove pd va ?s2 = Inr s3" and s3: "vm_inv pds ?e s3"
      "\<And>pd' va'. pd' \<in> pds \<Longrightarrow> PDX va' < NUPDE \<Longrightarrow> translate s3 pd' va' =
         (if pd' = pd \<and> PGNUM va' = PGNUM va then None else translate ?s2 pd' va')"
      "slot s3 pds pd (PDX va) (PTX va)" "pt_of s3 pd (PDX va) = pt_of ?s2 pd (PDX va)"
      "tables s3 pds = tables ?s2 pds" "npages s3 = npages ?s2" "envs s3 = envs ?s2" "cpus s3 = cpus ?s2"
    by (rule remove_slot) blast
  let ?w = "page2pa pp OR perm OR PTE_P"
  have perm': "perm OR PTE_P < 0x1000" using perm by (rule or_P_low)
  have pp20: "pp < 1048576" using pp(1) page_inv_D(2) [OF vm_inv_D(1) [OF inv]] by simp
  have nz: "perm OR PTE_P \<noteq> 0" by (rule or_P_nonzero)
  have w': "?w \<noteq> 0" "PGNUM ?w = pp" "?w AND 0xFFF = perm OR PTE_P"
    using pte_nonzero [OF pp20 perm' nz] PGNUM_pte [OF pp20 perm'] pte_low [OF perm'] by simp_all
  have old: "phys s3 (pt_of s3 pd (PDX va)) (PTX va) = 0"
    using s3(2) [OF pd] by (intro slot_unmapped [OF s3(3)]) simp
  have pp3: "pp < npages s3" "pp \<notin> tables s3 pds" using pp1 s3 same by simp_all
  let ?s4 = "write_word (pt_of s3 pd (PDX va)) (PTX va) ?w s3"
  have inv4: "vm_inv pds (?e(pp := ?e pp - 1)) ?s4"
    by (rule vm_set [OF s3(1,3) old _ w'(2) pp3(1) pp(2) pp3(2)]) (simp_all add: and_or_P)
  have run: "page_insert pd pp va perm s = Inr (0, ?s4)"
    using w rem s3(4) same(1) by (simp add: page_insert_def)
  show thesis
  proof (rule that [OF run])
    show "vm_inv pds ext ?s4" using inv4 by simp
    show "translate ?s4 pd' va' =
        (if pd' = pd \<and> PGNUM va' = PGNUM va then Some (pp, perm OR PTE_P) else translate s pd' va')"
      if "pd' \<in> pds" "PDX va' < NUPDE" for pd' va'
      unfolding translate_write [OF s3(1,3) that] s3(2) [OF that] same(4) s1(3) [OF that] w' PGNUM_eq_iff
      using w'(1) by auto
    show "tables ?s4 pds \<subseteq> tables s pds \<union> set (page_pool s)"
      using write_slot(3) [OF s3(1,3)] s3(5) same tab1 by simp
  qed (use s3 sel1 in simp_all)
qed

end
