(* ===== verification/KFrame.thy ===== *)
theory KFrame
  imports KPmap
begin

text \<open>
  What the page functions leave alone: everything but the page array, the free list, memory and the
  record of flushed translations. \<open>rest s\<close> is the state without these.
\<close>

definition rest :: "kstate \<Rightarrow> kstate" where
  "rest s = s\<lparr>pages := [], page_free_list := None, phys := (\<lambda>_ _. 0), invlpgs := []\<rparr>"

lemma rest_sel:
  assumes "rest s' = rest s"
  shows "npages s' = npages s" "envs s' = envs s" "env_free_list s' = env_free_list s"
    "cpus s' = cpus s" "thiscpu s' = thiscpu s" "kern_pgdir s' = kern_pgdir s" "cr3 s' = cr3 s"
    "kernel_lock s' = kernel_lock s" "sched_stats s' = sched_stats s" "curenv s' = curenv s"
    "nextfree s' = nextfree s" "mmio_base s' = mmio_base s"
proof -
  show "npages s' = npages s" using arg_cong [OF assms, of npages] by (simp add: rest_def)
  show "envs s' = envs s" using arg_cong [OF assms, of envs] by (simp add: rest_def)
  show "env_free_list s' = env_free_list s" using arg_cong [OF assms, of env_free_list] by (simp add: rest_def)
  show c: "cpus s' = cpus s" using arg_cong [OF assms, of cpus] by (simp add: rest_def)
  show t: "thiscpu s' = thiscpu s" using arg_cong [OF assms, of thiscpu] by (simp add: rest_def)
  show "kern_pgdir s' = kern_pgdir s" using arg_cong [OF assms, of kern_pgdir] by (simp add: rest_def)
  show "cr3 s' = cr3 s" using arg_cong [OF assms, of cr3] by (simp add: rest_def)
  show "kernel_lock s' = kernel_lock s" using arg_cong [OF assms, of kernel_lock] by (simp add: rest_def)
  show "sched_stats s' = sched_stats s" using arg_cong [OF assms, of sched_stats] by (simp add: rest_def)
  show "curenv s' = curenv s" using c t by (simp add: curenv_def)
  show "nextfree s' = nextfree s" using arg_cong [OF assms, of nextfree] by (simp add: rest_def)
  show "mmio_base s' = mmio_base s" using arg_cong [OF assms, of mmio_base] by (simp add: rest_def)
qed

lemma rest_updates [simp]:
  "rest (upd_page p f s) = rest s" "rest (write_word t i w s) = rest s"
  "rest (page_incref p s) = rest s" "rest (tlb_invalidate pd va s) = rest s"
  "rest (s\<lparr>page_free_list := fl\<rparr>) = rest s" "rest (s\<lparr>phys := ph\<rparr>) = rest s"
  "rest (s\<lparr>pages := pg\<rparr>) = rest s"
  by (simp_all add: rest_def upd_page_def write_word_def page_incref_def tlb_invalidate_def)

lemma rest_page_alloc: "page_alloc z s = Inr (r, s') \<Longrightarrow> rest s' = rest s"
  by (auto simp: page_alloc_def Let_def cres_simps split: option.splits if_splits)

lemma rest_page_free: "page_free p s = Inr s' \<Longrightarrow> rest s' = rest s"
  by (auto simp: page_free_def cres_simps)

lemma rest_page_decref: "page_decref p s = Inr s' \<Longrightarrow> rest s' = rest s"
  by (auto simp: page_decref_def Let_def dest: rest_page_free split: if_splits)

lemma rest_pgdir_walk: "pgdir_walk pd va c s = Inr (r, s') \<Longrightarrow> rest s' = rest s"
  by (auto simp: pgdir_walk_def Let_def cres_simps dest!: rest_page_alloc split: option.splits if_splits)

lemma rest_page_remove: "page_remove pd va s = Inr s' \<Longrightarrow> rest s' = rest s"
  by (auto simp: page_remove_def cres_simps dest!: rest_page_decref split: option.splits)

lemma rest_page_insert: "page_insert pd pp va perm s = Inr (r, s') \<Longrightarrow> rest s' = rest s"
  by (auto simp: page_insert_def cres_simps dest!: rest_pgdir_walk rest_page_remove split: option.splits)

lemma rest_foldR:
  assumes "foldR f xs s = Inr s'" "\<And>x t t'. f x t = Inr t' \<Longrightarrow> rest t' = rest t"
  shows "rest s' = rest s"
  by (rule foldR_inv [OF assms(1), where I = "\<lambda>t. rest t = rest s"]) (use assms(2) in auto)

lemma rest_boot_map_region: "boot_map_region pd va sz pa perm s = Inr s' \<Longrightarrow> rest s' = rest s"
  unfolding boot_map_region_def
  by (erule rest_foldR)
    (auto simp: boot_map_step_def cres_simps dest!: rest_pgdir_walk rest_page_remove split: option.splits)

lemmas rest_ops = rest_page_alloc rest_page_free rest_page_decref rest_pgdir_walk rest_page_remove
  rest_page_insert rest_boot_map_region

end
