(* ===== verification/KVmFree.thy ===== *)
theory KVmFree
  imports KVmOps KEnv KFrame
begin

text \<open>
  Creating and tearing down address spaces: a fresh page directory maps nothing below \<open>UTOP\<close>, and
  \<open>env_free\<close> unmaps every page, then frees the page tables and the directory.
\<close>

section \<open>Dropping an empty page table\<close>

lemma decref_last:
  assumes "page_inv s" "p < npages s" "page_ref s p = 1"
  obtains s' where "page_decref p s = Inr s'" "page_inv s'" "page_pool s' = p # page_pool s"
    "page_ref s' = (page_ref s)(p := 0)" "phys s' = phys s" "npages s' = npages s" "envs s' = envs s"
    "cpus s' = cpus s" "kern_pgdir s' = kern_pgdir s" "curenv s' = curenv s"
  by (rule page_decref_props [OF assms(1,2)]) (use assms(3) that in auto)

lemma vm_drop_table:
  assumes inv: "vm_inv pds ext s" and pd: "pd \<in> pds" "i < NUPDE" "phys s pd i \<noteq> 0"
    and empty: "\<And>k. k < 1024 \<Longrightarrow> phys s (pt_of s pd i) k = 0"
  obtains s' where "page_decref (pt_of s pd i) (write_word pd i 0 s) = Inr s'" "vm_inv pds ext s'"
    "\<And>q j. phys s' q j = (if q = pd \<and> j = i then 0 else phys s q j)"
    "page_pool s' = pt_of s pd i # page_pool s" "page_ref s' = (page_ref s)(pt_of s pd i := 0)"
    "tables s' pds = tables s pds - {pt_of s pd i}" "leafs s' pds = leafs s pds"
    "npages s' = npages s" "envs s' = envs s"
    "cpus s' = cpus s" "kern_pgdir s' = kern_pgdir s" "page_held s' = page_held s"
proof -
  note D = vm_inv_D [OF inv]
  let ?t = "pt_of s pd i" and ?s1 = "write_word pd i 0 s"
  have t: "?t \<in> tables s pds" by (rule pt_of_table [OF pd])
  note tD = D(5-7) [OF t]
  have "page_inv ?s1" "?t < npages ?s1" "page_ref ?s1 ?t = 1" using D(1) tD by simp_all
  then obtain s' where s': "page_decref ?t ?s1 = Inr s'" "page_inv s'" "page_pool s' = ?t # page_pool ?s1"
      "page_ref s' = (page_ref ?s1)(?t := 0)" "phys s' = phys ?s1" "npages s' = npages ?s1"
      "envs s' = envs ?s1" "cpus s' = cpus ?s1" "kern_pgdir s' = kern_pgdir ?s1"
    by (rule decref_last)
  have ph: "phys s' q j = (if q = pd \<and> j = i then 0 else phys s q j)" for q j
    by (simp add: s'(5))
  have pt: "pt_of s' q j = pt_of s q j" if "\<not> (q = pd \<and> j = i)" for q j
    using that by (simp only: pt_of_def ph if_False)
  have other: "pt_of s a b \<noteq> ?t" if "a \<in> pds" "b < NUPDE" "phys s a b \<noteq> 0" "\<not> (a = pd \<and> b = i)" for a b
    using D(8) [of a b pd i] that pd by auto
  have tabs: "tables s' pds = tables s pds - {?t}"
  proof (rule set_eqI)
    fix x
    show "x \<in> tables s' pds \<longleftrightarrow> x \<in> tables s pds - {?t}"
    proof
      assume "x \<in> tables s' pds"
      then obtain a b where ab: "a \<in> pds" "b < NUPDE" "phys s' a b \<noteq> 0" "x = pt_of s' a b"
        by (auto simp: tables_def)
      then have "\<not> (a = pd \<and> b = i)" "phys s a b \<noteq> 0" by (auto simp: ph split: if_splits)
      then show "x \<in> tables s pds - {?t}"
        using ab pt [of a b] other [of a b] pt_of_table [of a pds b s] by auto
    next
      assume "x \<in> tables s pds - {?t}"
      then obtain a b where ab: "a \<in> pds" "b < NUPDE" "phys s a b \<noteq> 0" "x = pt_of s a b" "x \<noteq> ?t"
        by (auto simp: tables_def)
      then have "\<not> (a = pd \<and> b = i)" by auto
      then show "x \<in> tables s' pds"
        using ab pt [of a b] pt_of_table [of a pds b s'] by (auto simp: ph)
    qed
  qed
  have tab_ph: "phys s' x j = phys s x j" if "x \<in> tables s pds" for x j
    using D(7) [OF that] pd(1) by (auto simp: ph)
  have lf: "leafs s' pds = leafs s pds"
  proof (rule HOL.ext, rule set_eqI)
    fix q and x :: "nat \<times> nat \<times> nat"
    obtain a b c where x: "x = (a, b, c)" by (cases x)
    show "x \<in> leafs s' pds q \<longleftrightarrow> x \<in> leafs s pds q"
    proof (cases "a \<in> pds \<and> b < NUPDE \<and> phys s a b \<noteq> 0 \<and> \<not> (a = pd \<and> b = i)")
      case True
      then have "phys s' (pt_of s' a b) c = phys s (pt_of s a b) c"
        using pt [of a b] tab_ph pt_of_table [of a pds b s] by simp
      with True show ?thesis by (auto simp: x leafs_def ph)
    next
      case False
      then show ?thesis using empty by (auto simp: x leafs_def ph split: if_splits)
    qed
  qed
  have noleaf: "leafs s pds ?t = {}" using D(11) t by blast
  have P: "page_pool s' = ?t # page_pool s" "page_ref s' = (page_ref s)(?t := 0)" "npages s' = npages s"
    using s' by simp_all
  have c1: "\<forall>q\<in>pds. q < npages s' \<and> page_ref s' q = 1" using D(3,4) tD(3) by (auto simp: P)
  have c2: "\<forall>x\<in>tables s' pds. x < npages s' \<and> page_ref s' x = 1 \<and> x \<notin> pds"
    using D(5-7) by (auto simp: P tabs)
  have c3: "a = a' \<and> b = b'"
    if "a \<in> pds" "b < NUPDE" "a' \<in> pds" "b' < NUPDE" "phys s' a b \<noteq> 0" "phys s' a' b' \<noteq> 0"
      "pt_of s' a b = pt_of s' a' b'" for a b a' b'
    using that D(8) [of a b a' b'] pt [of a b] pt [of a' b'] by (auto simp: ph split: if_splits)
  have c4: "\<forall>q\<in>pds. \<forall>j<NUPDE. phys s' q j \<noteq> 0 \<longrightarrow> phys s' q j AND PTE_P \<noteq> 0"
    using D(13) by (auto simp: ph)
  have c5: "\<forall>x\<in>tables s' pds. \<forall>k<1024. phys s' x k \<noteq> 0 \<longrightarrow> phys s' x k AND PTE_P \<noteq> 0"
    using D(14) tab_ph by (auto simp: tabs)
  have c6: "\<forall>q. leafs s' pds q \<noteq> {} \<longrightarrow> q < npages s' \<and> q \<notin> pds \<and> q \<notin> tables s' pds"
    using D(9-11) unfolding lf tabs P by blast
  have c7: "\<forall>q. q \<in> pds \<or> q \<in> tables s' pds \<longrightarrow> ext q = 0" using D(15,16) by (auto simp: tabs)
  have c8: "\<forall>q<npages s'. q \<notin> pds \<and> q \<notin> tables s' pds \<longrightarrow> page_ref s' q = card (leafs s' pds q) + ext q"
    using D(12) D(16) [OF t] noleaf by (auto simp: tabs lf P)
  have "vm_inv pds ext s'"
    unfolding vm_inv_def using s'(2) D(2) c1 c2 c3 c4 c5 c6 c7 c8 by blast
  moreover have "page_held s' = page_held s"
    using tD(2) P by (intro held_decref [of s' s ?t]) simp_all
  ultimately show thesis using s' ph P tabs lf by (intro that [of s']) simp_all
qed

section \<open>Unmapping a page table\<close>

lemma free_pte:
  assumes inv: "vm_inv pds ext s" and loc: "slot s pds pd i k"
  obtains s' where "env_free_pte pd i (pt_of s pd i) k s = Inr s'" "vm_inv pds ext s'"
    "\<And>pd' va'. pd' \<in> pds \<Longrightarrow> PDX va' < NUPDE \<Longrightarrow> translate s' pd' va' =
       (if pd' = pd \<and> PDX va' = i \<and> PTX va' = k then None else translate s pd' va')"
    "tables s' pds = tables s pds" "\<And>t j. t \<notin> tables s pds \<Longrightarrow> phys s' t j = phys s t j"
    "set (page_pool s) \<subseteq> set (page_pool s')" "page_held s' = page_held s"
proof -
  note l = slot_D [OF loc]
  let ?va = "PGADDR i k 0"
  have va: "PDX ?va = i" "PTX ?va = k" using PGADDR_parts [of i k] l by simp_all
  show thesis
  proof (cases "phys s (pt_of s pd i) k AND PTE_P \<noteq> 0")
    case True
    from loc have "slot s pds pd (PDX ?va) (PTX ?va)" by (simp add: va)
    with inv obtain s' where s': "page_remove pd ?va s = Inr s'" "vm_inv pds ext s'"
      "\<And>pd' va'. pd' \<in> pds \<Longrightarrow> PDX va' < NUPDE \<Longrightarrow> translate s' pd' va' =
         (if pd' = pd \<and> PGNUM va' = PGNUM ?va then None else translate s pd' va')"
      "tables s' pds = tables s pds" "\<And>t j. t \<notin> tables s pds \<Longrightarrow> phys s' t j = phys s t j"
      "set (page_pool s) \<subseteq> set (page_pool s')" "page_held s' = page_held s"
      by (rule remove_slot) blast
    show thesis
      by (rule that [of s']) (use True s' in \<open>auto simp: env_free_pte_def PGNUM_eq_iff va\<close>)
  next
    case False
    then have "phys s (pt_of s pd i) k = 0"
      using vm_inv_D(14) [OF inv slot_table(1) [OF inv loc]] l by blast
    then have none: "translate s pd' va' = None" if "pd' = pd \<and> PDX va' = i \<and> PTX va' = k" for pd' va'
      using that by (simp add: translate_def)
    show thesis
      by (rule that [of s]) (use False inv none in \<open>auto simp: env_free_pte_def\<close>)
  qed
qed

lemma rest_env_free_pte: "env_free_pte pd i t k s = Inr s' \<Longrightarrow> rest s' = rest s"
  by (auto simp: env_free_pte_def dest: rest_page_remove split: if_splits)

lemma free_pde:
  assumes inv: "vm_inv pds ext s" and pd: "pd \<in> pds" "i < NUPDE"
  obtains s' where "env_free_pde pd i s = Inr s'" "vm_inv pds ext s'" "phys s' pd i = 0"
    "\<And>pd' va'. pd' \<in> pds \<Longrightarrow> PDX va' < NUPDE \<Longrightarrow> translate s' pd' va' =
       (if pd' = pd \<and> PDX va' = i then None else translate s pd' va')"
    "\<And>t j. t \<notin> tables s pds \<Longrightarrow> \<not> (t = pd \<and> j = i) \<Longrightarrow> phys s' t j = phys s t j"
    "tables s' pds \<subseteq> tables s pds" "set (page_pool s) \<subseteq> set (page_pool s')"
    "page_held s' = page_held s"
proof (cases "phys s pd i = 0")
  case True
  then have "translate s pd va' = None" if "PDX va' = i" for va' using that by (simp add: translate_def)
  with True inv show thesis by (intro that [of s]) (auto simp: env_free_pde_def)
next
  case False
  let ?t = "pt_of s pd i"
  have t: "?t \<in> tables s pds" by (rule pt_of_table [OF pd False])
  have notab: "pd' \<notin> tables s pds" if "pd' \<in> pds" for pd' using vm_inv_D(7) [OF inv] that by blast
  define I where "I k u \<longleftrightarrow> vm_inv pds ext u \<and> tables u pds = tables s pds \<and>
      (\<forall>pd' va'. pd' \<in> pds \<longrightarrow> PDX va' < NUPDE \<longrightarrow> translate u pd' va' =
         (if pd' = pd \<and> PDX va' = i \<and> PTX va' < k then None else translate s pd' va')) \<and>
      (\<forall>t j. t \<notin> tables s pds \<longrightarrow> phys u t j = phys s t j) \<and> set (page_pool s) \<subseteq> set (page_pool u) \<and>
      page_held u = page_held s"
    for k u
  have "\<exists>u. foldR (env_free_pte pd i ?t) [0..<1024] s = Inr u \<and> I 1024 u"
  proof (rule foldR_upt)
    show "I 0 s" using inv by (simp add: I_def)
  next
    fix k u
    assume k: "k < 1024" and u: "I k u"
    from u have u': "vm_inv pds ext u" "tables u pds = tables s pds"
      "\<And>t j. t \<notin> tables s pds \<Longrightarrow> phys u t j = phys s t j" by (simp_all add: I_def)
    have pde: "phys u pd i = phys s pd i" using u'(3) notab [OF pd(1)] by blast
    then have pt: "pt_of u pd i = ?t" and sl: "slot u pds pd i k"
      using False pd k by (simp_all add: pt_of_def slot_def)
    obtain u2 where u2: "env_free_pte pd i (pt_of u pd i) k u = Inr u2" "vm_inv pds ext u2"
      "\<And>pd' va'. pd' \<in> pds \<Longrightarrow> PDX va' < NUPDE \<Longrightarrow> translate u2 pd' va' =
         (if pd' = pd \<and> PDX va' = i \<and> PTX va' = k then None else translate u pd' va')"
      "tables u2 pds = tables u pds" "\<And>t j. t \<notin> tables u pds \<Longrightarrow> phys u2 t j = phys u t j"
      "set (page_pool u) \<subseteq> set (page_pool u2)" "page_held u2 = page_held u"
      using free_pte [OF u'(1) sl] by metis
    have "I (Suc k) u2"
      unfolding I_def using u u2 u' by (auto simp: I_def less_Suc_eq)
    with u2(1) pt show "\<exists>u2. env_free_pte pd i ?t k u = Inr u2 \<and> I (Suc k) u2" by auto
  qed
  then obtain u where run: "foldR (env_free_pte pd i ?t) [0..<1024] s = Inr u" and u: "I 1024 u" by blast
  from u have u': "vm_inv pds ext u" "tables u pds = tables s pds"
    "\<And>pd' va'. pd' \<in> pds \<Longrightarrow> PDX va' < NUPDE \<Longrightarrow> translate u pd' va' =
         (if pd' = pd \<and> PDX va' = i \<and> PTX va' < 1024 then None else translate s pd' va')"
    "\<And>t j. t \<notin> tables s pds \<Longrightarrow> phys u t j = phys s t j" "set (page_pool s) \<subseteq> set (page_pool u)"
    "page_held u = page_held s"
    unfolding I_def by blast+
  have pde: "phys u pd i = phys s pd i" using u'(4) notab [OF pd(1)] by blast
  then have pt: "pt_of u pd i = ?t" and pdu: "phys u pd i \<noteq> 0" using False by (simp_all add: pt_of_def)
  have empty: "phys u (pt_of u pd i) k = 0" if k: "k < 1024" for k
  proof -
    have va: "PDX (PGADDR i k 0) = i" "PTX (PGADDR i k 0) = k" using PGADDR_parts [of i k] pd k by simp_all
    then have "translate u pd (PGADDR i k 0) = None" using u'(3) [OF pd(1), of "PGADDR i k 0"] pd(2) k by simp
    then show ?thesis using pdu by (auto simp: translate_def va Let_def split: if_splits)
  qed
  obtain s' where s': "page_decref (pt_of u pd i) (write_word pd i 0 u) = Inr s'" "vm_inv pds ext s'"
    "\<And>q j. phys s' q j = (if q = pd \<and> j = i then 0 else phys u q j)"
    "page_pool s' = pt_of u pd i # page_pool u" "tables s' pds = tables u pds - {pt_of u pd i}"
    "page_held s' = page_held u"
    by (rule vm_drop_table [OF u'(1) pd pdu], erule empty, rule that; assumption)
  have np: "npages u = npages s"
    by (rule rest_sel(1), rule rest_foldR [OF run], rule rest_env_free_pte)
  have tn: "?t < npages s" using vm_inv_D(5) [OF inv t] .
  have P: "phys s pd i AND PTE_P \<noteq> 0" using vm_inv_D(13) [OF inv pd False] .
  have res: "env_free_pde pd i s = Inr s'"
    using P tn run s'(1) np by (simp add: env_free_pde_def KADDR_def pa2page_def pt flip: pt_of_def)
  show thesis
  proof (rule that [OF res s'(2)])
    show "phys s' pd i = 0" by (simp add: s'(3))
    show "phys s' q j = phys s q j" if "q \<notin> tables s pds" "\<not> (q = pd \<and> j = i)" for q j
      using that u'(4) by (auto simp: s'(3))
    show "tables s' pds \<subseteq> tables s pds" using s'(5) u'(2) by auto
    show "set (page_pool s) \<subseteq> set (page_pool s')" using s'(4) u'(5) by auto
    show "page_held s' = page_held s" using s'(6) u'(6) by simp
    show "translate s' pd' va' = (if pd' = pd \<and> PDX va' = i then None else translate s pd' va')"
      if h: "pd' \<in> pds" "PDX va' < NUPDE" for pd' va'
    proof (cases "pd' = pd \<and> PDX va' = i")
      case True
      then show ?thesis using s'(3) by (simp add: translate_def)
    next
      case False
      have e: "phys s' pd' (PDX va') = phys u pd' (PDX va')" using False s'(3) by auto
      have "translate s' pd' va' = translate u pd' va'"
      proof (cases "phys u pd' (PDX va') = 0")
        case nz: False
        then have "pt_of u pd' (PDX va') \<in> tables u pds" using h pt_of_table by blast
        then have "phys s' (pt_of u pd' (PDX va')) = phys u (pt_of u pd' (PDX va'))"
          using notab [OF pd(1)] u'(2) by (auto simp: fun_eq_iff s'(3))
        then show ?thesis using e by (simp add: translate_def pt_of_def)
      qed (use e in \<open>simp add: translate_def\<close>)
      with False u'(3) [OF h] show ?thesis by auto
    qed
  qed
qed

section \<open>Whole address spaces\<close>

lemma PDX_UTOP: "PDX UTOP = NUPDE"
  by (simp add: PDX_div)

lemma rest_env_free_pde: "env_free_pde pd i s = Inr s' \<Longrightarrow> rest s' = rest s"
  by (auto simp: env_free_pde_def Let_def cres_simps split: if_splits
      dest!: rest_foldR [OF _ rest_env_free_pte] rest_page_decref)

lemma free_user_part:
  assumes inv: "vm_inv pds ext s" and pd: "pd \<in> pds"
  obtains s' where "foldR (env_free_pde pd) [0..<NUPDE] s = Inr s'" "vm_inv pds ext s'"
    "\<And>i. i < NUPDE \<Longrightarrow> phys s' pd i = 0"
    "\<And>pd' va'. pd' \<in> pds \<Longrightarrow> PDX va' < NUPDE \<Longrightarrow> pd' \<noteq> pd \<Longrightarrow> translate s' pd' va' = translate s pd' va'"
    "\<And>t j. t \<notin> tables s pds \<Longrightarrow> t \<noteq> pd \<Longrightarrow> phys s' t j = phys s t j"
    "tables s' pds \<subseteq> tables s pds" "set (page_pool s) \<subseteq> set (page_pool s')" "page_held s' = page_held s"
    "rest s' = rest s"
proof -
  define I where "I k u \<longleftrightarrow> vm_inv pds ext u \<and> (\<forall>i<k. phys u pd i = 0) \<and>
      (\<forall>pd' va'. pd' \<in> pds \<longrightarrow> PDX va' < NUPDE \<longrightarrow> pd' \<noteq> pd \<longrightarrow> translate u pd' va' = translate s pd' va') \<and>
      (\<forall>t j. t \<notin> tables s pds \<longrightarrow> t \<noteq> pd \<longrightarrow> phys u t j = phys s t j) \<and>
      tables u pds \<subseteq> tables s pds \<and> set (page_pool s) \<subseteq> set (page_pool u) \<and>
      page_held u = page_held s" for k u
  have "\<exists>u. foldR (env_free_pde pd) [0..<NUPDE] s = Inr u \<and> I NUPDE u"
  proof (rule foldR_upt)
    show "I 0 s" using inv by (simp add: I_def)
  next
    fix k u
    assume k: "k < NUPDE" and u: "I k u"
    from u have u': "vm_inv pds ext u" "\<And>i. i < k \<Longrightarrow> phys u pd i = 0"
      "\<And>pd' va'. pd' \<in> pds \<Longrightarrow> PDX va' < NUPDE \<Longrightarrow> pd' \<noteq> pd \<Longrightarrow> translate u pd' va' = translate s pd' va'"
      "\<And>t j. t \<notin> tables s pds \<Longrightarrow> t \<noteq> pd \<Longrightarrow> phys u t j = phys s t j"
      "tables u pds \<subseteq> tables s pds" "set (page_pool s) \<subseteq> set (page_pool u)" "page_held u = page_held s"
      unfolding I_def by blast+
    obtain v where v: "env_free_pde pd k u = Inr v" "vm_inv pds ext v" "phys v pd k = 0"
      "\<And>pd' va'. pd' \<in> pds \<Longrightarrow> PDX va' < NUPDE \<Longrightarrow> translate v pd' va' =
         (if pd' = pd \<and> PDX va' = k then None else translate u pd' va')"
      "\<And>t j. t \<notin> tables u pds \<Longrightarrow> \<not> (t = pd \<and> j = k) \<Longrightarrow> phys v t j = phys u t j"
      "tables v pds \<subseteq> tables u pds" "set (page_pool u) \<subseteq> set (page_pool v)" "page_held v = page_held u"
      by (rule free_pde [OF u'(1) pd k]) (rule that; assumption)
    have nt: "pd \<notin> tables u pds" using vm_inv_D(7) [OF u'(1)] pd by blast
    have "I (Suc k) v"
      unfolding I_def
    proof (intro conjI allI impI)
      show "phys v pd i = 0" if "i < Suc k" for i
        using that v(3) v(5) [OF nt, of i] u'(2) [of i] by (cases "i = k") simp_all
      show "translate v pd' va' = translate s pd' va'" if "pd' \<in> pds" "PDX va' < NUPDE" "pd' \<noteq> pd" for pd' va'
        using v(4) [OF that(1,2)] u'(3) [OF that] that(3) by simp
      show "phys v t j = phys s t j" if "t \<notin> tables s pds" "t \<noteq> pd" for t j
      proof -
        have "t \<notin> tables u pds" using that(1) u'(5) by blast
        then show ?thesis using v(5) [of t j] u'(4) [OF that] that(2) by simp
      qed
      show "tables v pds \<subseteq> tables s pds" using v(6) u'(5) by (rule order_trans)
      show "set (page_pool s) \<subseteq> set (page_pool v)" using u'(6) v(7) by (rule order_trans)
      show "page_held v = page_held s" using v(8) u'(7) by simp
    qed (rule v(2))
    with v(1) show "\<exists>v. env_free_pde pd k u = Inr v \<and> I (Suc k) v" by blast
  qed
  then obtain u where run: "foldR (env_free_pde pd) [0..<NUPDE] s = Inr u" and u: "I NUPDE u" by blast
  have r: "rest u = rest s" by (rule rest_foldR [OF run rest_env_free_pde])
  from u have U: "vm_inv pds ext u" "\<And>i. i < NUPDE \<Longrightarrow> phys u pd i = 0"
      "\<And>pd' va'. pd' \<in> pds \<Longrightarrow> PDX va' < NUPDE \<Longrightarrow> pd' \<noteq> pd \<Longrightarrow> translate u pd' va' = translate s pd' va'"
      "\<And>t j. t \<notin> tables s pds \<Longrightarrow> t \<noteq> pd \<Longrightarrow> phys u t j = phys s t j"
      "tables u pds \<subseteq> tables s pds" "set (page_pool s) \<subseteq> set (page_pool u)" "page_held u = page_held s"
      unfolding I_def by blast+
  show thesis by (rule that [OF run]) (fact U r)+
qed

lemma empty_dir:
  assumes "\<And>i. i < NUPDE \<Longrightarrow> phys s pd i = 0"
  shows "tables s (insert pd pds) = tables s pds" "leafs s (insert pd pds) q = leafs s pds q"
    "PDX va < NUPDE \<Longrightarrow> translate s pd va = None"
  using assms by (auto simp: tables_def leafs_def translate_def)

lemma vm_drop_dir:
  assumes inv: "vm_inv pds ext s" and pd: "pd \<in> pds" and empty: "\<And>i. i < NUPDE \<Longrightarrow> phys s pd i = 0"
  obtains s' where "page_decref pd s = Inr s'" "vm_inv (pds - {pd}) ext s'" "phys s' = phys s"
    "page_pool s' = pd # page_pool s" "tables s' (pds - {pd}) = tables s pds" "page_held s' = page_held s"
proof -
  note D = vm_inv_D [OF inv]
  have ins: "insert pd (pds - {pd}) = pds" using pd by auto
  have t: "tables s (pds - {pd}) = tables s pds"
    using empty_dir(1) [OF empty, where pds = "pds - {pd}"] unfolding ins by (rule sym)
  have t': "leafs s (pds - {pd}) q = leafs s pds q" for q
    using empty_dir(2) [OF empty, where pds = "pds - {pd}" and q = q] unfolding ins by (rule sym)
  obtain s' where s': "page_decref pd s = Inr s'" "page_inv s'" "page_pool s' = pd # page_pool s"
      "page_ref s' = (page_ref s)(pd := 0)" "phys s' = phys s" "npages s' = npages s"
    by (rule decref_last [OF D(1) D(3) [OF pd] D(4) [OF pd]]) (rule that; assumption)
  note same = vm_cong [OF s'(5)]
  have nt: "pd \<notin> tables s pds" using D(7) pd by blast
  have "leafs s pds pd = {}" using D(10) pd by blast
  then have z: "card (leafs s pds pd) + ext pd = 0" using D(15) [OF pd] by simp
  have c1: "\<forall>q\<in>pds - {pd}. q < npages s' \<and> page_ref s' q = 1" using D(3,4) by (auto simp: s')
  have c2: "\<forall>x\<in>tables s pds. x < npages s' \<and> page_ref s' x = 1 \<and> x \<notin> pds - {pd}"
    using D(5-7) nt by (auto simp: s')
  have c3: "a = a' \<and> b = b'"
    if "a \<in> pds - {pd}" "b < NUPDE" "a' \<in> pds - {pd}" "b' < NUPDE" "phys s a b \<noteq> 0" "phys s a' b' \<noteq> 0"
      "pt_of s a b = pt_of s a' b'" for a b a' b'
    using that D(8) [of a b a' b'] by auto
  have c4: "\<forall>q\<in>pds - {pd}. \<forall>j<NUPDE. phys s q j \<noteq> 0 \<longrightarrow> phys s q j AND PTE_P \<noteq> 0"
    using D(13) by auto
  have c5: "\<forall>x\<in>tables s pds. \<forall>k<1024. phys s x k \<noteq> 0 \<longrightarrow> phys s x k AND PTE_P \<noteq> 0"
    using D(14) by auto
  have c6: "\<forall>q. leafs s pds q \<noteq> {} \<longrightarrow> q < npages s' \<and> q \<notin> pds - {pd} \<and> q \<notin> tables s pds"
    using D(9-11) unfolding s'(6) by blast
  have c7: "\<forall>q. q \<in> pds - {pd} \<or> q \<in> tables s pds \<longrightarrow> ext q = 0" using D(15,16) by auto
  have c8: "\<forall>q<npages s'. q \<notin> pds - {pd} \<and> q \<notin> tables s pds \<longrightarrow>
      page_ref s' q = card (leafs s pds q) + ext q"
  proof (intro allI impI)
    fix q assume q: "q < npages s'" "q \<notin> pds - {pd} \<and> q \<notin> tables s pds"
    show "page_ref s' q = card (leafs s pds q) + ext q"
    proof (cases "q = pd")
      case True
      then show ?thesis using z by (simp add: s'(4))
    next
      case False
      then show ?thesis using q D(12) [of q] by (simp add: s'(4,6))
    qed
  qed
  have "vm_inv (pds - {pd}) ext s'"
    unfolding vm_inv_def same s'(5) t t'
    by (intro conjI s'(2) finite_Diff D(2) c1 c2 c4 c5 c6 c7 c8) (use c3 in blast)
  moreover have "page_held s' = page_held s"
    using D(4) [OF pd] s' by (intro held_decref [of s' s pd]) simp_all
  ultimately show thesis
    by (intro that [OF s'(1) _ s'(5,3)]) (simp_all only: same t)
qed

lemma vm_add_dir:
  assumes inv: "vm_inv pds ext s" and pool: "page_pool s = p # ps"
    and s': "page_inv s'" "page_ref s' = (page_ref s)(p := 1)" "npages s' = npages s"
      "\<And>t. t \<noteq> p \<Longrightarrow> phys s' t = phys s t" "\<And>i. i < NUPDE \<Longrightarrow> phys s' p i = 0"
  shows "vm_inv (insert p pds) ext s'" "tables s' (insert p pds) = tables s pds" "p \<notin> pds"
    "p \<notin> tables s pds"
    "pd' \<in> pds \<Longrightarrow> PDX va < NUPDE \<Longrightarrow> translate s' pd' va = translate s pd' va"
proof -
  note D = vm_inv_D [OF inv]
  note A = page_alloc_cons(5-7) [OF D(1) pool]
  show p: "p \<notin> pds" "p \<notin> tables s pds" using A(2) D(4) [of p] D(6) [of p] by auto
  have pds: "phys s' pd = phys s pd" if "pd \<in> pds" for pd using that p(1) s'(4) by metis
  then have pt: "pt_of s' pd i = pt_of s pd i" if "pd \<in> pds" for pd i using that by (simp add: pt_of_def)
  have tab: "phys s' t = phys s t" if "t \<in> tables s pds" for t using that p(2) s'(4) by metis
  have T: "tables s' pds = tables s pds"
    unfolding tables_def using pds pt by (auto; metis)
  show t: "tables s' (insert p pds) = tables s pds" using empty_dir(1) [OF s'(5)] T by simp
  have "leafs s' pds q = leafs s pds q" for q
  proof (rule set_eqI)
    fix x :: "nat \<times> nat \<times> nat"
    obtain a b c where x: "x = (a, b, c)" by (cases x)
    show "x \<in> leafs s' pds q \<longleftrightarrow> x \<in> leafs s pds q"
    proof (cases "a \<in> pds \<and> b < NUPDE \<and> phys s a b \<noteq> 0")
      case True
      then have "phys s' (pt_of s a b) = phys s (pt_of s a b)" using tab pt_of_table by blast
      with True pds pt show ?thesis by (simp add: x leafs_def)
    next
      case False
      then show ?thesis using pds by (auto simp: x leafs_def)
    qed
  qed
  then have l: "leafs s' (insert p pds) q = leafs s pds q" for q using empty_dir(2) [OF s'(5)] by simp
  have "card (leafs s pds p) + ext p = 0" using D(12) [OF A(1) p] A(2) by simp
  then have noleaf: "leafs s pds p = {}" "ext p = 0" using finite_leafs [OF D(2), of s p] by simp_all
  have c3: "pd1 = pd2 \<and> i1 = i2"
    if "pd1 \<in> insert p pds" "i1 < NUPDE" "pd2 \<in> insert p pds" "i2 < NUPDE" "phys s' pd1 i1 \<noteq> 0"
      "phys s' pd2 i2 \<noteq> 0" "pt_of s' pd1 i1 = pt_of s' pd2 i2" for pd1 i1 pd2 i2
    using that s'(5) D(8) [of pd1 i1 pd2 i2] pds pt by auto
  have c1: "\<forall>pd\<in>insert p pds. pd < npages s' \<and> page_ref s' pd = 1" using D(3,4) A(1) by (auto simp: s')
  have c2: "\<forall>t\<in>tables s pds. t < npages s' \<and> page_ref s' t = 1 \<and> t \<notin> insert p pds"
    using D(5-7) p by (auto simp: s')
  have c4: "\<forall>pd\<in>insert p pds. \<forall>i<NUPDE. phys s' pd i \<noteq> 0 \<longrightarrow> phys s' pd i AND PTE_P \<noteq> 0"
    using D(13) s'(5) pds by auto
  have c5: "\<forall>t\<in>tables s pds. \<forall>k<1024. phys s' t k \<noteq> 0 \<longrightarrow> phys s' t k AND PTE_P \<noteq> 0"
    using D(14) tab by auto
  have c6: "\<forall>q. leafs s pds q \<noteq> {} \<longrightarrow> q < npages s' \<and> q \<notin> insert p pds \<and> q \<notin> tables s pds"
    using D(9-11) noleaf(1) unfolding s'(3) by blast
  have c7: "\<forall>q. q \<in> insert p pds \<or> q \<in> tables s pds \<longrightarrow> ext q = 0" using D(15,16) noleaf by auto
  have c8: "\<forall>q<npages s'. q \<notin> insert p pds \<and> q \<notin> tables s pds \<longrightarrow> page_ref s' q = card (leafs s pds q) + ext q"
    using D(12) by (auto simp: s')
  show "vm_inv (insert p pds) ext s'"
    unfolding vm_inv_def t l using s'(1) D(2) c1 c2 c3 c4 c5 c6 c7 c8 by blast
  show "translate s' pd' va = translate s pd' va" if "pd' \<in> pds" "PDX va < NUPDE"
  proof (cases "phys s pd' (PDX va) = 0")
    case False
    then have "pt_of s pd' (PDX va) \<in> tables s pds" using that pt_of_table by blast
    with that pds pt tab show ?thesis by (simp add: translate_def)
  qed (use that pds in \<open>simp add: translate_def\<close>)
qed

end
