(* ===== verification/KEnvInv.thy ===== *)
theory KEnvInv
  imports KSched KVmFree
begin

text \<open>
  The environment table: identifiers and their reuse, the invariant that ties the free list, the
  status of a slot and its identifier together, and what allocation does to it.
\<close>

section \<open>Identifiers\<close>

lemma ENVX_mod: "ENVX w = unat w mod 1024"
  unfolding ENVX_def mask10 unat_low by simp

lemma ENVX_bound [simp]: "ENVX w < 1024"
  by (simp add: ENVX_mod)

lemma unat_clear10: "unat ((w::u32) AND NOT 0x3FF) = unat w div 1024 * 1024"
proof -
  have "w = (w AND NOT 0x3FF) OR (w AND 0x3FF)" by (rule bit_word_eqI) (auto simp: bit_simps)
  moreover have "(w AND NOT 0x3FF) AND (w AND 0x3FF) = 0" by (rule bit_word_eqI) (auto simp: bit_simps)
  ultimately have "w = (w AND NOT 0x3FF) + (w AND 0x3FF)" by (metis disjunctive_add_eq_or)
  then have "w AND NOT 0x3FF = w - (w AND 0x3FF)" by (simp add: eq_diff_eq)
  moreover have "unat (w AND 0x3FF) = unat w mod 1024" unfolding mask10 unat_low by simp
  moreover have "w AND 0x3FF \<le> w" by (simp add: word_le_nat_alt calculation(2))
  ultimately show ?thesis by (simp add: unat_sub minus_mod_eq_div_mult)
qed

lemma sint_unat:
  "sint (w::u32) = (if unat w < 2147483648 then int (unat w) else int (unat w) - 4294967296)"
proof -
  define n where "n = int (unat w)"
  have n: "0 \<le> n" "n < 4294967296" unfolding n_def using unat_u32 [of w] by linarith+
  have c: "unat w < 2147483648 \<longleftrightarrow> n < 2147483648" "int (unat w) = n"
    unfolding n_def by linarith (rule refl)
  have "uint w = n" by (simp add: n_def)
  then have v: "sint w = (n + 2147483648) mod 4294967296 - 2147483648"
    by (simp add: sint_uint signed_take_bit_eq_take_bit_shift take_bit_eq_mod)
  show ?thesis
  proof (cases "n < 2147483648")
    case True
    then have "(n + 2147483648) mod 4294967296 = n + 2147483648"
      using n by (intro mod_pos_pos_trivial) simp_all
    with True v show ?thesis unfolding c by simp
  next
    case False
    then have "(n + 2147483648) mod 4294967296 = (n + 2147483648 - 4294967296) mod 4294967296"
      by (intro mod_pos_geq) simp_all
    also have "\<dots> = n + 2147483648 - 4294967296"
      using n False by (intro mod_pos_pos_trivial) simp_all
    finally show ?thesis using False v unfolding c by simp
  qed
qed

lemma and_high_low:
  assumes "take_bit 10 (g::u32) = 0" "take_bit 10 e = e"
  shows "g AND e = 0"
proof (rule bit_word_eqI)
  fix n
  have "bit e n = (n < 10 \<and> bit e n)" using bit_take_bit_iff [of 10 e n] assms(2) by simp
  moreover have "\<not> (n < 10 \<and> bit g n)" using bit_take_bit_iff [of 10 g n] assms(1) by simp
  ultimately show "bit (g AND e) n = bit 0 n" by (auto simp: bit_and_iff)
qed

lemma unat_or_slot:
  assumes "e < 1024" "unat (g::u32) mod 1024 = 0"
  shows "unat (g OR word_of_nat e) = unat g + e"
proof -
  have e: "unat (word_of_nat e :: u32) = e" using assms(1) by (simp add: unsigned_of_nat take_bit_nat_eq_self)
  then have "take_bit 10 (word_of_nat e :: u32) = word_of_nat e"
    unfolding take_bit_eq_mask using assms(1)
    by (intro unsigned_word_eqI [where 'a = nat]) (simp only: unat_low e, simp)
  moreover have "take_bit 10 g = 0"
    unfolding take_bit_eq_mask using assms(2)
    by (intro unsigned_word_eqI [where 'a = nat]) (simp only: unat_low, simp)
  ultimately have "g AND word_of_nat e = 0" by (rule and_high_low [rotated])
  then have "g OR word_of_nat e = g + word_of_nat e" by (simp add: disjunctive_add_eq_or)
  moreover have "unat g + e < 4294967296"
  proof -
    obtain k where k: "unat g = 1024 * k" using assms(2) by (metis mod_0_imp_dvd dvdE)
    with unat_u32 [of g] have "k < 4194304" by simp
    with k assms(1) show ?thesis by simp
  qed
  ultimately show ?thesis using e by (simp add: unat_word_ariths)
qed

lemma next_env_id_step:
  assumes "e < 1024" "unat old = 4096 * g + d" "d < 1024" "g < 524288"
  shows "unat (next_env_id old e) = (if g + 1 < 524288 then 4096 * (g + 1) + e else 4096 + e)"
proof -
  let ?g = "(old + 0x1000) AND NOT 0x3FF"
  have o: "unat (old + 0x1000) = 4096 * (g + 1) + d"
    using assms by (simp add: unat_word_ariths)
  have ug: "unat ?g = 4096 * (g + 1)"
  proof -
    have "(4096 * (g + 1) + d) div 1024 = 4 * (g + 1)" using assms(3) by linarith
    then show ?thesis unfolding unat_clear10 o by simp
  qed
  have pos: "sint ?g \<le> 0 \<longleftrightarrow> g + 1 = 524288"
    unfolding sint_unat ug using assms(4) by auto
  show ?thesis
    unfolding next_env_id_def Let_def pos
    using assms ug unat_or_slot [OF assms(1), of ?g] unat_or_slot [OF assms(1), of "0x1000"]
    by auto
qed

text \<open>The identifiers a slot can hold: 0 before its first use, then a positive generation and the slot.\<close>

definition valid_id :: "u32 \<Rightarrow> nat \<Rightarrow> bool" where
  "valid_id w e \<longleftrightarrow> w = 0 \<or> (\<exists>g. 1 \<le> g \<and> g < 524288 \<and> unat w = 4096 * g + e)"

lemma next_env_id_valid:
  assumes "e < 1024" "valid_id old e"
  shows "\<exists>g. 1 \<le> g \<and> g < 524288 \<and> unat (next_env_id old e) = 4096 * g + e" "next_env_id old e \<noteq> old"
    "next_env_id old e \<noteq> 0" "valid_id (next_env_id old e) e" "ENVX (next_env_id old e) = e"
proof -
  obtain g d where g: "unat old = 4096 * g + d" "d < 1024" "g < 524288" "d = e \<and> 1 \<le> g \<or> old = 0 \<and> g = 0 \<and> d = 0"
    using assms unfolding valid_id_def by (metis add.right_neutral mult_0_right unat_0 zero_less_numeral)
  note n = next_env_id_step [OF assms(1) g(1-3)]
  show ex: "\<exists>g. 1 \<le> g \<and> g < 524288 \<and> unat (next_env_id old e) = 4096 * g + e"
    unfolding n by (cases "g + 1 < 524288") (auto intro: exI [of _ "g + 1"] exI [of _ 1])
  then show "valid_id (next_env_id old e) e" by (simp add: valid_id_def)
  from ex show "next_env_id old e \<noteq> 0" by auto
  have "(4096 * g + e) mod 1024 = e" for g
  proof -
    have "4096 * g + e = e + 1024 * (4 * g)" by simp
    then show ?thesis using assms(1) by (simp only: mod_mult_self2 mod_less)
  qed
  with ex show "ENVX (next_env_id old e) = e" by (auto simp: ENVX_mod)
  have "unat (next_env_id old e) \<noteq> unat old"
    unfolding n using g by auto
  then show "next_env_id old e \<noteq> old" by auto
qed

section \<open>The invariant of the table\<close>

definition elink :: "kstate \<Rightarrow> nat \<Rightarrow> nat option" where
  "elink s e = env_link (envs s ! e)"

definition env_pool :: "kstate \<Rightarrow> nat list" where
  "env_pool s = unroll (elink s) NENV (env_free_list s)"

definition env_dirs :: "kstate \<Rightarrow> nat set" where
  "env_dirs s = {pd. \<exists>e<NENV. env_status (envs s ! e) \<noteq> ENV_FREE \<and> env_pgdir (envs s ! e) = Some pd}"

definition env_inv :: "kstate \<Rightarrow> bool" where
  "env_inv s \<longleftrightarrow> length (envs s) = NENV \<and> chain (elink s) (env_free_list s) (env_pool s) \<and>
     (\<forall>e\<in>set (env_pool s). e < NENV) \<and>
     (\<forall>e<NENV. e \<in> set (env_pool s) \<longleftrightarrow> env_status (envs s ! e) = ENV_FREE) \<and>
     (\<forall>e<NENV. valid_id (env_id (envs s ! e)) e) \<and>
     (\<forall>e<NENV. env_status (envs s ! e) \<noteq> ENV_FREE \<longrightarrow>
        env_id (envs s ! e) \<noteq> 0 \<and> env_pgdir (envs s ! e) \<noteq> None) \<and>
     (\<forall>e<NENV. \<forall>e'<NENV. env_status (envs s ! e) \<noteq> ENV_FREE \<and> env_status (envs s ! e') \<noteq> ENV_FREE \<and>
        env_pgdir (envs s ! e) = env_pgdir (envs s ! e') \<longrightarrow> e = e')"

definition kern_inv :: "(nat \<Rightarrow> nat) \<Rightarrow> kstate \<Rightarrow> bool" where
  "kern_inv ext s \<longleftrightarrow> env_inv s \<and> vm_inv (env_dirs s) ext s \<and>
     kern_pgdir s \<notin> env_dirs s \<and> kern_pgdir s \<notin> tables s (env_dirs s) \<and>
     page_held s (kern_pgdir s) \<and> (\<forall>i<NUPDE. phys s (kern_pgdir s) i = 0)"

lemma env_inv_D:
  assumes "env_inv s"
  shows "length (envs s) = NENV" "chain (elink s) (env_free_list s) (env_pool s)"
    "e \<in> set (env_pool s) \<Longrightarrow> e < NENV"
    "e < NENV \<Longrightarrow> e \<in> set (env_pool s) \<longleftrightarrow> env_status (envs s ! e) = ENV_FREE"
    "e < NENV \<Longrightarrow> valid_id (env_id (envs s ! e)) e"
    "e < NENV \<Longrightarrow> env_status (envs s ! e) \<noteq> ENV_FREE \<Longrightarrow> env_id (envs s ! e) \<noteq> 0"
    "e < NENV \<Longrightarrow> env_status (envs s ! e) \<noteq> ENV_FREE \<Longrightarrow> \<exists>pd. env_pgdir (envs s ! e) = Some pd"
    "e < NENV \<Longrightarrow> e' < NENV \<Longrightarrow> env_status (envs s ! e) \<noteq> ENV_FREE \<Longrightarrow>
       env_status (envs s ! e') \<noteq> ENV_FREE \<Longrightarrow> env_pgdir (envs s ! e) = env_pgdir (envs s ! e') \<Longrightarrow> e = e'"
    "distinct (env_pool s)"
  using assms chain_distinct unfolding env_inv_def by blast+

lemma env_pool_eq:
  assumes "chain (elink s) (env_free_list s) xs" "\<And>e. e \<in> set xs \<Longrightarrow> e < NENV"
  shows "env_pool s = xs"
  unfolding env_pool_def
  by (rule chain_unroll [OF assms(1)], rule chain_bounded [OF assms(1)]) (use assms(2) in auto)

lemma env_inv_cong:
  assumes "envs s' = envs s" "env_free_list s' = env_free_list s"
  shows "env_inv s' = env_inv s" "env_pool s' = env_pool s" "env_dirs s' = env_dirs s"
proof -
  have l: "elink s' = elink s" by (simp add: elink_def fun_eq_iff assms)
  show p: "env_pool s' = env_pool s" by (simp add: env_pool_def l assms)
  show "env_inv s' = env_inv s" unfolding env_inv_def l p assms ..
  show "env_dirs s' = env_dirs s" by (simp add: env_dirs_def assms)
qed

lemma env_inv_intro:
  assumes "length (envs s) = NENV" "chain (elink s) (env_free_list s) xs"
    and "\<And>e. e \<in> set xs \<Longrightarrow> e < NENV"
    and "\<And>e. e < NENV \<Longrightarrow> e \<in> set xs \<longleftrightarrow> env_status (envs s ! e) = ENV_FREE"
    and "\<And>e. e < NENV \<Longrightarrow> valid_id (env_id (envs s ! e)) e"
    and "\<And>e. e < NENV \<Longrightarrow> env_status (envs s ! e) \<noteq> ENV_FREE \<Longrightarrow>
        env_id (envs s ! e) \<noteq> 0 \<and> env_pgdir (envs s ! e) \<noteq> None"
    and "\<And>e e'. e < NENV \<Longrightarrow> e' < NENV \<Longrightarrow> env_status (envs s ! e) \<noteq> ENV_FREE \<Longrightarrow>
        env_status (envs s ! e') \<noteq> ENV_FREE \<Longrightarrow> env_pgdir (envs s ! e) = env_pgdir (envs s ! e') \<Longrightarrow> e = e'"
  shows "env_inv s" "env_pool s = xs"
proof -
  show p: "env_pool s = xs" by (rule env_pool_eq [OF assms(2,3)])
  show "env_inv s"
    unfolding env_inv_def p by (intro conjI assms(1,2) ballI allI impI) (use assms(3-7) in blast)+
qed

lemma upd_env_sel [simp]:
  "envs (upd_env e f s) = (envs s)[e := f (envs s ! e)]" "pages (upd_env e f s) = pages s"
  "npages (upd_env e f s) = npages s" "page_free_list (upd_env e f s) = page_free_list s"
  "phys (upd_env e f s) = phys s" "kern_pgdir (upd_env e f s) = kern_pgdir s"
  "env_free_list (upd_env e f s) = env_free_list s" "cpus (upd_env e f s) = cpus s"
  "thiscpu (upd_env e f s) = thiscpu s" "curenv (upd_env e f s) = curenv s"
  "kernel_lock (upd_env e f s) = kernel_lock s" "sched_stats (upd_env e f s) = sched_stats s"
  "cr3 (upd_env e f s) = cr3 s"
  by (simp_all add: upd_env_def curenv_def)

text \<open>The memory part of the invariant only reads the page components and the page directories in use.\<close>

lemma kern_inv_intro:
  assumes "env_inv s'" "vm_inv pds ext s" "env_dirs s' = pds"
    and "pages s' = pages s" "npages s' = npages s" "page_free_list s' = page_free_list s" "phys s' = phys s"
    and "kern_pgdir s' = k" "k \<notin> pds" "k \<notin> tables s pds" "page_held s k"
      "\<And>i. i < NUPDE \<Longrightarrow> phys s k i = 0"
  shows "kern_inv ext s'"
proof -
  have "vm_inv pds ext s'" using assms(2,4-7) vm_inv_cong [of s' s] by blast
  moreover have "page_held s' = page_held s"
    by (rule held_cong [OF assms(5) page_inv_cong(2,3) [OF assms(5,4,6)]])
  moreover have "tables s' = tables s" by (rule vm_cong(2) [OF assms(7)])
  ultimately show ?thesis
    unfolding kern_inv_def assms(3,7,8) using assms(1,9-12) by simp
qed

section \<open>Allocating an environment\<close>

lemma envid2env_nocheck: "\<exists>r e. envid2env envid False s = Inr (r, e)"
  by (auto simp: envid2env_def Let_def)

lemma env_alloc_none: "env_inv s \<Longrightarrow> env_pool s = [] \<Longrightarrow> env_alloc parent s = Inr (- E_NO_FREE_ENV, None, s)"
  using env_inv_D(2) [of s] by (simp add: env_alloc_def)

lemma env_alloc_no_page:
  assumes "env_inv s" "env_pool s \<noteq> []" "page_inv s" "page_pool s = []"
  shows "env_alloc parent s = Inr (- E_NO_MEM, None, s)"
proof -
  obtain e es where "env_pool s = e # es" using assms(2) by (cases "env_pool s") auto
  then have "env_free_list s = Some e" using env_inv_D(2) [OF assms(1)] by simp
  then show ?thesis
    by (simp add: env_alloc_def env_setup_vm_def page_alloc_empty [OF assms(3,4)])
qed

text \<open>The page directory a new environment gets: a copy of the kernel's with its own \<open>UVPT\<close> entry.\<close>

definition new_dir :: "nat \<Rightarrow> kstate \<Rightarrow> nat \<Rightarrow> u32" where
  "new_dir p s i = (if i = PDX UVPT then page2pa p OR PTE_P OR PTE_U else phys s (kern_pgdir s) i)"

lemma setup_vm:
  assumes inv: "page_inv s" and pool: "page_pool s = p # ps" and k: "kern_pgdir s \<noteq> p"
  obtains s' where "env_setup_vm e s = Inr (0, s')" "page_inv s'" "page_pool s' = ps"
    "page_ref s' = (page_ref s)(p := 1)" "phys s' = (phys s)(p := new_dir p s)"
    "npages s' = npages s" "envs s' = (envs s)[e := (envs s ! e)\<lparr>env_pgdir := Some p\<rparr>]"
    "env_free_list s' = env_free_list s" "cpus s' = cpus s" "thiscpu s' = thiscpu s"
    "kern_pgdir s' = kern_pgdir s" "curenv s' = curenv s"
    "kernel_lock s' = kernel_lock s" "sched_stats s' = sched_stats s"
proof -
  note A = page_alloc_cons [OF inv pool]
  define s1 where "s1 = popped True p s"
  have a: "page_alloc True s = Inr (Some p, s1)" using A(1) by (simp add: s1_def)
  have a1: "page_inv s1" "page_pool s1 = ps" "page_ref s1 = page_ref s" "npages s1 = npages s"
    "phys s1 = (phys s)(p := (\<lambda>_. 0))" using A(2-4) by (simp_all add: s1_def)
  note r1 = rest_sel [OF rest_page_alloc [OF a]]
  have p: "p < npages s" "page_ref s p = 0" "p \<notin> set ps" using A(5-7) .
  define s2 where "s2 = upd_env e (\<lambda>x. x\<lparr>env_pgdir := Some p\<rparr>) s1"
  define s3 where "s3 = s2\<lparr>phys := (phys s2)(p := phys s2 (kern_pgdir s2))\<rparr>"
  have c: "page_inv s3 = page_inv s1" "page_pool s3 = page_pool s1" "page_ref s3 = page_ref s1"
    by (rule page_inv_cong; simp add: s3_def s2_def)+
  have sel: "npages s3 = npages s" "envs s3 = (envs s)[e := (envs s ! e)\<lparr>env_pgdir := Some p\<rparr>]"
    "env_free_list s3 = env_free_list s" "cpus s3 = cpus s" "thiscpu s3 = thiscpu s"
    "kern_pgdir s3 = kern_pgdir s" "phys s3 = (phys s)(p := phys s (kern_pgdir s))"
    "kernel_lock s3 = kernel_lock s" "sched_stats s3 = sched_stats s"
    using r1 a1 k by (simp_all add: s3_def s2_def)
  then have cur: "curenv s3 = curenv s" by (simp add: curenv_def)
  have I: "page_inv (page_incref p s3)" "page_pool (page_incref p s3) = ps"
      "page_ref (page_incref p s3) = (page_ref s)(p := 1)"
    using page_incref_props [of s3 p] c a1 p sel by simp_all
  let ?s4 = "write_word p (PDX UVPT) (page2pa p OR PTE_P OR PTE_U) (page_incref p s3)"
  have run: "env_setup_vm e s = Inr (0, ?s4)"
  proof -
    have "KADDR s1 (page2pa p) = Inr (page2pa p + KERNBASE)"
      using p(1) page_inv_D(2) [OF inv] PGNUM_pte [of p 0] a1(4) by (simp add: KADDR_def)
    then show ?thesis by (simp add: env_setup_vm_def a Let_def s3_def s2_def)
  qed
  show thesis
  proof (rule that [OF run])
    show "phys ?s4 = (phys s)(p := new_dir p s)"
      by (auto simp: fun_eq_iff new_dir_def sel)
    show "kernel_lock ?s4 = kernel_lock s" "sched_stats ?s4 = sched_stats s"
      using sel(8,9) by (simp_all add: write_word_def page_incref_def upd_page_def)
  qed (simp_all add: I sel cur)
qed

text \<open>
  A new environment takes the head of the free list and the head of the free pages, gets a fresh
  identifier, starts runnable, and maps nothing; no other environment changes.
\<close>

lemma env_alloc_new:
  assumes inv: "kern_inv ext s" and pool: "env_pool s = e # es" and mem: "page_pool s = p # ps"
  obtains s' where "env_alloc parent s = Inr (0, Some e, s')" "kern_inv ext s'" "env_pool s' = es"
    "page_pool s' = ps" "e < NENV" "env_dirs s' = insert p (env_dirs s)" "p \<notin> env_dirs s"
    "env_id (envs s' ! e) = next_env_id (env_id (envs s ! e)) e" "env_parent_id (envs s' ! e) = parent"
    "env_status (envs s' ! e) = ENV_RUNNABLE" "env_pgdir (envs s' ! e) = Some p"
    "env_tf (envs s' ! e) = user_tf" "env_ipc_recving (envs s' ! e) = False"
    "env_pgfault_upcall (envs s' ! e) = 0"
    "\<And>j. j \<noteq> e \<Longrightarrow> envs s' ! j = envs s ! j" "length (envs s') = NENV"
    "\<And>va. PDX va < NUPDE \<Longrightarrow> translate s' p va = None"
    "\<And>pd va. pd \<in> env_dirs s \<Longrightarrow> PDX va < NUPDE \<Longrightarrow> translate s' pd va = translate s pd va"
    "cpus s' = cpus s" "thiscpu s' = thiscpu s" "curenv s' = curenv s"
    "npages s' = npages s" "page_held s' = page_held s" "tables s' (env_dirs s') = tables s (env_dirs s)"
    "\<And>i. i < NUPDE \<Longrightarrow> phys s' p i = 0"
    "kernel_lock s' = kernel_lock s" "sched_stats s' = sched_stats s"
proof -
  have einv: "env_inv s" and vm: "vm_inv (env_dirs s) ext s"
    and k: "kern_pgdir s \<notin> env_dirs s" "kern_pgdir s \<notin> tables s (env_dirs s)"
      "page_held s (kern_pgdir s)" "\<And>i. i < NUPDE \<Longrightarrow> phys s (kern_pgdir s) i = 0"
    using inv by (simp_all add: kern_inv_def)
  note E = env_inv_D [OF einv] and D = vm_inv_D [OF vm]
  have kp: "kern_pgdir s \<noteq> p" using k(3) mem by (auto simp: page_held_def)
  have fl: "env_free_list s = Some e" "chain (elink s) (elink s e) es" using E(2) pool by simp_all
  have e: "e < NENV" "env_status (envs s ! e) = ENV_FREE" using E(3,4) [of e] pool by auto
  obtain s1 where s1: "env_setup_vm e s = Inr (0, s1)" "page_inv s1" "page_pool s1 = ps"
    "page_ref s1 = (page_ref s)(p := 1)" "phys s1 = (phys s)(p := new_dir p s)"
    "npages s1 = npages s" "envs s1 = (envs s)[e := (envs s ! e)\<lparr>env_pgdir := Some p\<rparr>]"
    "env_free_list s1 = env_free_list s" "cpus s1 = cpus s" "thiscpu s1 = thiscpu s"
    "kern_pgdir s1 = kern_pgdir s" "curenv s1 = curenv s"
    "kernel_lock s1 = kernel_lock s" "sched_stats s1 = sched_stats s"
    by (rule setup_vm [OF D(1) mem kp]) (rule that; assumption)
  define s2 where "s2 = upd_env e (\<lambda>x. x\<lparr>env_id := next_env_id (env_id x) e,
      env_parent_id := parent, env_ty := ENV_TYPE_USER, env_status := ENV_RUNNABLE, env_runs := 0\<rparr>) s1"
  obtain r par where look: "envid2env parent False s2 = Inr (r, par)" using envid2env_nocheck by blast
  define prio where "prio = (case par of None \<Rightarrow> MAX_PRIORITY | Some q \<Rightarrow> env_priority (envs s2 ! q))"
  define s3 where "s3 = upd_env e (\<lambda>x. x\<lparr>env_priority := prio, env_tf := user_tf,
      env_pgfault_upcall := 0, env_ipc_recving := False\<rparr>) s2"
  define s' where "s' = s3\<lparr>env_free_list := env_link (envs s3 ! e)\<rparr>"
  have run: "env_alloc parent s = Inr (0, Some e, s')"
    using look unfolding s'_def s3_def prio_def s2_def
    by (simp add: env_alloc_def fl(1) s1(1) Let_def)
  have nth: "envs s' ! j = (if j = e then (envs s ! e)\<lparr>env_pgdir := Some p,
      env_id := next_env_id (env_id (envs s ! e)) e, env_parent_id := parent, env_ty := ENV_TYPE_USER,
      env_status := ENV_RUNNABLE, env_runs := 0, env_priority := prio, env_tf := user_tf,
      env_pgfault_upcall := 0, env_ipc_recving := False\<rparr> else envs s ! j)" for j
    using e E(1) by (simp add: s'_def s3_def s2_def s1(7))
  have len: "length (envs s') = NENV" using E(1) by (simp add: s'_def s3_def s2_def s1(7))
  have sel: "pages s' = pages s1" "npages s' = npages s1" "page_free_list s' = page_free_list s1"
    "phys s' = phys s1" "kern_pgdir s' = kern_pgdir s" "cpus s' = cpus s" "thiscpu s' = thiscpu s"
    "kernel_lock s' = kernel_lock s" "sched_stats s' = sched_stats s"
    by (simp_all add: s'_def s3_def s2_def s1)
  have notin: "e \<notin> set es" using E(9) pool by simp
  have link: "elink s' = elink s" by (simp add: elink_def fun_eq_iff nth)
  have fl': "env_free_list s' = elink s e"
    using e E(1) by (simp add: s'_def s3_def s2_def s1(7) elink_def)
  note N = next_env_id_valid [OF e(1) E(5) [OF e(1)]]
  have pd: "p \<notin> env_dirs s" using page_alloc_cons(6) [OF D(1) mem] D(4) [of p] by auto
  have dirs: "env_pgdir (envs s ! j) \<noteq> Some p" if "j < NENV" "env_status (envs s ! j) \<noteq> ENV_FREE" for j
    using that pd by (auto simp: env_dirs_def)
  have ch: "chain (elink s') (env_free_list s') es" unfolding link fl' by (rule fl(2))
  have m1: "j < NENV" if "j \<in> set es" for j using that E(3) pool by simp
  have m2: "j \<in> set es \<longleftrightarrow> env_status (envs s' ! j) = ENV_FREE" if "j < NENV" for j
    using that E(4) [of j] pool notin by (cases "j = e") (simp_all add: nth)
  have m3: "valid_id (env_id (envs s' ! j)) j" if "j < NENV" for j
    using that E(5) [of j] N(4) by (cases "j = e") (simp_all add: nth)
  have m4: "env_id (envs s' ! j) \<noteq> 0 \<and> env_pgdir (envs s' ! j) \<noteq> None"
    if "j < NENV" "env_status (envs s' ! j) \<noteq> ENV_FREE" for j
    using that E(6,7) [of j] N(3) by (cases "j = e") (auto simp: nth)
  have m5: "a = b" if "a < NENV" "b < NENV" "env_status (envs s' ! a) \<noteq> ENV_FREE"
      "env_status (envs s' ! b) \<noteq> ENV_FREE" "env_pgdir (envs s' ! a) = env_pgdir (envs s' ! b)" for a b
    using that E(8) [of a b] dirs [of a] dirs [of b]
    by (cases "a = e"; cases "b = e") (simp_all add: nth)
  note EI = env_inv_intro [OF len ch m1 m2 m3 m4 m5]
  have ei: "env_inv s'" "env_pool s' = es" by (rule EI; assumption)+
  have dirs': "env_dirs s' = insert p (env_dirs s)"
  proof (rule set_eqI)
    fix x
    show "x \<in> env_dirs s' \<longleftrightarrow> x \<in> insert p (env_dirs s)"
    proof
      assume "x \<in> env_dirs s'"
      then obtain j where "j < NENV" "env_status (envs s' ! j) \<noteq> ENV_FREE" "env_pgdir (envs s' ! j) = Some x"
        by (auto simp: env_dirs_def)
      then show "x \<in> insert p (env_dirs s)" by (cases "j = e") (auto simp: nth env_dirs_def)
    next
      assume "x \<in> insert p (env_dirs s)"
      then show "x \<in> env_dirs s'"
      proof
        assume "x = p"
        then show ?thesis using e(1) by (auto simp: env_dirs_def nth intro!: exI [of _ e])
      next
        assume "x \<in> env_dirs s"
        then obtain j where j: "j < NENV" "env_status (envs s ! j) \<noteq> ENV_FREE" "env_pgdir (envs s ! j) = Some x"
          by (auto simp: env_dirs_def)
        then have "j \<noteq> e" using e(2) by auto
        with j show ?thesis by (auto simp: env_dirs_def nth intro!: exI [of _ j])
      qed
    qed
  qed
  have PU: "PDX UVPT = 957" by (simp add: PDX_div)
  have ph: "phys s1 t = phys s t" if "t \<noteq> p" for t using that by (simp add: s1(5))
  have z: "phys s1 p i = 0" if "i < NUPDE" for i using that k(4) by (simp add: s1(5) new_dir_def PU)
  have V: "vm_inv (insert p (env_dirs s)) ext s1" "tables s1 (insert p (env_dirs s)) = tables s (env_dirs s)"
    "\<And>pd va. pd \<in> env_dirs s \<Longrightarrow> PDX va < NUPDE \<Longrightarrow> translate s1 pd va = translate s pd va"
    by (rule vm_add_dir [OF vm mem s1(2,4,6)]; (rule ph z)?; assumption)+
  have ki: "kern_inv ext s'"
  proof (rule kern_inv_intro [OF _ V(1) dirs' sel(1-5)])
    show "env_inv s'" by (rule ei)
    show "kern_pgdir s \<notin> insert p (env_dirs s)" using k(1) kp by simp
    show "kern_pgdir s \<notin> tables s1 (insert p (env_dirs s))" using V(2) k(2) by simp
    show "page_held s1 (kern_pgdir s)" using k(3) kp mem by (simp add: page_held_def s1)
    show "phys s1 (kern_pgdir s) i = 0" if "i < NUPDE" for i using that k(4) kp by (simp add: s1(5))
  qed
  have pool': "page_pool s' = ps"
    using page_inv_cong(2) [OF sel(2,1,3)] s1(3) by simp
  note tr = vm_cong(4) [OF sel(4)]
  have cur: "curenv s' = curenv s" by (simp add: curenv_def sel)
  have held: "page_held s' = page_held s"
    using mem page_inv_cong(2,3) [OF sel(2,1,3)] page_alloc_cons(6,7) [OF D(1) mem]
    by (auto simp: page_held_def fun_eq_iff sel s1)
  have tab: "tables s' (env_dirs s') = tables s (env_dirs s)"
    unfolding dirs' vm_cong(2) [OF sel(4)] by (rule V(2))
  show thesis
  proof (rule that [OF run ki])
    show "page_held s' = page_held s" "tables s' (env_dirs s') = tables s (env_dirs s)" by (fact held tab)+
    show "phys s' p i = 0" if "i < NUPDE" for i using z [OF that] by (simp add: sel)
    show "npages s' = npages s" by (simp add: sel s1)
    show "translate s' p va = None" if "PDX va < NUPDE" for va
      using z [OF that] by (simp add: tr translate_def)
    show "translate s' pd va = translate s pd va" if "pd \<in> env_dirs s" "PDX va < NUPDE" for pd va
      using V(3) [OF that] by (simp add: tr)
  qed (use ei pool' e pd dirs' len sel cur in \<open>simp_all add: nth\<close>)
qed

section \<open>Freeing an environment\<close>

lemma env_free_gone:
  assumes inv: "kern_inv ext s" and e: "e < NENV" "env_status (envs s ! e) \<noteq> ENV_FREE"
    and dir: "env_pgdir (envs s ! e) = Some pd"
  obtains s' where "env_free e s = Inr s'" "kern_inv ext s'" "env_pool s' = e # env_pool s"
    "env_dirs s' = env_dirs s - {pd}" "env_status (envs s' ! e) = ENV_FREE"
    "\<And>j. j \<noteq> e \<Longrightarrow> envs s' ! j = envs s ! j" "env_id (envs s' ! e) = env_id (envs s ! e)"
    "\<And>q va. q \<in> env_dirs s' \<Longrightarrow> PDX va < NUPDE \<Longrightarrow> translate s' q va = translate s q va"
    "set (page_pool s) \<subseteq> set (page_pool s')" "pd \<in> set (page_pool s')" "page_held s' = page_held s"
    "cpus s' = cpus s" "thiscpu s' = thiscpu s" "curenv s' = curenv s" "sched_stats s' = sched_stats s"
    "kernel_lock s' = kernel_lock s"
proof -
  have einv: "env_inv s" and vm: "vm_inv (env_dirs s) ext s"
    and k: "kern_pgdir s \<notin> env_dirs s" "kern_pgdir s \<notin> tables s (env_dirs s)"
      "page_held s (kern_pgdir s)" "\<And>i. i < NUPDE \<Longrightarrow> phys s (kern_pgdir s) i = 0"
    using inv by (simp_all add: kern_inv_def)
  note E = env_inv_D [OF einv] and D = vm_inv_D [OF vm]
  have pd: "pd \<in> env_dirs s" using e dir by (auto simp: env_dirs_def)
  define s0 where "s0 = (if curenv s = Some e then s\<lparr>cr3 := kern_pgdir s\<rparr> else s)"
  have s0: "envs s0 = envs s" "npages s0 = npages s" "pages s0 = pages s" "phys s0 = phys s"
    "page_free_list s0 = page_free_list s" "env_free_list s0 = env_free_list s" "cpus s0 = cpus s"
    "thiscpu s0 = thiscpu s" "kern_pgdir s0 = kern_pgdir s" "sched_stats s0 = sched_stats s"
    "kernel_lock s0 = kernel_lock s"
    by (simp_all add: s0_def)
  have vm0: "vm_inv (env_dirs s) ext s0" using vm vm_inv_cong [of s0 s] s0 by simp
  note same0 = vm_cong [OF s0(4)] page_inv_cong [OF s0(2,3,5)]
  have held0: "page_held s0 = page_held s" by (rule held_cong) (simp_all add: s0 same0)
  obtain s1 where s1: "foldR (env_free_pde pd) [0..<NUPDE] s0 = Inr s1" "vm_inv (env_dirs s) ext s1"
    "\<And>i. i < NUPDE \<Longrightarrow> phys s1 pd i = 0"
    "\<And>q va. q \<in> env_dirs s \<Longrightarrow> PDX va < NUPDE \<Longrightarrow> q \<noteq> pd \<Longrightarrow> translate s1 q va = translate s0 q va"
    "\<And>t j. t \<notin> tables s0 (env_dirs s) \<Longrightarrow> t \<noteq> pd \<Longrightarrow> phys s1 t j = phys s0 t j"
    "tables s1 (env_dirs s) \<subseteq> tables s0 (env_dirs s)" "set (page_pool s0) \<subseteq> set (page_pool s1)"
    "page_held s1 = page_held s0" "rest s1 = rest s0"
    by (rule free_user_part [OF vm0 pd]) (rule that; assumption)
  note r1 = rest_sel [OF s1(9)]
  define s2 where "s2 = upd_env e (\<lambda>x. x\<lparr>env_pgdir := None\<rparr>) s1"
  have s2: "npages s2 = npages s1" "pages s2 = pages s1" "page_free_list s2 = page_free_list s1"
    "phys s2 = phys s1" by (simp_all add: s2_def)
  note same2 = vm_cong [OF s2(4)] page_inv_cong [OF s2(1-3)]
  have vm2: "vm_inv (env_dirs s) ext s2" using s1(2) vm_inv_cong [OF s2] by simp
  have held2: "page_held s2 = page_held s1" by (rule held_cong) (simp_all add: s2 same2)
  have z2: "phys s2 pd i = 0" if "i < NUPDE" for i using s1(3) [OF that] by (simp add: s2)
  obtain s3 where s3: "page_decref pd s2 = Inr s3" "vm_inv (env_dirs s - {pd}) ext s3" "phys s3 = phys s2"
    "page_pool s3 = pd # page_pool s2" "tables s3 (env_dirs s - {pd}) = tables s2 (env_dirs s)"
    "page_held s3 = page_held s2"
    by (rule vm_drop_dir [OF vm2 pd], erule z2, rule that; assumption)
  note r3 = rest_sel [OF rest_page_decref [OF s3(1)]]
  define s' where "s' = (upd_env e (\<lambda>x. x\<lparr>env_status := ENV_FREE, env_link := env_free_list s3\<rparr>) s3)
      \<lparr>env_free_list := Some e\<rparr>"
  have pdn: "pd < npages s" "pd < 1048576" using D(3) [OF pd] page_inv_D(2) [OF D(1)] by simp_all
  have pg: "PGNUM (page2pa pd) = pd" using PGNUM_pte [of pd 0] pdn(2) by simp
  have run: "env_free e s = Inr s'"
    using dir pdn r1(1) s1(1) s3(1)
    by (simp add: env_free_def s0_def [symmetric] s0 PDX_UTOP s2_def [symmetric] pa2page_def pg
        s2 s'_def [symmetric] Let_def)
  have nth: "envs s' ! j = (if j = e then (envs s ! e)\<lparr>env_pgdir := None, env_status := ENV_FREE,
      env_link := env_free_list s\<rparr> else envs s ! j)" for j
    using e(1) E(1) r1 r3 by (simp add: s'_def s2_def s0)
  have len: "length (envs s') = NENV" using E(1) r1 r3 by (simp add: s'_def s2_def s0)
  have fl': "env_free_list s' = Some e" by (simp add: s'_def)
  have notin: "e \<notin> set (env_pool s)" using E(4) e by simp
  have link: "elink s' j = (if j = e then env_free_list s else elink s j)" for j
    by (simp add: elink_def nth)
  have ch: "chain (elink s') (env_free_list s') (e # env_pool s)"
  proof -
    have "chain (elink s') (env_free_list s) (env_pool s)"
      using E(2) notin by (subst chain_cong [where link' = "elink s"]) (auto simp: link)
    then show ?thesis by (simp add: fl' link)
  qed
  have m1: "j < NENV" if "j \<in> set (e # env_pool s)" for j using that E(3) e by auto
  have m2: "j \<in> set (e # env_pool s) \<longleftrightarrow> env_status (envs s' ! j) = ENV_FREE" if "j < NENV" for j
    using that E(4) [of j] by (cases "j = e") (simp_all add: nth)
  have m3: "valid_id (env_id (envs s' ! j)) j" if "j < NENV" for j
    using that E(5) [of j] by (cases "j = e") (simp_all add: nth)
  have m4: "env_id (envs s' ! j) \<noteq> 0 \<and> env_pgdir (envs s' ! j) \<noteq> None"
    if "j < NENV" "env_status (envs s' ! j) \<noteq> ENV_FREE" for j
    using that E(6,7) [of j] by (cases "j = e") (auto simp: nth)
  have m5: "a = b" if "a < NENV" "b < NENV" "env_status (envs s' ! a) \<noteq> ENV_FREE"
      "env_status (envs s' ! b) \<noteq> ENV_FREE" "env_pgdir (envs s' ! a) = env_pgdir (envs s' ! b)" for a b
    using that E(8) [of a b] by (cases "a = e"; cases "b = e") (simp_all add: nth)
  note EI = env_inv_intro [OF len ch m1 m2 m3 m4 m5]
  have ei: "env_inv s'" "env_pool s' = e # env_pool s" by (rule EI; assumption)+
  have dirs': "env_dirs s' = env_dirs s - {pd}"
  proof (rule set_eqI)
    fix x
    show "x \<in> env_dirs s' \<longleftrightarrow> x \<in> env_dirs s - {pd}"
    proof
      assume "x \<in> env_dirs s'"
      then obtain j where j: "j < NENV" "env_status (envs s' ! j) \<noteq> ENV_FREE" "env_pgdir (envs s' ! j) = Some x"
        by (auto simp: env_dirs_def)
      then have "j \<noteq> e" by (auto simp: nth)
      then have j': "env_status (envs s ! j) \<noteq> ENV_FREE" "env_pgdir (envs s ! j) = Some x"
        using j by (simp_all add: nth)
      moreover have "x \<noteq> pd" using E(8) [OF j(1) e(1) j'(1) e(2)] j'(2) dir \<open>j \<noteq> e\<close> by auto
      ultimately show "x \<in> env_dirs s - {pd}" using j(1) by (auto simp: env_dirs_def)
    next
      assume x: "x \<in> env_dirs s - {pd}"
      then obtain j where j: "j < NENV" "env_status (envs s ! j) \<noteq> ENV_FREE" "env_pgdir (envs s ! j) = Some x"
        by (auto simp: env_dirs_def)
      then have "j \<noteq> e" using x dir by auto
      then show "x \<in> env_dirs s'" using j by (auto simp: env_dirs_def nth intro!: exI [of _ j])
    qed
  qed
  have sel: "pages s' = pages s3" "npages s' = npages s3" "page_free_list s' = page_free_list s3"
    "phys s' = phys s3" "kern_pgdir s' = kern_pgdir s" "cpus s' = cpus s" "thiscpu s' = thiscpu s"
    "sched_stats s' = sched_stats s" "kernel_lock s' = kernel_lock s"
    using r1 r3 by (simp_all add: s'_def s2_def s0)
  have kt: "kern_pgdir s \<noteq> pd" using k(1) pd by auto
  have ki: "kern_inv ext s'"
  proof (rule kern_inv_intro [OF ei(1) s3(2) dirs' sel(1-5)])
    show "kern_pgdir s \<notin> env_dirs s - {pd}" using k(1) by simp
    show "kern_pgdir s \<notin> tables s3 (env_dirs s - {pd})"
      using k(2) s1(6) unfolding s3(5) same2 same0 by blast
    show "phys s3 (kern_pgdir s) i = 0" if "i < NUPDE" for i
      using k(2) k(4) [OF that] s1(5) [of "kern_pgdir s" i] kt unfolding s3(3) s2(4) same0 s0 by simp
    show "page_held s3 (kern_pgdir s)" unfolding s3(6) held2 s1(8) held0 by (rule k(3))
  qed
  show thesis
  proof (rule that [OF run ki ei(2) dirs'])
    show "translate s' q va = translate s q va" if "q \<in> env_dirs s'" "PDX va < NUPDE" for q va
      using s1(4) [of q va] that unfolding dirs' vm_cong(4) [OF sel(4)] vm_cong(4) [OF s3(3)] same2 same0 by simp
    show "set (page_pool s) \<subseteq> set (page_pool s')" "pd \<in> set (page_pool s')"
      using s1(7) page_inv_cong(2) [OF sel(2,1,3)] unfolding s3(4) same2 same0 by auto
    show "page_held s' = page_held s"
      using held_cong [OF sel(2) page_inv_cong(2,3) [OF sel(2,1,3)]] s3(6) held2 s1(8) held0 by simp
    show "curenv s' = curenv s" by (simp add: curenv_def sel)
  qed (use sel in \<open>simp_all add: nth\<close>)
qed

end
