(* ===== verification/KBoot.thy ===== *)
theory KBoot
  imports KEnvInv
begin

text \<open>
  The state the kernel boots into: the environment table after \<open>env_init\<close>, the free pages after
  \<open>page_init\<close>, and a small concrete kernel state satisfying the invariant, on which the properties
  are exercised.
\<close>

section \<open>The environment table\<close>

lemma env_init_loop:
  "length (envs s) = NENV \<Longrightarrow> n \<le> NENV \<Longrightarrow>
   foldl (\<lambda>s i. upd_env i (\<lambda>e. e\<lparr>env_id := 0, env_status := ENV_FREE, env_link := Some (i + 1)\<rparr>) s) s [0..<n] =
   s\<lparr>envs := map (\<lambda>i. if i < n then (envs s ! i)\<lparr>env_id := 0, env_status := ENV_FREE, env_link := Some (i + 1)\<rparr>
                     else envs s ! i) [0..<NENV]\<rparr>"
proof (induction n)
  case 0
  then have "map ((!) (envs s)) [0..<NENV] = envs s" by (metis map_nth)
  then show ?case by simp
next
  case (Suc n)
  then show ?case by (simp add: upd_env_def) (auto simp: list_eq_iff_nth_eq nth_list_update)
qed

lemma env_init_nth:
  assumes "length (envs s) = NENV"
  shows "length (envs (env_init s)) = NENV"
    "j < NENV \<Longrightarrow> envs (env_init s) ! j = (envs s ! j)\<lparr>env_id := 0, env_status := ENV_FREE,
       env_link := (if j = NENV - 1 then None else Some (Suc j))\<rparr>"
    "env_free_list (env_init s) = Some 0"
  unfolding env_init_def env_init_loop [OF assms order_refl] Let_def
  by (auto simp: upd_env_def)

lemma chain_upt:
  "i \<le> n \<Longrightarrow> (\<And>j. i \<le> j \<Longrightarrow> j < n \<Longrightarrow> link j = (if Suc j = n then None else Some (Suc j))) \<Longrightarrow>
   chain link (if i = n then None else Some i) [i..<n]"
proof (induction "n - i" arbitrary: i)
  case (Suc m)
  then have "i < n" by simp
  with Suc.hyps(1) [of "Suc i"] Suc.hyps(2) Suc.prems show ?case
    by (simp add: upt_conv_Cons)
qed simp

lemma env_init_inv:
  assumes "length (envs s) = NENV"
  shows "env_inv (env_init s)" "env_pool (env_init s) = [0..<NENV]"
proof -
  note I = env_init_nth [OF assms]
  have "chain (elink (env_init s)) (if (0::nat) = NENV then None else Some 0) [0..<NENV]"
    by (rule chain_upt) (simp_all add: elink_def I)
  then have ch: "chain (elink (env_init s)) (env_free_list (env_init s)) [0..<NENV]" by (simp add: I)
  have c1: "e < NENV" if "e \<in> set [0..<NENV]" for e using that by simp
  have c2: "e \<in> set [0..<NENV] \<longleftrightarrow> env_status (envs (env_init s) ! e) = ENV_FREE" if "e < NENV" for e
    using that by (simp add: I)
  have c3: "valid_id (env_id (envs (env_init s) ! e)) e" if "e < NENV" for e
    using that by (simp add: I valid_id_def)
  have c4: "P" if "e < NENV" "env_status (envs (env_init s) ! e) \<noteq> ENV_FREE" for e P
    using that by (simp add: I)
  note J = env_inv_intro [OF I(1) ch c1 c2 c3 c4 c4]
  show "env_inv (env_init s)" "env_pool (env_init s) = [0..<NENV]" by (rule J; assumption)+
qed

section \<open>The free pages\<close>

text \<open>The pages \<open>page_init\<close> gives out when the boot allocator has handed out the memory below \<open>nf\<close>.\<close>

definition usable :: "u32 \<Rightarrow> nat \<Rightarrow> bool" where
  "usable nf i \<longleftrightarrow> i \<noteq> 0 \<and> i \<noteq> 7 \<and> (i < 160 \<or> PGNUM (nf - KERNBASE) \<le> i \<and> 256 \<le> i)"

definition boot_ready :: "u32 \<Rightarrow> kstate \<Rightarrow> bool" where
  "boot_ready nf s \<longleftrightarrow> page_inv s \<and> nextfree s = Some nf \<and> nf mod PGSIZE = 0 \<and> KERNBASE \<le> nf \<and>
     PGNUM (nf - KERNBASE) < npages s \<and> npages s < 1048576"

lemma boot_alloc_zero:
  assumes "boot_ready nf s"
  shows "boot_alloc kend 0 s = Inr (nf, s)"
proof -
  have n: "nextfree s = Some nf" "nf mod PGSIZE = 0" "KERNBASE \<le> nf" "PGNUM (nf - KERNBASE) < npages s" "npages s < 1048576"
    using assms by (simp_all add: boot_ready_def)
  have p: "unat (PGSIZE * word_of_nat (npages s)) = 4096 * npages s"
    using n(5) by (simp add: unat_word_ariths unat_of_nat_u32)
  have "unat (nf - KERNBASE) < 4096 * npages s"
    using n(4) by (simp add: PGNUM_div)
  then have "nf - KERNBASE < PGSIZE * word_of_nat (npages s)" unfolding word_less_nat_alt p .
  moreover have "unat nf mod 4096 = 0" using n(2) by (simp add: unat_mod [symmetric, of nf PGSIZE, simplified])
  ultimately show ?thesis using n by (simp add: boot_alloc_def PADDR_def KADDR_def ROUNDUP_aligned)
qed

text \<open>One turn of the loop on a page nobody uses: it joins the free list exactly when it is usable.\<close>

lemma page_init_step_held:
  assumes ready: "boot_ready nf s" and held: "page_held s i"
  obtains s' where "page_init_step kend i s = Inr s'" "boot_ready nf s'"
    "page_pool s' = (if usable nf i then i # page_pool s else page_pool s)"
    "page_ref s' = page_ref s" "npages s' = npages s"
proof -
  have inv: "page_inv s" and n: "KERNBASE \<le> nf" using ready by (simp_all add: boot_ready_def)
  note D = page_inv_D [OF inv] and F = page_free_held [OF inv held]
  have i: "i < npages s" "i \<notin> set (page_pool s)" "page_ref s i = 0" using held by (simp_all add: page_held_def)
  have link: "pp_link (pages s ! i) = None" using D(7) i by (simp add: page_link_def)
  have ref: "pp_ref (pages s ! i) = 0" using i(3) by (simp add: page_ref_def unsigned_eq_0_iff)
  have same: "upd_page i (\<lambda>p. p\<lparr>pp_link := None\<rparr>) s = s"
  proof -
    have "(pages s ! i)\<lparr>pp_link := None\<rparr> = pages s ! i" using link by (cases "pages s ! i") simp
    then show ?thesis by (simp add: upd_page_def)
  qed
  have push: "s\<lparr>pages := (pages s)[i := \<lparr>pp_link = page_free_list s, pp_ref = 0\<rparr>], page_free_list := Some i\<rparr> = pushed i s"
  proof -
    have "(pages s ! i)\<lparr>pp_link := page_free_list s\<rparr> = \<lparr>pp_link = page_free_list s, pp_ref = 0\<rparr>"
      using ref by (cases "pages s ! i") simp
    then show ?thesis by (simp add: pushed_def upd_page_def)
  qed
  have const: "PGNUM MPENTRY_PADDR = 7" "PGNUM IOPHYSMEM = 160" "PGNUM EXTPHYSMEM = 256"
    by (simp_all add: PGNUM_div)
  have run: "page_init_step kend i s = Inr (if usable nf i then pushed i s else s)"
    using n by (auto simp: page_init_step_def same Let_def push const usable_def
        boot_alloc_zero [OF ready] PADDR_def)
  have r: "boot_ready nf (pushed i s)"
    using ready F(2) by (simp add: boot_ready_def) (simp add: pushed_def upd_page_def)
  show thesis
    by (rule that [OF run]) (use F r ready in auto)
qed

lemma page_init_loop:
  assumes "boot_ready nf s" "\<And>i. i < npages s \<Longrightarrow> page_held s i" "n \<le> npages s" "page_pool s = []"
  shows "\<exists>s'. foldR (page_init_step kend) [0..<n] s = Inr s' \<and> boot_ready nf s' \<and>
     page_pool s' = rev (filter (usable nf) [0..<n]) \<and> page_ref s' = page_ref s \<and> npages s' = npages s"
  using assms(3)
proof (induction n)
  case 0
  then show ?case using assms(1,4) by simp
next
  case (Suc n)
  then obtain s1 where s1: "foldR (page_init_step kend) [0..<n] s = Inr s1" "boot_ready nf s1"
     "page_pool s1 = rev (filter (usable nf) [0..<n])" "page_ref s1 = page_ref s" "npages s1 = npages s"
    by auto
  have "page_held s1 n" using assms(2) [of n] Suc.prems by (simp add: page_held_def s1)
  from page_init_step_held [OF s1(2) this, of kend] obtain s2 where
    "page_init_step kend n s1 = Inr s2" "boot_ready nf s2"
    "page_pool s2 = (if usable nf n then n # page_pool s1 else page_pool s1)"
    "page_ref s2 = page_ref s1" "npages s2 = npages s1" by blast
  with s1 show ?case by (simp add: foldR_append)
qed

section \<open>A small concrete kernel\<close>

text \<open>
  Eight pages of memory: page 1 holds the kernel's page directory, pages 3 to 7 are free. One CPU
  runs in the kernel, holding the lock.
\<close>

definition small_base :: kstate where
  "small_base = \<lparr>npages = 8,
     pages = [\<lparr>pp_link = None, pp_ref = 0\<rparr>, \<lparr>pp_link = None, pp_ref = 0\<rparr>, \<lparr>pp_link = None, pp_ref = 0\<rparr>,
       \<lparr>pp_link = Some 4, pp_ref = 0\<rparr>, \<lparr>pp_link = Some 5, pp_ref = 0\<rparr>, \<lparr>pp_link = Some 6, pp_ref = 0\<rparr>,
       \<lparr>pp_link = Some 7, pp_ref = 0\<rparr>, \<lparr>pp_link = None, pp_ref = 0\<rparr>],
     page_free_list = Some 3, phys = (\<lambda>p i. 0), kern_pgdir = 1, cr3 = 1, invlpgs = [],
     nextfree = Some 0xF0003000, mmio_base = MMIOBASE, user_mem_check_addr = 0,
     envs = replicate NENV zero_env, env_free_list = None,
     cpus = [\<lparr>cpu_status = CPU_STARTED, cpu_env = None\<rparr>, \<lparr>cpu_status = CPU_STARTED, cpu_env = None\<rparr>],
     thiscpu = 0, kernel_lock = \<lparr>locked = 1, lock_cpu = Some 0\<rparr>, sched_stats = zero_sched_stats\<rparr>"

definition small_kernel :: kstate where
  "small_kernel = env_init small_base"

lemma env_init_other:
  assumes "length (envs s) = NENV"
  shows "env_init s = s\<lparr>envs := envs (env_init s), env_free_list := Some 0\<rparr>"
  unfolding env_init_def env_init_loop [OF assms order_refl] Let_def by (simp add: upd_env_def)

lemma small_kernel_sel [simp]:
  "npages small_kernel = 8" "pages small_kernel = pages small_base" "page_free_list small_kernel = Some 3"
  "phys small_kernel = (\<lambda>p i. 0)" "kern_pgdir small_kernel = 1" "thiscpu small_kernel = 0"
  "cpus small_kernel = cpus small_base" "kernel_lock small_kernel = \<lparr>locked = 1, lock_cpu = Some 0\<rparr>"
  "sched_stats small_kernel = zero_sched_stats" "curenv small_kernel = None"
  "length (envs small_kernel) = NENV" "nextfree small_kernel = Some 0xF0003000"
proof -
  have "length (envs small_base) = NENV" by (simp add: small_base_def)
  note o = env_init_other [OF this] env_init_nth(1) [OF this]
  show "npages small_kernel = 8" "pages small_kernel = pages small_base" "page_free_list small_kernel = Some 3"
    "phys small_kernel = (\<lambda>p i. 0)" "kern_pgdir small_kernel = 1" and t: "thiscpu small_kernel = 0"
    and c: "cpus small_kernel = cpus small_base" and "kernel_lock small_kernel = \<lparr>locked = 1, lock_cpu = Some 0\<rparr>"
    "sched_stats small_kernel = zero_sched_stats" "nextfree small_kernel = Some 0xF0003000"
    unfolding small_kernel_def by (subst o, simp add: small_base_def)+
  show "curenv small_kernel = None" unfolding curenv_def t c by (simp add: small_base_def)
  show "length (envs small_kernel) = NENV" unfolding small_kernel_def by (rule o)
qed

lemma small_envs:
  "j < NENV \<Longrightarrow> env_status (envs small_kernel ! j) = ENV_FREE"
  "j < NENV \<Longrightarrow> env_id (envs small_kernel ! j) = 0"
  unfolding small_kernel_def by (simp_all add: env_init_nth small_base_def)

lemma small_pages: "page_inv small_kernel" "page_pool small_kernel = [3, 4, 5, 6, 7]"
proof -
  have c: "p = 0 \<or> p = 1 \<or> p = 2 \<or> p = 3 \<or> p = 4 \<or> p = 5 \<or> p = 6 \<or> p = 7" if "p < 8" for p :: nat
    using that by linarith
  have l: "length (pages small_kernel) = npages small_kernel" "npages small_kernel \<le> 1048576"
    by (simp_all add: small_base_def)
  have ch: "chain (page_link small_kernel) (page_free_list small_kernel) [3, 4, 5, 6, 7]"
    by (simp add: page_link_def small_base_def)
  have f: "p < npages small_kernel \<and> page_ref small_kernel p = 0" if "p \<in> set [3, 4, 5, 6, 7]" for p
    using that by (auto simp: page_ref_def small_base_def)
  have n: "page_link small_kernel p = None" if "p < npages small_kernel" "p \<notin> set [3, 4, 5, 6, 7]" for p
    using c [of p] that by (auto simp: page_link_def small_base_def)
  note I = page_inv_intro [OF l ch f n]
  show "page_inv small_kernel" "page_pool small_kernel = [3, 4, 5, 6, 7]" by (rule I; assumption)+
qed

lemma small_ref: "p < 8 \<Longrightarrow> page_ref small_kernel p = 0"
proof -
  assume "p < 8"
  then have "p = 0 \<or> p = 1 \<or> p = 2 \<or> p = 3 \<or> p = 4 \<or> p = 5 \<or> p = 6 \<or> p = 7" by linarith
  then show ?thesis by (auto simp: page_ref_def small_base_def)
qed

lemma small_env: "env_inv small_kernel" "env_pool small_kernel = [0..<NENV]"
  unfolding small_kernel_def by (rule env_init_inv; simp add: small_base_def)+

lemma small_dirs: "env_dirs small_kernel = {}"
  by (auto simp: env_dirs_def small_envs)

lemma small_inv: "kern_inv (\<lambda>_. 0) small_kernel"
proof -
  have e: "tables small_kernel {} = {}" "leafs small_kernel {} q = {}" for q
    by (simp_all add: tables_def leafs_def)
  have "vm_inv {} (\<lambda>_. 0) small_kernel"
    unfolding vm_inv_def e using small_pages(1) by (simp add: small_ref)
  moreover have "page_held small_kernel 1" by (simp add: page_held_def small_pages small_ref)
  ultimately show ?thesis unfolding kern_inv_def small_dirs e by (simp add: small_env)
qed

end
