(* ===== verification/KMemProps.thy ===== *)
theory KMemProps
  imports KBoot
begin

text \<open>
  Properties of the kernel's memory management: the boot-time free lists, the page allocator, the
  page table operations as operations on address spaces, and the check of user pointers.
\<close>

section \<open>After booting\<close>

text \<open>after \<open>env_init\<close> every environment is free with identifier 0, the table satisfies its
  invariant, and the free list holds the slots in increasing order.\<close>

lemma env_init_in_order:
  assumes "length (envs s) = NENV"
  shows "env_inv (env_init s) \<and> env_pool (env_init s) = [0..<NENV] \<and> env_dirs (env_init s) = {} \<and>
    (\<forall>j<NENV. env_id (envs (env_init s) ! j) = 0 \<and> env_status (envs (env_init s) ! j) = ENV_FREE)"
  using env_init_inv [OF assms] by (auto simp: env_init_nth [OF assms] env_dirs_def)

theorem env_init_in_order_witness: "env_pool (env_init small_base) = [0..<NENV]"
  using env_init_in_order [of small_base] by (simp add: small_base_def)

text \<open>\<open>page_init\<close> puts exactly the pages no one uses on the free list, the highest first: not
  page 0, not the page of the application processors' boot code, not the I/O hole, and no page below
  the boot allocator's mark in extended memory.\<close>

lemma page_init_frees_unused:
  assumes "boot_ready nf s" "page_pool s = []" "\<forall>i<npages s. page_ref s i = 0"
  shows "\<exists>s'. page_init kend s = Inr s' \<and> page_inv s' \<and>
    page_pool s' = rev (filter (\<lambda>i. i \<noteq> 0 \<and> i \<noteq> PGNUM MPENTRY_PADDR \<and>
      \<not> (PGNUM IOPHYSMEM \<le> i \<and> i < max (PGNUM EXTPHYSMEM) (PGNUM (nf - KERNBASE)))) [0..<npages s])"
proof -
  have h: "page_held s i" if "i < npages s" for i using assms that by (simp add: page_held_def)
  have "usable nf = (\<lambda>i. i \<noteq> 0 \<and> i \<noteq> PGNUM MPENTRY_PADDR \<and>
      \<not> (PGNUM IOPHYSMEM \<le> i \<and> i < max (PGNUM EXTPHYSMEM) (PGNUM (nf - KERNBASE))))"
    by (auto simp: fun_eq_iff usable_def PGNUM_div)
  with page_init_loop [OF assms(1) h order_refl assms(2), of kend] show ?thesis
    by (auto simp: page_init_def boot_ready_def)
qed

definition small_unlinked :: kstate where
  "small_unlinked = small_base\<lparr>pages := replicate 300 \<lparr>pp_link = None, pp_ref = 0\<rparr>, npages := 300,
     page_free_list := None, nextfree := Some 0xF0110000\<rparr>"

lemma small_unlinked_ready:
  "boot_ready 0xF0110000 small_unlinked" "page_pool small_unlinked = []"
  "\<forall>i<npages small_unlinked. page_ref small_unlinked i = 0"
proof -
  have l: "length (pages small_unlinked) = npages small_unlinked" "npages small_unlinked \<le> 1048576"
    and n: "npages small_unlinked = 300"
    by (simp_all add: small_unlinked_def)
  have ch: "chain (page_link small_unlinked) (page_free_list small_unlinked) []"
    by (simp add: small_unlinked_def)
  have f: "p < npages small_unlinked \<and> page_ref small_unlinked p = 0" if "p \<in> set []" for p
    using that by simp
  have k: "page_link small_unlinked p = None" if "p < npages small_unlinked" "p \<notin> set []" for p
    using that by (simp add: page_link_def small_unlinked_def)
  note I = page_inv_intro [OF l ch f k]
  have p: "page_inv small_unlinked" "page_pool small_unlinked = []" by (rule I; assumption)+
  then show "boot_ready 0xF0110000 small_unlinked" "page_pool small_unlinked = []"
    by (simp_all add: boot_ready_def n PGNUM_div) (simp add: small_unlinked_def)
  show "\<forall>i<npages small_unlinked. page_ref small_unlinked i = 0"
    by (simp add: page_ref_def small_unlinked_def)
qed

theorem page_init_frees_unused_witness:
  "\<exists>s'. page_init 0xF0100000 small_unlinked = Inr s' \<and> page_inv s' \<and> 299 \<in> set (page_pool s') \<and>
     160 \<notin> set (page_pool s') \<and> 271 \<notin> set (page_pool s')"
proof -
  have n: "npages small_unlinked = 300" by (simp add: small_unlinked_def)
  from page_init_frees_unused [OF small_unlinked_ready, where kend = "0xF0100000"] show ?thesis
    by (auto simp: n PGNUM_div)
qed

section \<open>The page allocator\<close>

text \<open>\<open>page_alloc\<close> answers no page exactly when none is free; otherwise it takes the head of the
  free list, whose count is 0, clears it exactly when asked to, and touches no other page. Freeing the
  page gives it back to the next allocation.\<close>

lemma page_alloc_outcomes:
  assumes inv: "page_inv s"
  shows "case page_pool s of
      [] \<Rightarrow> page_alloc zero s = Inr (None, s)
    | p # ps \<Rightarrow> \<exists>s' s''. page_alloc zero s = Inr (Some p, s') \<and> page_inv s' \<and>
        page_pool s' = ps \<and> p \<notin> set ps \<and> page_ref s' p = 0 \<and>
        phys s' = (if zero then (phys s)(p := (\<lambda>_. 0)) else phys s) \<and>
        page_free p s' = Inr s'' \<and> page_inv s'' \<and> page_pool s'' = page_pool s"
proof (cases "page_pool s")
  case Nil
  then show ?thesis by (simp add: page_alloc_empty [OF inv])
next
  case (Cons p ps)
  note A = page_alloc_cons [OF inv Cons]
  have "page_held (popped zero p s) p" using A(3,4) [of zero] A(5-7) by (simp add: page_held_def)
  note F = page_free_held [OF A(2) this]
  show ?thesis unfolding Cons list.case
    by (intro exI [of _ "popped zero p s"] exI [of _ "pushed p (popped zero p s)"] conjI A F)
      (simp_all add: A F)
qed

theorem page_alloc_outcomes_witness:
  "\<exists>s' s''. page_alloc True small_kernel = Inr (Some 3, s') \<and> page_free 3 s' = Inr s'' \<and>
     page_pool s'' = [3, 4, 5, 6, 7]"
  using page_alloc_outcomes [OF small_pages(1), of True] by (auto simp: small_pages)

section \<open>Mapping and unmapping\<close>

text \<open>A small kernel with one environment in slot 0; its page directory is page 3.\<close>

lemma small_one_env:
  obtains s where "env_alloc 0 small_kernel = Inr (0, Some 0, s)" "kern_inv (\<lambda>_. 0) s" "env_dirs s = {3}"
    "page_pool s = [4, 5, 6, 7]" "npages s = 8" "page_held s 0" "tables s {3} = {}"
    "\<And>i. i < NUPDE \<Longrightarrow> phys s 3 i = 0" "\<And>va. PDX va < NUPDE \<Longrightarrow> translate s 3 va = None"
    "env_pgdir (envs s ! 0) = Some 3" "env_status (envs s ! 0) = ENV_RUNNABLE" "curenv s = None"
    "env_id (envs s ! 0) = 0x1000" "cpus s = cpus small_base" "thiscpu s = 0"
    "kernel_lock s = \<lparr>locked = 1, lock_cpu = Some 0\<rparr>" "sched_stats s = zero_sched_stats"
    "env_pool s = [Suc 0..<NENV]" "\<And>j. j \<noteq> 0 \<Longrightarrow> envs s ! j = envs small_kernel ! j" "length (envs s) = NENV"
    "env_ipc_recving (envs s ! 0) = False"
proof -
  have pool: "env_pool small_kernel = 0 # [Suc 0..<NENV]"
    unfolding small_env(2) by (rule upt_conv_Cons) simp
  obtain s where s: "env_alloc 0 small_kernel = Inr (0, Some 0, s)" "kern_inv (\<lambda>_. 0) s" 
    "page_pool s = [4, 5, 6, 7]" "env_dirs s = insert 3 (env_dirs small_kernel)"
    "env_id (envs s ! 0) = next_env_id (env_id (envs small_kernel ! 0)) 0" 
    "env_status (envs s ! 0) = ENV_RUNNABLE" "env_pgdir (envs s ! 0) = Some 3"
    "\<And>va. PDX va < NUPDE \<Longrightarrow> translate s 3 va = None" "curenv s = curenv small_kernel"
    "npages s = npages small_kernel" "page_held s = page_held small_kernel"
    "tables s (env_dirs s) = tables small_kernel (env_dirs small_kernel)"
    "\<And>i. i < NUPDE \<Longrightarrow> phys s 3 i = 0"
    "cpus s = cpus small_kernel" "thiscpu s = thiscpu small_kernel" "kernel_lock s = kernel_lock small_kernel"
    "sched_stats s = sched_stats small_kernel"
    "env_pool s = [Suc 0..<NENV]" "\<And>j. j \<noteq> 0 \<Longrightarrow> envs s ! j = envs small_kernel ! j" "length (envs s) = NENV"
    "env_ipc_recving (envs s ! 0) = False"
    by (rule env_alloc_new [OF small_inv pool small_pages(2), of 0]) (rule that; assumption)
  have id: "next_env_id 0 0 = 0x1000" by (simp add: next_env_id_def)
  have h: "page_held small_kernel 0" by (simp add: page_held_def small_pages small_ref)
  have d: "env_dirs s = {3}" using s(4) by (simp add: small_dirs)
  show thesis
    by (rule that [OF s(1,2) d s(3)]) (use s h d in \<open>simp_all add: small_envs id small_dirs tables_def del: upt_Suc upt_rec_numeral\<close>)
qed

lemma kern_vm: "kern_inv ext s \<Longrightarrow> vm_inv (env_dirs s) ext s"
  by (simp add: kern_inv_def)

text \<open>C2: \<open>page_insert\<close> makes the page of the given user address, and no other page of any address
  space, translate to the given physical page with the given permission bits and \<open>PTE_P\<close>, whatever
  was mapped there before, and keeps the reference counts equal to the numbers of mappings.\<close>

theorem page_insert_maps_one:
  assumes "vm_inv pds ext s" "pd \<in> pds" "va < UTOP" "phys s pd (PDX va) \<noteq> 0 \<or> page_pool s \<noteq> []"
    and "pp < npages s" "pp \<notin> pds" "pp \<notin> tables s pds" "pp \<notin> set (page_pool s)" "page_ref s pp < 65535"
    and "perm < 0x1000"
  shows "\<exists>s'. page_insert pd pp va perm s = Inr (0, s') \<and> vm_inv pds ext s' \<and>
    (\<forall>pd' va'. pd' \<in> pds \<and> va' < UTOP \<longrightarrow> translate s' pd' va' =
       (if pd' = pd \<and> PGNUM va' = PGNUM va then Some (pp, perm OR PTE_P) else translate s pd' va'))"
proof -
  note i = insert_maps [OF assms(1,2) PDX_user [OF assms(3)] assms(4-10)]
  show ?thesis by (rule i, intro exI conjI, assumption, assumption) (use PDX_user in blast)
qed

lemma small_insert:
  obtains s where "vm_inv {3} (\<lambda>_. 0) s" "phys s 3 (PDX 0x800000) \<noteq> 0 \<or> page_pool s \<noteq> []" "0 < npages s"
    "0 \<notin> tables s {3}" "0 \<notin> set (page_pool s)" "page_ref s 0 < 65535"
    "\<And>va. PDX va < NUPDE \<Longrightarrow> translate s 3 va = None"
proof -
  obtain s where s: "kern_inv (\<lambda>_. 0) s" "env_dirs s = {3}" "page_pool s = [4, 5, 6, 7]" "npages s = 8"
    "page_held s 0" "tables s {3} = {}" "\<And>va. PDX va < NUPDE \<Longrightarrow> translate s 3 va = None"
    by (rule small_one_env) (rule that; assumption)
  have v: "vm_inv {3} (\<lambda>_. 0) s" using kern_vm [OF s(1)] unfolding s(2) .
  show thesis by (rule that [OF v _ _ _ _ _ s(7)]) (use s in \<open>simp_all add: page_held_def\<close>)
qed

theorem page_insert_maps_one_witness:
  "\<exists>s s'. page_insert 3 0 0x800000 (PTE_U OR PTE_W) s = Inr (0, s') \<and>
     translate s' 3 0x800123 = Some (0, PTE_U OR PTE_W OR PTE_P) \<and> translate s' 3 0x801000 = None"
proof -
  obtain s where s: "vm_inv {3} (\<lambda>_. 0) s" "phys s 3 (PDX 0x800000) \<noteq> 0 \<or> page_pool s \<noteq> []" "0 < npages s"
    "0 \<notin> tables s {3}" "0 \<notin> set (page_pool s)" "page_ref s 0 < 65535"
    "\<And>va. PDX va < NUPDE \<Longrightarrow> translate s 3 va = None" by (rule small_insert) (rule that; assumption)
  obtain s' where s': "page_insert 3 0 0x800000 (PTE_U OR PTE_W) s = Inr (0, s')"
    "\<forall>pd' va'. pd' \<in> {3} \<and> va' < UTOP \<longrightarrow> translate s' pd' va' =
       (if pd' = 3 \<and> PGNUM va' = PGNUM 0x800000 then Some (0, PTE_U OR PTE_W OR PTE_P) else translate s pd' va')"
    using page_insert_maps_one [OF s(1) _ _ s(2,3) _ s(4-6), where perm = "PTE_U OR PTE_W"] by auto
  have n: "PGNUM 0x800123 = PGNUM 0x800000" "PGNUM 0x801000 \<noteq> PGNUM 0x800000" by (simp_all add: PGNUM_div)
  have "PDX 0x801000 < NUPDE" by (simp add: PDX_div)
  with s' s(7) n show ?thesis by (intro exI [of _ s] exI [of _ s']) auto
qed

text \<open>C21: \<open>page_remove\<close> unmaps the page of the given address and nothing else; it drops one reference,
  and the physical page joins the free list exactly when that was the last one. An address that maps
  nothing is left alone.\<close>

theorem page_remove_unmaps_one:
  assumes inv: "vm_inv pds ext s" and pd: "pd \<in> pds" "va < UTOP"
  shows "case translate s pd va of
      None \<Rightarrow> page_remove pd va s = Inr s
    | Some (q, perm) \<Rightarrow> \<exists>s'. page_remove pd va s = Inr s' \<and> vm_inv pds ext s' \<and>
        page_ref s' = (page_ref s)(q := page_ref s q - 1) \<and>
        page_pool s' = (if page_ref s q = 1 then q # page_pool s else page_pool s) \<and>
        (\<forall>pd' va'. pd' \<in> pds \<and> va' < UTOP \<longrightarrow> translate s' pd' va' =
           (if pd' = pd \<and> PGNUM va' = PGNUM va then None else translate s pd' va'))"
proof (cases "translate s pd va")
  case None
  then show ?thesis using remove_unmapped [OF inv pd(1) PDX_user [OF pd(2)]] by simp
next
  case (Some m)
  obtain q perm where m: "m = (q, perm)" by (cases m)
  note r = remove_mapped [OF inv pd(1) PDX_user [OF pd(2)] Some [unfolded m]]
  show ?thesis unfolding Some m option.case prod.case
    by (rule r, intro exI conjI, assumption, assumption, assumption, assumption) (use PDX_user in blast)
qed

theorem page_remove_unmaps_one_witness:
  "\<exists>s s'. translate s 3 0x800000 = Some (0, 7) \<and> page_remove 3 0x800000 s = Inr s' \<and>
     translate s' 3 0x800fff = None"
proof -
  obtain s0 where s0: "vm_inv {3} (\<lambda>_. 0) s0" "phys s0 3 (PDX 0x800000) \<noteq> 0 \<or> page_pool s0 \<noteq> []" "0 < npages s0"
    "0 \<notin> tables s0 {3}" "0 \<notin> set (page_pool s0)" "page_ref s0 0 < 65535"
    "\<And>va. PDX va < NUPDE \<Longrightarrow> translate s0 3 va = None" by (rule small_insert) (rule that; assumption)
  have a: "(3::nat) \<in> {3}" "PDX 0x800000 < NUPDE" "0 \<notin> {3::nat}" "(6::u32) < 0x1000" by (simp_all add: PDX_div)
  obtain s where s: "vm_inv {3} (\<lambda>_. 0) s" "\<And>pd' va'. pd' \<in> {3} \<Longrightarrow> PDX va' < NUPDE \<Longrightarrow> translate s pd' va' =
       (if pd' = 3 \<and> PGNUM va' = PGNUM 0x800000 then Some (0, 6 OR PTE_P) else translate s0 pd' va')"
    by (rule insert_maps [OF s0(1) a(1,2) s0(2,3) a(3) s0(4-6) a(4)]) (rule that; assumption)
  have t: "translate s 3 0x800000 = Some (0, 7)" using s(2) [OF a(1,2)] by simp
  have "PGNUM 0x800fff = PGNUM 0x800000" by (simp add: PGNUM_div)
  with t page_remove_unmaps_one [OF s(1), of 3 "0x800000"] show ?thesis by auto
qed

section \<open>Checking user pointers\<close>

text \<open>A page a user may touch with the given permissions.\<close>

definition accessible :: "kstate \<Rightarrow> nat \<Rightarrow> u32 \<Rightarrow> u32 \<Rightarrow> bool" where
  "accessible s pd perm va \<longleftrightarrow>
     (case translate s pd va of None \<Rightarrow> False | Some (q, w) \<Rightarrow> w AND (perm OR PTE_P) = perm OR PTE_P)"

lemma flags_of_low: "perm < 0x1000 \<Longrightarrow> ((w::u32) AND 0xFFF) AND (perm OR 1) = w AND (perm OR 1)"
proof -
  assume "perm < 0x1000"
  then have "take_bit 12 (perm OR 1) = perm OR 1" by (intro low12_take or_P_low)
  then have "0xFFF AND (perm OR 1) = perm OR 1"
    unfolding take_bit_eq_mask by (simp add: and.commute mask_eq_exp_minus_1)
  then show ?thesis by (simp add: and.assoc)
qed

lemma user_mem_step:
  assumes inv: "vm_inv pds ext s" and pd: "pd \<in> pds" "va < UTOP" and perm: "perm < 0x1000"
  shows "user_mem_scan pd lo perm (va # vas) s =
    (if accessible s pd perm va then user_mem_scan pd lo perm vas s
     else Inr (- E_FAULT, s\<lparr>user_mem_check_addr := (if va > lo then va else lo)\<rparr>))"
proof (cases "phys s pd (PDX va) = 0")
  case True
  then show ?thesis by (simp add: walk_absent accessible_def translate_def)
next
  case False
  have "perm OR 1 \<noteq> 0" by (rule or_P_nonzero)
  then show ?thesis
    using walk_present [OF inv pd(1) PDX_user [OF pd(2)] False] False flags_of_low [OF perm]
    by (auto simp: accessible_def translate_def Let_def)
qed

lemma user_mem_scan_found:
  assumes inv: "vm_inv pds ext s" and pd: "pd \<in> pds" "\<And>va. va \<in> set vas \<Longrightarrow> va < UTOP" and perm: "perm < 0x1000"
  shows "user_mem_scan pd lo perm vas s =
    (case find (\<lambda>va. \<not> accessible s pd perm va) vas of
       None \<Rightarrow> Inr (0, s)
     | Some va \<Rightarrow> Inr (- E_FAULT, s\<lparr>user_mem_check_addr := (if va > lo then va else lo)\<rparr>))"
  using pd(2)
proof (induction vas)
  case (Cons va vas)
  have "va < UTOP" using Cons.prems by simp
  note step = user_mem_step [OF inv pd(1) this perm, of lo vas]
  show ?case unfolding step using Cons by simp
qed simp

lemma va_range_nth:
  assumes "i < length (va_range lo hi)"
  shows "unat (va_range lo hi ! i) = unat lo + 4096 * i" "unat lo + 4096 * i < unat hi"
proof -
  have i: "i < (unat hi - unat lo + 4095) div 4096" using assms by (simp add: va_range_def)
  then have "Suc i * 4096 \<le> unat hi - unat lo + 4095"
    using div_times_less_eq_dividend [of "unat hi - unat lo + 4095" 4096] mult_le_mono1 [OF Suc_leI [OF i], of 4096]
    by linarith
  then show b: "unat lo + 4096 * i < unat hi" by simp
  show "unat (va_range lo hi ! i) = unat lo + 4096 * i"
    using b unat_u32 [of hi] i by (simp add: va_range_def unat_word_ariths unat_of_nat_u32)
qed

lemma va_range_mem:
  assumes "unat lo = 4096 * l" "unat hi = 4096 * h"
  shows "a \<in> set (va_range lo hi) \<longleftrightarrow> (\<exists>k. unat a = 4096 * k \<and> l \<le> k \<and> k < h)"
proof -
  have len: "length (va_range lo hi) = h - l" unfolding va_range_def assms by simp
  show ?thesis
  proof
    assume "a \<in> set (va_range lo hi)"
    then obtain i where "i < length (va_range lo hi)" "a = va_range lo hi ! i" by (auto simp: in_set_conv_nth)
    with va_range_nth [OF this(1)] len show "\<exists>k. unat a = 4096 * k \<and> l \<le> k \<and> k < h"
      unfolding assms by (intro exI [of _ "l + i"]) simp
  next
    assume "\<exists>k. unat a = 4096 * k \<and> l \<le> k \<and> k < h"
    then obtain k where k: "unat a = 4096 * k" "l \<le> k" "k < h" by blast
    then have "k - l < length (va_range lo hi)" by (simp add: len)
    moreover have "va_range lo hi ! (k - l) = a"
      using va_range_nth(1) [OF calculation] k by (intro unsigned_word_eqI [where 'a = nat]) (simp add: assms)
    ultimately show "a \<in> set (va_range lo hi)" by (metis nth_mem)
  qed
qed

lemma ceil_page: "(c::nat) < (h + 4095) div 4096 \<longleftrightarrow> 4096 * c < h"
  using less_eq_div_iff_mult_less_eq [of 4096 "Suc c" "h + 4095"]
  by (simp add: Suc_le_eq mult.commute)

lemma accessible_page: "PGNUM a = PGNUM b \<Longrightarrow> accessible s pd perm a = accessible s pd perm b"
  by (simp add: accessible_def translate_def PGNUM_eq_iff)

text \<open>The first page of a range that fails a test, against the first byte that does.\<close>

lemma range_bad_byte:
  fixes P :: "u32 \<Rightarrow> bool"
  assumes page: "\<And>a b. unat a div 4096 = unat b div 4096 \<Longrightarrow> P a = P b"
    and xs: "xs = va_range lo hi" "unat lo = 4096 * (unat va div 4096)" "unat hi = 4096 * ((H + 4095) div 4096)"
    and a: "va \<le> a" "unat a < H" "P a"
  shows "\<exists>p\<in>set xs. unat p \<le> unat a \<and> P p"
proof (intro bexI [of _ "ROUNDDOWN a PGSIZE"] conjI)
  show "P (ROUNDDOWN a PGSIZE)" using page [of "ROUNDDOWN a PGSIZE" a] a(3) by (simp add: unat_ROUNDDOWN)
  have "unat va div 4096 \<le> unat a div 4096" using a(1) by (simp add: word_le_nat_alt div_le_mono)
  moreover have "4096 * (unat a div 4096) < H" using a(2) by (meson le_less_trans times_div_less_eq_dividend)
  ultimately show "ROUNDDOWN a PGSIZE \<in> set xs"
    unfolding xs(1) va_range_mem [OF xs(2,3)] ceil_page unat_ROUNDDOWN
    by (intro exI [of _ "unat a div 4096"]) simp
qed (simp add: unat_ROUNDDOWN)

lemma range_first_bad:
  fixes P :: "u32 \<Rightarrow> bool"
  assumes page: "\<And>a b. unat a div 4096 = unat b div 4096 \<Longrightarrow> P a = P b"
    and xs: "xs = va_range lo hi" "unat lo = 4096 * (unat va div 4096)" "unat hi = 4096 * ((H + 4095) div 4096)"
    and va: "unat va < H" and found: "find P xs = Some p"
  shows "P (max p va)" "unat (max p va) < H" "(LEAST a. va \<le> a \<and> P a) = max p va"
proof -
  obtain i where i: "i < length xs" "P p" "p = xs ! i" "\<And>j. j < i \<Longrightarrow> \<not> P (xs ! j)"
    using found by (auto simp: find_Some_iff)
  then have "p \<in> set xs" by simp
  then obtain k where k: "unat p = 4096 * k" "unat va div 4096 \<le> k" "4096 * k < H"
    unfolding xs(1) va_range_mem [OF xs(2,3)] ceil_page by blast
  have m: "max p va = (if va < p then p else va)" by (auto simp: max_def)
  show bP: "P (max p va)"
  proof (cases "va < p")
    case False
    then have "4096 * k \<le> unat va" using k(1) by (simp add: word_less_nat_alt)
    then have "k \<le> unat va div 4096" by (simp add: less_eq_div_iff_mult_less_eq mult.commute)
    then have "unat p div 4096 = unat va div 4096" using k(1,2) by simp
    then have "P va" using page [of p va] i(2) by simp
    with False show ?thesis by (simp add: m)
  qed (use i(2) in \<open>simp add: m\<close>)
  show bH: "unat (max p va) < H" using k va by (simp add: m)
  show "(LEAST a. va \<le> a \<and> P a) = max p va"
  proof (rule Least_equality)
    fix a assume a: "va \<le> a \<and> P a"
    show "max p va \<le> a"
    proof (rule ccontr)
      assume "\<not> max p va \<le> a"
      then have ab: "unat a < unat (max p va)" by (simp add: word_le_nat_alt not_le)
      then obtain q where q: "q \<in> set xs" "unat q \<le> unat a" "P q"
        using range_bad_byte [where P = P, OF page xs, of a] less_trans [OF ab bH] a by auto
      then obtain j where j: "j < length xs" "q = xs ! j" by (auto simp: in_set_conv_nth)
      have "max p va = p" using ab a by (auto simp: m word_le_nat_alt split: if_splits)
      with ab q(2) have "unat (xs ! j) < unat (xs ! i)" using i(3) j(2) by simp
      then have "j < i" using va_range_nth(1) [of i lo hi] va_range_nth(1) [of j lo hi] i(1) j(1) by (simp add: xs(1))
      with i(4) q(3) j(2) show False by simp
    qed
  qed (use bP in simp)
qed

text \<open>C18: for a range of user addresses that does not wrap around, \<open>user_mem_check\<close> accepts exactly
  the ranges all of whose bytes lie below \<open>UTOP\<close> on pages with the permissions, and otherwise answers
  \<open>-E_FAULT\<close>. For a range that ends above \<open>UTOP\<close> (not \<open>ULIM\<close>, as the comment has it) the recorded address is the
  start of the range, even if its first bytes may be touched; for any other it is the first byte that may not.\<close>

theorem user_mem_check_exact:
  assumes inv: "vm_inv pds ext s" and pd: "env_pgdir (envs s ! e) = Some pd" "pd \<in> pds"
    and perm: "perm < 0x1000" and len: "0 < len" and wrap: "unat va + unat len + 4095 < 2 ^ 32"
  shows "user_mem_check e va len perm s =
    (if UTOP < va + len then Inr (- E_FAULT, s\<lparr>user_mem_check_addr := va\<rparr>)
     else if \<forall>a. va \<le> a \<and> a < va + len \<longrightarrow> accessible s pd perm a then Inr (0, s)
     else Inr (- E_FAULT, s\<lparr>user_mem_check_addr := (LEAST a. va \<le> a \<and> \<not> accessible s pd perm a)\<rparr>))"
proof -
  let ?lo = "ROUNDDOWN va PGSIZE" and ?hi = "ROUNDUP (va + len) PGSIZE"
  define H where "H = unat va + unat len"
  have H: "unat (va + len) = H" using wrap by (simp add: H_def unat_word_ariths)
  have n: "unat va < H" using len by (simp add: word_less_nat_alt H_def)
  have lo: "unat ?lo = 4096 * (unat va div 4096)" by (simp add: unat_ROUNDDOWN)
  have hi: "unat ?hi = 4096 * ((H + 4095) div 4096)"
    using wrap H by (subst unat_ROUNDUP) (simp_all add: H_def)
  have top: "?hi > UTOP \<longleftrightarrow> UTOP < va + len"
    unfolding word_less_nat_alt hi H using ceil_page [of 977920 H] by simp
  show ?thesis
  proof (cases "UTOP < va + len")
    case True
    then show ?thesis by (simp add: user_mem_check_def Let_def top)
  next
    case False
    define xs where "xs = va_range ?lo ?hi"
    define P where "P = (\<lambda>a. \<not> accessible s pd perm a)"
    have page: "P a = P b" if "unat a div 4096 = unat b div 4096" for a b
      using that accessible_page [of a b s pd perm] by (simp add: P_def PGNUM_div)
    have user: "a < UTOP" if "a \<in> set xs" for a
      using that False H unfolding xs_def va_range_mem [OF lo hi] ceil_page word_less_nat_alt by auto
    have "?lo \<in> set xs"
      unfolding xs_def va_range_mem [OF lo hi] ceil_page using n lo
      by (intro exI [of _ "unat va div 4096"]) (auto intro: le_less_trans [OF times_div_less_eq_dividend])
    then have run: "user_mem_check e va len perm s =
       (case find P xs of None \<Rightarrow> Inr (0, s)
        | Some a \<Rightarrow> Inr (- E_FAULT, s\<lparr>user_mem_check_addr := (if a > va then a else va)\<rparr>))"
      using False pd user_mem_scan_found [OF inv pd(2) user perm, where lo = va]
      by (auto simp: user_mem_check_def Let_def top xs_def [symmetric] P_def)
    have cond: "(\<forall>a. va \<le> a \<and> a < va + len \<longrightarrow> accessible s pd perm a) \<longleftrightarrow> (\<forall>a. va \<le> a \<and> unat a < H \<longrightarrow> \<not> P a)"
      unfolding word_less_nat_alt H P_def by simp
    show ?thesis
    proof (cases "find P xs")
      case None
      then have "\<forall>p\<in>set xs. \<not> P p" by (simp add: find_None_iff)
      then have "\<forall>a. va \<le> a \<and> unat a < H \<longrightarrow> \<not> P a"
        using range_bad_byte [where P = P, OF page xs_def lo hi] by blast
      then show ?thesis using False None unfolding run cond by simp
    next
      case (Some p)
      note F = range_first_bad [where P = P, OF page xs_def lo hi n Some]
      have "\<not> (\<forall>a. va \<le> a \<and> unat a < H \<longrightarrow> \<not> P a)" using F(1,2) max.cobounded2 by blast
      then show ?thesis
        using False Some F(3) unfolding run cond by (simp add: P_def max_def split: if_splits)
    qed
  qed
qed

theorem user_mem_check_exact_witness:
  "\<exists>s. user_mem_check 0 0x800010 8 PTE_U s = Inr (- E_FAULT, s\<lparr>user_mem_check_addr := 0x800010\<rparr>)"
proof -
  obtain s where s: "kern_inv (\<lambda>_. 0) s" "env_dirs s = {3}" "env_pgdir (envs s ! 0) = Some 3"
    "\<And>va. PDX va < NUPDE \<Longrightarrow> translate s 3 va = None"
    by (rule small_one_env) (rule that; assumption)
  have v: "vm_inv {3} (\<lambda>_. 0) s" using kern_vm [OF s(1)] unfolding s(2) .
  have "PDX 0x800010 < NUPDE" by (simp add: PDX_div)
  then have na: "\<not> accessible s 3 PTE_U 0x800010" by (simp add: accessible_def s(4))
  have least: "(LEAST a. 0x800010 \<le> a \<and> \<not> accessible s 3 PTE_U a) = 0x800010"
    by (rule Least_equality) (use na in auto)
  have n: "\<not> UTOP < 0x800010 + 8" "\<not> (\<forall>a. 0x800010 \<le> a \<and> a < 0x800010 + 8 \<longrightarrow> accessible s 3 PTE_U a)"
    using na by (auto intro!: exI [of _ "0x800010"])
  have m: "(3::nat) \<in> {3}" "PTE_U < 0x1000" "(0::u32) < 8" "unat (0x800010::u32) + unat (8::u32) + 4095 < 2 ^ 32"
    by simp_all
  show ?thesis
    by (rule exI [of _ s], unfold user_mem_check_exact [OF v s(3) m] if_not_P [OF n(1)] if_not_P [OF n(2)] least)
      (rule refl)
qed

text \<open>C36: a range whose end wraps around to an address of at most \<open>UTOP\<close> passes the check without a single page
  being looked at; with it a user hands kernel memory to a system call.\<close>

theorem user_mem_check_wraps:
  assumes "2 ^ 32 \<le> unat va + unat len" "va + len \<le> UTOP" "ROUNDUP (va + len) PGSIZE \<le> ROUNDDOWN va PGSIZE"
  shows "user_mem_check e va len perm s = Inr (0, s)"
proof -
  have "unat (va + len) + 4095 < 4294967296" using assms(2) by (simp add: word_le_nat_alt)
  then have hi: "unat (ROUNDUP (va + len) PGSIZE) = (unat (va + len) + 4095) div 4096 * 4096"
    by (rule unat_ROUNDUP)
  have "(unat (va + len) + 4095) div 4096 \<le> 977920"
    using assms(2) ceil_page [of 977920 "unat (va + len)"] by (simp add: word_le_nat_alt)
  then have "\<not> ROUNDUP (va + len) PGSIZE > UTOP" unfolding word_less_nat_alt hi by simp
  moreover have "va_range (ROUNDDOWN va PGSIZE) (ROUNDUP (va + len) PGSIZE) = []"
    using assms(3) by (simp add: va_range_def word_le_nat_alt)
  ultimately show ?thesis by (simp add: user_mem_check_def Let_def)
qed

theorem user_mem_check_wraps_witness:
  "user_mem_check 0 KERNBASE 0x10000000 (PTE_U OR PTE_W) small_kernel = Inr (0, small_kernel)"
proof -
  have "ROUNDUP (KERNBASE + 0x10000000) PGSIZE = 0" "ROUNDDOWN KERNBASE PGSIZE = KERNBASE"
    by (simp_all add: ROUNDUP_def ROUNDDOWN_def)
  then show ?thesis by (intro user_mem_check_wraps) simp_all
qed

end
