(* ===== verification/KEnvProps.thy ===== *)
theory KEnvProps
  imports KMemProps
begin

text \<open>
  Properties of environments: allocation and freeing on every branch, identifiers and their lookup.
\<close>

section \<open>Allocation and freeing\<close>

text \<open>C23: \<open>env_alloc\<close> answers \<open>-E_NO_FREE_ENV\<close> without a free slot and \<open>-E_NO_MEM\<close> without a free page,
  changing nothing; otherwise it takes the first of each and the new environment is runnable, has a
  fresh identifier and the given parent, and maps nothing below \<open>UTOP\<close>, while every other environment
  and what its addresses mean stay as they were.\<close>

theorem env_alloc_outcomes:
  assumes inv: "kern_inv ext s"
  shows "case env_pool s of
      [] \<Rightarrow> env_alloc parent s = Inr (- E_NO_FREE_ENV, None, s)
    | e # es \<Rightarrow> (case page_pool s of
        [] \<Rightarrow> env_alloc parent s = Inr (- E_NO_MEM, None, s)
      | p # ps \<Rightarrow> \<exists>s'. env_alloc parent s = Inr (0, Some e, s') \<and> kern_inv ext s' \<and>
          env_pool s' = es \<and> page_pool s' = ps \<and> env_dirs s' = insert p (env_dirs s) \<and>
          env_id (envs s' ! e) = next_env_id (env_id (envs s ! e)) e \<and> env_parent_id (envs s' ! e) = parent \<and>
          env_status (envs s' ! e) = ENV_RUNNABLE \<and> env_pgdir (envs s' ! e) = Some p \<and>
          (\<forall>va<UTOP. translate s' p va = None) \<and> (\<forall>j. j \<noteq> e \<longrightarrow> envs s' ! j = envs s ! j) \<and>
          (\<forall>pd va. pd \<in> env_dirs s \<and> va < UTOP \<longrightarrow> translate s' pd va = translate s pd va))"
proof (cases "env_pool s")
  case Nil
  with inv show ?thesis by (simp add: env_alloc_none kern_inv_def)
next
  case e: (Cons e es)
  show ?thesis
  proof (cases "page_pool s")
    case Nil
    with inv e show ?thesis by (simp add: env_alloc_no_page kern_inv_def vm_inv_def)
  next
    case (Cons p ps)
    obtain s' where r: "env_alloc parent s = Inr (0, Some e, s')" "kern_inv ext s'" "env_pool s' = es"
      "page_pool s' = ps" "env_dirs s' = insert p (env_dirs s)"
      "env_id (envs s' ! e) = next_env_id (env_id (envs s ! e)) e" "env_parent_id (envs s' ! e) = parent"
      "env_status (envs s' ! e) = ENV_RUNNABLE" "env_pgdir (envs s' ! e) = Some p"
      "\<And>va. PDX va < NUPDE \<Longrightarrow> translate s' p va = None" "\<And>j. j \<noteq> e \<Longrightarrow> envs s' ! j = envs s ! j"
      "\<And>pd va. pd \<in> env_dirs s \<Longrightarrow> PDX va < NUPDE \<Longrightarrow> translate s' pd va = translate s pd va"
      by (rule env_alloc_new [OF inv e Cons, of parent]) (rule that; assumption)
    show ?thesis unfolding e Cons list.case
      by (intro exI [of _ s'] conjI allI impI r(1-9)) (simp_all add: r(10-12) PDX_user)
  qed
qed

theorem env_alloc_outcomes_witness:
  "\<exists>s'. env_alloc 0 small_kernel = Inr (0, Some 0, s') \<and> kern_inv (\<lambda>_. 0) s' \<and>
     env_id (envs s' ! 0) = 0x1000 \<and> page_pool s' = [4, 5, 6, 7]"
proof -
  have pool: "env_pool small_kernel = 0 # [Suc 0..<NENV]"
    unfolding small_env(2) by (rule upt_conv_Cons) simp
  show ?thesis
    using env_alloc_outcomes [OF small_inv, of 0] unfolding pool small_pages list.case
    by (auto simp: small_envs next_env_id_def)
qed

text \<open>C25: freeing a live environment unmaps everything below \<open>UTOP\<close>, returns its page directory and
  every page only it referred to, puts its slot at the head of the free list, and leaves every other
  environment and what its addresses mean alone; no page is lost (a page without references is on
  the free list exactly when it was accounted for before).\<close>

theorem env_free_releases_all:
  assumes inv: "kern_inv ext s" and e: "e < NENV" "env_status (envs s ! e) \<noteq> ENV_FREE"
  shows "\<exists>s' pd. env_pgdir (envs s ! e) = Some pd \<and> env_free e s = Inr s' \<and> kern_inv ext s' \<and>
    env_pool s' = e # env_pool s \<and> env_dirs s' = env_dirs s - {pd} \<and>
    env_status (envs s' ! e) = ENV_FREE \<and> (\<forall>j. j \<noteq> e \<longrightarrow> envs s' ! j = envs s ! j) \<and>
    (\<forall>q va. q \<in> env_dirs s' \<and> va < UTOP \<longrightarrow> translate s' q va = translate s q va) \<and>
    set (page_pool s) \<subseteq> set (page_pool s') \<and> pd \<in> set (page_pool s') \<and> page_held s' = page_held s"
proof -
  have "env_inv s" using inv by (simp add: kern_inv_def)
  then obtain pd where pd: "env_pgdir (envs s ! e) = Some pd" using env_inv_D(7) e by blast
  obtain s' where r: "env_free e s = Inr s'" "kern_inv ext s'" "env_pool s' = e # env_pool s"
    "env_dirs s' = env_dirs s - {pd}" "env_status (envs s' ! e) = ENV_FREE"
    "\<And>j. j \<noteq> e \<Longrightarrow> envs s' ! j = envs s ! j"
    "\<And>q va. q \<in> env_dirs s' \<Longrightarrow> PDX va < NUPDE \<Longrightarrow> translate s' q va = translate s q va"
    "set (page_pool s) \<subseteq> set (page_pool s')" "pd \<in> set (page_pool s')" "page_held s' = page_held s"
    by (rule env_free_gone [OF inv e pd]) (rule that; assumption)
  show ?thesis
    by (intro exI [of _ s'] exI [of _ pd] conjI allI impI pd r(1-6,8-10)) (simp_all add: r(7) PDX_user)
qed

theorem env_free_releases_all_witness:
  "\<exists>s s'. env_alloc 0 small_kernel = Inr (0, Some 0, s) \<and> env_free 0 s = Inr s' \<and>
     3 \<in> set (page_pool s') \<and> 0 \<in> set (env_pool s')"
proof -
  obtain s where s: "env_alloc 0 small_kernel = Inr (0, Some 0, s)" "kern_inv (\<lambda>_. 0) s"
      "env_pgdir (envs s ! 0) = Some 3" "env_status (envs s ! 0) = ENV_RUNNABLE"
    by (rule small_one_env) (rule that; assumption)
  have n: "0 < NENV" "env_status (envs s ! 0) \<noteq> ENV_FREE" using s(4) by simp_all
  obtain s' where "env_free 0 s = Inr s'" "3 \<in> set (page_pool s')" "env_pool s' = 0 # env_pool s"
    using env_free_releases_all [OF s(2) n] s(3) by auto
  with s(1) show ?thesis by (intro exI [of _ s] exI [of _ s']) simp
qed

section \<open>Identifiers\<close>

lemma valid_ENVX:
  assumes "e < NENV" "valid_id w e" "w \<noteq> 0"
  shows "ENVX w = e"
proof -
  obtain g where "unat w = 4096 * g + e" using assms(2,3) by (auto simp: valid_id_def)
  then have "unat w = e + 1024 * (4 * g)" by simp
  then show ?thesis using assms(1) by (simp only: ENVX_mod mod_mult_self2 mod_less)
qed

text \<open>\<open>envid2env\<close>, which only looks at the slot the low ten bits of the identifier name, gives what
  a search of the whole table for a live environment with that identifier would; with the permission
  check, only the caller itself and its children are found.\<close>

lemma envid2env_search:
  assumes inv: "env_inv s" and cur: "curenv s = Some c" and id: "envid \<noteq> 0"
  shows "envid2env envid checkperm s =
    (case find (\<lambda>e. env_status (envs s ! e) \<noteq> ENV_FREE \<and> env_id (envs s ! e) = envid) [0..<NENV] of
       None \<Rightarrow> Inr (- E_BAD_ENV, None)
     | Some e \<Rightarrow> if checkperm \<and> e \<noteq> c \<and> env_parent_id (envs s ! e) \<noteq> env_id (envs s ! c)
                 then Inr (- E_BAD_ENV, None) else Inr (0, Some e))"
proof -
  let ?P = "\<lambda>e. env_status (envs s ! e) \<noteq> ENV_FREE \<and> env_id (envs s ! e) = envid"
  have slot: "e = ENVX envid" if "e < NENV" "?P e" for e
    using valid_ENVX [OF that(1) env_inv_D(5) [OF inv that(1)]] that(2) id by simp
  show ?thesis
  proof (cases "find ?P [0..<NENV]")
    case None
    then have "\<not> ?P (ENVX envid)" by (simp add: find_None_iff)
    then show ?thesis unfolding None using id by (auto simp: envid2env_def Let_def)
  next
    case (Some e)
    then have "e < NENV" "?P e" by (auto simp: find_Some_iff)
    with slot [OF this] id cur show ?thesis unfolding Some by (auto simp: envid2env_def Let_def)
  qed
qed

theorem envid2env_search_witness:
  "\<exists>s. env_inv s \<and> curenv s = Some 0 \<and> envid2env 0x1000 True s = Inr (0, Some 0)"
proof -
  obtain s where s: "kern_inv (\<lambda>_. 0) s" "env_status (envs s ! 0) = ENV_RUNNABLE" "env_id (envs s ! 0) = 0x1000"
      "cpus s = cpus small_base" "thiscpu s = 0"
    by (rule small_one_env) (rule that; assumption)
  let ?s = "set_curenv (Some 0) s"
  have "env_inv ?s" using s(1) env_inv_cong(1) [of ?s s] by (simp add: set_curenv_def kern_inv_def)
  moreover have c: "curenv ?s = Some 0" using s(4,5) by (simp add: set_curenv_def curenv_def small_base_def)
  moreover have "find (\<lambda>e. env_status (envs ?s ! e) \<noteq> ENV_FREE \<and> env_id (envs ?s ! e) = 0x1000) [0..<NENV] = Some 0"
    using s by (auto simp: find_Some_iff set_curenv_def intro!: exI [of _ 0])
  ultimately show ?thesis using envid2env_search [of ?s 0 "0x1000" True] by auto
qed

text \<open>C38: the identifier of a freed environment is refused, also after its slot has been given to a new
  environment.\<close>

theorem stale_ids_refused:
  assumes inv: "kern_inv ext s" and e: "e < NENV" "env_status (envs s ! e) \<noteq> ENV_FREE"
  shows "\<exists>s1. env_free e s = Inr s1 \<and>
    envid2env (env_id (envs s ! e)) checkperm s1 = Inr (- E_BAD_ENV, None) \<and>
    (\<exists>s2. env_alloc parent s1 = Inr (0, Some e, s2) \<and>
      envid2env (env_id (envs s ! e)) checkperm s2 = Inr (- E_BAD_ENV, None))"
proof -
  have einv: "env_inv s" using inv by (simp add: kern_inv_def)
  note E = env_inv_D [OF einv]
  obtain pd where pd: "env_pgdir (envs s ! e) = Some pd" using E(7) e by blast
  have id: "ENVX (env_id (envs s ! e)) = e" "env_id (envs s ! e) \<noteq> 0"
    using valid_ENVX [OF e(1) E(5)] E(6) e by simp_all
  obtain s1 where s1: "env_free e s = Inr s1" "kern_inv ext s1" "env_pool s1 = e # env_pool s"
    "env_status (envs s1 ! e) = ENV_FREE" "env_id (envs s1 ! e) = env_id (envs s ! e)" "pd \<in> set (page_pool s1)"
    by (rule env_free_gone [OF inv e pd]) (rule that; assumption)
  obtain p ps where ps: "page_pool s1 = p # ps" using s1(6) by (cases "page_pool s1") auto
  obtain s2 where s2: "env_alloc parent s1 = Inr (0, Some e, s2)"
    "env_id (envs s2 ! e) = next_env_id (env_id (envs s1 ! e)) e"
    by (rule env_alloc_new [OF s1(2,3) ps, of parent]) (rule that; assumption)
  have "next_env_id (env_id (envs s ! e)) e \<noteq> env_id (envs s ! e)"
    using next_env_id_valid(2) [OF e(1) E(5) [OF e(1)]] .
  with s1 s2 id show ?thesis by (auto simp: envid2env_def Let_def)
qed

theorem stale_ids_refused_witness:
  "\<exists>s s1. env_alloc 0 small_kernel = Inr (0, Some 0, s) \<and> env_free 0 s = Inr s1 \<and>
     envid2env 0x1000 False s1 = Inr (- E_BAD_ENV, None)"
proof -
  obtain s where s: "env_alloc 0 small_kernel = Inr (0, Some 0, s)" "kern_inv (\<lambda>_. 0) s"
      "env_status (envs s ! 0) = ENV_RUNNABLE" "env_id (envs s ! 0) = 0x1000"
    by (rule small_one_env) (rule that; assumption)
  have n: "0 < NENV" "env_status (envs s ! 0) \<noteq> ENV_FREE" using s(3) by simp_all
  obtain s1 where "env_free 0 s = Inr s1" "envid2env 0x1000 False s1 = Inr (- E_BAD_ENV, None)"
    using stale_ids_refused [OF s(2) n, of False] s(4) by auto
  with s(1) show ?thesis by blast
qed

text \<open>a slot's identifiers only repeat after it has been reused 524287 times: with generation \<open>g\<close>
  (between 1 and 524287) the identifier is \<open>4096 g + e\<close>, and each reuse moves to the next generation.\<close>

lemma ids_repeat_late:
  assumes e: "e < NENV" and old: "unat old = 4096 * g + e" "1 \<le> g" "g < 524288"
  shows "unat (((\<lambda>w. next_env_id w e) ^^ n) old) = 4096 * ((g - 1 + n) mod 524287 + 1) + e \<and>
    (((\<lambda>w. next_env_id w e) ^^ n) old = old \<longleftrightarrow> 524287 dvd n)"
proof -
  have eq: "unat (((\<lambda>w. next_env_id w e) ^^ n) old) = 4096 * ((g - 1 + n) mod 524287 + 1) + e" for n
  proof (induction n)
    case 0
    then show ?case using old by simp
  next
    case (Suc n)
    define h where "h = (g - 1 + n) mod 524287 + 1"
    have m: "(g - 1 + n) mod 524287 < 524287" by simp
    then have h: "h < 524288" by (simp add: h_def)
    have "(if h + 1 < 524288 then h + 1 else 1) = (g - 1 + Suc n) mod 524287 + 1"
      using m by (auto simp: h_def mod_Suc)
    with next_env_id_step [OF _ Suc.IH [folded h_def] _ h, of e] e show ?case by (auto split: if_splits)
  qed
  have o: "unat old = 4096 * ((g - 1) mod 524287 + 1) + e" using old by simp
  have "(((\<lambda>w. next_env_id w e) ^^ n) old = old) \<longleftrightarrow> unat (((\<lambda>w. next_env_id w e) ^^ n) old) = unat old"
    by (rule word_unat_eq_iff)
  also have "\<dots> \<longleftrightarrow> (g - 1 + n) mod 524287 = (g - 1) mod 524287" unfolding eq o by simp
  also have "\<dots> \<longleftrightarrow> 524287 dvd n" by (simp add: mod_eq_dvd_iff_nat)
  finally show ?thesis using eq [of n] by simp
qed

lemma ids_repeat_late_witness:
  "unat (((\<lambda>w. next_env_id w 5) ^^ 3) 0x1005) = 4096 * 4 + 5"
  using ids_repeat_late [of 5 "0x1005" 1 3] by simp

end
