(* ===== verification/KSchedInv.thy ===== *)
theory KSchedInv
  imports KBoot
begin

text \<open>
  What resuming an environment and one call of the scheduler do, case by case, and the relation
  between kernel states that several CPUs taking turns under the kernel lock generate.
\<close>

section \<open>Resuming\<close>

definition sched_ready :: "kstate \<Rightarrow> bool" where
  "sched_ready s \<longleftrightarrow> env_inv s \<and> thiscpu s < length (cpus s) \<and> holding s \<and>
     (\<forall>c. curenv s = Some c \<longrightarrow> c < NENV) \<and> length (history (sched_stats s)) = NENV \<and>
     0 \<le> history_index (sched_stats s)"

text \<open>The environments after this CPU has switched from its current one to \<open>e\<close>.\<close>

definition switched :: "nat \<Rightarrow> kstate \<Rightarrow> kstate \<Rightarrow> bool" where
  "switched e s s' \<longleftrightarrow> length (envs s') = length (envs s) \<and>
     (\<forall>j<length (envs s). j \<noteq> e \<longrightarrow> envs s' ! j =
       (if curenv s = Some j \<and> env_status (envs s ! j) = ENV_RUNNING
        then (envs s ! j)\<lparr>env_status := ENV_RUNNABLE\<rparr> else envs s ! j)) \<and>
     envs s' ! e = (envs s ! e)\<lparr>env_status := ENV_RUNNING, env_runs := env_runs (envs s ! e) + 1,
       env_cpunum := int (thiscpu s)\<rparr> \<and>
     cpus s' = (cpus s)[thiscpu s := (cpus s ! thiscpu s)\<lparr>cpu_env := Some e\<rparr>] \<and> thiscpu s' = thiscpu s \<and>
     env_pgdir (envs s ! e) = Some (cr3 s') \<and> kernel_lock s' = \<lparr>locked = 0, lock_cpu = None\<rparr> \<and>
     env_free_list s' = env_free_list s"

lemma nth_upd: "xs[i := x] ! j = (if i = j \<and> i < length xs then x else xs ! j)"
  by (cases "i = j"; cases "i < length xs") (simp_all add: list_update_beyond)

lemma env_run_switches:
  assumes "e < length (envs s)" "env_pgdir (envs s ! e) = Some pd" "holding s"
  obtains s' where "env_run e s = Inr (Resume e, s')" "switched e s s'" "sched_stats s' = sched_stats s"
proof -
  define s1 where "s1 = (case curenv s of None \<Rightarrow> s
      | Some c \<Rightarrow> if env_status (envs s ! c) = ENV_RUNNING
                  then upd_env c (\<lambda>x. x\<lparr>env_status := ENV_RUNNABLE\<rparr>) s else s)"
  have s1: "cpus s1 = cpus s" "thiscpu s1 = thiscpu s" "kernel_lock s1 = kernel_lock s" "curenv s1 = curenv s"
    "sched_stats s1 = sched_stats s" "length (envs s1) = length (envs s)" "env_free_list s1 = env_free_list s"
    "env_pgdir (envs s1 ! e) = Some pd" "env_runs (envs s1 ! e) = env_runs (envs s ! e)"
    using assms(1,2) by (auto simp: s1_def nth_upd split: option.splits)
  have old: "\<exists>st. envs s1 ! e = (envs s ! e)\<lparr>env_status := st\<rparr>"
    using assms(1) by (auto simp: s1_def nth_upd split: option.splits intro: exI [of _ "env_status (envs s ! e)"])
  have nth: "envs s1 ! j = (if curenv s = Some j \<and> env_status (envs s ! j) = ENV_RUNNING
        then (envs s ! j)\<lparr>env_status := ENV_RUNNABLE\<rparr> else envs s ! j)" if "j < length (envs s)" for j
    using that by (auto simp: s1_def nth_upd split: option.splits)
  define s2 where "s2 = set_curenv (Some e) s1"
  define s3 where "s3 = upd_env e (\<lambda>x. x\<lparr>env_status := ENV_RUNNING, env_runs := env_runs x + 1\<rparr>) s2"
  define s4 where "s4 = s3\<lparr>cr3 := pd\<rparr>"
  define s5 where "s5 = s4\<lparr>kernel_lock := \<lparr>locked = 0, lock_cpu = None\<rparr>\<rparr>"
  define s' where "s' = upd_env e (\<lambda>x. x\<lparr>env_cpunum := int (thiscpu s5)\<rparr>) s5"
  have l3: "env_load_pgdir e s3 = Inr s4"
    using s1 assms(1) by (simp add: env_load_pgdir_def s4_def s3_def s2_def set_curenv_def)
  have l4: "spin_unlock s4 = Inr s5"
    using assms(3) s1 by (simp add: spin_unlock_def s5_def s4_def s3_def s2_def set_curenv_def holding_def)
  have run: "env_run e s = Inr (Resume e, s')"
    unfolding env_run_def Let_def
    by (simp add: s1_def [symmetric] s2_def [symmetric] s3_def [symmetric] l3 l4 s'_def)
  have cpu: "thiscpu s5 = thiscpu s" by (simp add: s5_def s4_def s3_def s2_def set_curenv_def s1)
  have envs: "envs s' = (envs s1)[e := (envs s1 ! e)\<lparr>env_status := ENV_RUNNING,
      env_runs := env_runs (envs s1 ! e) + 1, env_cpunum := int (thiscpu s)\<rparr>]"
    using s1 assms(1) by (simp add: s'_def cpu) (simp add: s5_def s4_def s3_def s2_def set_curenv_def)
  have sel: "cpus s' = (cpus s)[thiscpu s := (cpus s ! thiscpu s)\<lparr>cpu_env := Some e\<rparr>]" "thiscpu s' = thiscpu s"
    "cr3 s' = pd" "kernel_lock s' = \<lparr>locked = 0, lock_cpu = None\<rparr>" "sched_stats s' = sched_stats s"
    "env_free_list s' = env_free_list s"
    using s1 by (simp_all add: s'_def s5_def s4_def s3_def s2_def set_curenv_def)
  have "switched e s s'"
    unfolding switched_def using old nth s1 sel assms by (auto simp: envs)
  then show thesis using that [OF run] sel by blast
qed

section \<open>One call of the round-robin scheduler\<close>

lemma rr_find_Some: "find P [0..<n] = Some k \<longleftrightarrow> k < n \<and> P k \<and> (\<forall>j<k. \<not> P j)"
  by (auto simp: find_Some_iff)

lemma rr_find_None: "find P [0..<n] = None \<longleftrightarrow> (\<forall>j<n. \<not> P j)"
  by (auto simp: find_None_iff)

text \<open>The state after counting the call; the scheduler looks at nothing it changes.\<close>

definition counted :: "kstate \<Rightarrow> kstate" where
  "counted s = upd_stats (\<lambda>st. st\<lparr>scheduler_calls := c_int (scheduler_calls st + 1)\<rparr>) s"

lemma counted_sel [simp]:
  "envs (counted s) = envs s" "cpus (counted s) = cpus s" "thiscpu (counted s) = thiscpu s"
  "curenv (counted s) = curenv s" "kernel_lock (counted s) = kernel_lock s" "holding (counted s) = holding s"
  "env_free_list (counted s) = env_free_list s" "sched_start (counted s) = sched_start s"
  "history_index (sched_stats (counted s)) = history_index (sched_stats s)"
  "kern_pgdir (counted s) = kern_pgdir s"
  by (simp_all add: counted_def upd_stats_def curenv_def holding_def sched_start_def split: option.split)

lemma switched_counted: "switched e (counted s) s' = switched e s s'"
  by (simp add: switched_def)

text \<open>The first runnable environment at or after the start, going round the table.\<close>

definition rr_first :: "kstate \<Rightarrow> nat \<Rightarrow> nat \<Rightarrow> bool" where
  "rr_first s start k \<longleftrightarrow> k < NENV \<and> env_status (envs s ! ((start + k) mod NENV)) = ENV_RUNNABLE \<and>
     (\<forall>j<k. env_status (envs s ! ((start + j) mod NENV)) \<noteq> ENV_RUNNABLE)"

lemma rr_find:
  "find (\<lambda>i. env_status (envs s ! ((start + i) mod NENV)) = ENV_RUNNABLE) [0..<NENV] = Some k \<longleftrightarrow> rr_first s start k"
  unfolding rr_find_Some rr_first_def ..

lemma yield_rr: "sched_yield SCHED_ROUND_ROBIN s = sched_round_robin (sched_start s) (counted s)"
  by (simp add: sched_yield_def Let_def counted_def [symmetric])

lemma yield_rr_picks:
  assumes inv: "env_inv s" and hold: "holding s" and k: "rr_first s (sched_start s) k"
    and h: "0 \<le> history_index (sched_stats s)" "history_index (sched_stats s) < int NENV"
  obtains s' where
    "sched_yield SCHED_ROUND_ROBIN s = Inr (Resume ((sched_start s + k) mod NENV), s')"
    "switched ((sched_start s + k) mod NENV) s s'"
    "history_index (sched_stats s') = history_index (sched_stats s) + 1"
    "history (sched_stats s') = (history (sched_stats s))
       [nat (history_index (sched_stats s)) := int ((sched_start s + k) mod NENV)]"
proof -
  define e where "e = (sched_start s + k) mod NENV"
  have e: "e < NENV" "env_status (envs s ! e) = ENV_RUNNABLE" using k by (simp_all add: e_def rr_first_def)
  have len: "length (envs s) = NENV" using env_inv_D(1) [OF inv] .
  obtain pd where pd: "env_pgdir (envs s ! e) = Some pd" using env_inv_D(7) [OF inv e(1)] e(2) by auto
  have id: "ENVX (env_id (envs s ! e)) = e"
  proof -
    obtain g where "unat (env_id (envs s ! e)) = 4096 * g + e"
      using env_inv_D(5,6) [OF inv e(1)] e(2) by (auto simp: valid_id_def)
    then have "unat (env_id (envs s ! e)) = e + 1024 * (4 * g)" by simp
    then show ?thesis using e(1) by (simp only: ENVX_mod mod_mult_self2 mod_less)
  qed
  define s1 where "s1 = upd_stats (\<lambda>st. st\<lparr>
              process_execution_count := (process_execution_count st)
                [e := c_int (process_execution_count st ! e + 1)],
              history_index := history_index (sched_stats s) + 1,
              history := (history st)[nat (history_index (sched_stats s)) := int e]\<rparr>) (counted s)"
  have add: "add_counts_to_sched (int e) (counted s) = Inr s1"
    using e(1) h by (simp add: add_counts_to_sched_def s1_def id Let_def)
  have s1: "envs s1 = envs s" "cpus s1 = cpus s" "thiscpu s1 = thiscpu s" "curenv s1 = curenv s"
    "holding s1 = holding s" "kernel_lock s1 = kernel_lock s" "env_free_list s1 = env_free_list s"
    by (simp_all add: s1_def upd_stats_def curenv_def holding_def)
  obtain s' where s': "env_run e s1 = Inr (Resume e, s')" "switched e s1 s'" "sched_stats s' = sched_stats s1"
    using env_run_switches [of e s1 pd] e(1) pd len hold by (auto simp: s1)
  have "sched_yield SCHED_ROUND_ROBIN s = Inr (Resume e, s')"
    unfolding yield_rr sched_round_robin_def counted_sel rr_find [THEN iffD2, OF k] option.case Let_def
      e_def [symmetric] add bindR_Inr by (rule s'(1))
  moreover have "switched e s s'" using s'(2) by (simp add: switched_def s1)
  moreover have "history_index (sched_stats s') = history_index (sched_stats s) + 1"
    "history (sched_stats s') = (history (sched_stats s))[nat (history_index (sched_stats s)) := int e]"
    unfolding s'(3) by (simp_all add: s1_def upd_stats_def counted_def)
  ultimately show thesis unfolding e_def by (rule that)
qed

text \<open>When nothing is runnable, the current environment goes on if it can, and otherwise the CPU halts.\<close>

lemma yield_rr_none:
  assumes "\<forall>j<NENV. env_status (envs s ! j) \<noteq> ENV_RUNNABLE"
  shows "sched_yield SCHED_ROUND_ROBIN s = sched_rest (counted s)"
proof -
  have "find (\<lambda>i. env_status (envs s ! ((sched_start s + i) mod NENV)) = ENV_RUNNABLE) [0..<NENV] = None"
    unfolding rr_find_None using assms by simp
  then show ?thesis unfolding yield_rr sched_round_robin_def counted_sel by (simp only: option.case)
qed

lemma halt_halts:
  assumes "j < NENV" "env_status (envs s ! j) \<in> {ENV_RUNNABLE, ENV_RUNNING, ENV_DYING}" "holding s"
  shows "sched_halt s = Inr (Halted, s\<lparr>
    cpus := (cpus s)[thiscpu s := (cpus s ! thiscpu s)\<lparr>cpu_env := None, cpu_status := CPU_HALTED\<rparr>],
    cr3 := kern_pgdir s, kernel_lock := \<lparr>locked = 0, lock_cpu = None\<rparr>\<rparr>)"
proof -
  have n: "find (\<lambda>i. env_status (envs s ! i) \<in> {ENV_RUNNABLE, ENV_RUNNING, ENV_DYING}) [0..<NENV] \<noteq> None"
    unfolding rr_find_None using assms(1,2) by blast
  have u: "(cpus s)[thiscpu s :=
      ((cpus s)[thiscpu s := (cpus s ! thiscpu s)\<lparr>cpu_env := None\<rparr>] ! thiscpu s)\<lparr>cpu_status := CPU_HALTED\<rparr>] =
    (cpus s)[thiscpu s := (cpus s ! thiscpu s)\<lparr>cpu_env := None, cpu_status := CPU_HALTED\<rparr>]"
    by (cases "thiscpu s < length (cpus s)") (simp_all add: list_update_beyond)
  show ?thesis
    unfolding sched_halt_def if_not_P [OF n] Let_def using assms(3)
    by (simp add: spin_unlock_def holding_def set_curenv_def u)
qed

text \<open>The history array has room for \<open>NENV\<close> choices.\<close>

lemma yield_rr_overflow:
  assumes "rr_first s (sched_start s) k" "int NENV \<le> history_index (sched_stats s)"
  shows "sched_yield SCHED_ROUND_ROBIN s = Inl OutOfBounds"
proof -
  have "add_counts_to_sched (int e) (counted s) = Inl OutOfBounds" for e
    using assms(2) by (simp add: add_counts_to_sched_def Let_def guardR_def)
  then show ?thesis
    unfolding yield_rr sched_round_robin_def counted_sel rr_find [THEN iffD2, OF assms(1)] option.case Let_def
    by simp
qed

section \<open>The priority scheduler\<close>

lemma best_fold:
  assumes "fst (foldl (best_step s start) (None, MIN_PRIORITY) is) = Some b"
  shows "b < NENV \<and> env_status (envs s ! b) = ENV_RUNNABLE"
  using assms
proof (induction "is" rule: rev_induct)
  case (snoc i "is")
  then show ?case by (auto simp: best_step_def Let_def split: if_splits)
qed simp

lemma best_found:
  assumes "i \<in> set is" "env_status (envs s ! ((start + i) mod NENV)) = ENV_RUNNABLE"
  shows "fst (foldl (best_step s start) best is) \<noteq> None"
proof -
  have mono: "fst best \<noteq> None \<Longrightarrow> fst (foldl (best_step s start) best js) \<noteq> None" for best js
    by (induction js arbitrary: best) (auto simp: best_step_def Let_def)
  from assms show ?thesis
  proof (induction "is" arbitrary: best)
    case (Cons j js)
    show ?case
    proof (cases "i = j")
      case True
      then have "fst (best_step s start best j) \<noteq> None" using Cons.prems by (simp add: best_step_def Let_def)
      then show ?thesis using mono [of "best_step s start best j" js] by simp
    next
      case False
      with Cons show ?thesis by simp
    qed
  qed simp
qed

lemma boost_sel:
  "length (envs (boost_all_envs s)) = length (envs s)"
  "j < length (envs s) \<Longrightarrow> env_status (envs (boost_all_envs s) ! j) = env_status (envs s ! j)"
  "j < length (envs s) \<Longrightarrow> env_id (envs (boost_all_envs s) ! j) = env_id (envs s ! j)"
  by (simp_all add: boost_all_envs_def)

lemma upd_stats_envs [simp]: "envs (upd_stats f s) = envs s"
  by (simp add: upd_stats_def)

text \<open>
  The priority scheduler hands the identifier of the environment it chose to
  \<open>add_counts_to_sched\<close>, which expects a slot. Identifiers are at least 4096, so the access is outside
  the environment table.
\<close>

lemma yield_priorities_faults:
  assumes inv: "env_inv s" and run: "e < NENV" "env_status (envs s ! e) = ENV_RUNNABLE"
    and start: "sched_start s < NENV"
  shows "sched_yield SCHED_PRIORITIES s = Inl OutOfBounds"
proof -
  define s1 where "s1 = (if scheduler_calls (sched_stats (counted s)) \<ge> BOOST_INTERVAL
      then upd_stats (\<lambda>st. st\<lparr>total_boots := c_int (total_boots st + 1)\<rparr>) (boost_all_envs (counted s)) else counted s)"
  have len: "length (envs s) = NENV" by (rule env_inv_D(1) [OF inv])
  have s1: "length (envs s1) = NENV" "\<And>j. j < NENV \<Longrightarrow> env_status (envs s1 ! j) = env_status (envs s ! j)"
    "\<And>j. j < NENV \<Longrightarrow> env_id (envs s1 ! j) = env_id (envs s ! j)"
    using boost_sel [where s = "counted s"] len by (auto simp: s1_def)
  let ?i = "(e + NENV - sched_start s) mod NENV"
  have i: "(sched_start s + ?i) mod NENV = e" using run(1) start by (simp add: mod_add_right_eq)
  have "?i \<in> set [0..<NENV]" unfolding set_upt by simp
  moreover have "env_status (envs s1 ! ((sched_start s + ?i) mod NENV)) = ENV_RUNNABLE"
    unfolding i using run s1(2) by simp
  ultimately obtain b where b: "best_env s1 (sched_start s) = Some b"
    unfolding best_env_def using best_found [of ?i "[0..<NENV]" s1 "sched_start s" "(None, MIN_PRIORITY)"] by blast
  have "b < NENV" "env_status (envs s1 ! b) = ENV_RUNNABLE"
    using best_fold [OF b [unfolded best_env_def]] by simp_all
  then obtain g where g: "1 \<le> g" "g < 524288" "unat (env_id (envs s1 ! b)) = 4096 * g + b"
    using env_inv_D(5,6) [OF inv, of b] s1(2,3) by (auto simp: valid_id_def)
  then have "int NENV \<le> sint (env_id (envs s1 ! b))"
    using \<open>b < NENV\<close> by (simp add: sint_unat)
  then have "add_counts_to_sched (sint (env_id (envs s1 ! b))) s1 = Inl OutOfBounds"
    by (simp add: add_counts_to_sched_def guardR_def)
  then show ?thesis
    unfolding sched_yield_def Let_def counted_def [symmetric] sched_config.case sched_priorities_def s1_def [symmetric]
    counted_sel by (simp only: b option.case Let_def bindR_Inl)
qed

section \<open>Switching keeps the invariants\<close>

lemma switched_nth:
  assumes "switched e s s'" "j < length (envs s)"
  shows "\<exists>st r c. envs s' ! j = (envs s ! j)\<lparr>env_status := st, env_runs := r, env_cpunum := c\<rparr> \<and>
    (st = ENV_FREE \<longrightarrow> env_status (envs s ! j) = ENV_FREE) \<and>
    (j \<noteq> e \<longrightarrow> env_status (envs s ! j) = ENV_FREE \<longrightarrow> st = ENV_FREE)"
proof (cases "j = e")
  case True
  then show ?thesis using assms unfolding switched_def
    by (intro exI [of _ ENV_RUNNING] exI [of _ "env_runs (envs s ! e) + 1"] exI [of _ "int (thiscpu s)"]) simp
next
  case False
  show ?thesis
  proof (cases "curenv s = Some j \<and> env_status (envs s ! j) = ENV_RUNNING")
    case True
    then show ?thesis using assms False unfolding switched_def
      by (intro exI [of _ ENV_RUNNABLE] exI [of _ "env_runs (envs s ! j)"] exI [of _ "env_cpunum (envs s ! j)"]) simp
  next
    case c: False
    have "envs s' ! j = envs s ! j" using assms False c unfolding switched_def by auto
    then show ?thesis
      by (intro exI [of _ "env_status (envs s ! j)"] exI [of _ "env_runs (envs s ! j)"]
          exI [of _ "env_cpunum (envs s ! j)"]) simp
  qed
qed

lemma switched_same:
  assumes "switched e s s'" "j < length (envs s)"
  shows "env_id (envs s' ! j) = env_id (envs s ! j)" "env_pgdir (envs s' ! j) = env_pgdir (envs s ! j)"
    "env_link (envs s' ! j) = env_link (envs s ! j)"
  using switched_nth [OF assms] by auto

lemma env_inv_same:
  assumes inv: "env_inv s" and len: "length (envs s') = NENV" and fl: "env_free_list s' = env_free_list s"
    and same: "\<And>j. j < NENV \<Longrightarrow> env_id (envs s' ! j) = env_id (envs s ! j)"
      "\<And>j. j < NENV \<Longrightarrow> env_pgdir (envs s' ! j) = env_pgdir (envs s ! j)"
      "\<And>j. j < NENV \<Longrightarrow> env_link (envs s' ! j) = env_link (envs s ! j)"
    and free: "\<And>j. j < NENV \<Longrightarrow> env_status (envs s' ! j) = ENV_FREE \<longleftrightarrow> env_status (envs s ! j) = ENV_FREE"
  shows "env_inv s'" "env_pool s' = env_pool s"
proof -
  note E = env_inv_D [OF inv]
  have "chain (elink s') (env_free_list s) (env_pool s)"
    using E(2,3) by (subst chain_cong [where link' = "elink s"]) (auto simp: elink_def same)
  then have ch: "chain (elink s') (env_free_list s') (env_pool s)" using fl by simp
  have m1: "j < NENV" if "j \<in> set (env_pool s)" for j using E(3) that .
  have m2: "j \<in> set (env_pool s) \<longleftrightarrow> env_status (envs s' ! j) = ENV_FREE" if "j < NENV" for j
    using E(4) that free by simp
  have m3: "valid_id (env_id (envs s' ! j)) j" if "j < NENV" for j using E(5) that same by simp
  have m4: "env_id (envs s' ! j) \<noteq> 0 \<and> env_pgdir (envs s' ! j) \<noteq> None"
    if "j < NENV" "env_status (envs s' ! j) \<noteq> ENV_FREE" for j
    using E(6,7) [of j] that free same by auto
  have m5: "a = b" if "a < NENV" "b < NENV" "env_status (envs s' ! a) \<noteq> ENV_FREE"
      "env_status (envs s' ! b) \<noteq> ENV_FREE" "env_pgdir (envs s' ! a) = env_pgdir (envs s' ! b)" for a b
    using E(8) [of a b] that free same by auto
  note I = env_inv_intro [OF len ch m1 m2 m3 m4 m5]
  show "env_inv s'" "env_pool s' = env_pool s" by (rule I; assumption)+
qed

lemma switched_env_inv:
  assumes inv: "env_inv s" and sw: "switched e s s'" and e: "e < NENV" "env_status (envs s ! e) \<noteq> ENV_FREE"
  shows "env_inv s'" "env_pool s' = env_pool s"
proof -
  note E = env_inv_D [OF inv]
  have len: "length (envs s') = NENV" "env_free_list s' = env_free_list s"
    using sw E(1) by (simp_all add: switched_def)
  note nth = switched_nth [OF sw, unfolded E(1)] and same = switched_same [OF sw, unfolded E(1)]
  have free: "env_status (envs s' ! j) = ENV_FREE \<longleftrightarrow> env_status (envs s ! j) = ENV_FREE" if "j < NENV" for j
    using nth [OF that] e by (cases "j = e") auto
  note I = env_inv_same [OF inv len same free]
  show "env_inv s'" "env_pool s' = env_pool s" by (rule I; assumption)+
qed

lemma status_env_inv:
  assumes inv: "env_inv s" and e: "e < NENV" "env_status (envs s ! e) \<noteq> ENV_FREE" "st \<noteq> ENV_FREE"
  shows "env_inv (upd_env e (\<lambda>x. x\<lparr>env_status := st\<rparr>) s)"
  by (rule env_inv_same(1) [OF inv]) (use env_inv_D(1) [OF inv] e in \<open>auto simp: nth_upd\<close>)

lemma switched_cur:
  assumes "switched e s s'" "thiscpu s < length (cpus s)"
  shows "curenv s' = Some e" "thiscpu s' < length (cpus s')" "env_status (envs s' ! e) = ENV_RUNNING"
    "kernel_lock s' = \<lparr>locked = 0, lock_cpu = None\<rparr>"
  using assms by (simp_all add: switched_def curenv_def)

section \<open>Rounds of a single CPU\<close>

text \<open>
  Up to \<open>n\<close> times, the running environment enters the kernel, which takes the lock and schedules;
  the list holds the environments resumed.
\<close>

fun rr_rounds :: "nat \<Rightarrow> kstate \<Rightarrow> (nat list \<times> kstate) cres" where
  "rr_rounds 0 s = Inr ([], s)"
| "rr_rounds (Suc n) s =
     bindR (spin_lock s) (\<lambda>(ok, s1).
       if \<not> ok then rr_rounds n s1
       else bindR (sched_yield SCHED_ROUND_ROBIN s1) (\<lambda>(r, s2).
         case r of
           Resume e \<Rightarrow> bindR (rr_rounds n s2) (\<lambda>(es, s3). Inr (e # es, s3))
         | _ \<Rightarrow> Inr ([], s2)))"

definition user_mode :: "nat \<Rightarrow> kstate \<Rightarrow> bool" where
  "user_mode c s \<longleftrightarrow> env_inv s \<and> kernel_lock s = \<lparr>locked = 0, lock_cpu = None\<rparr> \<and> thiscpu s < length (cpus s) \<and>
     curenv s = Some c \<and> c < NENV \<and> env_status (envs s ! c) = ENV_RUNNING"

definition ahead :: "nat \<Rightarrow> nat \<Rightarrow> nat" where
  "ahead c e = (e + NENV - c) mod NENV"

lemma ahead_add: "c < NENV \<Longrightarrow> e < NENV \<Longrightarrow> (c + ahead c e) mod NENV = e"
  by (simp add: ahead_def mod_add_right_eq)

lemma ahead_step:
  assumes "c < NENV" "e < NENV" "k \<le> ahead c e"
  shows "ahead ((c + k) mod NENV) e = ahead c e - k"
proof -
  have a: "ahead c e = (if c \<le> e then e - c else e + NENV - c)" if "c < NENV" for c
  proof (cases "c \<le> e")
    case True
    then have "e + NENV - c = (e - c) + NENV" by simp
    with True assms(2) show ?thesis unfolding ahead_def by (simp only: mod_add_self2) simp
  qed (use assms(2) in \<open>simp add: ahead_def\<close>)
  have m: "(c + k) mod NENV = (if c + k < NENV then c + k else c + k - NENV)" if "c + k < 2 * NENV"
    using that by (simp add: le_mod_geq)
  have k: "c + k < 2 * NENV" using assms a [OF assms(1)] by (auto split: if_splits)
  show ?thesis
    using assms a [OF assms(1)] a [of "(c + k) mod NENV"] unfolding m [OF k] by (auto split: if_splits)
qed

lemma rr_first_exists:
  assumes "env_status (envs s ! ((start + d) mod NENV)) = ENV_RUNNABLE" "d < NENV"
  obtains k where "rr_first s start k" "k \<le> d"
proof -
  let ?P = "\<lambda>k. env_status (envs s ! ((start + k) mod NENV)) = ENV_RUNNABLE"
  have "?P (LEAST k. ?P k)" "(LEAST k. ?P k) \<le> d" using assms(1) by (rule LeastI, rule Least_le)
  moreover have "\<forall>j<LEAST k. ?P k. \<not> ?P j" using not_less_Least by blast
  ultimately show thesis using assms(2) by (intro that [of "LEAST k. ?P k"]) (auto simp: rr_first_def)
qed

lemma sched_start_slot:
  assumes inv: "env_inv s" and c: "curenv s = Some c" "c < NENV" "env_status (envs s ! c) \<noteq> ENV_FREE"
  shows "sched_start s = c"
proof -
  obtain g where "unat (env_id (envs s ! c)) = 4096 * g + c"
    using env_inv_D(5,6) [OF inv c(2)] c(3) by (auto simp: valid_id_def)
  then have "unat (env_id (envs s ! c)) = c + 1024 * (4 * g)" by simp
  then have "ENVX (env_id (envs s ! c)) = c" using c(2) by (simp only: ENVX_mod mod_mult_self2 mod_less)
  then show ?thesis by (simp add: sched_start_def c(1))
qed

text \<open>One round moves to the first runnable environment after the current one.\<close>

lemma user_round:
  assumes u: "user_mode c s" and e: "e < NENV" "env_status (envs s ! e) = ENV_RUNNABLE"
    and h: "0 \<le> history_index (sched_stats s)" "history_index (sched_stats s) < int NENV"
  obtains k t s1 s' where "spin_lock s = Inr (True, s1)" "sched_yield SCHED_ROUND_ROBIN s1 = Inr (Resume t, s')"
    "t = (c + k) mod NENV" "0 < k" "k \<le> ahead c e" "user_mode t s'"
    "history_index (sched_stats s') = history_index (sched_stats s) + 1"
    "t \<noteq> e \<Longrightarrow> env_status (envs s' ! e) = ENV_RUNNABLE"
proof -
  have inv: "env_inv s" and l: "kernel_lock s = \<lparr>locked = 0, lock_cpu = None\<rparr>" "thiscpu s < length (cpus s)"
    and c: "curenv s = Some c" "c < NENV" "env_status (envs s ! c) = ENV_RUNNING"
    using u by (simp_all add: user_mode_def)
  define s1 where "s1 = s\<lparr>kernel_lock := \<lparr>locked = 1, lock_cpu = Some (thiscpu s)\<rparr>\<rparr>"
  have lock: "spin_lock s = Inr (True, s1)" using l by (simp add: spin_lock_def holding_def s1_def)
  have s1: "envs s1 = envs s" "cpus s1 = cpus s" "thiscpu s1 = thiscpu s" "curenv s1 = curenv s" "holding s1"
    "env_free_list s1 = env_free_list s" "sched_stats s1 = sched_stats s"
    by (simp_all add: s1_def curenv_def holding_def)
  have inv1: "env_inv s1" using inv env_inv_cong(1) [OF s1(1,6)] by simp
  have start: "sched_start s1 = c"
    using sched_start_slot [OF inv1] c by (simp add: s1)
  have len: "length (envs s) = NENV" by (rule env_inv_D(1) [OF inv])
  have "env_status (envs s1 ! ((c + ahead c e) mod NENV)) = ENV_RUNNABLE"
    using e ahead_add [OF c(2) e(1)] by (simp add: s1)
  moreover have "ahead c e < NENV" by (simp add: ahead_def)
  ultimately obtain k where k: "rr_first s1 c k" "k \<le> ahead c e" by (rule rr_first_exists)
  have "k \<noteq> 0"
  proof
    assume "k = 0"
    then show False using k(1) c by (simp add: rr_first_def s1)
  qed
  define t where "t = (c + k) mod NENV"
  have t: "t < NENV" "env_status (envs s ! t) = ENV_RUNNABLE" using k(1) by (simp_all add: t_def rr_first_def s1)
  have kk: "rr_first s1 (sched_start s1) k" using k(1) by (simp only: start)
  have hh: "0 \<le> history_index (sched_stats s1)" "history_index (sched_stats s1) < int NENV" using h by (simp_all add: s1)
  obtain s' where s': "sched_yield SCHED_ROUND_ROBIN s1 = Inr (Resume t, s')" "switched t s1 s'"
    "history_index (sched_stats s') = history_index (sched_stats s1) + 1"
    by (rule yield_rr_picks [OF inv1 s1(5) kk hh, unfolded start, folded t_def]) (rule that; assumption)
  have tf: "env_status (envs s1 ! t) \<noteq> ENV_FREE" using t by (simp add: s1)
  have "thiscpu s1 < length (cpus s1)" using l by (simp add: s1)
  note C = switched_cur [OF s'(2) this]
  have um: "user_mode t s'"
    using switched_env_inv(1) [OF inv1 s'(2) t(1) tf] C t(1) by (simp add: user_mode_def)
  have st: "env_status (envs s' ! e) = ENV_RUNNABLE" if "t \<noteq> e"
  proof -
    have "e \<noteq> c" using e c by auto
    then show ?thesis using s'(2) that e(1) len e(2) c(1) unfolding switched_def s1 by auto
  qed
  show thesis
    by (rule that [OF lock s'(1) t_def _ k(2) um _ st]) (use \<open>k \<noteq> 0\<close> s'(3) in \<open>simp_all add: s1\<close>)
qed

lemma rr_reaches:
  assumes "user_mode c s" "e < NENV" "env_status (envs s ! e) = ENV_RUNNABLE"
    and "0 \<le> history_index (sched_stats s)" "history_index (sched_stats s) + int (ahead c e) \<le> int NENV"
  shows "\<exists>n es s'. n \<le> ahead c e \<and> rr_rounds n s = Inr (es @ [e], s')"
  using assms
proof (induction "ahead c e" arbitrary: c s rule: less_induct)
  case less
  have "ahead c e \<noteq> 0"
  proof
    assume "ahead c e = 0"
    then have "c = e" using ahead_add [of c e] less.prems(1,2) by (simp add: user_mode_def)
    then show False using less.prems(1,3) by (simp add: user_mode_def)
  qed
  then have h: "history_index (sched_stats s) < int NENV" using less.prems(5) by linarith
  obtain k t s1 s' where r: "spin_lock s = Inr (True, s1)" "sched_yield SCHED_ROUND_ROBIN s1 = Inr (Resume t, s')"
    "t = (c + k) mod NENV" "0 < k" "k \<le> ahead c e" "user_mode t s'"
    "history_index (sched_stats s') = history_index (sched_stats s) + 1"
    "t \<noteq> e \<Longrightarrow> env_status (envs s' ! e) = ENV_RUNNABLE"
    by (rule user_round [OF less.prems(1-4) h]) (rule that; assumption)
  show ?case
  proof (cases "t = e")
    case True
    have "rr_rounds 1 s = Inr ([] @ [e], s')" using r(1,2) True by simp
    then show ?thesis using r(4,5) by (intro exI [of _ 1] exI [of _ "[]"] exI [of _ s']) simp
  next
    case False
    have a: "ahead t e = ahead c e - k"
      using ahead_step [OF _ less.prems(2) r(5)] less.prems(1) r(3) by (simp add: user_mode_def)
    with r(4,5) have lt: "ahead t e < ahead c e" by simp
    have hh: "0 \<le> history_index (sched_stats s')" "history_index (sched_stats s') + int (ahead t e) \<le> int NENV"
      using less.prems(4,5) lt r(7) by linarith+
    obtain n es s'' where n: "n \<le> ahead t e" "rr_rounds n s' = Inr (es @ [e], s'')"
      using less.hyps [OF lt r(6) less.prems(2) r(8) [OF False] hh] by blast
    have "rr_rounds (Suc n) s = Inr ((t # es) @ [e], s'')" using r(1,2) n(2) by simp
    then show ?thesis using n(1) lt by (intro exI [of _ "Suc n"] exI [of _ "t # es"] exI [of _ s'']) simp
  qed
qed

section \<open>Several CPUs\<close>

text \<open>
  CPUs take turns: one that is outside the kernel enters it (\<open>thiscpu\<close> becomes that CPU, which takes the
  lock), and the one inside gives up its environment in one of three ways: it yields, its environment
  blocks, or it only returns to its environment.
\<close>

inductive smp_step :: "kstate \<Rightarrow> kstate \<Rightarrow> bool" where
  enter: "c < length (cpus s) \<Longrightarrow> spin_lock (s\<lparr>thiscpu := c\<rparr>) = Inr (True, s') \<Longrightarrow> smp_step s s'"
| yield: "holding s \<Longrightarrow> sched_yield SCHED_ROUND_ROBIN s = Inr (r, s') \<Longrightarrow> smp_step s s'"
| block: "holding s \<Longrightarrow> curenv s = Some e \<Longrightarrow>
    sched_yield SCHED_ROUND_ROBIN (upd_env e (\<lambda>x. x\<lparr>env_status := ENV_NOT_RUNNABLE\<rparr>) s) = Inr (r, s') \<Longrightarrow>
    smp_step s s'"
| return: "holding s \<Longrightarrow> curenv s = Some e \<Longrightarrow> env_status (envs s ! e) = ENV_RUNNING \<Longrightarrow>
    env_run e s = Inr (r, s') \<Longrightarrow> smp_step s s'"

inductive_cases smp_stepE: "smp_step s s'"

text \<open>No environment is current on two CPUs, and a CPU outside the kernel runs what is current on it.\<close>

definition exclusive :: "kstate \<Rightarrow> bool" where
  "exclusive s \<longleftrightarrow> env_inv s \<and> thiscpu s < length (cpus s) \<and>
     (\<forall>c<length (cpus s). \<forall>e. cpu_env (cpus s ! c) = Some e \<longrightarrow> e < NENV \<and>
        env_status (envs s ! e) \<noteq> ENV_FREE \<and>
        (\<forall>c'<length (cpus s). cpu_env (cpus s ! c') = Some e \<longrightarrow> c' = c) \<and>
        (\<not> (holding s \<and> c = thiscpu s) \<longrightarrow> env_status (envs s ! e) = ENV_RUNNING))"

lemma exclusive_D:
  assumes "exclusive s"
  shows "env_inv s" "thiscpu s < length (cpus s)"
    "c < length (cpus s) \<Longrightarrow> cpu_env (cpus s ! c) = Some e \<Longrightarrow> e < NENV"
    "c < length (cpus s) \<Longrightarrow> cpu_env (cpus s ! c) = Some e \<Longrightarrow> env_status (envs s ! e) \<noteq> ENV_FREE"
    "c < length (cpus s) \<Longrightarrow> c' < length (cpus s) \<Longrightarrow> cpu_env (cpus s ! c) = Some e \<Longrightarrow>
       cpu_env (cpus s ! c') = Some e \<Longrightarrow> c' = c"
    "c < length (cpus s) \<Longrightarrow> cpu_env (cpus s ! c) = Some e \<Longrightarrow> \<not> (holding s \<and> c = thiscpu s) \<Longrightarrow>
       env_status (envs s ! e) = ENV_RUNNING"
  using assms unfolding exclusive_def by blast+

lemma exclusive_switched:
  assumes ex: "exclusive s" and hold: "holding s" and sw: "switched e s s'"
    and e: "e < NENV" "env_status (envs s ! e) \<noteq> ENV_FREE" "env_status (envs s ! e) = ENV_RUNNABLE \<or> curenv s = Some e"
  shows "exclusive s'"
proof -
  note X = exclusive_D [OF ex]
  have inv: "env_inv s'" by (rule switched_env_inv(1) [OF X(1) sw e(1,2)])
  have len: "length (envs s) = NENV" by (rule env_inv_D(1) [OF X(1)])
  have cpu: "cpus s' = (cpus s)[thiscpu s := (cpus s ! thiscpu s)\<lparr>cpu_env := Some e\<rparr>]" "thiscpu s' = thiscpu s"
    using sw by (simp_all add: switched_def)
  have mine: "envs s' ! e = (envs s ! e)\<lparr>env_status := ENV_RUNNING, env_runs := env_runs (envs s ! e) + 1,
       env_cpunum := int (thiscpu s)\<rparr>" using sw by (simp add: switched_def)
  have other: "a < NENV \<and> a \<noteq> e \<and> env_status (envs s' ! a) = ENV_RUNNING"
    if c: "c < length (cpus s)" "c \<noteq> thiscpu s" "cpu_env (cpus s ! c) = Some a" for c a
  proof -
    have a: "a < NENV" "env_status (envs s ! a) = ENV_RUNNING" using X(3,6) c by auto
    have cur: "curenv s \<noteq> Some a" using X(5) [OF c(1) X(2) c(3)] c(2) by (auto simp: curenv_def)
    then have "a \<noteq> e" using e(3) a(2) by auto
    with a cur sw len show ?thesis unfolding switched_def by auto
  qed
  have one: "x < NENV \<and> env_status (envs s' ! x) \<noteq> ENV_FREE \<and>
      (\<forall>c'<length (cpus s'). cpu_env (cpus s' ! c') = Some x \<longrightarrow> c' = c) \<and> env_status (envs s' ! x) = ENV_RUNNING"
    if c: "c < length (cpus s')" "cpu_env (cpus s' ! c) = Some x" for c x
  proof (cases "c = thiscpu s")
    case True
    then have "x = e" using c X(2) by (simp add: cpu)
    then show ?thesis using True e(1) other by (auto simp: cpu mine nth_upd)
  next
    case False
    then have cx: "c < length (cpus s)" "cpu_env (cpus s ! c) = Some x" using c by (simp_all add: cpu)
    note o = other [OF cx(1) False cx(2)]
    moreover have "c' = c" if "c' < length (cpus s')" "cpu_env (cpus s' ! c') = Some x" for c'
    proof (cases "c' = thiscpu s")
      case True
      with that X(2) o show ?thesis by (simp add: cpu)
    next
      case False
      with that X(5) [OF cx(1) _ cx(2)] show ?thesis by (simp add: cpu)
    qed
    ultimately show ?thesis by auto
  qed
  have "thiscpu s' < length (cpus s')" using X(2) by (simp add: cpu)
  with inv one show ?thesis unfolding exclusive_def by blast
qed

text \<open>Leaving the CPU idle, counting, taking the lock, and changing the status of one's own environment.\<close>

lemma exclusive_idle:
  assumes ex: "exclusive s" and s': "envs s' = envs s" "env_free_list s' = env_free_list s" "thiscpu s' = thiscpu s"
    "cpus s' = (cpus s)[thiscpu s := (cpus s ! thiscpu s)\<lparr>cpu_env := None, cpu_status := CPU_HALTED\<rparr>]"
  shows "exclusive s'"
proof -
  note X = exclusive_D [OF ex]
  have n: "cpu_env (cpus s' ! c) = Some e \<longleftrightarrow> c \<noteq> thiscpu s \<and> cpu_env (cpus s ! c) = Some e"
    if "c < length (cpus s)" for c e using that X(2) by (simp add: s' nth_upd)
  have l: "length (cpus s') = length (cpus s)" by (simp add: s')
  have "env_inv s'" using X(1) env_inv_cong(1) [OF s'(1,2)] by simp
  then show ?thesis
    unfolding exclusive_def l s'(1,3) using X n by (intro conjI allI impI) auto
qed

lemma exclusive_same:
  assumes ex: "exclusive s" and s': "envs s' = envs s" "env_free_list s' = env_free_list s" "thiscpu s' = thiscpu s"
    "cpus s' = cpus s" "holding s' = holding s"
  shows "exclusive s'"
  using ex unfolding exclusive_def env_inv_cong(1) [OF s'(1,2)] s' .

lemma exclusive_enter:
  assumes ex: "exclusive s" and c: "c < length (cpus s)" and lock: "spin_lock (s\<lparr>thiscpu := c\<rparr>) = Inr (True, s')"
  shows "exclusive s'"
proof -
  note X = exclusive_D [OF ex]
  have free: "locked (kernel_lock s) = 0" and s': "s' = s\<lparr>thiscpu := c, kernel_lock := \<lparr>locked = 1, lock_cpu = Some c\<rparr>\<rparr>"
    using lock by (auto simp: spin_lock_def guardR_def split: if_splits)
  have "\<not> holding s" using free by (simp add: holding_def)
  then have run: "env_status (envs s ! e) = ENV_RUNNING" if "a < length (cpus s)" "cpu_env (cpus s ! a) = Some e" for a e
    using X(6) that by blast
  have "env_inv s'" using X(1) env_inv_cong(1) [of s' s] by (simp add: s')
  then show ?thesis unfolding exclusive_def using X run c by (auto simp: s')
qed

lemma exclusive_status:
  assumes ex: "exclusive s" and hold: "holding s" and cur: "curenv s = Some e" and st: "st \<noteq> ENV_FREE"
  shows "exclusive (upd_env e (\<lambda>x. x\<lparr>env_status := st\<rparr>) s)" (is "exclusive ?s'")
proof -
  note X = exclusive_D [OF ex]
  have me: "cpu_env (cpus s ! thiscpu s) = Some e" using cur by (simp add: curenv_def)
  note e = X(3,4) [OF X(2) me]
  have len: "length (envs s) = NENV" by (rule env_inv_D(1) [OF X(1)])
  have inv: "env_inv ?s'" by (rule status_env_inv [OF X(1) e st])
  have h: "holding ?s' = holding s" by (simp add: holding_def)
  have one: "x < NENV \<and> env_status (envs ?s' ! x) \<noteq> ENV_FREE \<and>
      (\<forall>c'<length (cpus s). cpu_env (cpus s ! c') = Some x \<longrightarrow> c' = c) \<and>
      (\<not> (holding s \<and> c = thiscpu s) \<longrightarrow> env_status (envs ?s' ! x) = ENV_RUNNING)"
    if c: "c < length (cpus s)" "cpu_env (cpus s ! c) = Some x" for c x
  proof (cases "c = thiscpu s")
    case True
    then have "x = e" using c me by simp
    then show ?thesis using True e st hold len X(5) [OF c(1) _ c(2)] by (auto simp: nth_upd)
  next
    case False
    then have "x \<noteq> e" using X(5) [OF c(1) X(2) c(2)] me by auto
    then show ?thesis using False X(3-6) c by (auto simp: nth_upd)
  qed
  have l: "thiscpu ?s' = thiscpu s" "cpus ?s' = cpus s" by simp_all
  show ?thesis unfolding exclusive_def h l using inv X(2) one by blast
qed

section \<open>Every outcome of the round-robin scheduler\<close>

lemma run_outcome:
  assumes "env_inv s" "holding s" "e < NENV" "env_status (envs s ! e) \<noteq> ENV_FREE" "env_run e s = Inr (r, s')"
  shows "switched e s s'"
proof -
  obtain pd where pd: "env_pgdir (envs s ! e) = Some pd" using env_inv_D(7) assms by blast
  have "e < length (envs s)" using env_inv_D(1) [OF assms(1)] assms(3) by simp
  from env_run_switches [OF this pd assms(2)] assms(5) show ?thesis by (metis Inr_inject prod.inject)
qed

lemma add_counts_same:
  assumes "add_counts_to_sched i s = Inr s1"
  shows "envs s1 = envs s" "cpus s1 = cpus s" "thiscpu s1 = thiscpu s" "holding s1 = holding s"
      "env_free_list s1 = env_free_list s" "curenv s1 = curenv s"
proof -
  obtain f where "s1 = upd_stats f s"
    using assms by (auto simp: add_counts_to_sched_def Let_def guardR_def split: if_splits)
  then show "envs s1 = envs s" "cpus s1 = cpus s" "thiscpu s1 = thiscpu s" "holding s1 = holding s"
      "env_free_list s1 = env_free_list s" "curenv s1 = curenv s"
    by (simp_all add: upd_stats_def holding_def curenv_def)
qed

lemma halt_outcome:
  assumes ex: "exclusive s" and hold: "holding s" and halt: "sched_halt s = Inr (r, s')"
  shows "exclusive s'"
proof (cases "find (\<lambda>i. env_status (envs s ! i) \<in> {ENV_RUNNABLE, ENV_RUNNING, ENV_DYING}) [0..<NENV] = None")
  case True
  then have "s' = s" using halt unfolding sched_halt_def if_P [OF True] by simp
  then show ?thesis using ex by simp
next
  case False
  then obtain j where "j < NENV" "env_status (envs s ! j) \<in> {ENV_RUNNABLE, ENV_RUNNING, ENV_DYING}"
    unfolding rr_find_None by blast
  note h = halt_halts [OF this hold]
  show ?thesis by (rule exclusive_idle [OF ex]) (use h halt in auto)
qed

lemma yield_rr_outcome:
  assumes ex: "exclusive s" and hold: "holding s" and y: "sched_yield SCHED_ROUND_ROBIN s = Inr (r, s')"
  shows "exclusive s'"
proof -
  note X = exclusive_D [OF ex]
  show ?thesis
  proof (cases "\<exists>k. rr_first s (sched_start s) k")
    case True
    then obtain k where k: "rr_first s (sched_start s) k" ..
    define e where "e = (sched_start s + k) mod NENV"
    have e: "e < NENV" "env_status (envs s ! e) = ENV_RUNNABLE" using k by (simp_all add: e_def rr_first_def)
    obtain s1 where s1: "add_counts_to_sched (int e) (counted s) = Inr s1" "env_run e s1 = Inr (r, s')"
      using y unfolding yield_rr sched_round_robin_def counted_sel rr_find [THEN iffD2, OF k] option.case Let_def
        e_def [symmetric] bindR_eq_Inr by (elim exE conjE)
    have same: "envs s1 = envs s" "cpus s1 = cpus s" "thiscpu s1 = thiscpu s" "holding s1 = holding s"
      "env_free_list s1 = env_free_list s" "curenv s1 = curenv s"
      by (rule add_counts_same [OF s1(1), unfolded counted_sel])+
    have ex1: "exclusive s1" by (rule exclusive_same [OF ex same(1,5,3,2,4)])
    have hold1: "holding s1" using hold same(4) by simp
    have ok: "env_status (envs s1 ! e) = ENV_RUNNABLE" using e by (simp add: same)
    have fr: "env_status (envs s1 ! e) \<noteq> ENV_FREE" using ok by simp
    have "switched e s1 s'" by (rule run_outcome [OF exclusive_D(1) [OF ex1] hold1 e(1) fr s1(2)])
    then show ?thesis by (rule exclusive_switched [OF ex1 hold1 _ e(1) fr]) (rule disjI1 [OF ok])
  next
    case False
    have ex0: "exclusive (counted s)" by (rule exclusive_same [OF ex]) simp_all
    have "find (\<lambda>i. env_status (envs s ! ((sched_start s + i) mod NENV)) = ENV_RUNNABLE) [0..<NENV] = None"
      unfolding rr_find_None using False rr_first_exists by metis
    then have rest: "sched_rest (counted s) = Inr (r, s')"
      using y unfolding yield_rr sched_round_robin_def counted_sel by (simp only: option.case)
    show ?thesis
    proof (cases "\<exists>c. curenv s = Some c \<and> env_status (envs s ! c) = ENV_RUNNING")
      case True
      then obtain c where c: "curenv s = Some c" "env_status (envs s ! c) = ENV_RUNNING" by blast
      then have run: "env_run c (counted s) = Inr (r, s')" using rest by (simp add: sched_rest_def)
      have "c < NENV" using X(3) [OF X(2)] c(1) by (simp add: curenv_def)
      moreover have "env_status (envs (counted s) ! c) \<noteq> ENV_FREE" using c(2) by simp
      moreover have "holding (counted s)" using hold by simp
      moreover from calculation have "switched c (counted s) s'"
        by (intro run_outcome [OF exclusive_D(1) [OF ex0] _ _ _ run])
      moreover have "curenv (counted s) = Some c" using c(1) by simp
      ultimately show ?thesis by (intro exclusive_switched [OF ex0] disjI2)
    next
      case False
      then have halt: "sched_halt (counted s) = Inr (r, s')"
        using rest by (auto simp: sched_rest_def split: option.splits if_splits)
      show ?thesis by (rule halt_outcome [OF ex0 _ halt]) (simp add: hold)
    qed
  qed
qed

lemma smp_step_exclusive:
  assumes "smp_step s s'" "exclusive s"
  shows "exclusive s'"
  using assms
proof (cases rule: smp_step.cases)
  case (enter c)
  show ?thesis by (rule exclusive_enter [OF assms(2) enter])
next
  case (yield r)
  show ?thesis by (rule yield_rr_outcome [OF assms(2) yield])
next
  case (block e r)
  let ?s1 = "upd_env e (\<lambda>x. x\<lparr>env_status := ENV_NOT_RUNNABLE\<rparr>) s"
  have "exclusive ?s1" by (rule exclusive_status [OF assms(2) block(1,2)]) simp
  moreover have "holding ?s1" using block(1) by (simp add: holding_def)
  ultimately show ?thesis by (rule yield_rr_outcome [OF _ _ block(3)])
next
  case (return e r)
  note X = exclusive_D [OF assms(2)]
  have "e < NENV" using X(3) [OF X(2)] return(2) by (simp add: curenv_def)
  moreover have "env_status (envs s ! e) \<noteq> ENV_FREE" using return(3) by simp
  moreover from calculation have "switched e s s'" by (rule run_outcome [OF X(1) return(1) _ _ return(4)])
  ultimately show ?thesis using exclusive_switched [OF assms(2) return(1)] return(2) by simp
qed

end
