(* ===== verification/KSyscall.thy ===== *)
theory KSyscall
  imports KSched
begin

text \<open>
  The system calls of \<^verbatim>\<open>src/3-sched/kern/syscall.c\<close>. Every handler runs on behalf of
  \<open>curenv\<close>, which \<open>trap\<close> has checked to exist; a handler that reads it without one follows a null
  pointer. A result is either the value the caller finds in \<open>%eax\<close> or, when the call does not
  return, how the CPU went on.
\<close>

datatype sysret = Returns int | Leaves resume

type_synonym syscall_result = "(sysret \<times> kstate) cres"

definition with_curenv :: "(nat \<Rightarrow> kstate \<Rightarrow> 'a cres) \<Rightarrow> kstate \<Rightarrow> 'a cres" where
  "with_curenv f s = (case curenv s of None \<Rightarrow> Inl NullDeref | Some c \<Rightarrow> f c s)"

text \<open>
  The page directory of an environment the kernel is about to walk, and the environment a lookup
  stored (\<open>envid2env\<close> stores \<open>curenv\<close> for the identifier 0, which may be null).
\<close>

definition pgdir_of :: "nat \<Rightarrow> kstate \<Rightarrow> nat cres" where
  "pgdir_of e s = (case env_pgdir (envs s ! e) of None \<Rightarrow> Inl NullDeref | Some pd \<Rightarrow> Inr pd)"

definition with_env :: "u32 \<Rightarrow> bool \<Rightarrow> kstate \<Rightarrow> (nat \<Rightarrow> syscall_result) \<Rightarrow> syscall_result" where
  "with_env envid checkperm s f =
     bindR (envid2env envid checkperm s) (\<lambda>(r, e).
       if r \<noteq> 0 then Inr (Returns r, s)
       else case e of None \<Rightarrow> Inl NullDeref | Some i \<Rightarrow> f i)"

section \<open>Permissions\<close>

text \<open>\<open>pte\<close> is the entry the pointer refers to, or \<open>None\<close> for the null pointer.\<close>

definition check_perm :: "u32 \<Rightarrow> u32 option \<Rightarrow> int" where
  "check_perm perm pte =
     (if perm AND NOT PTE_SYSCALL \<noteq> 0 then - E_INVAL
      else if perm AND PTE_P = 0 \<or> perm AND PTE_U = 0 then - E_INVAL
      else case pte of
             None \<Rightarrow> 0
           | Some w \<Rightarrow>
               if w \<noteq> 0 \<and> w AND PTE_P = 0 then - E_INVAL
               else if perm AND PTE_W \<noteq> 0 \<and> w AND PTE_W = 0 then - E_INVAL
               else 0)"

definition env_page_alloc :: "nat \<Rightarrow> u32 \<Rightarrow> u32 \<Rightarrow> kstate \<Rightarrow> (int \<times> kstate) cres" where
  "env_page_alloc e va perm s =
     (let err = check_perm perm None
      in if err < 0 then Inr (err, s)
         else bindR (page_alloc True s) (\<lambda>(page, s1).
           case page of
             None \<Rightarrow> Inr (- E_NO_MEM, s1)
           | Some p \<Rightarrow> bindR (pgdir_of e s1) (\<lambda>pd. page_insert pd p va perm s1)))"

definition env_page_map :: "nat \<Rightarrow> u32 \<Rightarrow> nat \<Rightarrow> u32 \<Rightarrow> u32 \<Rightarrow> kstate \<Rightarrow> (int \<times> kstate) cres" where
  "env_page_map srcenv srcva dstenv dstva perm s =
     bindR (pgdir_of srcenv s) (\<lambda>spd.
     bindR (page_lookup spd srcva s) (\<lambda>found.
       case found of
         None \<Rightarrow> Inr (- E_INVAL, s)
       | Some (p, t, i) \<Rightarrow>
           if (perm AND PTE_W) AND NOT (PTE_W AND phys s t i) \<noteq> 0 then Inr (- E_INVAL, s)
           else bindR (pgdir_of dstenv s) (\<lambda>dpd. page_insert dpd p dstva perm s)))"

section \<open>Environments\<close>

definition sys_cputs :: "sched_config \<Rightarrow> u32 \<Rightarrow> u32 \<Rightarrow> kstate \<Rightarrow> syscall_result" where
  "sys_cputs cfg str len =
     with_curenv (\<lambda>c s. bindR (user_mem_assert cfg c str len (PTE_P OR PTE_W OR PTE_U) s) (\<lambda>(r, s1).
       case r of Some k \<Rightarrow> Inr (Leaves k, s1) | None \<Rightarrow> Inr (Returns 0, s1)))"

definition sys_getenvid :: "kstate \<Rightarrow> syscall_result" where
  "sys_getenvid = with_curenv (\<lambda>c s. Inr (Returns (sint (env_id (envs s ! c))), s))"

definition sys_env_destroy :: "sched_config \<Rightarrow> u32 \<Rightarrow> kstate \<Rightarrow> syscall_result" where
  "sys_env_destroy cfg envid s =
     with_env envid True s (\<lambda>e. bindR (env_destroy cfg e s) (\<lambda>(r, s1).
       case r of Some k \<Rightarrow> Inr (Leaves k, s1) | None \<Rightarrow> Inr (Returns 0, s1)))"

definition sys_yield :: "sched_config \<Rightarrow> kstate \<Rightarrow> syscall_result" where
  "sys_yield cfg s = bindR (sched_yield cfg s) (\<lambda>(r, s1). Inr (Leaves r, s1))"

definition sys_exofork :: "kstate \<Rightarrow> syscall_result" where
  "sys_exofork = with_curenv (\<lambda>c s.
     bindR (env_alloc (env_id (envs s ! c)) s) (\<lambda>(r, new, s1).
       if r \<noteq> 0 then Inr (Returns r, s1)
       else case new of
              None \<Rightarrow> Inl NullDeref
            | Some e \<Rightarrow>
                let tf = env_tf (envs s1 ! c);
                    s2 = upd_env e (\<lambda>x. x\<lparr>env_status := ENV_NOT_RUNNABLE,
                           env_tf := tf\<lparr>tf_regs := (tf_regs tf)\<lparr>reg_eax := 0\<rparr>\<rparr>\<rparr>) s1
                in Inr (Returns (sint (env_id (envs s2 ! e))), s2)))"

text \<open>The numbers of the two states a program may ask for.\<close>

definition status_arg :: "u32 \<Rightarrow> env_status option" where
  "status_arg a = (if a = 2 then Some ENV_RUNNABLE else if a = 4 then Some ENV_NOT_RUNNABLE else None)"

definition sys_env_set_status :: "u32 \<Rightarrow> u32 \<Rightarrow> kstate \<Rightarrow> syscall_result" where
  "sys_env_set_status envid status s =
     (case status_arg status of
        None \<Rightarrow> Inr (Returns (- E_INVAL), s)
      | Some st \<Rightarrow> with_env envid True s (\<lambda>e.
          Inr (Returns 0, upd_env e (\<lambda>x. x\<lparr>env_status := st\<rparr>) s)))"

definition sys_env_set_pgfault_upcall :: "sched_config \<Rightarrow> u32 \<Rightarrow> u32 \<Rightarrow> kstate \<Rightarrow> syscall_result" where
  "sys_env_set_pgfault_upcall cfg envid func s =
     with_env envid True s (\<lambda>e.
       bindR (user_mem_assert cfg e func PGSIZE (PTE_P OR PTE_U) s) (\<lambda>(r, s1).
         case r of
           Some k \<Rightarrow> Inr (Leaves k, s1)
         | None \<Rightarrow> Inr (Returns 0, upd_env e (\<lambda>x. x\<lparr>env_pgfault_upcall := func\<rparr>) s1)))"

section \<open>Pages\<close>

definition bad_va :: "u32 \<Rightarrow> bool" where
  "bad_va va \<longleftrightarrow> va \<ge> UTOP \<or> va mod PGSIZE \<noteq> 0"

definition ret_int :: "(int \<times> kstate) cres \<Rightarrow> syscall_result" where
  "ret_int m = bindR m (\<lambda>(r, s). Inr (Returns r, s))"

definition sys_page_alloc :: "u32 \<Rightarrow> u32 \<Rightarrow> u32 \<Rightarrow> kstate \<Rightarrow> syscall_result" where
  "sys_page_alloc envid va perm s =
     (if bad_va va then Inr (Returns (- E_INVAL), s)
      else with_env envid True s (\<lambda>e. ret_int (env_page_alloc e va (perm OR PTE_U OR PTE_P) s)))"

definition sys_page_map :: "u32 \<Rightarrow> u32 \<Rightarrow> u32 \<Rightarrow> u32 \<Rightarrow> u32 \<Rightarrow> kstate \<Rightarrow> syscall_result" where
  "sys_page_map srcenvid srcva dstenvid dstva perm s =
     (if bad_va srcva then Inr (Returns (- E_INVAL), s)
      else if bad_va dstva then Inr (Returns (- E_INVAL), s)
      else with_env srcenvid True s (\<lambda>src. with_env dstenvid True s (\<lambda>dst.
             ret_int (env_page_map src srcva dst dstva (PTE_P OR PTE_U OR perm) s))))"

definition sys_page_unmap :: "u32 \<Rightarrow> u32 \<Rightarrow> kstate \<Rightarrow> syscall_result" where
  "sys_page_unmap envid va s =
     (if bad_va va then Inr (Returns (- E_INVAL), s)
      else with_env envid True s (\<lambda>e.
        bindR (pgdir_of e s) (\<lambda>pd. bindR (page_remove pd va s) (\<lambda>s1. Inr (Returns 0, s1)))))"

section \<open>Messages\<close>

text \<open>
  The part after the label \<open>bail\<close>: deliver the value to the blocked receiver \<open>d\<close> and wake it up.
\<close>

definition ipc_deliver :: "nat \<Rightarrow> nat \<Rightarrow> u32 \<Rightarrow> kstate \<Rightarrow> kstate" where
  "ipc_deliver c d msg s =
     upd_env d (\<lambda>x. x\<lparr>env_ipc_from := env_id (envs s ! c), env_ipc_recving := False,
       env_ipc_value := msg,
       env_tf := (env_tf x)\<lparr>tf_regs := (tf_regs (env_tf x))\<lparr>reg_eax := 0\<rparr>\<rparr>,
       env_status := ENV_RUNNABLE\<rparr>) s"

text \<open>
  The pointer \<open>srcpte\<close> is not initialised; \<open>page_lookup\<close> only sets it when it finds a page.
\<close>

definition sys_ipc_try_send :: "u32 \<Rightarrow> u32 \<Rightarrow> u32 \<Rightarrow> u32 \<Rightarrow> kstate \<Rightarrow> syscall_result" where
  "sys_ipc_try_send envid msg srcva perm0 s =
     with_env envid False s (\<lambda>d.
       if \<not> env_ipc_recving (envs s ! d) then Inr (Returns (- E_IPC_NOT_RECV), s)
       else if srcva \<ge> UTOP then
         with_curenv (\<lambda>c s1. Inr (Returns 0, ipc_deliver c d msg s1))
           (upd_env d (\<lambda>x. x\<lparr>env_ipc_perm := 0\<rparr>) s)
       else if srcva mod PGSIZE \<noteq> 0 then Inr (Returns (- E_INVAL), s)
       else with_curenv (\<lambda>c s.
         bindR (pgdir_of c s) (\<lambda>cpd.
         bindR (page_lookup cpd srcva s) (\<lambda>found.
           case found of
             None \<Rightarrow> Inl UninitRead
           | Some (p, t, i) \<Rightarrow>
               let w = phys s t i; perm = perm0 OR PTE_U OR PTE_P; dstva = env_ipc_dstva (envs s ! d)
               in if w \<noteq> 0 \<and> w AND PTE_P = 0 then Inr (Returns (- E_INVAL), s)
                  else if perm0 AND PTE_W \<noteq> 0 \<and> w AND PTE_W = 0 then Inr (Returns (- E_INVAL), s)
                  else if dstva = 0 then Inr (Returns 0, ipc_deliver c d msg s)
                  else
                    bindR (env_page_alloc d dstva perm s) (\<lambda>(r, s1).
                      if r < 0 then Inr (Returns r, s1)
                      else bindR (env_page_map c srcva d dstva perm s1) (\<lambda>(r', s2).
                        if r' < 0 then Inr (Returns r', s2)
                        else Inr (Returns 0, ipc_deliver c d msg
                               (upd_env d (\<lambda>x. x\<lparr>env_ipc_perm := perm\<rparr>) s2))))))) s)"

definition sys_ipc_recv :: "sched_config \<Rightarrow> u32 \<Rightarrow> kstate \<Rightarrow> syscall_result" where
  "sys_ipc_recv cfg dstva =
     with_curenv (\<lambda>c s.
       let s1 = upd_env c (\<lambda>x. x\<lparr>env_ipc_recving := True\<rparr>) s
       in if bad_va dstva then Inr (Returns (- E_INVAL), s1)
          else sys_yield cfg (upd_env c (\<lambda>x. x\<lparr>env_ipc_dstva := dstva,
                 env_status := ENV_NOT_RUNNABLE\<rparr>) s1))"

section \<open>Priorities\<close>

definition sys_get_priority :: "kstate \<Rightarrow> syscall_result" where
  "sys_get_priority = with_curenv (\<lambda>c s. Inr (Returns (env_priority (envs s ! c)), s))"

definition sys_set_priority :: "u32 \<Rightarrow> kstate \<Rightarrow> syscall_result" where
  "sys_set_priority a =
     with_curenv (\<lambda>c s.
       let new_priority = sint a
       in if MIN_PRIORITY \<le> new_priority \<and> new_priority < MAX_PRIORITY \<and>
             new_priority \<le> env_priority (envs s ! c)
          then Inr (Returns new_priority, upd_env c (\<lambda>x. x\<lparr>env_priority := new_priority\<rparr>) s)
          else Inr (Returns (- 1), s))"

section \<open>Dispatch\<close>

text \<open>\<open>key\<close> is what \<open>cons_getc()\<close> returns when the call is made.\<close>

definition syscall :: "sched_config \<Rightarrow> int \<Rightarrow> u32 \<Rightarrow> u32 \<Rightarrow> u32 \<Rightarrow> u32 \<Rightarrow> u32 \<Rightarrow> u32 \<Rightarrow> kstate \<Rightarrow> syscall_result" where
  "syscall cfg key syscallno a1 a2 a3 a4 a5 s =
     (if syscallno = 0 then sys_cputs cfg a1 a2 s
      else if syscallno = 2 then sys_getenvid s
      else if syscallno = 3 then sys_env_destroy cfg a1 s
      else if syscallno = 1 then Inr (Returns key, s)
      else if syscallno = 7 then sys_exofork s
      else if syscallno = 8 then sys_env_set_status a1 a2 s
      else if syscallno = 4 then sys_page_alloc a1 a2 a3 s
      else if syscallno = 5 then sys_page_map a1 a2 a3 a4 a5 s
      else if syscallno = 6 then sys_page_unmap a1 a2 s
      else if syscallno = 12 then sys_ipc_recv cfg a1 s
      else if syscallno = 11 then sys_ipc_try_send a1 a2 a3 a4 s
      else if syscallno = 9 then sys_env_set_pgfault_upcall cfg a1 a2 s
      else if syscallno = 13 then sys_get_priority s
      else if syscallno = 14 then sys_set_priority a1 s
      else if syscallno = 10 then sys_yield cfg s
      else Inr (Returns (- E_INVAL), s))"

end
