(* ===== verification/KSchedProps.thy ===== *)
theory KSchedProps
  imports KSchedInv KEnvProps KSyscall
begin

text \<open>
  Properties of the scheduler: which environment a call resumes, that no runnable environment waits
  for ever while the statistics have room, what happens when they have not, and who may run where
  when several CPUs schedule.
\<close>

section \<open>Small running kernels\<close>

lemma kern_inv_frame:
  assumes "kern_inv ext s" "env_inv s'" "env_dirs s' = env_dirs s"
    and "pages s' = pages s" "npages s' = npages s" "page_free_list s' = page_free_list s" "phys s' = phys s"
      "kern_pgdir s' = kern_pgdir s"
  shows "kern_inv ext s'"
  using assms(1) unfolding kern_inv_def
  by (intro kern_inv_intro [OF assms(2) _ assms(3-8), of ext, unfolded kern_inv_def]) auto

lemma dirs_status:
  assumes "e < length (envs s)" "env_status (envs s ! e) \<noteq> ENV_FREE" "st \<noteq> ENV_FREE"
  shows "env_dirs (upd_env e (\<lambda>x. x\<lparr>env_status := st\<rparr>) s) = env_dirs s"
proof -
  have "env_status (envs (upd_env e (\<lambda>x. x\<lparr>env_status := st\<rparr>) s) ! j) \<noteq> ENV_FREE \<longleftrightarrow> env_status (envs s ! j) \<noteq> ENV_FREE"
    "env_pgdir (envs (upd_env e (\<lambda>x. x\<lparr>env_status := st\<rparr>) s) ! j) = env_pgdir (envs s ! j)" for j
    using assms by (auto simp: nth_upd)
  then show ?thesis unfolding env_dirs_def by simp
qed

lemma kern_inv_status:
  assumes inv: "kern_inv ext s" and e: "e < NENV" "env_status (envs s ! e) \<noteq> ENV_FREE" "st \<noteq> ENV_FREE"
  shows "kern_inv ext (upd_env e (\<lambda>x. x\<lparr>env_status := st\<rparr>) s)"
proof -
  have "env_inv s" using inv by (simp add: kern_inv_def)
  then have "env_inv (upd_env e (\<lambda>x. x\<lparr>env_status := st\<rparr>) s)" "e < length (envs s)"
    using status_env_inv [OF _ e] env_inv_D(1) e(1) by simp_all
  then show ?thesis by (intro kern_inv_frame [OF inv] dirs_status e(2,3)) simp_all
qed

text \<open>Two environments, the second a child of the first, each running on its own CPU; CPU 0 is in the kernel.\<close>

lemma small_two_envs:
  obtains s where "kern_inv (\<lambda>_. 0) s" "env_pgdir (envs s ! 0) = Some 3" "env_pgdir (envs s ! 1) = Some 4"
    "env_status (envs s ! 0) = ENV_RUNNING" "env_status (envs s ! 1) = ENV_RUNNING"
    "env_id (envs s ! 0) = 0x1000" "env_id (envs s ! 1) = 0x1001" "env_parent_id (envs s ! 1) = 0x1000"
    "cpus s = [\<lparr>cpu_status = CPU_STARTED, cpu_env = Some 0\<rparr>, \<lparr>cpu_status = CPU_STARTED, cpu_env = Some 1\<rparr>]"
    "thiscpu s = 0" "kernel_lock s = \<lparr>locked = 1, lock_cpu = Some 0\<rparr>" "sched_stats s = zero_sched_stats"
    "\<And>j. 1 < j \<Longrightarrow> j < NENV \<Longrightarrow> env_status (envs s ! j) = ENV_FREE"
proof -
  obtain a where a: "kern_inv (\<lambda>_. 0) a" "page_pool a = [4, 5, 6, 7]" "env_pool a = [Suc 0..<NENV]"
    "env_pgdir (envs a ! 0) = Some 3" "env_status (envs a ! 0) = ENV_RUNNABLE" "env_id (envs a ! 0) = 0x1000"
    "thiscpu a = 0" "kernel_lock a = \<lparr>locked = 1, lock_cpu = Some 0\<rparr>" "sched_stats a = zero_sched_stats"
    "\<And>j. j \<noteq> 0 \<Longrightarrow> envs a ! j = envs small_kernel ! j"
    by (rule small_one_env) (rule that; assumption)
  have pool: "env_pool a = 1 # [Suc 1..<NENV]" unfolding a(3) One_nat_def by (rule upt_conv_Cons) simp
  obtain b where b: "kern_inv (\<lambda>_. 0) b" "env_pgdir (envs b ! 1) = Some 4" "env_status (envs b ! 1) = ENV_RUNNABLE"
    "env_id (envs b ! 1) = next_env_id (env_id (envs a ! 1)) 1" "env_parent_id (envs b ! 1) = 0x1000"
    "thiscpu b = thiscpu a" "kernel_lock b = kernel_lock a" "sched_stats b = sched_stats a"
    "\<And>j. j \<noteq> 1 \<Longrightarrow> envs b ! j = envs a ! j" "length (envs b) = NENV"
    by (rule env_alloc_new [OF a(1) pool a(2), of "0x1000"]) (rule that; assumption)
  let ?c = "upd_env 1 (\<lambda>x. x\<lparr>env_status := ENV_RUNNING\<rparr>) (upd_env 0 (\<lambda>x. x\<lparr>env_status := ENV_RUNNING\<rparr>) b)"
  let ?s = "?c\<lparr>cpus := [\<lparr>cpu_status = CPU_STARTED, cpu_env = Some 0\<rparr>, \<lparr>cpu_status = CPU_STARTED, cpu_env = Some 1\<rparr>]\<rparr>"
  have zero: "envs b ! 0 = envs a ! 0" by (rule b(9)) simp
  have c: "kern_inv (\<lambda>_. 0) ?c"
    by (intro kern_inv_status b(1)) (use a b zero in \<open>simp_all add: nth_upd\<close>)
  have "env_inv ?c" using c by (simp add: kern_inv_def)
  then have "env_inv ?s" "env_dirs ?s = env_dirs ?c" using env_inv_cong(1,3) [of ?s ?c] by simp_all
  then have k: "kern_inv (\<lambda>_. 0) ?s" by (intro kern_inv_frame [OF c]) simp_all
  show thesis
    by (rule that [OF k]) (use a b zero in \<open>simp_all add: nth_upd small_envs next_env_id_def\<close>)
qed

section \<open>Round robin on one CPU\<close>

text \<open>C26: while the history has room, \<open>sched_yield\<close> resumes the first runnable environment at or after the
  slot of the current one, going round the table once: that environment becomes this CPU's, runs in
  its own address space with one more run counted, and the lock is released. The environment that was
  running here becomes runnable and no other environment changes.\<close>

theorem yield_picks_next_runnable:
  assumes "env_inv s" "holding s" "k < NENV" "env_status (envs s ! ((sched_start s + k) mod NENV)) = ENV_RUNNABLE"
    and "\<forall>j<k. env_status (envs s ! ((sched_start s + j) mod NENV)) \<noteq> ENV_RUNNABLE"
    and "0 \<le> history_index (sched_stats s)" "history_index (sched_stats s) < int NENV"
  shows "let e = (sched_start s + k) mod NENV in
    \<exists>s'. sched_yield SCHED_ROUND_ROBIN s = Inr (Resume e, s') \<and>
      env_status (envs s' ! e) = ENV_RUNNING \<and> env_runs (envs s' ! e) = env_runs (envs s ! e) + 1 \<and>
      env_pgdir (envs s ! e) = Some (cr3 s') \<and> locked (kernel_lock s') = 0 \<and>
      cpus s' = (cpus s)[thiscpu s := (cpus s ! thiscpu s)\<lparr>cpu_env := Some e\<rparr>] \<and>
      history_index (sched_stats s') = history_index (sched_stats s) + 1 \<and>
      (\<forall>j<NENV. j \<noteq> e \<longrightarrow> envs s' ! j =
        (if curenv s = Some j \<and> env_status (envs s ! j) = ENV_RUNNING
         then (envs s ! j)\<lparr>env_status := ENV_RUNNABLE\<rparr> else envs s ! j))"
proof -
  have k: "rr_first s (sched_start s) k" using assms(3-5) by (simp add: rr_first_def)
  obtain s' where s': "sched_yield SCHED_ROUND_ROBIN s = Inr (Resume ((sched_start s + k) mod NENV), s')"
    "switched ((sched_start s + k) mod NENV) s s'"
    "history_index (sched_stats s') = history_index (sched_stats s) + 1"
    by (rule yield_rr_picks [OF assms(1,2) k assms(6,7)]) (rule that; assumption)
  then show ?thesis
    unfolding Let_def using env_inv_D(1) [OF assms(1)] by (intro exI [of _ s']) (simp add: switched_def)
qed

theorem yield_picks_next_runnable_witness:
  "\<exists>s s'. env_alloc 0 small_kernel = Inr (0, Some 0, s) \<and> sched_yield SCHED_ROUND_ROBIN s = Inr (Resume 0, s') \<and>
     cr3 s' = 3 \<and> env_status (envs s' ! 0) = ENV_RUNNING"
proof -
  obtain s where s: "env_alloc 0 small_kernel = Inr (0, Some 0, s)" "kern_inv (\<lambda>_. 0) s"
    "env_pgdir (envs s ! 0) = Some 3" "env_status (envs s ! 0) = ENV_RUNNABLE" "curenv s = None"
    "thiscpu s = 0" "kernel_lock s = \<lparr>locked = 1, lock_cpu = Some 0\<rparr>" "sched_stats s = zero_sched_stats"
    by (rule small_one_env) (rule that; assumption)
  have e: "env_inv s" using s(2) by (simp add: kern_inv_def)
  have h: "holding s" using s(6,7) by (simp add: holding_def)
  have st: "sched_start s = 0" using s(5) by (simp add: sched_start_def)
  show ?thesis
    using yield_picks_next_runnable [OF e h, of 0] s(1,3,4,8)
    by (auto simp: st zero_sched_stats_def Let_def intro: exI [of _ s])
qed

text \<open>when no environment is runnable, a current environment that is still running goes on; otherwise
  the CPU halts with no environment, on the kernel's page directory and without the lock, as long as
  some environment is running elsewhere or dying, and enters the monitor if none is.\<close>

lemma yield_without_runnable:
  assumes inv: "env_inv s" and hold: "holding s" and cur: "\<forall>c. curenv s = Some c \<longrightarrow> c < NENV"
    and none: "\<forall>j<NENV. env_status (envs s ! j) \<noteq> ENV_RUNNABLE"
  shows "if \<exists>c. curenv s = Some c \<and> env_status (envs s ! c) = ENV_RUNNING
    then \<exists>s'. sched_yield SCHED_ROUND_ROBIN s = Inr (Resume (the (curenv s)), s') \<and>
      env_status (envs s' ! the (curenv s)) = ENV_RUNNING \<and> history_index (sched_stats s') = history_index (sched_stats s)
    else if \<exists>j<NENV. env_status (envs s ! j) \<in> {ENV_RUNNING, ENV_DYING}
    then \<exists>s'. sched_yield SCHED_ROUND_ROBIN s = Inr (Halted, s') \<and> envs s' = envs s \<and> cr3 s' = kern_pgdir s \<and>
      locked (kernel_lock s') = 0 \<and>
      cpus s' = (cpus s)[thiscpu s := (cpus s ! thiscpu s)\<lparr>cpu_env := None, cpu_status := CPU_HALTED\<rparr>]
    else \<exists>s'. sched_yield SCHED_ROUND_ROBIN s = Inr (Monitor, s') \<and> envs s' = envs s \<and> cpus s' = cpus s"
proof (cases "\<exists>c. curenv s = Some c \<and> env_status (envs s ! c) = ENV_RUNNING")
  case True
  then obtain c where c: "curenv s = Some c" "env_status (envs s ! c) = ENV_RUNNING" by blast
  then have n: "c < NENV" using cur by simp
  obtain pd where pd: "env_pgdir (envs s ! c) = Some pd" using env_inv_D(7) [OF inv n] c(2) by auto
  have "c < length (envs (counted s))" using env_inv_D(1) [OF inv] n by simp
  then obtain s' where s': "env_run c (counted s) = Inr (Resume c, s')" "switched c (counted s) s'"
      "sched_stats s' = sched_stats (counted s)"
    by (rule env_run_switches [of c "counted s" pd]) (use pd hold that in \<open>simp_all\<close>)
  then have "sched_yield SCHED_ROUND_ROBIN s = Inr (Resume c, s')"
    using c unfolding yield_rr_none [OF none] sched_rest_def counted_sel by simp
  with s' c show ?thesis by (auto simp: switched_def)
next
  case False
  then have halt: "sched_yield SCHED_ROUND_ROBIN s = sched_halt (counted s)"
    unfolding yield_rr_none [OF none] by (auto simp: sched_rest_def split: option.split)
  show ?thesis
  proof (cases "\<exists>j<NENV. env_status (envs s ! j) \<in> {ENV_RUNNING, ENV_DYING}")
    case True
    then obtain j where j: "j < NENV" "env_status (envs (counted s) ! j) \<in> {ENV_RUNNABLE, ENV_RUNNING, ENV_DYING}" by auto
    have "holding (counted s)" using hold by simp
    from halt_halts [OF j this] show ?thesis unfolding if_not_P [OF False] if_P [OF True] halt by simp
  next
    case no: False
    have n: "find (\<lambda>i. env_status (envs (counted s) ! i) \<in> {ENV_RUNNABLE, ENV_RUNNING, ENV_DYING}) [0..<NENV] = None"
      unfolding rr_find_None using no none by auto
    have "sched_halt (counted s) = Inr (Monitor, counted s)"
      unfolding sched_halt_def if_P [OF n] ..
    then show ?thesis unfolding if_not_P [OF False] if_not_P [OF no] halt by simp
  qed
qed

theorem yield_without_runnable_witness:
  "\<exists>s'. sched_yield SCHED_ROUND_ROBIN small_kernel = Inr (Monitor, s') \<and> cpus s' = cpus small_kernel"
proof -
  have c: "\<not> (\<exists>c. curenv small_kernel = Some c \<and> env_status (envs small_kernel ! c) = ENV_RUNNING)"
    "\<not> (\<exists>j<NENV. env_status (envs small_kernel ! j) \<in> {ENV_RUNNING, ENV_DYING})"
    "holding small_kernel" "\<forall>c. curenv small_kernel = Some c \<longrightarrow> c < NENV"
    "\<forall>j<NENV. env_status (envs small_kernel ! j) \<noteq> ENV_RUNNABLE"
    by (simp_all add: small_envs holding_def)
  show ?thesis
    using yield_without_runnable [OF small_env(1) c(3-5)] unfolding if_not_P [OF c(1)] if_not_P [OF c(2)] by blast
qed

text \<open>C27: round robin does not starve anyone: with environment \<open>c\<close> running on the only CPU, a runnable
  environment \<open>e\<close> is resumed after at most as many yields as there are slots from \<open>c\<close> to \<open>e\<close>, provided
  the history has room for that many entries.\<close>

theorem round_robin_reaches:
  assumes "env_inv s" "kernel_lock s = \<lparr>locked = 0, lock_cpu = None\<rparr>" "thiscpu s < length (cpus s)"
    and "curenv s = Some c" "c < NENV" "env_status (envs s ! c) = ENV_RUNNING"
    and "e < NENV" "env_status (envs s ! e) = ENV_RUNNABLE"
    and "0 \<le> history_index (sched_stats s)"
    and "history_index (sched_stats s) + int ((e + NENV - c) mod NENV) \<le> int NENV"
  shows "\<exists>n es s'. n \<le> (e + NENV - c) mod NENV \<and> rr_rounds n s = Inr (es @ [e], s')"
  using rr_reaches [of c s e] assms by (simp add: user_mode_def ahead_def)

theorem round_robin_reaches_witness:
  "\<exists>s n es s'. curenv s = Some 0 \<and> env_status (envs s ! 1) = ENV_RUNNABLE \<and> n \<le> 1 \<and>
     rr_rounds n s = Inr (es @ [1], s')"
proof -
  obtain a where a: "kern_inv (\<lambda>_. 0) a" "env_status (envs a ! 0) = ENV_RUNNING" "env_status (envs a ! 1) = ENV_RUNNING"
    "cpus a = [\<lparr>cpu_status = CPU_STARTED, cpu_env = Some 0\<rparr>, \<lparr>cpu_status = CPU_STARTED, cpu_env = Some 1\<rparr>]"
    "thiscpu a = 0" "sched_stats a = zero_sched_stats"
    by (rule small_two_envs) (rule that; assumption)
  let ?b = "upd_env 1 (\<lambda>x. x\<lparr>env_status := ENV_RUNNABLE\<rparr>) a"
  let ?s = "?b\<lparr>kernel_lock := \<lparr>locked = 0, lock_cpu = None\<rparr>\<rparr>"
  have ia: "env_inv a" using a(1) by (simp add: kern_inv_def)
  have "env_inv ?b" by (rule status_env_inv [OF ia]) (use a(3) in simp_all)
  then have i: "env_inv ?s" using env_inv_cong(1) [of ?s ?b] by simp
  have len: "length (envs a) = NENV" by (rule env_inv_D(1) [OF ia])
  have "curenv ?s = Some 0" using a(4,5) by (simp add: curenv_def)
  moreover have "env_status (envs ?s ! 1) = ENV_RUNNABLE" "env_status (envs ?s ! 0) = ENV_RUNNING"
    using len a(2) by (simp_all add: nth_upd)
  ultimately show ?thesis
    using round_robin_reaches [OF i, of 0 1] a(4-6)
    by (intro exI [of _ ?s]) (simp add: zero_sched_stats_def)
qed

text \<open>the history is an array of \<open>NENV\<close> entries with no bound on its index: once that many choices
  have been recorded, the next call that finds a runnable environment stores past its end.\<close>

lemma history_overflows:
  assumes "e < NENV" "env_status (envs s ! e) = ENV_RUNNABLE" "sched_start s < NENV"
    and "history_index (sched_stats s) = int NENV"
  shows "sched_yield SCHED_ROUND_ROBIN s = Inl OutOfBounds"
proof -
  have "env_status (envs s ! ((sched_start s + ahead (sched_start s) e) mod NENV)) = ENV_RUNNABLE"
    using assms(1-3) ahead_add by simp
  moreover have "ahead (sched_start s) e < NENV" by (simp add: ahead_def)
  ultimately obtain k where "rr_first s (sched_start s) k" by (rule rr_first_exists)
  then show ?thesis by (rule yield_rr_overflow) (simp add: assms(4))
qed

lemma history_overflows_witness:
  "\<exists>s. env_status (envs s ! 0) = ENV_RUNNABLE \<and> sched_yield SCHED_ROUND_ROBIN s = Inl OutOfBounds"
proof -
  obtain a where a: "env_status (envs a ! 0) = ENV_RUNNABLE" "curenv a = None"
    by (rule small_one_env) (rule that; assumption)
  let ?s = "upd_stats (\<lambda>st. st\<lparr>history_index := int NENV\<rparr>) a"
  have "curenv ?s = None" using a(2) by (simp add: curenv_def upd_stats_def)
  then have "sched_start ?s < NENV" by (simp add: sched_start_def)
  moreover have "history_index (sched_stats ?s) = int NENV" by (simp add: upd_stats_def)
  ultimately have "sched_yield SCHED_ROUND_ROBIN ?s = Inl OutOfBounds"
    using history_overflows [of 0 ?s] a(1) by simp
  with a(1) show ?thesis by (intro exI [of _ ?s]) simp
qed

text \<open>built with priorities, every call that finds a runnable environment indexes the environment table
  with that environment's identifier (at least 4096) and leaves its 1024 entries.\<close>

lemma priorities_index_by_id:
  assumes "env_inv s" "e < NENV" "env_status (envs s ! e) = ENV_RUNNABLE" "sched_start s < NENV"
  shows "sched_yield SCHED_PRIORITIES s = Inl OutOfBounds"
  by (rule yield_priorities_faults [OF assms])

lemma priorities_index_by_id_witness:
  "\<exists>s. env_alloc 0 small_kernel = Inr (0, Some 0, s) \<and> sched_yield SCHED_PRIORITIES s = Inl OutOfBounds"
proof -
  obtain s where s: "env_alloc 0 small_kernel = Inr (0, Some 0, s)" "kern_inv (\<lambda>_. 0) s"
    "env_status (envs s ! 0) = ENV_RUNNABLE" "curenv s = None"
    by (rule small_one_env) (rule that; assumption)
  have "env_inv s" using s(2) by (simp add: kern_inv_def)
  then have "sched_yield SCHED_PRIORITIES s = Inl OutOfBounds"
    using priorities_index_by_id [of s 0] s(3,4) by (simp add: sched_start_def)
  with s(1) show ?thesis by blast
qed

section \<open>Several CPUs\<close>

text \<open>C28: however CPUs take turns entering the kernel, yielding, blocking and returning, no environment is
  current on two of them, and a CPU that is not inside the kernel has a running environment or none.\<close>

theorem cpus_exclude_each_other:
  assumes "exclusive s" "smp_step\<^sup>*\<^sup>* s s'"
    and "c < length (cpus s')" "c' < length (cpus s')" "cpu_env (cpus s' ! c) = Some e" "cpu_env (cpus s' ! c') = Some e"
  shows "c = c' \<and> (\<not> (holding s' \<and> c = thiscpu s') \<longrightarrow> env_status (envs s' ! e) = ENV_RUNNING)"
proof -
  from assms(2,1) have ex: "exclusive s'"
    by (induction rule: rtranclp_induct) (auto intro: smp_step_exclusive)
  from exclusive_D(5,6) [OF ex] assms(3-6) show ?thesis by blast
qed

lemma small_two_exclusive:
  assumes "kern_inv (\<lambda>_. 0) s" "env_status (envs s ! 0) = ENV_RUNNING" "env_status (envs s ! 1) = ENV_RUNNING"
    "cpus s = [\<lparr>cpu_status = CPU_STARTED, cpu_env = Some 0\<rparr>, \<lparr>cpu_status = CPU_STARTED, cpu_env = Some 1\<rparr>]"
    "thiscpu s = 0"
  shows "exclusive s"
proof -
  have "env_inv s" using assms(1) by (simp add: kern_inv_def)
  then show ?thesis unfolding exclusive_def using assms by (auto simp: less_Suc_eq)
qed

theorem cpus_exclude_each_other_witness:
  "\<exists>s s'. smp_step\<^sup>*\<^sup>* s s' \<and> cpu_env (cpus s' ! 1) = Some 1 \<and> env_status (envs s' ! 1) = ENV_RUNNING"
proof -
  obtain s where s: "kern_inv (\<lambda>_. 0) s" "env_pgdir (envs s ! 0) = Some 3"
    "env_status (envs s ! 0) = ENV_RUNNING" "env_status (envs s ! 1) = ENV_RUNNING"
    "cpus s = [\<lparr>cpu_status = CPU_STARTED, cpu_env = Some 0\<rparr>, \<lparr>cpu_status = CPU_STARTED, cpu_env = Some 1\<rparr>]"
    "thiscpu s = 0" "kernel_lock s = \<lparr>locked = 1, lock_cpu = Some 0\<rparr>"
    by (rule small_two_envs) (rule that; assumption)
  have ex: "exclusive s" by (rule small_two_exclusive [OF s(1,3,4,5,6)])
  have len: "length (envs s) = NENV" by (rule env_inv_D(1) [OF exclusive_D(1) [OF ex]])
  have h: "holding s" using s(6,7) by (simp add: holding_def)
  obtain s' where s': "env_run 0 s = Inr (Resume 0, s')" "switched 0 s s'"
    by (rule env_run_switches [OF _ s(2) h]) (use len that in auto)
  have cur: "curenv s = Some 0" using s(5,6) by (simp add: curenv_def)
  have step: "smp_step\<^sup>*\<^sup>* s s'" by (rule r_into_rtranclp, rule smp_step.return [OF h cur s(3) s'(1)])
  have c: "1 < length (cpus s')" "cpu_env (cpus s' ! 1) = Some 1" "thiscpu s' = 0"
    using s'(2) s(5,6) by (simp_all add: switched_def)
  from cpus_exclude_each_other [OF ex step c(1,1,2,2)] c(2,3) step show ?thesis
    by (intro exI [of _ s] exI [of _ s']) simp
qed

text \<open>C39: \<open>sys_env_set_status\<close> lets a parent mark a child runnable that is running on another CPU; the next
  \<open>sched_yield\<close> of the parent then resumes the child while the other CPU still runs it.\<close>

theorem set_status_runs_twice:
  assumes inv: "env_inv s" and hold: "holding s" and cpu: "thiscpu s < length (cpus s)"
    and p: "curenv s = Some p" "p < NENV" "env_status (envs s ! p) = ENV_RUNNING"
    and c: "c < length (cpus s)" "c \<noteq> thiscpu s" "cpu_env (cpus s ! c) = Some e"
    and e: "e < NENV" "e \<noteq> p" "env_status (envs s ! e) = ENV_RUNNING"
      "env_parent_id (envs s ! e) = env_id (envs s ! p)"
    and none: "\<forall>j<NENV. env_status (envs s ! j) \<noteq> ENV_RUNNABLE"
    and h: "0 \<le> history_index (sched_stats s)" "history_index (sched_stats s) < int NENV"
  shows "\<exists>s1 s2. sys_env_set_status (env_id (envs s ! e)) 2 s = Inr (Returns 0, s1) \<and>
    sched_yield SCHED_ROUND_ROBIN s1 = Inr (Resume e, s2) \<and>
    cpu_env (cpus s2 ! c) = Some e \<and> cpu_env (cpus s2 ! thiscpu s2) = Some e"
proof -
  define s1 where "s1 = upd_env e (\<lambda>x. x\<lparr>env_status := ENV_RUNNABLE\<rparr>) s"
  have len: "length (envs s) = NENV" by (rule env_inv_D(1) [OF inv])
  have id: "ENVX (env_id (envs s ! e)) = e" "env_id (envs s ! e) \<noteq> 0"
    using valid_ENVX [OF e(1) env_inv_D(5) [OF inv e(1)]] env_inv_D(6) [OF inv e(1)] e(3) by auto
  have set: "sys_env_set_status (env_id (envs s ! e)) 2 s = Inr (Returns 0, s1)"
    using id e p by (simp add: sys_env_set_status_def status_arg_def with_env_def envid2env_def Let_def s1_def)
  have inv1: "env_inv s1" unfolding s1_def by (rule status_env_inv [OF inv e(1)]) (use e(3) in simp_all)
  have hold1: "holding s1" using hold by (simp add: s1_def holding_def)
  have start: "sched_start s1 = p"
    using sched_start_slot [OF inv1, of p] p e(2) by (simp add: s1_def nth_upd)
  have st: "env_status (envs s1 ! j) = ENV_RUNNABLE \<longleftrightarrow> j = e" if "j < NENV" for j
    using that none len e(1) by (auto simp: s1_def nth_upd)
  have a: "(p + ahead p e) mod NENV = e" "ahead p e < NENV" using ahead_add p(2) e(1) by (simp_all add: ahead_def)
  have k: "rr_first s1 (sched_start s1) (ahead p e)"
    unfolding rr_first_def start
  proof (intro conjI allI impI)
    show "env_status (envs s1 ! ((p + ahead p e) mod NENV)) = ENV_RUNNABLE" using st [of e] a e(1) by simp
    fix j assume j: "j < ahead p e"
    have "ahead ((p + j) mod NENV) e = ahead p e - j" using ahead_step [OF p(2) e(1)] j by simp
    then have "(p + j) mod NENV \<noteq> e" using j by (auto simp: ahead_def)
    then show "env_status (envs s1 ! ((p + j) mod NENV)) \<noteq> ENV_RUNNABLE" using st [of "(p + j) mod NENV"] by simp
  qed (rule a(2))
  have hh: "0 \<le> history_index (sched_stats s1)" "history_index (sched_stats s1) < int NENV"
    using h by (simp_all add: s1_def)
  obtain s2 where s2: "sched_yield SCHED_ROUND_ROBIN s1 = Inr (Resume e, s2)" "switched e s1 s2"
    by (rule yield_rr_picks [OF inv1 hold1 k hh, unfolded start a]) (rule that; assumption)
  have "cpu_env (cpus s2 ! c) = Some e" "cpu_env (cpus s2 ! thiscpu s2) = Some e"
    using s2(2) c cpu by (simp_all add: switched_def s1_def)
  with set s2(1) show ?thesis by blast
qed

theorem set_status_runs_twice_witness:
  "\<exists>s s1 s2. cpu_env (cpus s ! 1) = Some 1 \<and> sys_env_set_status 0x1001 2 s = Inr (Returns 0, s1) \<and>
     sched_yield SCHED_ROUND_ROBIN s1 = Inr (Resume 1, s2) \<and> cpu_env (cpus s2 ! 1) = Some 1"
proof -
  obtain s where s: "kern_inv (\<lambda>_. 0) s" "env_status (envs s ! 0) = ENV_RUNNING" "env_status (envs s ! 1) = ENV_RUNNING"
    "env_id (envs s ! 0) = 0x1000" "env_id (envs s ! 1) = 0x1001" "env_parent_id (envs s ! 1) = 0x1000"
    "cpus s = [\<lparr>cpu_status = CPU_STARTED, cpu_env = Some 0\<rparr>, \<lparr>cpu_status = CPU_STARTED, cpu_env = Some 1\<rparr>]"
    "thiscpu s = 0" "kernel_lock s = \<lparr>locked = 1, lock_cpu = Some 0\<rparr>" "sched_stats s = zero_sched_stats"
    "\<And>j. 1 < j \<Longrightarrow> j < NENV \<Longrightarrow> env_status (envs s ! j) = ENV_FREE"
    by (rule small_two_envs) (rule that; assumption)
  have inv: "env_inv s" using s(1) by (simp add: kern_inv_def)
  have none: "\<forall>j<NENV. env_status (envs s ! j) \<noteq> ENV_RUNNABLE"
  proof (intro allI impI)
    fix j assume j: "j < NENV"
    consider "j = 0" | "j = 1" | "1 < j" by linarith
    then show "env_status (envs s ! j) \<noteq> ENV_RUNNABLE"
    proof cases
      case 3
      then show ?thesis using s(11) [OF 3 j] by simp
    qed (simp_all add: s(2,3) del: One_nat_def)
  qed
  have "holding s" "curenv s = Some 0" using s(7-9) by (simp_all add: holding_def curenv_def)
  note t = set_status_runs_twice [OF inv this(1) _ this(2) _ s(2), of 1 1]
  have "cpu_env (cpus s ! 1) = Some 1" using s(7) by simp
  moreover have "history_index (sched_stats s) = 0" using s(10) by (simp add: zero_sched_stats_def)
  moreover have "0 < length (cpus s)" "1 < length (cpus s)" using s(7) by simp_all
  ultimately obtain s1 s2 where "sys_env_set_status 0x1001 2 s = Inr (Returns 0, s1)"
    "sched_yield SCHED_ROUND_ROBIN s1 = Inr (Resume 1, s2)" "cpu_env (cpus s2 ! 1) = Some 1"
    using t s(3-6,8) none by (auto simp del: One_nat_def)
  then show ?thesis using \<open>cpu_env (cpus s ! 1) = Some 1\<close> by blast
qed

text \<open>C40: destroying an environment that runs on another CPU only marks it as dying, but destroying it a
  second time frees its slot and its page directory although the other CPU is still using them.\<close>

theorem second_destroy_frees_running:
  assumes inv: "kern_inv ext s"
    and p: "curenv s = Some p" and c: "cpu_env (cpus s ! c) = Some e"
    and e: "e < NENV" "e \<noteq> p" "env_status (envs s ! e) = ENV_RUNNING"
      "env_parent_id (envs s ! e) = env_id (envs s ! p)"
  shows "\<exists>s1 s2 pd. sys_env_destroy cfg (env_id (envs s ! e)) s = Inr (Returns 0, s1) \<and>
    env_status (envs s1 ! e) = ENV_DYING \<and> sys_env_destroy cfg (env_id (envs s ! e)) s1 = Inr (Returns 0, s2) \<and>
    env_status (envs s2 ! e) = ENV_FREE \<and> env_pgdir (envs s ! e) = Some pd \<and> pd \<in> set (page_pool s2) \<and>
    cpu_env (cpus s2 ! c) = Some e"
proof -
  have einv: "env_inv s" using inv by (simp add: kern_inv_def)
  define s1 where "s1 = upd_env e (\<lambda>x. x\<lparr>env_status := ENV_DYING\<rparr>) s"
  have len: "length (envs s) = NENV" by (rule env_inv_D(1) [OF einv])
  have live: "env_status (envs s ! e) \<noteq> ENV_FREE" using e(3) by simp
  have id: "ENVX (env_id (envs s ! e)) = e" "env_id (envs s ! e) \<noteq> 0"
    using valid_ENVX [OF e(1) env_inv_D(5) [OF einv e(1)]] env_inv_D(6) [OF einv e(1) live] by auto
  have d1: "sys_env_destroy cfg (env_id (envs s ! e)) s = Inr (Returns 0, s1)"
    using id e p by (simp add: sys_env_destroy_def with_env_def envid2env_def env_destroy_def Let_def s1_def)
  have n1: "envs s1 ! e = (envs s ! e)\<lparr>env_status := ENV_DYING\<rparr>" "envs s1 ! p = envs s ! p" "curenv s1 = Some p"
    using e(1,2) len p by (simp_all add: s1_def nth_upd)
  obtain pd where pd: "env_pgdir (envs s ! e) = Some pd" using env_inv_D(7) [OF einv e(1) live] by blast
  have k1: "kern_inv ext s1" unfolding s1_def by (rule kern_inv_status [OF inv e(1) live]) simp
  have l1: "env_status (envs s1 ! e) \<noteq> ENV_FREE" "env_pgdir (envs s1 ! e) = Some pd" using n1 pd by simp_all
  obtain s2 where s2: "env_free e s1 = Inr s2" "env_status (envs s2 ! e) = ENV_FREE" "pd \<in> set (page_pool s2)"
    "cpus s2 = cpus s1" "curenv s2 = curenv s1"
    by (rule env_free_gone [OF k1 e(1) l1]) (rule that; assumption)
  have "sys_env_destroy cfg (env_id (envs s ! e)) s1 = Inr (Returns 0, s2)"
    using id e n1 s2(1,5) by (simp add: sys_env_destroy_def with_env_def envid2env_def env_destroy_def Let_def)
  moreover have "cpu_env (cpus s2 ! c) = Some e" using s2(4) c by (simp add: s1_def)
  ultimately show ?thesis
    by (intro exI [of _ s1] exI [of _ s2] exI [of _ pd]) (simp add: d1 n1 s2 pd)
qed

theorem second_destroy_frees_running_witness:
  "\<exists>s s1 s2. cpu_env (cpus s ! 1) = Some 1 \<and> sys_env_destroy SCHED_ROUND_ROBIN 0x1001 s = Inr (Returns 0, s1) \<and>
     sys_env_destroy SCHED_ROUND_ROBIN 0x1001 s1 = Inr (Returns 0, s2) \<and> 4 \<in> set (page_pool s2)"
proof -
  obtain s where s: "kern_inv (\<lambda>_. 0) s" "env_pgdir (envs s ! 1) = Some 4" "env_status (envs s ! 1) = ENV_RUNNING"
    "env_id (envs s ! 0) = 0x1000" "env_id (envs s ! 1) = 0x1001" "env_parent_id (envs s ! 1) = 0x1000"
    "cpus s = [\<lparr>cpu_status = CPU_STARTED, cpu_env = Some 0\<rparr>, \<lparr>cpu_status = CPU_STARTED, cpu_env = Some 1\<rparr>]"
    "thiscpu s = 0"
    by (rule small_two_envs) (rule that; assumption)
  have cur: "curenv s = Some 0" using s(7,8) by (simp add: curenv_def)
  have one: "cpu_env (cpus s ! 1) = Some 1" using s(7) by simp
  obtain s1 s2 where "sys_env_destroy SCHED_ROUND_ROBIN 0x1001 s = Inr (Returns 0, s1)"
    "sys_env_destroy SCHED_ROUND_ROBIN 0x1001 s1 = Inr (Returns 0, s2)" "4 \<in> set (page_pool s2)"
    using second_destroy_frees_running [OF s(1) cur one, of SCHED_ROUND_ROBIN] s(2-6) by auto
  with one show ?thesis by blast
qed

end
