(* ===== verification/KTrap.thy ===== *)
theory KTrap
  imports KSyscall
begin

text \<open>
  Traps: \<^verbatim>\<open>src/3-sched/kern/trap.c\<close>. The trap frame that the hardware pushed and the faulting address in
  \<open>%cr2\<close> are arguments. The kernel monitor, entered on a breakpoint, returns and changes nothing; what is
  printed is left out.
\<close>

section \<open>Vectors\<close>

abbreviation (input) T_BRKPT :: u32 where "T_BRKPT \<equiv> 3"
abbreviation (input) T_PGFLT :: u32 where "T_PGFLT \<equiv> 14"
abbreviation (input) T_SYSCALL :: u32 where "T_SYSCALL \<equiv> 48"
abbreviation (input) IRQ_OFFSET :: u32 where "IRQ_OFFSET \<equiv> 32"
abbreviation (input) IRQ_TIMER :: u32 where "IRQ_TIMER \<equiv> 0"
abbreviation (input) IRQ_SPURIOUS :: u32 where "IRQ_SPURIOUS \<equiv> 7"
abbreviation (input) GD_KT :: u16 where "GD_KT \<equiv> 0x08"
abbreviation (input) KSTKSIZE :: u32 where "KSTKSIZE \<equiv> 8 * PGSIZE"
abbreviation (input) KSTKGAP :: u32 where "KSTKGAP \<equiv> 8 * PGSIZE"

definition excnames :: "string list" where
  "excnames =
     [''Divide error'', ''Debug'', ''Non-Maskable Interrupt'', ''Breakpoint'', ''Overflow'',
      ''BOUND Range Exceeded'', ''Invalid Opcode'', ''Device Not Available'', ''Double Fault'',
      ''Coprocessor Segment Overrun'', ''Invalid TSS'', ''Segment Not Present'', ''Stack Fault'',
      ''General Protection'', ''Page Fault'', ''(unknown trap)'', ''x87 FPU Floating-Point Error'',
      ''Alignment Check'', ''Machine-Check'', ''SIMD Floating-Point Exception'']"

text \<open>The comparison with the size of the table is unsigned.\<close>

definition trapname :: "u32 \<Rightarrow> string" where
  "trapname trapno =
     (if unat trapno < length excnames then excnames ! unat trapno
      else if trapno = T_SYSCALL then ''System call''
      else if sint trapno \<ge> sint IRQ_OFFSET \<and> sint trapno < sint IRQ_OFFSET + 16 then ''Hardware Interrupt''
      else ''(unknown trap)'')"

text \<open>The gates that \<open>trap_init\<close> sets: the vector and the privilege that may invoke it by an instruction.\<close>

definition idt_gates :: "(u32 \<times> nat) list" where
  "idt_gates =
     [(0, 0), (1, 0), (2, 0), (T_BRKPT, 3), (4, 0), (5, 0), (6, 0), (7, 0), (8, 0), (10, 0), (11, 0),
      (12, 0), (13, 0), (T_PGFLT, 0), (16, 0), (17, 0), (18, 0), (19, 0), (T_SYSCALL, 3),
      (IRQ_OFFSET + IRQ_TIMER, 0)]"

text \<open>The stack a CPU switches to on a trap from user mode.\<close>

definition ts_esp0 :: "nat \<Rightarrow> u32" where
  "ts_esp0 cpu = KERNBASE - word_of_nat cpu * (KSTKGAP + KSTKSIZE)"

section \<open>Storing through the page tables\<close>

text \<open>
  A store of the kernel to a user address, byte by byte, since the address need not be aligned. The
  processor refuses read-only pages to the kernel as well; a refused store is a page fault in the
  kernel.
\<close>

definition translate_write :: "kstate \<Rightarrow> u32 \<Rightarrow> nat option" where
  "translate_write s va =
     (let pde = phys s (cr3 s) (PDX va)
      in if pde AND PTE_P = 0 \<or> pde AND PTE_W = 0 then None
         else let pte = phys s (PGNUM (PTE_ADDR pde)) (PTX va)
           in if pte AND PTE_P = 0 \<or> pte AND PTE_W = 0 then None else Some (PGNUM (PTE_ADDR pte)))"

definition put_byte :: "nat \<Rightarrow> 8 word \<Rightarrow> u32 \<Rightarrow> u32" where
  "put_byte k b w = (w AND NOT (push_bit (8 * k) 0xFF)) OR push_bit (8 * k) (ucast b)"

definition store_byte :: "u32 \<Rightarrow> 8 word \<Rightarrow> kstate \<Rightarrow> kstate cres" where
  "store_byte va b s =
     (case translate_write s va of
        None \<Rightarrow> Inl (Panic ''page fault in kernel mode'')
      | Some p \<Rightarrow>
          let off = unat (va AND 0xFFF)
          in Inr (write_word p (off div 4) (put_byte (off mod 4) b (phys s p (off div 4))) s))"

fun store_bytes :: "u32 \<Rightarrow> 8 word list \<Rightarrow> kstate \<Rightarrow> kstate cres" where
  "store_bytes va [] s = Inr s"
| "store_bytes va (b # bs) s = bindR (store_byte va b s) (store_bytes (va + 1) bs)"

definition word_bytes :: "u32 \<Rightarrow> 8 word list" where
  "word_bytes w = map (\<lambda>k. ucast (drop_bit (8 * k) w)) [0, 1, 2, 3]"

section \<open>Page faults\<close>

record utrapframe =
  utf_fault_va :: u32
  utf_err :: u32
  utf_regs :: push_regs
  utf_eip :: u32
  utf_eflags :: u32
  utf_esp :: u32

definition reg_words :: "push_regs \<Rightarrow> u32 list" where
  "reg_words r = [reg_edi r, reg_esi r, reg_ebp r, reg_oesp r, reg_ebx r, reg_edx r, reg_ecx r, reg_eax r]"

definition utf_bytes :: "utrapframe \<Rightarrow> 8 word list" where
  "utf_bytes u =
     concat (map word_bytes ([utf_fault_va u, utf_err u] @ reg_words (utf_regs u) @
       [utf_eip u, utf_eflags u, utf_esp u]))"

definition make_utf :: "u32 \<Rightarrow> trapframe \<Rightarrow> utrapframe" where
  "make_utf fault_va tf =
     \<lparr>utf_fault_va = fault_va, utf_err = tf_err tf, utf_regs = tf_regs tf, utf_eip = tf_eip tf,
      utf_eflags = tf_eflags tf, utf_esp = tf_esp tf\<rparr>"

abbreviation (input) UTF_SIZE :: u32 where "UTF_SIZE \<equiv> 52"

text \<open>
  The frame goes to the exception stack: at its top for the first fault, below the faulting stack
  pointer and a spare word for a fault of the handler. The stores come before the overflow check.
\<close>

definition push_utf :: "u32 \<Rightarrow> trapframe \<Rightarrow> kstate \<Rightarrow> (u32 \<times> kstate) cres" where
  "push_utf fault_va tf s =
     (let exstk = UXSTACKTOP - PGSIZE;
          exstk_top = UXSTACKTOP - 1;
          utf = make_utf fault_va tf
      in bindR
           (if utf_esp utf < exstk \<or> utf_esp utf > exstk_top then Inr (exstk_top - UTF_SIZE, s)
            else bindR (store_bytes (utf_esp utf - 4) (word_bytes 0) s)
                   (\<lambda>s1. Inr (utf_esp utf - 4 - UTF_SIZE, s1)))
           (\<lambda>(tmp, s1).
         bindR (store_bytes tmp (utf_bytes utf) s1) (\<lambda>s2.
         bindR (guardR (\<not> (tmp < exstk \<or> tmp > exstk_top)) (Panic ''page_fault_handler: exception stack overflow'')) (\<lambda>_.
           Inr (tmp, s2)))))"

definition page_fault_handler ::
  "sched_config \<Rightarrow> u32 \<Rightarrow> trapframe \<Rightarrow> kstate \<Rightarrow> (resume option \<times> kstate) cres" where
  "page_fault_handler cfg cr2 tf s =
     bindR (guardR (tf_cs tf AND 3 \<noteq> 0) (Panic ''page fault in kernel mode'')) (\<lambda>_.
       with_curenv (\<lambda>c s.
         if env_pgfault_upcall (envs s ! c) \<noteq> 0 then
           bindR (user_mem_assert cfg c (UXSTACKTOP - PGSIZE) PGSIZE (PTE_U OR PTE_W) s) (\<lambda>(left, s1).
             case left of
               Some r \<Rightarrow> Inr (Some r, s1)
             | None \<Rightarrow>
                 bindR (push_utf cr2 tf s1) (\<lambda>(tmp, s2).
                   let s3 = upd_env c (\<lambda>e. e\<lparr>env_tf := (env_tf e)\<lparr>tf_esp := tmp, tf_eip := env_pgfault_upcall e\<rparr>\<rparr>) s2
                   in bindR (env_run c s3) (\<lambda>(r, s4). Inr (Some r, s4))))
         else env_destroy cfg c s) s)"

section \<open>Dispatch\<close>

text \<open>
  \<open>None\<close> means that the handler returned. For a trap from user mode \<open>tf\<close> is a copy of the saved frame of
  the environment \<open>owner\<close>, which receives the result of a system call.
\<close>

definition trap_dispatch ::
  "sched_config \<Rightarrow> int \<Rightarrow> u32 \<Rightarrow> nat option \<Rightarrow> trapframe \<Rightarrow> kstate \<Rightarrow> (resume option \<times> kstate) cres" where
  "trap_dispatch cfg key cr2 owner tf s =
     (let no = tf_trapno tf; regs = tf_regs tf
      in if no = T_BRKPT then Inr (None, s)
         else if no = T_PGFLT then page_fault_handler cfg cr2 tf s
         else if no = T_SYSCALL then
           bindR (syscall cfg key (reg_eax regs) (reg_edx regs) (reg_ecx regs) (reg_ebx regs)
                    (reg_edi regs) (reg_esi regs) s) (\<lambda>(r, s1).
             case r of
               Leaves w \<Rightarrow> Inr (Some w, s1)
             | Returns v \<Rightarrow>
                 Inr (None, (case owner of
                   None \<Rightarrow> s1
                 | Some c \<Rightarrow> upd_env c (\<lambda>e. e\<lparr>env_tf := (env_tf e)\<lparr>tf_regs :=
                     (tf_regs (env_tf e))\<lparr>reg_eax := word_of_int v\<rparr>\<rparr>\<rparr>) s1)))
         else if no = IRQ_OFFSET + IRQ_SPURIOUS then Inr (None, s)
         else if no - IRQ_OFFSET = IRQ_TIMER then
           bindR (sched_yield cfg s) (\<lambda>(r, s1). Inr (Some r, s1))
         else if tf_cs tf = GD_KT then Inl (Panic ''unhandled trap in kernel'')
         else with_curenv (\<lambda>c s. env_destroy cfg c s) s)"

section \<open>Entry\<close>

text \<open>
  The lock is taken by \<open>spin_lock\<close> turns; a turn that does not get it leaves the CPU spinning (the
  result \<open>None\<close>), and the trap goes on when another turn succeeds.
\<close>

definition lock_turn :: "kstate \<Rightarrow> (kstate \<Rightarrow> (resume option \<times> kstate) cres) \<Rightarrow> (resume option \<times> kstate) cres" where
  "lock_turn s k = bindR (spin_lock s) (\<lambda>(acquired, s1). if acquired then k s1 else Inr (None, s1))"

definition set_cpu_status :: "cpu_status \<Rightarrow> kstate \<Rightarrow> kstate" where
  "set_cpu_status st s = s\<lparr>cpus := (cpus s)[thiscpu s := (cpus s ! thiscpu s)\<lparr>cpu_status := st\<rparr>]\<rparr>"

text \<open>After the dispatch returned: back to the current environment, or to the scheduler.\<close>

definition trap_return :: "sched_config \<Rightarrow> kstate \<Rightarrow> (resume \<times> kstate) cres" where
  "trap_return cfg s =
     (case curenv s of
        Some c \<Rightarrow> if env_status (envs s ! c) = ENV_RUNNING then env_run c s else sched_yield cfg s
      | None \<Rightarrow> sched_yield cfg s)"

definition trap_finish :: "sched_config \<Rightarrow> int \<Rightarrow> u32 \<Rightarrow> nat option \<Rightarrow> trapframe \<Rightarrow> kstate \<Rightarrow> (resume option \<times> kstate) cres" where
  "trap_finish cfg key cr2 owner tf s =
     bindR (trap_dispatch cfg key cr2 owner tf s) (\<lambda>(left, s1).
       case left of
         Some r \<Rightarrow> Inr (Some r, s1)
       | None \<Rightarrow> bindR (trap_return cfg s1) (\<lambda>(r, s2). Inr (Some r, s2)))"

text \<open>The part of \<open>trap\<close> for a trap from user mode, with the lock held.\<close>

definition trap_user :: "sched_config \<Rightarrow> int \<Rightarrow> u32 \<Rightarrow> trapframe \<Rightarrow> kstate \<Rightarrow> (resume option \<times> kstate) cres" where
  "trap_user cfg key cr2 tf s =
     (case curenv s of
        None \<Rightarrow> Inl (Panic ''assertion failed: curenv'')
      | Some c \<Rightarrow>
          if env_status (envs s ! c) = ENV_DYING then
            bindR (env_free c s) (\<lambda>s1.
            bindR (sched_yield cfg (set_curenv None s1)) (\<lambda>(r, s2). Inr (Some r, s2)))
          else trap_finish cfg key cr2 (Some c) tf (upd_env c (\<lambda>e. e\<lparr>env_tf := tf\<rparr>) s))"

definition trap :: "sched_config \<Rightarrow> int \<Rightarrow> u32 \<Rightarrow> trapframe \<Rightarrow> kstate \<Rightarrow> (resume option \<times> kstate) cres" where
  "trap cfg key cr2 tf s =
     (let halted = (cpu_status (cpus s ! thiscpu s) = CPU_HALTED);
          s1 = set_cpu_status CPU_STARTED s;
          body = (\<lambda>s. if tf_cs tf AND 3 = 3 then lock_turn s (trap_user cfg key cr2 tf)
                      else trap_finish cfg key cr2 None tf s)
      in if halted then lock_turn s1 body else body s1)"

section \<open>Properties\<close>

lemma user_gates: "map fst (filter (\<lambda>(v, dpl). dpl = 3) idt_gates) = [T_BRKPT, T_SYSCALL]"
  by (simp add: idt_gates_def)

lemma store_bytes_panics: "store_bytes va bs s = Inl e \<Longrightarrow> \<exists>msg. e = Panic msg"
proof (induction bs arbitrary: va s)
  case (Cons b bs)
  then show ?case
    by (cases "translate_write s va") (auto simp: store_byte_def Let_def)
qed simp

lemma length_utf_bytes: "length (utf_bytes u) = 52"
  by (simp add: utf_bytes_def reg_words_def word_bytes_def)

text \<open>C37: A fault of the page fault handler itself, with less than 56 bytes left on the exception stack,
  brings the whole kernel down: it panics (in a store below the stack or in the overflow check)
  instead of destroying the environment.\<close>

theorem exception_stack_overflow_panics:
  assumes "tf_cs tf AND 3 \<noteq> 0" "curenv s = Some c" "env_pgfault_upcall (envs s ! c) \<noteq> 0"
    and "user_mem_check c (UXSTACKTOP - PGSIZE) PGSIZE (PTE_U OR PTE_W OR PTE_U) s = Inr (0, s1)"
    and "UXSTACKTOP - PGSIZE \<le> tf_esp tf" "tf_esp tf < UXSTACKTOP - PGSIZE + 56"
  shows "\<exists>msg. page_fault_handler cfg cr2 tf s = Inl (Panic msg)"
proof -
  let ?lo = "UXSTACKTOP - PGSIZE"
  have "user_mem_assert cfg c ?lo PGSIZE (PTE_U OR PTE_W) s = Inr (None, s1)"
    using assms(4) by (simp add: user_mem_assert_def)
  then have pf: "page_fault_handler cfg cr2 tf s =
      bindR (push_utf cr2 tf s1) (\<lambda>(tmp, s2).
        let s3 = upd_env c (\<lambda>e. e\<lparr>env_tf := (env_tf e)\<lparr>tf_esp := tmp, tf_eip := env_pgfault_upcall e\<rparr>\<rparr>) s2
        in bindR (env_run c s3) (\<lambda>(r, s4). Inr (Some r, s4)))"
    using assms(1-3) by (simp add: page_fault_handler_def with_curenv_def)
  have esp: "\<not> (tf_esp tf < ?lo \<or> tf_esp tf > UXSTACKTOP - 1)"
    using assms(5,6) by (auto simp: word_less_nat_alt word_le_nat_alt)
  have low: "tf_esp tf - 4 - 52 < ?lo"
  proof -
    have "unat (tf_esp tf - 56) = unat (tf_esp tf) - 56"
      using assms(5) by (subst unat_sub) (auto simp: word_le_nat_alt)
    moreover have "tf_esp tf - 4 - 52 = tf_esp tf - 56" by simp
    ultimately show ?thesis using assms(5,6) by (simp add: word_less_nat_alt word_le_nat_alt)
  qed
  have "\<exists>msg. push_utf cr2 tf s1 = Inl (Panic msg)"
  proof (cases "store_bytes (tf_esp tf - 4) (word_bytes 0) s1")
    case (Inl e)
    then show ?thesis using esp store_bytes_panics [OF Inl]
      by (auto simp: push_utf_def make_utf_def Let_def)
  next
    case (Inr s2)
    show ?thesis
    proof (cases "store_bytes (tf_esp tf - 4 - 52) (utf_bytes (make_utf cr2 tf)) s2")
      case (Inl e)
      then show ?thesis using esp Inr store_bytes_panics [OF Inl]
        by (auto simp: push_utf_def make_utf_def Let_def)
    next
      case inr: (Inr s3)
      then show ?thesis using esp Inr low
        by (simp add: push_utf_def make_utf_def Let_def)
    qed
  qed
  then show ?thesis unfolding pf by auto
qed

text \<open>One environment with a handler and an exception stack page: directory, table and stack are pages 1, 2, 3.\<close>

definition stack_kernel :: kstate where
  "stack_kernel =
     \<lparr>npages = 4, pages = replicate 4 \<lparr>pp_link = None, pp_ref = 1\<rparr>, page_free_list = None,
      phys = (\<lambda>p i. if p = 1 \<and> i = PDX 0xEEBFF000 then 0x2007 else if p = 2 \<and> i = PTX 0xEEBFF000 then 0x3007 else 0),
      kern_pgdir = 1, cr3 = 1, invlpgs = [], nextfree = None, mmio_base = MMIOBASE, user_mem_check_addr = 0,
      envs = [zero_env\<lparr>env_pgdir := Some 1, env_pgfault_upcall := 0x800000, env_status := ENV_RUNNING\<rparr>],
      env_free_list = None, cpus = [\<lparr>cpu_status = CPU_STARTED, cpu_env = Some 0\<rparr>], thiscpu = 0,
      kernel_lock = \<lparr>locked = 1, lock_cpu = Some 0\<rparr>, sched_stats = zero_sched_stats\<rparr>"

lemma exception_stack_overflow_panics_witness:
  "\<exists>msg. page_fault_handler SCHED_ROUND_ROBIN 0xDEADBEEF (user_tf\<lparr>tf_esp := 0xEEBFF010\<rparr>) stack_kernel = Inl (Panic msg)"
proof -
  have r: "va_range (ROUNDDOWN 0xEEBFF000 PGSIZE) (ROUNDUP (0xEEBFF000 + PGSIZE) PGSIZE) = [0xEEBFF000]"
    "ROUNDUP (0xEEBFF000 + PGSIZE) PGSIZE = 0xEEC00000"
    "va_range (ROUNDDOWN 0xEEBFF000 PGSIZE) 0xEEC00000 = [0xEEBFF000]"
    by (simp_all add: va_range_def ROUNDDOWN_def ROUNDUP_def)
  have x: "PDX 0xEEBFF000 = 0x3BA" "PTX 0xEEBFF000 = 0x3FF" by (simp_all add: PDX_def PTX_def)
  have w: "pgdir_walk 1 0xEEBFF000 False stack_kernel = Inr (Some (2, 0x3FF), stack_kernel)"
    by (simp add: pgdir_walk_def stack_kernel_def x KADDR_def PTE_ADDR_def PGNUM_def)
  have "phys stack_kernel 2 0x3FF = 0x3007" "env_pgdir (envs stack_kernel ! 0) = Some 1"
    by (simp_all add: stack_kernel_def x)
  then obtain s1 where "user_mem_check 0 (UXSTACKTOP - PGSIZE) PGSIZE (PTE_U OR PTE_W OR PTE_U) stack_kernel = Inr (0, s1)"
    by (simp add: user_mem_check_def r [simplified] w [simplified])
  moreover have "tf_cs (user_tf\<lparr>tf_esp := 0xEEBFF010\<rparr>) AND 3 \<noteq> 0" by (simp add: user_tf_def)
  ultimately show ?thesis
    using exception_stack_overflow_panics [of "user_tf\<lparr>tf_esp := 0xEEBFF010\<rparr>" stack_kernel 0 s1]
    by (simp add: stack_kernel_def curenv_def)
qed

end
