(* ===== verification/UserFork.thy ===== *)
theory UserFork
  imports KSyscall
begin

text \<open>
  The user side of the system calls and what is built on them: \<^verbatim>\<open>src/3-sched/lib/syscall.c\<close>, \<^verbatim>\<open>fork.c\<close>,
  \<^verbatim>\<open>pgfault.c\<close> and \<^verbatim>\<open>ipc.c\<close>. The functions run in the current environment on the kernel state; saving and
  restoring the registers around a system call is left to the model of traps. A function may stop
  inside the kernel, in a panic or a page fault of the program, or because the CPU goes on with
  something else.
\<close>

datatype user_stop =
    InKernel fault
  | UserPanic string
  | UserFault u32
  | OffCpu resume kstate

type_synonym 'a ures = "user_stop + 'a"

definition bindU :: "'a ures \<Rightarrow> ('a \<Rightarrow> 'b ures) \<Rightarrow> 'b ures" where
  "bindU m f = (case m of Inl e \<Rightarrow> Inl e | Inr x \<Rightarrow> f x)"

lemma bindU_simps [simp]: "bindU (Inl e) f = Inl e" "bindU (Inr x) f = f x"
  by (simp_all add: bindU_def)

fun foldU :: "('a \<Rightarrow> 's \<Rightarrow> 's ures) \<Rightarrow> 'a list \<Rightarrow> 's \<Rightarrow> 's ures" where
  "foldU f [] s = Inr s"
| "foldU f (x # xs) s = bindU (f x s) (foldU f xs)"

section \<open>System calls\<close>

definition user_syscall ::
  "sched_config \<Rightarrow> int \<Rightarrow> u32 \<Rightarrow> bool \<Rightarrow> u32 \<Rightarrow> u32 \<Rightarrow> u32 \<Rightarrow> u32 \<Rightarrow> u32 \<Rightarrow> kstate \<Rightarrow> (int \<times> kstate) ures" where
  "user_syscall cfg key num check a1 a2 a3 a4 a5 s =
     (case syscall cfg key num a1 a2 a3 a4 a5 s of
        Inl f \<Rightarrow> Inl (InKernel f)
      | Inr (Leaves r, s') \<Rightarrow> Inl (OffCpu r s')
      | Inr (Returns v, s') \<Rightarrow>
          if check \<and> v > 0 then Inl (UserPanic ''syscall %d returned %d (> 0)'') else Inr (v, s'))"

definition usys_cputs :: "sched_config \<Rightarrow> u32 \<Rightarrow> u32 \<Rightarrow> kstate \<Rightarrow> kstate ures" where
  "usys_cputs cfg str len s = bindU (user_syscall cfg 0 0 False str len 0 0 0 s) (\<lambda>(_, s1). Inr s1)"

definition usys_cgetc :: "sched_config \<Rightarrow> int \<Rightarrow> kstate \<Rightarrow> (int \<times> kstate) ures" where
  "usys_cgetc cfg key = user_syscall cfg key 1 False 0 0 0 0 0"

definition usys_getenvid :: "sched_config \<Rightarrow> kstate \<Rightarrow> (int \<times> kstate) ures" where
  "usys_getenvid cfg = user_syscall cfg 0 2 False 0 0 0 0 0"

definition usys_env_destroy :: "sched_config \<Rightarrow> u32 \<Rightarrow> kstate \<Rightarrow> (int \<times> kstate) ures" where
  "usys_env_destroy cfg envid = user_syscall cfg 0 3 True envid 0 0 0 0"

definition usys_page_alloc :: "sched_config \<Rightarrow> u32 \<Rightarrow> u32 \<Rightarrow> u32 \<Rightarrow> kstate \<Rightarrow> (int \<times> kstate) ures" where
  "usys_page_alloc cfg envid va perm = user_syscall cfg 0 4 True envid va perm 0 0"

definition usys_page_map ::
  "sched_config \<Rightarrow> u32 \<Rightarrow> u32 \<Rightarrow> u32 \<Rightarrow> u32 \<Rightarrow> u32 \<Rightarrow> kstate \<Rightarrow> (int \<times> kstate) ures" where
  "usys_page_map cfg srcenv srcva dstenv dstva perm = user_syscall cfg 0 5 True srcenv srcva dstenv dstva perm"

definition usys_page_unmap :: "sched_config \<Rightarrow> u32 \<Rightarrow> u32 \<Rightarrow> kstate \<Rightarrow> (int \<times> kstate) ures" where
  "usys_page_unmap cfg envid va = user_syscall cfg 0 6 True envid va 0 0 0"

definition usys_exofork :: "sched_config \<Rightarrow> kstate \<Rightarrow> (int \<times> kstate) ures" where
  "usys_exofork cfg = user_syscall cfg 0 7 False 0 0 0 0 0"

definition usys_env_set_status :: "sched_config \<Rightarrow> u32 \<Rightarrow> u32 \<Rightarrow> kstate \<Rightarrow> (int \<times> kstate) ures" where
  "usys_env_set_status cfg envid status = user_syscall cfg 0 8 True envid status 0 0 0"

definition usys_env_set_pgfault_upcall :: "sched_config \<Rightarrow> u32 \<Rightarrow> u32 \<Rightarrow> kstate \<Rightarrow> (int \<times> kstate) ures" where
  "usys_env_set_pgfault_upcall cfg envid upcall = user_syscall cfg 0 9 True envid upcall 0 0 0"

definition usys_yield :: "sched_config \<Rightarrow> kstate \<Rightarrow> kstate ures" where
  "usys_yield cfg s = bindU (user_syscall cfg 0 10 False 0 0 0 0 0 s) (\<lambda>(_, s1). Inr s1)"

definition usys_ipc_try_send :: "sched_config \<Rightarrow> u32 \<Rightarrow> u32 \<Rightarrow> u32 \<Rightarrow> u32 \<Rightarrow> kstate \<Rightarrow> (int \<times> kstate) ures" where
  "usys_ipc_try_send cfg envid val srcva perm = user_syscall cfg 0 11 False envid val srcva perm 0"

definition usys_ipc_recv :: "sched_config \<Rightarrow> u32 \<Rightarrow> kstate \<Rightarrow> (int \<times> kstate) ures" where
  "usys_ipc_recv cfg dstva = user_syscall cfg 0 12 True dstva 0 0 0 0"

definition usys_get_priority :: "sched_config \<Rightarrow> kstate \<Rightarrow> (int \<times> kstate) ures" where
  "usys_get_priority cfg = user_syscall cfg 0 13 False 0 0 0 0 0"

definition usys_set_priority :: "sched_config \<Rightarrow> u32 \<Rightarrow> kstate \<Rightarrow> (int \<times> kstate) ures" where
  "usys_set_priority cfg new_priority = user_syscall cfg 0 14 False new_priority 0 0 0 0"

section \<open>Memory of the running program\<close>

text \<open>
  A user access goes through the page tables in use: both entries need the given bits. The page tables
  themselves are readable at \<open>UVPT\<close>, since the page directory is entered there as one of its own tables.
\<close>

abbreviation (input) PTE_COW :: u32 where "PTE_COW \<equiv> 0x800"
abbreviation (input) UTEMP :: u32 where "UTEMP \<equiv> 0x400000"
abbreviation (input) PFTEMP :: u32 where "PFTEMP \<equiv> 0x7FF000"
abbreviation (input) FEC_WR :: u32 where "FEC_WR \<equiv> 2"

definition user_page :: "u32 \<Rightarrow> u32 \<Rightarrow> kstate \<Rightarrow> nat ures" where
  "user_page need va s =
     (let pde = phys s (cr3 s) (PDX va); pte = phys s (PGNUM (PTE_ADDR pde)) (PTX va)
      in if pde AND need \<noteq> need \<or> pte AND need \<noteq> need then Inl (UserFault va)
         else Inr (PGNUM (PTE_ADDR pte)))"

definition user_word :: "kstate \<Rightarrow> u32 \<Rightarrow> u32 ures" where
  "user_word s va = bindU (user_page (PTE_P OR PTE_U) va s) (\<lambda>p. Inr (phys s p (unat (va AND 0xFFF) div 4)))"

definition uvpt :: "kstate \<Rightarrow> nat \<Rightarrow> u32 ures" where
  "uvpt s n = user_word s (UVPT + 4 * word_of_nat n)"

definition uvpd :: "kstate \<Rightarrow> nat \<Rightarrow> u32 ures" where
  "uvpd s i = user_word s (UVPT + drop_bit 12 UVPT * 4 + 4 * word_of_nat i)"

text \<open>\<open>memmove\<close> of one page between page-aligned addresses.\<close>

definition move_page :: "u32 \<Rightarrow> u32 \<Rightarrow> kstate \<Rightarrow> kstate ures" where
  "move_page dst src s =
     bindU (user_page (PTE_P OR PTE_U) src s) (\<lambda>q.
     bindU (user_page (PTE_P OR PTE_U OR PTE_W) dst s) (\<lambda>p.
       Inr (s\<lparr>phys := (phys s)(p := phys s q)\<rparr>)))"

text \<open>\<open>if ((r = call) < 0) panic(msg);\<close>\<close>

definition or_panic :: "(int \<times> kstate) ures \<Rightarrow> string \<Rightarrow> kstate ures" where
  "or_panic m msg = bindU m (\<lambda>(r, s). if r < 0 then Inl (UserPanic msg) else Inr s)"

section \<open>The page fault handler\<close>

definition pgfault :: "sched_config \<Rightarrow> u32 \<Rightarrow> u32 \<Rightarrow> kstate \<Rightarrow> kstate ures" where
  "pgfault cfg fault_va err s =
     bindU (uvpt s (PGNUM fault_va)) (\<lambda>fault_pte.
       if (err AND FEC_WR) AND (if fault_pte AND PTE_COW = 0 then 1 else 0) \<noteq> 0
       then Inl (UserPanic ''pgfault: write fault on a non COW page'')
       else
         let perm = PTE_P OR PTE_U OR PTE_W; addr = ROUNDDOWN fault_va PGSIZE
         in bindU (or_panic (usys_page_alloc cfg 0 PFTEMP perm s) ''pgfault: sys_page_alloc: %e'') (\<lambda>s1.
            bindU (move_page PFTEMP addr s1) (\<lambda>s2.
            bindU (or_panic (usys_page_map cfg 0 PFTEMP 0 addr perm s2) ''pgfault: sys_page_map: %e'') (\<lambda>s3.
              or_panic (usys_page_unmap cfg 0 PFTEMP s3) ''pgfault: sys_page_unmap: %e''))))"

text \<open>
  \<open>_pgfault_handler\<close> is a variable of the program (0 when no handler is installed); \<open>upcall\<close> is the
  address of the assembly entry point. A failing call returns without installing anything.
\<close>

definition set_pgfault_handler :: "sched_config \<Rightarrow> u32 \<Rightarrow> u32 \<Rightarrow> u32 \<Rightarrow> kstate \<Rightarrow> (u32 \<times> kstate) ures" where
  "set_pgfault_handler cfg upcall handler old s =
     (if old \<noteq> 0 then Inr (handler, s)
      else bindU (usys_page_alloc cfg 0 (UXSTACKTOP - PGSIZE) (PTE_U OR PTE_P OR PTE_W) s) (\<lambda>(r, s1).
        if r < 0 then Inr (old, s1)
        else bindU (usys_env_set_pgfault_upcall cfg 0 upcall s1) (\<lambda>(r2, s2).
          if r2 < 0 then Inr (old, s2) else Inr (handler, s2))))"

section \<open>Copying an address space\<close>

definition duppage :: "sched_config \<Rightarrow> u32 \<Rightarrow> nat \<Rightarrow> kstate \<Rightarrow> (int \<times> kstate) ures" where
  "duppage cfg envid pn s =
     (let addr = push_bit 12 (word_of_nat pn)
      in bindU (uvpt s pn) (\<lambda>pte.
        if pte AND PTE_P = 0 \<or> pte AND PTE_U = 0
        then Inl (UserPanic ''duppage: copy a non-present or non-user page'')
        else
          let perm0 = PTE_U OR PTE_P;
              perm = (if pte AND (PTE_PCD OR PTE_PWT) \<noteq> 0 then perm0 OR (PTE_PCD OR PTE_PWT) else perm0)
          in bindU
            (if pte AND PTE_W \<noteq> 0 \<or> pte AND PTE_COW \<noteq> 0 then
               bindU (or_panic (usys_page_map cfg 0 addr envid addr (perm OR PTE_COW) s)
                        ''duppage: sys_page_map on childern COW: %e'') (\<lambda>s1.
                 or_panic (usys_page_map cfg 0 addr 0 addr (perm OR PTE_COW) s1)
                   ''duppage: sys_page_map on parent COW: %e'')
             else or_panic (usys_page_map cfg 0 addr envid addr perm s)
                    ''duppage: sys_page_map on childern RO: %e'')
            (\<lambda>s2. Inr (0, s2))))"

definition dup_or_share :: "sched_config \<Rightarrow> u32 \<Rightarrow> nat \<Rightarrow> u32 \<Rightarrow> kstate \<Rightarrow> kstate ures" where
  "dup_or_share cfg envid pnum perm0 s =
     (let addr = push_bit 12 (word_of_nat pnum)
      in bindU (uvpt s pnum) (\<lambda>pte.
        if pte AND PTE_P = 0 then Inr s
        else
          let perm1 = (perm0 AND (pte AND PTE_W)) AND PTE_SYSCALL;
              io = (pte AND (PTE_PCD OR PTE_PWT) \<noteq> 0);
              perm = (if io then perm1 OR (PTE_PCD OR PTE_PWT) else perm1)
          in if pte AND PTE_W = 0 \<or> io then
               or_panic (usys_page_map cfg 0 addr envid addr perm s) ''dup_or_share: sys_page_map: %e''
             else
               bindU (or_panic (usys_page_alloc cfg envid addr perm s) ''dup_or_share: sys_page_alloc: %e'') (\<lambda>s1.
               bindU (or_panic (usys_page_map cfg envid addr 0 UTEMP perm s1) ''dup_or_share: sys_page_map: %e'') (\<lambda>s2.
               bindU (move_page UTEMP addr s2) (\<lambda>s3.
                 or_panic (usys_page_unmap cfg 0 UTEMP s3) ''sys_page_unmap: %e'')))))"

section \<open>Fork\<close>

text \<open>
  The variables of the program: the slot \<open>thisenv\<close> points to and \<open>_pgfault_handler\<close>. Parent and child
  both continue after the call of \<open>sys_exofork\<close>, with different results.
\<close>

record uproc =
  u_thisenv :: nat
  u_handler :: u32

definition user_pages :: "nat list" where
  "user_pages = [0..<unat (drop_bit 12 UTOP)]"

definition fork_child :: "sched_config \<Rightarrow> uproc \<Rightarrow> kstate \<Rightarrow> (int \<times> uproc \<times> kstate) ures" where
  "fork_child cfg u s =
     bindU (usys_getenvid cfg s) (\<lambda>(id, s1). Inr (0, u\<lparr>u_thisenv := ENVX (word_of_int id)\<rparr>, s1))"

definition fork_v0_page :: "sched_config \<Rightarrow> u32 \<Rightarrow> nat \<Rightarrow> kstate \<Rightarrow> kstate ures" where
  "fork_v0_page cfg envid pnum s =
     bindU (uvpd s (drop_bit 10 pnum)) (\<lambda>pde.
       if pde AND PTE_P = 0 \<or> pde AND PTE_U = 0 then Inr s
       else dup_or_share cfg envid pnum (PTE_P OR PTE_U OR PTE_W) s)"

definition fork_v0 :: "sched_config \<Rightarrow> uproc \<Rightarrow> kstate \<Rightarrow> (int \<times> uproc \<times> kstate) ures" where
  "fork_v0 cfg u s =
     bindU (usys_exofork cfg s) (\<lambda>(envid, s1).
       if envid < 0 then Inl (UserPanic ''sys_exofork: %e'')
       else if envid = 0 then fork_child cfg u s1
       else bindU (foldU (fork_v0_page cfg (word_of_int envid)) user_pages s1) (\<lambda>s2.
            bindU (or_panic (usys_env_set_status cfg (word_of_int envid) 2 s2) ''sys_env_set_status: %e'') (\<lambda>s3.
              Inr (envid, u, s3))))"

definition fork_page :: "sched_config \<Rightarrow> u32 \<Rightarrow> nat \<Rightarrow> kstate \<Rightarrow> kstate ures" where
  "fork_page cfg envid pnum s =
     (if pnum = unat (drop_bit 12 UXSTACKTOP) - 1 then Inr s
      else bindU (uvpd s (drop_bit 10 pnum)) (\<lambda>pde.
        if pde AND PTE_P = 0 \<or> pde AND PTE_U = 0 then Inr s
        else bindU (uvpt s pnum) (\<lambda>pte.
          if pte AND PTE_P = 0 \<or> pte AND PTE_U = 0 then Inr s
          else bindU (duppage cfg envid pnum s) (\<lambda>(_, s1). Inr s1))))"

text \<open>What the parent does with a new child; \<open>envid\<close> is its identifier.\<close>

definition fork_parent :: "sched_config \<Rightarrow> u32 \<Rightarrow> uproc \<Rightarrow> kstate \<Rightarrow> kstate ures" where
  "fork_parent cfg envid u s =
     bindU (foldU (fork_page cfg envid) user_pages s) (\<lambda>s1.
     bindU (or_panic (usys_page_alloc cfg envid (UXSTACKTOP - PGSIZE) (PTE_U OR PTE_P OR PTE_W) s1)
              ''fork: sys_page_alloc of exception stk: %e'') (\<lambda>s2.
     bindU (or_panic (usys_env_set_pgfault_upcall cfg envid (env_pgfault_upcall (envs s2 ! u_thisenv u)) s2)
              ''fork: sys_env_set_pgfault_upcall on childern: %e'') (\<lambda>s3.
       or_panic (usys_env_set_status cfg envid 2 s3) ''sys_env_set_status: %e'')))"

definition fork :: "sched_config \<Rightarrow> u32 \<Rightarrow> u32 \<Rightarrow> uproc \<Rightarrow> kstate \<Rightarrow> (int \<times> uproc \<times> kstate) ures" where
  "fork cfg upcall handler u s =
     bindU (set_pgfault_handler cfg upcall handler (u_handler u) s) (\<lambda>(h, s0).
     bindU (usys_exofork cfg s0) (\<lambda>(envid, s1).
       let v = u\<lparr>u_handler := h\<rparr>
       in if envid < 0 then Inl (UserPanic ''sys_exofork: %e'')
          else if envid = 0 then fork_child cfg v s1
          else bindU (fork_parent cfg (word_of_int envid) v s1) (\<lambda>s2. Inr (envid, v, s2))))"

section \<open>Messages\<close>

text \<open>
  A program that gave up the CPU continues when the rest of the system lets it: \<open>others\<close> takes the state
  it left to the state in which it runs again, and its call returns what \<open>%eax\<close> holds then. It stands for the
  scheduling decisions and all steps of the other programs until then, and the properties say what they need of it.
\<close>

definition continue_with :: "(kstate \<Rightarrow> kstate) \<Rightarrow> nat \<Rightarrow> (int \<times> kstate) ures \<Rightarrow> (int \<times> kstate) ures" where
  "continue_with others self m =
     (case m of
        Inl (OffCpu r s) \<Rightarrow>
          let s' = others s in Inr (sint (reg_eax (tf_regs (env_tf (envs s' ! self)))), s')
      | _ \<Rightarrow> m)"

text \<open>The results are the value returned and what is stored in \<open>*from_env_store\<close> and \<open>*perm_store\<close>.\<close>

definition ipc_recv ::
  "sched_config \<Rightarrow> (kstate \<Rightarrow> kstate) \<Rightarrow> nat \<Rightarrow> u32 \<Rightarrow> kstate \<Rightarrow> (int \<times> u32 \<times> u32 \<times> kstate) ures" where
  "ipc_recv cfg others self pg s =
     bindU (continue_with others self (usys_ipc_recv cfg pg s)) (\<lambda>(err, s1).
       let e = envs s1 ! self
       in if err > 0 then Inl (UserPanic ''syscall %d returned %d (> 0)'')
          else if err = 0 then Inr (sint (env_ipc_value e), env_ipc_from e, env_ipc_perm e, s1)
          else Inr (err, 0, 0, s1))"

text \<open>The loop of \<open>ipc_send\<close> need not end; \<open>None\<close> is a loop that does not.\<close>

partial_function (option) ipc_send_loop ::
  "sched_config \<Rightarrow> (kstate \<Rightarrow> kstate) \<Rightarrow> nat \<Rightarrow> u32 \<Rightarrow> u32 \<Rightarrow> u32 \<Rightarrow> u32 \<Rightarrow> (int \<times> kstate) ures \<Rightarrow> kstate ures option" where
  "ipc_send_loop cfg others self to val pg perm m =
     (case m of
        Inl e \<Rightarrow> Some (Inl e)
      | Inr (r, s) \<Rightarrow>
          if r = - E_IPC_NOT_RECV then
            (case continue_with others self (bindU (usys_yield cfg s) (\<lambda>s'. Inr (0, s'))) of
               Inl e \<Rightarrow> Some (Inl e)
             | Inr (_, s1) \<Rightarrow> ipc_send_loop cfg others self to val pg perm (usys_ipc_try_send cfg to val pg perm s1))
          else if r < 0 then Some (Inl (UserPanic ''ipc_send: %e''))
          else Some (Inr s))"

definition ipc_send ::
  "sched_config \<Rightarrow> (kstate \<Rightarrow> kstate) \<Rightarrow> nat \<Rightarrow> u32 \<Rightarrow> u32 \<Rightarrow> u32 \<Rightarrow> u32 \<Rightarrow> kstate \<Rightarrow> kstate ures option" where
  "ipc_send cfg others self to val pg0 perm s =
     (let pg = (if pg0 = 0 then UTOP else pg0)
      in ipc_send_loop cfg others self to val pg perm (usys_ipc_try_send cfg to val pg perm s))"

definition ipc_find_env :: "env_type \<Rightarrow> kstate \<Rightarrow> u32" where
  "ipc_find_env type s =
     (case find (\<lambda>i. env_ty (envs s ! i) = type) [0..<NENV] of None \<Rightarrow> 0 | Some i \<Rightarrow> env_id (envs s ! i))"

end
