(* ===== verification/KVmShare.thy ===== *)
theory KVmShare
  imports KVmOps KFrame
begin

text \<open>
  Sharing pages: what inserting a page leaves alone when the slot is empty or already holds that page.
  This is how \<open>fork\<close> maps the pages of a parent into its child and turns its own mappings read-only.
\<close>

lemma page_ref_cong: "pages s' = pages s \<Longrightarrow> page_ref s' = page_ref s"
  by (simp add: page_ref_def fun_eq_iff)

lemma walk_create_phys:
  assumes inv: "vm_inv pds ext s" and pd: "pd \<in> pds" "PDX va < NUPDE"
    and walk: "pgdir_walk pd va True s = Inr (r, s')"
  shows "pd' \<in> pds \<Longrightarrow> (pd', j) \<noteq> (pd, PDX va) \<or> phys s pd (PDX va) \<noteq> 0 \<Longrightarrow> phys s' pd' j = phys s pd' j"
    "q \<notin> pds \<Longrightarrow> q \<notin> set (page_pool s) \<Longrightarrow> phys s' q = phys s q"
    "phys s pd (PDX va) = 0 \<Longrightarrow> page_pool s \<noteq> [] \<Longrightarrow> phys s' pd (PDX va) AND 7 = 7"
proof -
  consider "phys s pd (PDX va) \<noteq> 0" | "phys s pd (PDX va) = 0" "page_pool s = []"
    | p ps where "phys s pd (PDX va) = 0" "page_pool s = p # ps" by (cases "page_pool s") auto
  then have "(pd' \<in> pds \<longrightarrow> (pd', j) \<noteq> (pd, PDX va) \<or> phys s pd (PDX va) \<noteq> 0 \<longrightarrow> phys s' pd' j = phys s pd' j) \<and>
      (q \<notin> pds \<longrightarrow> q \<notin> set (page_pool s) \<longrightarrow> phys s' q = phys s q) \<and>
      (phys s pd (PDX va) = 0 \<longrightarrow> page_pool s \<noteq> [] \<longrightarrow> phys s' pd (PDX va) AND 7 = 7)"
  proof cases
    case 1
    then show ?thesis using walk_present [OF inv pd 1, of True] walk by simp
  next
    case 2
    then show ?thesis using walk_no_memory [OF vm_inv_D(1) [OF inv] 2] walk by simp
  next
    case (3 p ps)
    have s': "s' = with_table p pd (PDX va) s" using with_table_slot [OF inv 3(2) pd 3(1)] walk by simp
    have "p \<notin> pds"
      using page_inv_D(6) [OF vm_inv_D(1) [OF inv], of p] 3(2) vm_inv_D(4) [OF inv, of p] by auto
    moreover have "(page2pa p OR 7) AND 7 = 7" by (rule bit_word_eqI) (auto simp: bit_simps)
    ultimately show ?thesis using 3 pd by (auto simp: s' with_table_def fun_eq_iff)
  qed
  then show "pd' \<in> pds \<Longrightarrow> (pd', j) \<noteq> (pd, PDX va) \<or> phys s pd (PDX va) \<noteq> 0 \<Longrightarrow> phys s' pd' j = phys s pd' j"
    "q \<notin> pds \<Longrightarrow> q \<notin> set (page_pool s) \<Longrightarrow> phys s' q = phys s q"
    "phys s pd (PDX va) = 0 \<Longrightarrow> page_pool s \<noteq> [] \<Longrightarrow> phys s' pd (PDX va) AND 7 = 7" by blast+
qed

text \<open>Removing what a slot holds while somebody else still refers to the page: nothing is freed.\<close>

lemma remove_shared:
  assumes inv: "vm_inv pds ext s" and pd: "pd \<in> pds" "PDX va < NUPDE"
    and old: "\<forall>q w. translate s pd va = Some (q, w) \<longrightarrow> page_ref s q > 1"
    and run: "page_remove pd va s = Inr s'"
  shows "page_pool s' = page_pool s"
    "page_ref s' q = (case translate s pd va of Some (p, w) \<Rightarrow> if q = p then page_ref s q - 1 else page_ref s q
       | None \<Rightarrow> page_ref s q)"
    "\<And>t j. t \<notin> tables s pds \<Longrightarrow> phys s' t j = phys s t j" "tables s' pds = tables s pds"
proof -
  have "page_pool s' = page_pool s \<and> page_ref s' q = (case translate s pd va of Some (p, w) \<Rightarrow>
      if q = p then page_ref s q - 1 else page_ref s q | None \<Rightarrow> page_ref s q) \<and>
      (\<forall>t j. t \<notin> tables s pds \<longrightarrow> phys s' t j = phys s t j) \<and> tables s' pds = tables s pds"
  proof (cases "translate s pd va")
    case None
    then show ?thesis using remove_unmapped [OF inv pd None] run by simp
  next
    case (Some m)
    obtain p w where m: "m = (p, w)" by (cases m)
    show ?thesis
    proof (rule remove_mapped [OF inv pd Some [unfolded m]])
      fix u assume u: "page_remove pd va s = Inr u" "page_ref u = (page_ref s)(p := page_ref s p - 1)"
        "page_pool u = (if page_ref s p = 1 then p # page_pool s else page_pool s)"
        "\<And>t j. t \<notin> tables s pds \<Longrightarrow> phys u t j = phys s t j" "tables u pds = tables s pds"
      moreover have "u = s'" using u(1) run by simp
      ultimately show ?thesis using old Some m by auto
    qed
  qed
  then show "page_pool s' = page_pool s"
    "page_ref s' q = (case translate s pd va of Some (p, w) \<Rightarrow> if q = p then page_ref s q - 1 else page_ref s q
       | None \<Rightarrow> page_ref s q)"
    "\<And>t j. t \<notin> tables s pds \<Longrightarrow> phys s' t j = phys s t j" "tables s' pds = tables s pds" by blast+
qed

lemma mapped_ref:
  assumes inv: "vm_inv pds ext s" and pd: "pd \<in> pds" "PDX va < NUPDE" and t: "translate s pd va = Some (q, w)"
  shows "page_ref s q \<ge> 1" "q < npages s" "q \<notin> pds" "q \<notin> tables s pds" "q \<notin> set (page_pool s)"
proof -
  show r: "page_ref s q \<ge> 1" and "q < npages s" "q \<notin> pds" "q \<notin> tables s pds"
    by (rule remove_mapped [OF inv pd t]; simp)+
  show "q \<notin> set (page_pool s)" using r page_inv_D(6) [OF vm_inv_D(1) [OF inv], of q] by auto
qed

lemma insert_shared:
  assumes inv: "vm_inv pds ext s" and pd: "pd \<in> pds" "PDX va < NUPDE"
    and mem: "phys s pd (PDX va) \<noteq> 0 \<or> page_pool s \<noteq> []"
    and pp: "pp < npages s" "pp \<notin> pds" "pp \<notin> tables s pds" "pp \<notin> set (page_pool s)"
      "page_ref s pp < 65535"
    and perm: "perm < 0x1000"
    and old: "\<And>q w. translate s pd va = Some (q, w) \<Longrightarrow> q = pp"
  obtains s' where "page_insert pd pp va perm s = Inr (0, s')" "vm_inv pds ext s'" "rest s' = rest s"
    "\<And>pd' va'. pd' \<in> pds \<Longrightarrow> PDX va' < NUPDE \<Longrightarrow> translate s' pd' va' =
       (if pd' = pd \<and> PGNUM va' = PGNUM va then Some (pp, perm OR PTE_P) else translate s pd' va')"
    "page_pool s' = (if phys s pd (PDX va) = 0 then tl (page_pool s) else page_pool s)"
    "\<And>q. q \<notin> set (page_pool s) \<Longrightarrow>
       page_ref s' q = (if q = pp \<and> translate s pd va = None then Suc (page_ref s q) else page_ref s q)"
    "\<And>pd' j. pd' \<in> pds \<Longrightarrow> (pd', j) \<noteq> (pd, PDX va) \<or> phys s pd (PDX va) \<noteq> 0 \<Longrightarrow> phys s' pd' j = phys s pd' j"
    "phys s' pd (PDX va) \<noteq> 0"
    "\<And>q. q \<notin> pds \<Longrightarrow> q \<notin> tables s pds \<Longrightarrow> q \<notin> set (page_pool s) \<Longrightarrow> phys s' q = phys s q"
    "tables s' pds \<subseteq> tables s pds \<union> set (page_pool s)"
    "phys s pd (PDX va) = 0 \<Longrightarrow> phys s' pd (PDX va) AND 7 = 7"
proof -
  from inv pd mem obtain s1 where
    w: "pgdir_walk pd va True s = Inr (Some (pt_of s1 pd (PDX va), PTX va), s1)"
    and s1: "vm_inv pds ext s1" "slot s1 pds pd (PDX va) (PTX va)"
      "\<And>pd' va'. pd' \<in> pds \<Longrightarrow> PDX va' < NUPDE \<Longrightarrow> translate s1 pd' va' = translate s pd' va'"
    and pool1: "page_pool s1 = (if phys s pd (PDX va) = 0 then tl (page_pool s) else page_pool s)"
    and tab1: "tables s1 pds \<subseteq> tables s pds \<union> set (page_pool s)"
    and sel1: "npages s1 = npages s"
    and ref1: "\<And>q. q \<notin> set (page_pool s) \<Longrightarrow> page_ref s1 q = page_ref s q"
    by (rule walk_create) blast
  note ph1 = walk_create_phys [OF inv pd w]
  have sub: "set (page_pool s1) \<subseteq> set (page_pool s)"
    unfolding pool1 by (cases "page_pool s") auto
  have pp1: "pp < npages s1" "pp \<notin> tables s1 pds" "pp \<notin> set (page_pool s1)" "page_ref s1 pp < 65535"
    using pp tab1 sel1 ref1 sub by auto
  let ?s2 = "page_incref pp s1" and ?e = "ext(pp := Suc (ext pp))"
  have inv2: "vm_inv pds ?e ?s2" by (rule vm_incref(1) [OF s1(1) pp1(1) pp(2) pp1(2-4)])
  have pool2: "page_pool ?s2 = page_pool s1" by (rule vm_incref(2) [OF s1(1) pp1(1) pp(2) pp1(2-4)])
  have ref2: "page_ref ?s2 = (page_ref s1)(pp := Suc (page_ref s1 pp))"
    using page_incref_props(3) [OF vm_inv_D(1) [OF s1(1)] pp1(1,3,4)] by simp
  note same = vm_cong [of ?s2 s1, OF page_incref_sel(5)]
  have tr2: "translate ?s2 pd va = translate s pd va" using s1(3) [OF pd] same(4) by simp
  have old2: "\<forall>q x. translate ?s2 pd va = Some (q, x) \<longrightarrow> page_ref ?s2 q > 1"
  proof (intro allI impI)
    fix q x assume t: "translate ?s2 pd va = Some (q, x)"
    have q: "q = pp" using old t tr2 by simp
    have "translate s pd va = Some (pp, x)" using t tr2 q by simp
    from mapped_ref(1) [OF inv pd this] have "page_ref s1 pp \<ge> 1" using ref1 [OF pp(4)] by simp
    then show "page_ref ?s2 q > 1" unfolding q ref2 by simp
  qed
  have loc2: "slot ?s2 pds pd (PDX va) (PTX va)" using s1(2) by (simp add: slot_def)
  from inv2 loc2 obtain s3 where
    rem: "page_remove pd va ?s2 = Inr s3" and s3: "vm_inv pds ?e s3"
      "slot s3 pds pd (PDX va) (PTX va)" "pt_of s3 pd (PDX va) = pt_of ?s2 pd (PDX va)"
    by (rule remove_slot) blast
  note R = remove_shared [OF inv2 pd old2 rem]
  let ?w = "page2pa pp OR perm OR PTE_P"
  let ?s4 = "write_word (pt_of s3 pd (PDX va)) (PTX va) ?w s3"
  have run: "page_insert pd pp va perm s = Inr (0, ?s4)"
    using w rem s3(3) same(1) by (simp add: page_insert_def)
  obtain s' where s': "page_insert pd pp va perm s = Inr (0, s')" "vm_inv pds ext s'"
    "\<And>pd' va'. pd' \<in> pds \<Longrightarrow> PDX va' < NUPDE \<Longrightarrow> translate s' pd' va' =
       (if pd' = pd \<and> PGNUM va' = PGNUM va then Some (pp, perm OR PTE_P) else translate s pd' va')"
    "tables s' pds \<subseteq> tables s pds \<union> set (page_pool s)"
    by (rule insert_maps [OF inv pd mem pp perm]) blast
  have eq: "s' = ?s4" using run s'(1) by simp
  have t3: "pt_of s3 pd (PDX va) \<in> tables s1 pds"
    using slot_table(1) [OF s1(1,2)] s3(3) same(1) by simp
  have pages4: "page_pool ?s4 = page_pool s3" "page_ref ?s4 = page_ref s3"
    by (rule page_inv_cong page_ref_cong; simp)+
  have dirs: "phys ?s4 pd' j = phys s1 pd' j" if "pd' \<in> pds" for pd' j
  proof -
    have "pd' \<notin> tables s1 pds" using vm_inv_D(7) [OF s1(1)] that by blast
    moreover from this have "pd' \<noteq> pt_of s3 pd (PDX va)" using t3 by blast
    ultimately show ?thesis using R(3) [where t = pd' and j = j] same(2) by simp
  qed
  show thesis
  proof (rule that [OF s'(1,2) rest_page_insert [OF s'(1)] s'(3)])
    show "page_pool s' = (if phys s pd (PDX va) = 0 then tl (page_pool s) else page_pool s)"
      unfolding eq pages4 R(1) pool2 by (rule pool1)
    show "page_ref s' q = (if q = pp \<and> translate s pd va = None then Suc (page_ref s q) else page_ref s q)"
      if "q \<notin> set (page_pool s)" for q
      unfolding eq pages4 R(2) tr2 ref2 using ref1 [OF that] old by (auto split: option.splits)
    show "phys s' pd' j = phys s pd' j"
      if "pd' \<in> pds" "(pd', j) \<noteq> (pd, PDX va) \<or> phys s pd (PDX va) \<noteq> 0" for pd' j
      unfolding eq dirs [OF that(1)] by (rule ph1(1) [OF that])
    show "phys s' pd (PDX va) \<noteq> 0" unfolding eq dirs [OF pd(1)] using slot_D [OF s1(2)] by simp
    show "phys s' q = phys s q" if "q \<notin> pds" "q \<notin> tables s pds" "q \<notin> set (page_pool s)" for q
    proof -
      have q: "q \<notin> tables s1 pds" using that tab1 by blast
      then have "q \<noteq> pt_of s3 pd (PDX va)" using t3 by blast
      moreover have "phys s3 q = phys s1 q" using R(3) [where t = q] q same(2) by (auto simp: fun_eq_iff)
      ultimately show ?thesis unfolding eq using ph1(2) [OF that(1,3)] by (simp add: fun_eq_iff)
    qed
    show "phys s' pd (PDX va) AND 7 = 7" if "phys s pd (PDX va) = 0"
      unfolding eq dirs [OF pd(1)] using ph1(3) that mem by simp
  qed (assumption | rule s'(4))+
qed

section \<open>The contents of pages\<close>

text \<open>The invariant only reads the directories and the tables.\<close>

lemma vm_inv_agree:
  assumes inv: "vm_inv pds ext s" and pages: "npages s' = npages s" "page_inv s'" "page_ref s' = page_ref s"
    and dirs: "\<And>pd. pd \<in> pds \<Longrightarrow> phys s' pd = phys s pd" and tabs: "\<And>t. t \<in> tables s pds \<Longrightarrow> phys s' t = phys s t"
  shows "vm_inv pds ext s'" "tables s' pds = tables s pds" "leafs s' pds = leafs s pds"
    "pd \<in> pds \<Longrightarrow> PDX va < NUPDE \<Longrightarrow> translate s' pd va = translate s pd va"
proof -
  have pt: "pt_of s' pd i = pt_of s pd i" if "pd \<in> pds" for pd i using dirs [OF that] by (simp add: pt_of_def)
  show t: "tables s' pds = tables s pds"
    unfolding tables_def using dirs pt by (auto; metis)
  have ph: "phys s' (pt_of s pd i) k = phys s (pt_of s pd i) k" if "pd \<in> pds" "i < NUPDE" "phys s pd i \<noteq> 0" for pd i k
    using tabs [OF pt_of_table [OF that]] by simp
  show l: "leafs s' pds = leafs s pds"
    unfolding leafs_def fun_eq_iff set_eq_iff using dirs pt ph by (auto; metis)
  show "translate s' pd va = translate s pd va" if "pd \<in> pds" "PDX va < NUPDE"
    using that dirs pt ph by (simp add: translate_def)
  show "vm_inv pds ext s'"
    using inv dirs pt tabs unfolding vm_inv_def t l pages(1,3) by (simp add: pages(2))
qed

lemma vm_popped_any:
  assumes inv: "vm_inv pds ext s" and pool: "page_pool s = p # ps"
  shows "vm_inv pds ext (popped z p s)" "page_pool (popped z p s) = ps"
    "tables (popped z p s) pds = tables s pds" "p < npages s" "p \<notin> pds" "p \<notin> tables s pds" "p \<notin> set ps"
    "page_ref (popped z p s) = page_ref s" "page_ref s p = 0"
    "pd \<in> pds \<Longrightarrow> PDX va < NUPDE \<Longrightarrow> translate (popped z p s) pd va = translate s pd va"
proof -
  note D = vm_inv_D [OF inv] and A = page_alloc_cons [OF vm_inv_D(1) [OF inv] pool]
  show p: "p < npages s" "p \<notin> pds" "p \<notin> tables s pds" "p \<notin> set ps" "page_ref s p = 0"
    using A(5-7) D(4) [of p] D(6) [of p] by auto
  show "page_pool (popped z p s) = ps" "page_ref (popped z p s) = page_ref s" by (rule A)+
  have "phys (popped z p s) q = phys s q" if "q \<in> pds \<or> q \<in> tables s pds" for q using that p by auto
  then have agree: "\<And>pd. pd \<in> pds \<Longrightarrow> phys (popped z p s) pd = phys s pd"
    "\<And>t. t \<in> tables s pds \<Longrightarrow> phys (popped z p s) t = phys s t" by blast+
  note V = vm_inv_agree [OF inv _ A(2,4) agree, simplified]
  show "vm_inv pds ext (popped z p s)" "tables (popped z p s) pds = tables s pds" by (rule V(1,2))+
  show "pd \<in> pds \<Longrightarrow> PDX va < NUPDE \<Longrightarrow> translate (popped z p s) pd va = translate s pd va" by (rule V(4))
qed

lemmas vm_popped = vm_popped_any(1-3) [where z = True] vm_popped_any(4-7) vm_popped_any(8) [where z = True]
  vm_popped_any(9) vm_popped_any(10) [where z = True]

lemmas vm_popped_raw = vm_popped_any(1-3) [where z = False] vm_popped_any(4-7) vm_popped_any(8) [where z = False]
  vm_popped_any(9) vm_popped_any(10) [where z = False]

text \<open>Inserting where the page table exists only writes to that table.\<close>

lemma insert_phys:
  assumes inv: "vm_inv pds ext s" and pd: "pd \<in> pds" "PDX va < NUPDE" "phys s pd (PDX va) \<noteq> 0"
    and pp: "pp < npages s" "pp \<notin> pds" "pp \<notin> tables s pds" "pp \<notin> set (page_pool s)" "page_ref s pp < 65535"
    and run: "page_insert pd pp va perm s = Inr (r, s')" and t: "t \<notin> tables s pds"
  shows "phys s' t = phys s t"
proof -
  let ?s = "page_incref pp s"
  have inv1: "vm_inv pds (ext(pp := Suc (ext pp))) ?s" by (rule vm_incref(1) [OF inv pp])
  note same = vm_cong [of ?s s, OF page_incref_sel(5)]
  have loc: "slot ?s pds pd (PDX va) (PTX va)" using pd by (simp add: slot_def)
  obtain s1 where s1: "page_remove pd va ?s = Inr s1" "\<And>t j. t \<notin> tables ?s pds \<Longrightarrow> phys s1 t j = phys ?s t j"
    by (rule remove_slot [OF inv1 loc]) blast
  have "s' = write_word (pt_of s pd (PDX va)) (PTX va) (page2pa pp OR perm OR PTE_P) s1"
    using run s1(1) walk_present [OF inv pd, of True] by (simp add: page_insert_def)
  moreover have "t \<noteq> pt_of s pd (PDX va)" using t pt_of_table [OF pd] by blast
  ultimately show ?thesis using s1(2) t same(2) by (simp add: fun_eq_iff)
qed

end
