(* ===== verification/ForkProps.thy ===== *)
theory ForkProps
  imports UserFork KVmShare KSchedProps
begin

text \<open>
  What \<open>fork\<close> does to the address spaces of parent and child: the loop over the pages, by an invariant
  that says which pages are done.
\<close>

section \<open>Addresses of pages\<close>

definition pgva :: "nat \<Rightarrow> u32" where
  "pgva n = push_bit 12 (word_of_nat n)"

lemma unat_pgva: "n < 1048576 \<Longrightarrow> unat (pgva n) = n * 4096"
  using unat_page2pa [of n] by (simp add: pgva_def page2pa_def)

lemma pgva_parts:
  assumes "n < 1048576"
  shows "PGNUM (pgva n) = n" "PDX (pgva n) = n div 1024" "PTX (pgva n) = n mod 1024"
proof -
  show p: "PGNUM (pgva n) = n" using assms by (simp add: PGNUM_div unat_pgva)
  show "PDX (pgva n) = n div 1024" "PTX (pgva n) = n mod 1024" by (simp_all add: PDX_PGNUM PTX_PGNUM p)
qed

lemma pgva_user:
  assumes "n < 977920"
  shows "\<not> bad_va (pgva n)" "PDX (pgva n) < NUPDE"
  using assms by (simp_all add: bad_va_def word_le_nat_alt word_less_nat_alt unat_pgva unat_mod pgva_parts
      word_unat_eq_iff [of "pgva n mod PGSIZE"] not_le less_mult_imp_div_less)

section \<open>Reading the page tables\<close>

definition user_runs :: "nat \<Rightarrow> nat \<Rightarrow> kstate \<Rightarrow> bool" where
  "user_runs c pd s \<longleftrightarrow> curenv s = Some c \<and> env_pgdir (envs s ! c) = Some pd \<and> cr3 s = pd \<and>
     pd < 1048576 \<and> phys s pd (PDX UVPT) = page2pa pd OR PTE_P OR PTE_U"

lemma page2pa_pu:
  assumes "p < 1048576"
  shows "(page2pa p OR 5) AND 5 = 5" "PGNUM (page2pa p OR 5) = p"
proof -
  show "PGNUM (page2pa p OR 5) = p" using assms by simp
  show "(page2pa p OR 5) AND (5::u32) = 5" by (rule bit_word_eqI) (auto simp: bit_simps)
qed

lemma user_page_uvpt:
  assumes run: "user_runs c pd s" and va: "PDX va = PDX UVPT"
    and pte: "phys s pd (PTX va) AND (PTE_P OR PTE_U) = PTE_P OR PTE_U"
  shows "user_page (PTE_P OR PTE_U) va s = Inr (PGNUM (phys s pd (PTX va)))"
proof -
  have pd: "cr3 s = pd" "pd < 1048576" and self: "phys s pd (PDX va) = page2pa pd OR 5"
    using run va by (simp_all add: user_runs_def or.assoc)
  show ?thesis
    unfolding user_page_def Let_def PGNUM_PTE_ADDR pd(1) self using page2pa_pu [OF pd(2)] pte by simp
qed

lemma unat_uvpt: "n < 1048576 \<Longrightarrow> unat (UVPT + 4 * word_of_nat n :: u32) = 4013948928 + 4 * n"
  by (simp add: unat_word_ariths unat_of_nat_u32)

lemma word_index:
  assumes "unat (va::u32) = 4096 * k + 4 * j" "j < 1024"
  shows "unat (va AND 0xFFF) div 4 = j"
proof -
  have "unat (va AND 0xFFF) = unat va mod 4096" unfolding mask12 unat_low by simp
  with assms show ?thesis by simp
qed

lemma word_page: "j < 1024 \<Longrightarrow> (4096 * k + 4 * j) div 4096 = (k::nat)"
  by presburger

lemma uvpt_addr: "n = 1024 * d + r \<Longrightarrow> 4013948928 + 4 * n = 4096 * (979968 + d) + 4 * (r::nat)"
  by simp

lemma uvpt_slot: "k < 1024 \<Longrightarrow> (979968 + k) mod 1024 = (k::nat)" "k < 1024 \<Longrightarrow> (979968 + k) div 1024 = (957::nat)"
  using mod_mult_self2 [of k 1024 957] div_mult_self2 [of 1024 k 957] by (simp_all add: add.commute)

lemma pu_iff: "(w::u32) AND 5 = 5 \<longleftrightarrow> w AND 1 \<noteq> 0 \<and> w AND 4 \<noteq> 0"
proof -
  have "bit w 0 \<longleftrightarrow> w AND 1 \<noteq> 0" by (simp add: and_one_eq bit_0 even_iff_mod_2_eq_zero)
  moreover have "bit w 2 \<longleftrightarrow> w AND 4 \<noteq> 0"
    using bit_iff_and_push_bit_not_eq_0 [of w 2] by simp
  moreover have "w AND 5 = 5 \<longleftrightarrow> bit w 0 \<and> bit w 2"
  proof
    assume "w AND 5 = 5"
    then have "bit (w AND 5) 0" "bit (w AND 5) 2" by simp_all
    then show "bit w 0 \<and> bit w 2" by (simp only: bit_and_iff)
  next
    assume b: "bit w 0 \<and> bit w 2"
    have five: "bit (5::u32) n \<longleftrightarrow> n = 0 \<or> n = 2" for n
      by (cases n) (auto simp: bit_simps numeral_2_eq_2 split: nat.splits)
    show "w AND 5 = 5"
    proof (rule bit_word_eqI)
      fix n show "bit (w AND 5) n = bit (5::u32) n" unfolding bit_and_iff five using b by auto
    qed
  qed
  ultimately show ?thesis by simp
qed

lemma uvpd_eq:
  assumes "user_runs c pd s" "i < 1024"
  shows "uvpd s i = Inr (phys s pd i)"
proof -
  let ?va = "UVPT + drop_bit 12 UVPT * 4 + 4 * word_of_nat i :: u32"
  have "drop_bit 12 UVPT = (0xEF400 :: u32)" by (simp add: word_unat_eq_iff unat_drop)
  then have va: "?va = UVPT + 4 * word_of_nat (957 * 1024 + i)" by (simp add: algebra_simps)
  have u: "unat ?va = 4096 * 980925 + 4 * i"
    unfolding va using assms(2) by (subst unat_uvpt) simp_all
  have p: "PDX ?va = PDX UVPT" "PTX ?va = PDX UVPT"
    unfolding PDX_PGNUM PTX_PGNUM PGNUM_div u word_page [OF assms(2)] by simp_all
  have pd: "pd < 1048576" "phys s pd (PTX ?va) = page2pa pd OR 5"
    using assms(1) unfolding p by (simp_all add: user_runs_def or.assoc)
  have "user_page (PTE_P OR PTE_U) ?va s = Inr (PGNUM (phys s pd (PTX ?va)))"
    by (rule user_page_uvpt [OF assms(1) p(1)], unfold pd(2)) (simp add: page2pa_pu(1) [OF pd(1)])
  then show ?thesis
    unfolding uvpd_def user_word_def word_index [OF u assms(2)] pd(2) page2pa_pu(2) [OF pd(1)] by simp
qed

lemma uvpt_eq:
  assumes "user_runs c pd s" "n < 1048576"
    and "phys s pd (n div 1024) AND PTE_P \<noteq> 0" "phys s pd (n div 1024) AND PTE_U \<noteq> 0"
  shows "uvpt s n = Inr (phys s (pt_of s pd (n div 1024)) (n mod 1024))"
proof -
  let ?va = "UVPT + 4 * word_of_nat n :: u32"
  have n: "n = 1024 * (n div 1024) + n mod 1024" "n div 1024 < 1024" using assms(2) by simp_all
  have u: "unat ?va = 4096 * (979968 + n div 1024) + 4 * (n mod 1024)"
    unfolding unat_uvpt [OF assms(2)] by (rule uvpt_addr [OF n(1)])
  have p: "PDX ?va = PDX UVPT" "PTX ?va = n div 1024"
    unfolding PDX_PGNUM PTX_PGNUM PGNUM_div u word_page [OF mod_less_divisor [OF zero_less_numeral]]
    using n(2) by (simp_all add: uvpt_slot)
  have "user_page (PTE_P OR PTE_U) ?va s = Inr (PGNUM (phys s pd (PTX ?va)))"
    by (rule user_page_uvpt [OF assms(1) p(1)]) (use assms(3,4) in \<open>simp add: p(2) pu_iff\<close>)
  then show ?thesis
    unfolding uvpt_def user_word_def by (simp add: word_index [OF u] p(2) pt_of_def)
qed

section \<open>One page\<close>

definition fork_perm :: "u32 \<Rightarrow> u32" where
  "fork_perm w = (PTE_U OR PTE_P OR (if w AND (PTE_PCD OR PTE_PWT) \<noteq> 0 then PTE_PCD OR PTE_PWT else 0)) OR
     (if w AND PTE_W \<noteq> 0 \<or> w AND PTE_COW \<noteq> 0 then PTE_COW else 0)"

lemma low_and:
  "(w AND 0xFFF) AND 1 = w AND (1::u32)" "(w AND 0xFFF) AND 2 = w AND (2::u32)" "(w AND 0xFFF) AND 4 = w AND (4::u32)"
  "(w AND 0xFFF) AND 0x18 = w AND (0x18::u32)" "(w AND 0xFFF) AND 0x800 = w AND (0x800::u32)"
  by (simp_all add: and.assoc)

lemma fork_perm_low: "fork_perm (w AND 0xFFF) = fork_perm w"
  by (simp add: fork_perm_def low_and)

lemma translate_eq:
  assumes "n < 1048576" "translate s pd (pgva n) = Some (q, w)"
  defines "pte \<equiv> phys s (pt_of s pd (n div 1024)) (n mod 1024)"
  shows "phys s pd (n div 1024) \<noteq> 0" "pte \<noteq> 0" "PGNUM pte = q" "pte AND 0xFFF = w"
  using assms(2) unfolding translate_def pte_def pgva_parts [OF assms(1)]
  by (simp_all add: Let_def split: if_splits)

lemma user_syscall_map:
  assumes "sys_page_map a v b v' perm s = Inr (Returns 0, s')"
  shows "usys_page_map cfg a v b v' perm s = Inr (0, s')"
  using assms by (simp add: usys_page_map_def user_syscall_def syscall_def)

lemma page_map_call:
  assumes inv: "vm_inv pds ext s" and va: "\<not> bad_va v" "PDX v < NUPDE" "\<not> bad_va v'"
    and src: "envid2env a True s = Inr (0, Some e)" "env_pgdir (envs s ! e) = Some pd" "pd \<in> pds"
    and dst: "envid2env b True s = Inr (0, Some e')" "env_pgdir (envs s ! e') = Some dd"
    and map: "translate s pd v = Some (q, w)" and perm: "((PTE_P OR PTE_U OR perm) AND PTE_W) AND NOT (PTE_W AND w) = 0"
    and ins: "page_insert dd q v' (PTE_P OR PTE_U OR perm) s = Inr (0, s')"
  shows "usys_page_map cfg a v b v' perm s = Inr (0, s')"
proof (rule user_syscall_map)
  let ?pte = "phys s (pt_of s pd (PDX v)) (PTX v)"
  have "?pte AND 0xFFF = w" using map by (auto simp: translate_def Let_def split: if_splits)
  then have "PTE_W AND ?pte = PTE_W AND w" using low_and(2) [of ?pte] by (simp add: and.commute)
  then have w: "((PTE_P OR PTE_U OR perm) AND PTE_W) AND NOT (PTE_W AND ?pte) = 0" using perm by simp
  have "page_lookup pd v s = Inr (Some (q, pt_of s pd (PDX v), PTX v))"
    using lookup_translate [OF inv src(3) va(2)] map by simp
  then have "env_page_map e v e' v' (PTE_P OR PTE_U OR perm) s = Inr (0, s')"
    using src(2) dst(2) ins w by (simp add: env_page_map_def pgdir_of_def)
  then show "sys_page_map a v b v' perm s = Inr (Returns 0, s')"
    using va src(1) dst(1) by (simp add: sys_page_map_def with_env_def ret_int_def)
qed

lemma fork_perm_cases: "fork_perm w \<in> {0x5, 0x1D, 0x805, 0x81D}"
  unfolding fork_perm_def by (simp split: if_split)

lemma fork_perm_bits: "fork_perm w AND PTE_W = 0" "fork_perm w < 0x1000" "fork_perm w OR PTE_P = fork_perm w"
  "PTE_P OR PTE_U OR fork_perm w = fork_perm w"
  using fork_perm_cases [of w] by auto

lemma fork_perm_cow: "w AND (PTE_W OR PTE_COW) \<noteq> 0 \<Longrightarrow> fork_perm w AND PTE_COW \<noteq> 0"
proof -
  assume "w AND (PTE_W OR PTE_COW) \<noteq> 0"
  then have "w AND PTE_W \<noteq> 0 \<or> w AND PTE_COW \<noteq> 0"
    unfolding bit.conj_disj_distrib or_eq_0_iff by blast
  then show ?thesis by (auto simp: fork_perm_def)
qed

text \<open>The two parties of a fork, as system calls of the parent see them.\<close>

definition fork_pair :: "nat set \<Rightarrow> u32 \<Rightarrow> nat \<Rightarrow> nat \<Rightarrow> nat \<Rightarrow> nat \<Rightarrow> kstate \<Rightarrow> bool" where
  "fork_pair pds child c pd d cd s \<longleftrightarrow> user_runs c pd s \<and> pd \<in> pds \<and> cd \<in> pds \<and> pd \<noteq> cd \<and>
     envid2env child True s = Inr (0, Some d) \<and> env_pgdir (envs s ! d) = Some cd"

lemma fork_pair_D:
  assumes "fork_pair pds child c pd d cd s"
  shows "user_runs c pd s" "pd \<in> pds" "cd \<in> pds" "pd \<noteq> cd" "envid2env child True s = Inr (0, Some d)"
    "env_pgdir (envs s ! d) = Some cd" "envid2env 0 True s = Inr (0, Some c)" "env_pgdir (envs s ! c) = Some pd"
  using assms by (simp_all add: fork_pair_def user_runs_def envid2env_def)

lemma envid2env_rest:
  assumes "rest s' = rest s"
  shows "envid2env a b s' = envid2env a b s"
  unfolding envid2env_def rest_sel(2,10) [OF assms] ..

lemma fork_pair_rest:
  assumes "fork_pair pds child c pd d cd s" "rest s' = rest s" "phys s' pd (PDX UVPT) = phys s pd (PDX UVPT)"
  shows "fork_pair pds child c pd d cd s'"
  using assms envid2env_rest [OF assms(2)] by (simp add: fork_pair_def user_runs_def rest_sel [OF assms(2)])

lemma duppage_step:
  assumes inv: "vm_inv pds ext s" and pair: "fork_pair pds child c pd d cd s" and n: "n < 977920"
    and pde: "phys s pd (n div 1024) AND PTE_U \<noteq> 0"
    and map: "translate s pd (pgva n) = Some (q, w)" "w AND PTE_U \<noteq> 0"
    and new: "translate s cd (pgva n) = None" and mem: "phys s cd (n div 1024) \<noteq> 0 \<or> page_pool s \<noteq> []"
    and ref: "Suc (page_ref s q) < 65535"
  obtains s' where "duppage cfg child n s = Inr (0, s')" "vm_inv pds ext s'" "rest s' = rest s"
    "\<And>pd' va. pd' \<in> pds \<Longrightarrow> PDX va < NUPDE \<Longrightarrow> translate s' pd' va =
       (if PGNUM va = n \<and> (pd' = cd \<or> pd' = pd \<and> w AND (PTE_W OR PTE_COW) \<noteq> 0) then Some (q, fork_perm w)
        else translate s pd' va)"
    "page_pool s' = (if phys s cd (n div 1024) = 0 then tl (page_pool s) else page_pool s)"
    "\<And>p. p \<notin> set (page_pool s) \<Longrightarrow> page_ref s' p = (if p = q then Suc (page_ref s p) else page_ref s p)"
    "\<And>pd' j. pd' \<in> pds \<Longrightarrow> (pd', j) \<noteq> (cd, n div 1024) \<or> phys s cd (n div 1024) \<noteq> 0 \<Longrightarrow> phys s' pd' j = phys s pd' j"
    "phys s' cd (n div 1024) \<noteq> 0"
    "\<And>p. p \<notin> pds \<Longrightarrow> p \<notin> tables s pds \<Longrightarrow> p \<notin> set (page_pool s) \<Longrightarrow> phys s' p = phys s p"
    "tables s' pds \<subseteq> tables s pds \<union> set (page_pool s)"
proof -
  have n20: "n < 1048576" using n by simp
  note P = fork_pair_D [OF pair] and N = pgva_parts [OF n20] pgva_user [OF n]
  note t = translate_eq [OF n20 map(1)]
  let ?pte = "phys s (pt_of s pd (n div 1024)) (n mod 1024)"
  have i: "n div 1024 < NUPDE" using N(2,5) by simp
  have p1: "phys s pd (n div 1024) AND PTE_P \<noteq> 0" using vm_inv_D(13) [OF inv P(2) i t(1)] .
  have p2: "?pte AND PTE_P \<noteq> 0"
    using vm_inv_D(14) [OF inv pt_of_table [OF P(2) i t(1)] _ t(2)] by simp
  have u2: "?pte AND PTE_U \<noteq> 0" using map(2) unfolding t(4) [symmetric] low_and .
  note uv = uvpt_eq [OF P(1) n20 p1 pde]
  have low: "?pte AND PTE_W = w AND PTE_W" "?pte AND PTE_COW = w AND PTE_COW" "fork_perm ?pte = fork_perm w"
    unfolding t(4) [symmetric] low_and fork_perm_low by (rule refl)+
  have wc: "w AND (PTE_W OR PTE_COW) \<noteq> 0 \<longleftrightarrow> w AND PTE_W \<noteq> 0 \<or> w AND PTE_COW \<noteq> 0"
    unfolding bit.conj_disj_distrib or_eq_0_iff by blast
  let ?perm = "fork_perm w" and ?va = "pgva n" and ?cow = "w AND PTE_W \<noteq> 0 \<or> w AND PTE_COW \<noteq> 0"
  have dup: "duppage cfg child n s = bindU
      (if ?cow then bindU (or_panic (usys_page_map cfg 0 ?va child ?va ?perm s)
                        ''duppage: sys_page_map on childern COW: %e'')
                 (\<lambda>s1. or_panic (usys_page_map cfg 0 ?va 0 ?va ?perm s1) ''duppage: sys_page_map on parent COW: %e'')
       else or_panic (usys_page_map cfg 0 ?va child ?va ?perm s) ''duppage: sys_page_map on childern RO: %e'')
      (\<lambda>s2. Inr (0, s2))"
    unfolding duppage_def Let_def pgva_def [symmetric] uv bindU_simps low(3) [symmetric]
    using p2 u2 by (simp add: fork_perm_def low(1,2))
  have q: "q < npages s" "q \<notin> pds" "q \<notin> tables s pds" "q \<notin> set (page_pool s)"
    by (rule mapped_ref(2-5) [OF inv P(2) N(5) map(1)])+
  have ref1: "page_ref s q < 65535" using ref by simp
  have mem1: "phys s cd (PDX ?va) \<noteq> 0 \<or> page_pool s \<noteq> []" using mem by (simp add: N(2))
  obtain s1 where s1: "page_insert cd q ?va ?perm s = Inr (0, s1)" "vm_inv pds ext s1" "rest s1 = rest s"
    "\<And>pd' va'. pd' \<in> pds \<Longrightarrow> PDX va' < NUPDE \<Longrightarrow> translate s1 pd' va' =
       (if pd' = cd \<and> PGNUM va' = PGNUM ?va then Some (q, ?perm OR PTE_P) else translate s pd' va')"
    "page_pool s1 = (if phys s cd (PDX ?va) = 0 then tl (page_pool s) else page_pool s)"
    "\<And>p. p \<notin> set (page_pool s) \<Longrightarrow>
       page_ref s1 p = (if p = q \<and> translate s cd ?va = None then Suc (page_ref s p) else page_ref s p)"
    "\<And>pd' j. pd' \<in> pds \<Longrightarrow> (pd', j) \<noteq> (cd, PDX ?va) \<or> phys s cd (PDX ?va) \<noteq> 0 \<Longrightarrow> phys s1 pd' j = phys s pd' j"
    "phys s1 cd (PDX ?va) \<noteq> 0"
    "\<And>p. p \<notin> pds \<Longrightarrow> p \<notin> tables s pds \<Longrightarrow> p \<notin> set (page_pool s) \<Longrightarrow> phys s1 p = phys s p"
    "tables s1 pds \<subseteq> tables s pds \<union> set (page_pool s)"
    by (rule insert_shared [OF inv P(3) N(5) mem1 q ref1 fork_perm_bits(2)]) (use new in auto)
  have call1: "usys_page_map cfg 0 ?va child ?va ?perm s = Inr (0, s1)"
    by (rule page_map_call [OF inv N(4,5,4) P(7,8,2) P(5,6) map(1)])
      (simp_all add: fork_perm_bits(4) [simplified] fork_perm_bits(1) s1(1))
  note f = fork_perm_bits(3) [of w]
  note S = s1(4-10) [unfolded N(1,2) f]
  have pool1: "set (page_pool s1) \<subseteq> set (page_pool s)" unfolding S(2) by (cases "page_pool s") auto
  show thesis
  proof (cases ?cow)
    case False
    then have run: "duppage cfg child n s = Inr (0, s1)" using dup call1 by (simp add: or_panic_def)
    have "\<not> w AND (PTE_W OR PTE_COW) \<noteq> 0" using False unfolding wc .
    then show thesis
      by (intro that [OF run s1(2,3) _ S(2) _ S(4-7)]) (auto simp: S(1,3) new)
  next
    case True
    have pair1: "fork_pair pds child c pd d cd s1"
      by (rule fork_pair_rest [OF pair s1(3)], rule S(4)) (use P in auto)
    note P1 = fork_pair_D [OF pair1]
    have map1: "translate s1 pd ?va = Some (q, w)" using S(1) [OF P(2) N(5)] P(4) map(1) by simp
    have q1: "q < npages s1" "q \<notin> pds" "q \<notin> tables s1 pds" "q \<notin> set (page_pool s1)"
      by (rule mapped_ref(2-5) [OF s1(2) P(2) N(5) map1])+
    have ref2: "page_ref s1 q < 65535" using S(3) [OF q(4)] ref by simp
    have pde1: "phys s1 pd (PDX ?va) \<noteq> 0" using S(4) [of pd "n div 1024"] P(2,4) t(1) by (simp add: N(2))
    obtain s2 where s2: "page_insert pd q ?va ?perm s1 = Inr (0, s2)" "vm_inv pds ext s2" "rest s2 = rest s1"
      "\<And>pd' va'. pd' \<in> pds \<Longrightarrow> PDX va' < NUPDE \<Longrightarrow> translate s2 pd' va' =
         (if pd' = pd \<and> PGNUM va' = PGNUM ?va then Some (q, ?perm OR PTE_P) else translate s1 pd' va')"
      "page_pool s2 = (if phys s1 pd (PDX ?va) = 0 then tl (page_pool s1) else page_pool s1)"
      "\<And>p. p \<notin> set (page_pool s1) \<Longrightarrow>
         page_ref s2 p = (if p = q \<and> translate s1 pd ?va = None then Suc (page_ref s1 p) else page_ref s1 p)"
      "\<And>pd' j. pd' \<in> pds \<Longrightarrow> (pd', j) \<noteq> (pd, PDX ?va) \<or> phys s1 pd (PDX ?va) \<noteq> 0 \<Longrightarrow> phys s2 pd' j = phys s1 pd' j"
      "\<And>p. p \<notin> pds \<Longrightarrow> p \<notin> tables s1 pds \<Longrightarrow> p \<notin> set (page_pool s1) \<Longrightarrow> phys s2 p = phys s1 p"
      "tables s2 pds \<subseteq> tables s1 pds \<union> set (page_pool s1)"
      by (rule insert_shared [OF s1(2) P(2) N(5) disjI1 [OF pde1] q1 ref2 fork_perm_bits(2)]) (use map1 in auto)
    have call2: "usys_page_map cfg 0 ?va 0 ?va ?perm s1 = Inr (0, s2)"
      by (rule page_map_call [OF s1(2) N(4,5,4) P1(7,8,2) P1(7,8) map1])
        (simp_all add: fork_perm_bits(4) [simplified] fork_perm_bits(1) s2(1))
    have run: "duppage cfg child n s = Inr (0, s2)" using dup call1 call2 True by (simp add: or_panic_def)
    have sub: "p \<notin> set (page_pool s1)" if "p \<notin> set (page_pool s)" for p using pool1 that by blast
    have same: "phys s2 pd' j = phys s1 pd' j" if "pd' \<in> pds" for pd' j using s2(7) [OF that] pde1 by blast
    have rest2: "rest s2 = rest s" using s2(3) s1(3) by simp
    show thesis
    proof (rule that [OF run s2(2) rest2])
      show "translate s2 pd' va = (if PGNUM va = n \<and> (pd' = cd \<or> pd' = pd \<and> w AND (PTE_W OR PTE_COW) \<noteq> 0)
          then Some (q, fork_perm w) else translate s pd' va)" if "pd' \<in> pds" "PDX va < NUPDE" for pd' va
        unfolding s2(4) [OF that] S(1) [OF that] N(1) f wc using True by auto
      show "page_pool s2 = (if phys s cd (n div 1024) = 0 then tl (page_pool s) else page_pool s)"
        using s2(5) S(2) pde1 by simp
      show "page_ref s2 p = (if p = q then Suc (page_ref s p) else page_ref s p)" if "p \<notin> set (page_pool s)" for p
        using s2(6) [OF sub [OF that]] S(3) [OF that] map1 new by simp
      show "phys s2 pd' j = phys s pd' j"
        if "pd' \<in> pds" "(pd', j) \<noteq> (cd, n div 1024) \<or> phys s cd (n div 1024) \<noteq> 0" for pd' j
        unfolding same [OF that(1)] by (rule S(4) [OF that])
      show "phys s2 cd (n div 1024) \<noteq> 0" unfolding same [OF P(3)] by (rule S(5))
      show "phys s2 p = phys s p" if "p \<notin> pds" "p \<notin> tables s pds" "p \<notin> set (page_pool s)" for p
      proof -
        have "p \<notin> tables s1 pds" using S(7) that by blast
        from s2(8) [OF that(1) this sub [OF that(3)]] S(6) [OF that] show ?thesis by simp
      qed
      show "tables s2 pds \<subseteq> tables s pds \<union> set (page_pool s)" using s2(9) S(7) pool1 by blast
    qed
  qed
qed

section \<open>The loop over the pages\<close>

text \<open>
  The page \<open>fork\<close> hands on at an address: what is mapped there for the user, except on the exception stack;
  and what the address maps to in the parent afterwards.
\<close>

definition forked :: "kstate \<Rightarrow> nat \<Rightarrow> u32 \<Rightarrow> (nat \<times> u32) option" where
  "forked s pd va =
     (if PGNUM va = PGNUM (UXSTACKTOP - PGSIZE) \<or> phys s pd (PDX va) AND PTE_U = 0 then None
      else case translate s pd va of
             Some (q, w) \<Rightarrow> if w AND PTE_U \<noteq> 0 then Some (q, w) else None
           | None \<Rightarrow> None)"

definition child_map :: "kstate \<Rightarrow> nat \<Rightarrow> u32 \<Rightarrow> (nat \<times> u32) option" where
  "child_map s pd va = map_option (\<lambda>(q, w). (q, fork_perm w)) (forked s pd va)"

definition parent_map :: "kstate \<Rightarrow> nat \<Rightarrow> u32 \<Rightarrow> (nat \<times> u32) option" where
  "parent_map s pd va =
     (case forked s pd va of
        Some (q, w) \<Rightarrow> if w AND (PTE_W OR PTE_COW) \<noteq> 0 then Some (q, fork_perm w) else translate s pd va
      | None \<Rightarrow> translate s pd va)"

lemma same_page:
  assumes "PGNUM v = PGNUM va"
  shows "translate s pd v = translate s pd va" "forked s pd v = forked s pd va"
    "child_map s pd v = child_map s pd va" "parent_map s pd v = parent_map s pd va"
proof -
  have "PDX v = PDX va" "PTX v = PTX va" using assms by (simp_all add: PGNUM_eq_iff)
  then show t: "translate s pd v = translate s pd va" by (simp add: translate_def)
  from \<open>PDX v = PDX va\<close> show f: "forked s pd v = forked s pd va" by (simp add: forked_def t assms)
  show "child_map s pd v = child_map s pd va" "parent_map s pd v = parent_map s pd va"
    unfolding child_map_def parent_map_def f t by (rule refl)+
qed

definition mapped_at :: "kstate \<Rightarrow> nat \<Rightarrow> nat \<Rightarrow> nat \<Rightarrow> bool" where
  "mapped_at s pd q n \<longleftrightarrow> (\<exists>w. translate s pd (pgva n) = Some (q, w))"

definition missing :: "kstate \<Rightarrow> nat \<Rightarrow> nat \<Rightarrow> kstate \<Rightarrow> nat set" where
  "missing s0 pd cd s = {i. i < NUPDE \<and> phys s0 pd i \<noteq> 0 \<and> phys s cd i = 0}"

lemma finite_missing: "finite (missing s0 pd cd s)"
  by (rule finite_subset [of _ "{..<NUPDE}"]) (auto simp: missing_def)

definition fork_inv :: "nat set \<Rightarrow> (nat \<Rightarrow> nat) \<Rightarrow> nat \<Rightarrow> nat \<Rightarrow> kstate \<Rightarrow> nat list \<Rightarrow> kstate \<Rightarrow> bool" where
  "fork_inv pds ext pd cd s0 todo s \<longleftrightarrow> vm_inv pds ext s \<and> rest s = rest s0 \<and> (\<forall>j. phys s pd j = phys s0 pd j) \<and>
     set (page_pool s) \<subseteq> set (page_pool s0) \<and> tables s pds \<subseteq> tables s0 pds \<union> set (page_pool s0) \<and>
     (\<forall>va. PDX va < NUPDE \<longrightarrow> translate s cd va = (if PGNUM va \<in> set todo then None else child_map s0 pd va)) \<and>
     (\<forall>va. PDX va < NUPDE \<longrightarrow>
        translate s pd va = (if PGNUM va \<in> set todo then translate s0 pd va else parent_map s0 pd va)) \<and>
     (\<forall>pd'\<in>pds - {pd, cd}. \<forall>va. PDX va < NUPDE \<longrightarrow> translate s pd' va = translate s0 pd' va) \<and>
     (\<forall>q<npages s0. q \<notin> set (page_pool s0) \<longrightarrow> page_ref s q + length (filter (mapped_at s0 pd q) todo) < 65535) \<and>
     card (missing s0 pd cd s) \<le> length (page_pool s) \<and>
     (\<forall>q. q \<notin> pds \<and> q \<notin> tables s0 pds \<and> q \<notin> set (page_pool s0) \<longrightarrow> phys s q = phys s0 q)"

lemma fork_inv_D:
  assumes "fork_inv pds ext pd cd s0 todo s"
  shows "vm_inv pds ext s" "rest s = rest s0" "phys s pd j = phys s0 pd j"
    "set (page_pool s) \<subseteq> set (page_pool s0)" "tables s pds \<subseteq> tables s0 pds \<union> set (page_pool s0)"
    "PDX va < NUPDE \<Longrightarrow> translate s cd va = (if PGNUM va \<in> set todo then None else child_map s0 pd va)"
    "PDX va < NUPDE \<Longrightarrow>
       translate s pd va = (if PGNUM va \<in> set todo then translate s0 pd va else parent_map s0 pd va)"
    "pd' \<in> pds \<Longrightarrow> pd' \<noteq> pd \<Longrightarrow> pd' \<noteq> cd \<Longrightarrow> PDX va < NUPDE \<Longrightarrow> translate s pd' va = translate s0 pd' va"
    "q < npages s0 \<Longrightarrow> q \<notin> set (page_pool s0) \<Longrightarrow> page_ref s q + length (filter (mapped_at s0 pd q) todo) < 65535"
    "card (missing s0 pd cd s) \<le> length (page_pool s)"
    "q \<notin> pds \<Longrightarrow> q \<notin> tables s0 pds \<Longrightarrow> q \<notin> set (page_pool s0) \<Longrightarrow> phys s q = phys s0 q"
  using assms unfolding fork_inv_def by blast+

lemma exception_page: "PGNUM 0xEEBFF000 = 977919"
  by (simp add: PGNUM_div)

text \<open>A page that is not handed on is passed over.\<close>

lemma fork_page_skip:
  assumes inv: "vm_inv pds ext s" and pair: "fork_pair pds child c pd d cd s" and n: "n < 977920"
    and none: "forked s pd (pgva n) = None"
  shows "fork_page cfg child n s = Inr s"
proof (cases "n = 977919 \<or> phys s pd (n div 1024) = 0 \<or> phys s pd (n div 1024) AND PTE_U = 0")
  case True
  have "n div 1024 < 1024" "drop_bit 10 n = n div 1024" using n by (simp_all add: drop_bit_eq_div)
  with uvpd_eq [OF fork_pair_D(1) [OF pair]] True show ?thesis
    by (auto simp: fork_page_def)
next
  case False
  have n20: "n < 1048576" using n by simp
  note P = fork_pair_D [OF pair] and N = pgva_parts [OF n20] pgva_user [OF n]
  have i: "n div 1024 < NUPDE" using N(2,5) by simp
  let ?pte = "phys s (pt_of s pd (n div 1024)) (n mod 1024)"
  have p1: "phys s pd (n div 1024) AND PTE_P \<noteq> 0" using vm_inv_D(13) [OF inv P(2) i] False by blast
  have ud: "uvpd s (drop_bit 10 n) = Inr (phys s pd (n div 1024))"
    using uvpd_eq [OF P(1), of "n div 1024"] i by (simp add: drop_bit_eq_div)
  have ut: "uvpt s n = Inr ?pte" by (rule uvpt_eq [OF P(1) n20 p1]) (use False in simp)
  have "?pte AND PTE_U = 0"
  proof (rule ccontr)
    assume u: "?pte AND PTE_U \<noteq> 0"
    then have "?pte \<noteq> 0" by auto
    then have "translate s pd (pgva n) = Some (PGNUM ?pte, ?pte AND 0xFFF)"
      using False by (simp add: translate_def N Let_def)
    then show False using none u False by (simp add: forked_def N low_and exception_page)
  qed
  with False p1 show ?thesis by (simp add: fork_page_def ud ut)
qed

lemma fork_inv_pair:
  "fork_inv pds ext pd cd s0 todo s \<Longrightarrow> fork_pair pds child c pd d cd s0 \<Longrightarrow> fork_pair pds child c pd d cd s"
  by (rule fork_pair_rest [OF _ fork_inv_D(2,3)])

lemma fork_page_step:
  assumes I: "fork_inv pds ext pd cd s0 (n # todo) s" and pair0: "fork_pair pds child c pd d cd s0"
    and vm0: "vm_inv pds ext s0" and n: "n < 977920" "n \<notin> set todo"
  obtains s' where "fork_page cfg child n s = Inr s'" "fork_inv pds ext pd cd s0 todo s'"
proof -
  note D = fork_inv_D [OF I]
  have pair: "fork_pair pds child c pd d cd s" by (rule fork_inv_pair [OF I pair0])
  note P = fork_pair_D [OF pair]
  have n20: "n < 1048576" using n by simp
  note N = pgva_parts [OF n20] pgva_user [OF n(1)]
  have here: "translate s pd va = translate s0 pd va" if "PGNUM va = n" "PDX va < NUPDE" for va
    using D(7) [OF that(2)] that(1) by simp
  have fk: "forked s pd (pgva n) = forked s0 pd (pgva n)"
    unfolding forked_def D(3) here [OF N(1,5)] ..
  show thesis
  proof (cases "forked s0 pd (pgva n)")
    case None
    have skip: "child_map s0 pd va = None" "parent_map s0 pd va = translate s0 pd va" if "PGNUM va = n" for va
      using None same_page(2) [of va "pgva n"] that N(1) by (simp_all add: child_map_def parent_map_def)
    have "fork_inv pds ext pd cd s0 todo s"
      unfolding fork_inv_def
    proof (intro conjI allI impI ballI)
      show "vm_inv pds ext s" "rest s = rest s0" "phys s pd j = phys s0 pd j"
        "set (page_pool s) \<subseteq> set (page_pool s0)" "tables s pds \<subseteq> tables s0 pds \<union> set (page_pool s0)"
        "card (missing s0 pd cd s) \<le> length (page_pool s)" for j by (rule D)+
      show "phys s q = phys s0 q" if "q \<notin> pds \<and> q \<notin> tables s0 pds \<and> q \<notin> set (page_pool s0)" for q
        using D(11) that by blast
      show "translate s cd va = (if PGNUM va \<in> set todo then None else child_map s0 pd va)" if "PDX va < NUPDE" for va
        using D(6) [OF that] skip(1) [of va] by auto
      show "translate s pd va = (if PGNUM va \<in> set todo then translate s0 pd va else parent_map s0 pd va)"
        if "PDX va < NUPDE" for va using D(7) [OF that] skip(2) [of va] by auto
      show "translate s pd' va = translate s0 pd' va" if "pd' \<in> pds - {pd, cd}" "PDX va < NUPDE" for pd' va
        using D(8) that by blast
      show "page_ref s q + length (filter (mapped_at s0 pd q) todo) < 65535" if "q < npages s0" "q \<notin> set (page_pool s0)" for q
        using D(9) [OF that] by (simp split: if_splits)
    qed
    with fork_page_skip [OF D(1) pair n(1)] fk None show thesis by (intro that [of s]) simp_all
  next
    case (Some m)
    obtain q w where m: "m = (q, w)" by (cases m)
    note fork0 = Some [unfolded m]
    have fk1: "n \<noteq> 977919" "phys s pd (n div 1024) AND PTE_U \<noteq> 0" "w AND PTE_U \<noteq> 0"
      "translate s pd (pgva n) = Some (q, w)"
      using fork0 here [OF N(1,5)] D(3)
      by (auto simp: forked_def N exception_page split: if_splits option.splits)
    have map0: "translate s0 pd (pgva n) = Some (q, w)" using fk1(4) here [OF N(1,5)] by simp
    have p0: "phys s0 pd (n div 1024) \<noteq> 0" using translate_eq(1) [OF n20 map0] .
    have new: "translate s cd (pgva n) = None" using D(6) [OF N(5)] N(1) by simp
    have mem: "phys s cd (n div 1024) \<noteq> 0 \<or> page_pool s \<noteq> []"
    proof (rule ccontr)
      assume a: "\<not> ?thesis"
      then have "n div 1024 \<in> missing s0 pd cd s" using p0 N(2,5) by (simp add: missing_def)
      then have "card (missing s0 pd cd s) > 0" using finite_missing by (auto simp: card_gt_0_iff)
      with D(10) a show False by simp
    qed
    have q0: "q < npages s0" "q \<notin> set (page_pool s0)" by (rule mapped_ref(2,5) [OF vm0 P(2) N(5) map0])+
    have "mapped_at s0 pd q n" using map0 by (auto simp: mapped_at_def)
    then have ref: "Suc (page_ref s q) < 65535" using D(9) [OF q0] by simp
    obtain s' where s': "duppage cfg child n s = Inr (0, s')" "vm_inv pds ext s'" "rest s' = rest s"
      "\<And>pd' va. pd' \<in> pds \<Longrightarrow> PDX va < NUPDE \<Longrightarrow> translate s' pd' va =
         (if PGNUM va = n \<and> (pd' = cd \<or> pd' = pd \<and> w AND (PTE_W OR PTE_COW) \<noteq> 0) then Some (q, fork_perm w)
          else translate s pd' va)"
      "page_pool s' = (if phys s cd (n div 1024) = 0 then tl (page_pool s) else page_pool s)"
      "\<And>p. p \<notin> set (page_pool s) \<Longrightarrow> page_ref s' p = (if p = q then Suc (page_ref s p) else page_ref s p)"
      "\<And>pd' j. pd' \<in> pds \<Longrightarrow> (pd', j) \<noteq> (cd, n div 1024) \<or> phys s cd (n div 1024) \<noteq> 0 \<Longrightarrow> phys s' pd' j = phys s pd' j"
      "phys s' cd (n div 1024) \<noteq> 0"
      "\<And>p. p \<notin> pds \<Longrightarrow> p \<notin> tables s pds \<Longrightarrow> p \<notin> set (page_pool s) \<Longrightarrow> phys s' p = phys s p"
      "tables s' pds \<subseteq> tables s pds \<union> set (page_pool s)"
      by (rule duppage_step [OF D(1) pair n(1) fk1(2,4,3) new mem ref]) (rule that; assumption)
    have i: "n div 1024 < 1024" "drop_bit 10 n = n div 1024" using n by (simp_all add: drop_bit_eq_div)
    have p1: "phys s pd (n div 1024) AND PTE_P \<noteq> 0"
      using vm_inv_D(13) [OF D(1) P(2)] N(2,5) p0 D(3) by simp
    have pte: "phys s (pt_of s pd (n div 1024)) (n mod 1024) AND PTE_P \<noteq> 0"
      "phys s (pt_of s pd (n div 1024)) (n mod 1024) AND PTE_U \<noteq> 0"
    proof -
      note t = translate_eq [OF n20 fk1(4)]
      have "n div 1024 < NUPDE" using N(2,5) by simp
      then show "phys s (pt_of s pd (n div 1024)) (n mod 1024) AND PTE_P \<noteq> 0"
        using vm_inv_D(14) [OF D(1) pt_of_table [OF P(2) _ t(1)] _ t(2)] by simp
      show "phys s (pt_of s pd (n div 1024)) (n mod 1024) AND PTE_U \<noteq> 0"
        using fk1(3) unfolding t(4) [symmetric] low_and .
    qed
    have run: "fork_page cfg child n s = Inr s'"
      using fk1(1,2) p1 pte s'(1) uvpd_eq [OF P(1) i(1)] uvpt_eq [OF P(1) n20 p1 fk1(2)]
      by (simp add: fork_page_def i(2))
    have maps: "child_map s0 pd va = Some (q, fork_perm w)"
      "parent_map s0 pd va = (if w AND (PTE_W OR PTE_COW) \<noteq> 0 then Some (q, fork_perm w) else translate s0 pd va)"
      if "PGNUM va = n" for va
      using fork0 same_page(2) [of va "pgva n"] that N(1) by (simp_all add: child_map_def parent_map_def)
    have sub: "set (page_pool s') \<subseteq> set (page_pool s)" unfolding s'(5) by (cases "page_pool s") auto
    have "fork_inv pds ext pd cd s0 todo s'"
      unfolding fork_inv_def
    proof (intro conjI allI impI ballI)
      show "vm_inv pds ext s'" "rest s' = rest s0" using s'(2,3) D(2) by simp_all
      show "phys s' pd j = phys s0 pd j" for j using s'(7) [OF P(2)] P(4) D(3) by simp
      show "set (page_pool s') \<subseteq> set (page_pool s0)" using sub D(4) by blast
      show "tables s' pds \<subseteq> tables s0 pds \<union> set (page_pool s0)" using s'(10) D(4,5) by blast
      show "translate s' cd va = (if PGNUM va \<in> set todo then None else child_map s0 pd va)" if "PDX va < NUPDE" for va
        using s'(4) [OF P(3) that] D(6) [OF that] maps(1) [of va] n(2) by auto
      show "translate s' pd va = (if PGNUM va \<in> set todo then translate s0 pd va else parent_map s0 pd va)"
        if "PDX va < NUPDE" for va
        using s'(4) [OF P(2) that] D(7) [OF that] maps(2) [of va] n(2) P(4) by auto
      show "translate s' pd' va = translate s0 pd' va" if "pd' \<in> pds - {pd, cd}" "PDX va < NUPDE" for pd' va
        using s'(4) [of pd' va] D(8) [of pd' va] that by auto
      show "page_ref s' p + length (filter (mapped_at s0 pd p) todo) < 65535" if p: "p < npages s0" "p \<notin> set (page_pool s0)" for p
      proof -
        have "p \<notin> set (page_pool s)" using p(2) D(4) by blast
        then show ?thesis using s'(6) D(9) [OF p] map0 by (auto simp: mapped_at_def split: if_splits)
      qed
      show "phys s' p = phys s0 p" if "p \<notin> pds \<and> p \<notin> tables s0 pds \<and> p \<notin> set (page_pool s0)" for p
        using s'(9) [of p] D(11) [of p] that D(4,5) by auto
      show "card (missing s0 pd cd s') \<le> length (page_pool s')"
      proof (cases "phys s cd (n div 1024) = 0")
        case True
        have dir: "phys s' cd j = 0 \<longleftrightarrow> phys s cd j = 0 \<and> j \<noteq> n div 1024" for j
          using s'(7) [OF P(3), of j] s'(8) True by (cases "j = n div 1024") auto
        have "missing s0 pd cd s' = missing s0 pd cd s - {n div 1024}" by (auto simp: missing_def dir)
        moreover have "n div 1024 \<in> missing s0 pd cd s" using True p0 N(2,5) by (simp add: missing_def)
        ultimately have "card (missing s0 pd cd s') = card (missing s0 pd cd s) - 1"
          by (simp add: finite_missing)
        then show ?thesis using D(10) s'(5) True by simp
      next
        case False
        then have "phys s' cd j = phys s cd j" for j using s'(7) [OF P(3), of j] by simp
        then have "missing s0 pd cd s' = missing s0 pd cd s" by (simp add: missing_def)
        then show ?thesis using D(10) s'(5) False by simp
      qed
    qed
    with run show thesis by (rule that)
  qed
qed

lemma fork_loop:
  assumes "fork_inv pds ext pd cd s0 todo s" "fork_pair pds child c pd d cd s0" "vm_inv pds ext s0"
    and "\<forall>n\<in>set todo. n < 977920" "distinct todo"
  shows "\<exists>s'. foldU (fork_page cfg child) todo s = Inr s' \<and> fork_inv pds ext pd cd s0 [] s'"
  using assms(1,4,5)
proof (induction todo arbitrary: s)
  case (Cons n todo)
  obtain s' where s': "fork_page cfg child n s = Inr s'" "fork_inv pds ext pd cd s0 todo s'"
    by (rule fork_page_step [OF Cons.prems(1) assms(2,3)]) (use Cons.prems in auto)
  with Cons.IH [OF s'(2)] Cons.prems show ?case by simp
qed simp

text \<open>A page has as many references as the parent has mappings of it, at least.\<close>

lemma mapped_count:
  assumes inv: "vm_inv pds ext s" and pd: "pd \<in> pds" and ns: "\<forall>n\<in>set ns. n < 977920" "distinct ns"
  shows "length (filter (mapped_at s pd q) ns) \<le> page_ref s q"
proof (cases "filter (mapped_at s pd q) ns")
  case (Cons n ms)
  let ?f = "\<lambda>n. (pd, n div 1024, n mod 1024)" and ?xs = "filter (mapped_at s pd q) ns"
  have in_leafs: "?f k \<in> leafs s pds q" if mem: "k \<in> set ?xs" for k
  proof -
    have k: "k < 977920" "k < 1048576" using mem ns(1) by auto
    obtain w where "translate s pd (pgva k) = Some (q, w)" using mem by (auto simp: mapped_at_def)
    note t = translate_eq [OF k(2) this]
    then show ?thesis using k(1) pd by (simp add: leafs_def less_mult_imp_div_less)
  qed
  have "inj_on ?f (set ?xs)" by (rule inj_onI) (metis mult_div_mod_eq prod.inject)
  then have "card (?f ` set ?xs) = card (set ?xs)" by (rule card_image)
  moreover have "card (set ?xs) = length ?xs" by (rule distinct_card) (simp add: ns(2))
  moreover have "card (?f ` set ?xs) \<le> card (leafs s pds q)"
    using in_leafs by (intro card_mono finite_leafs vm_inv_D(2) [OF inv]) auto
  moreover have "?f n \<in> leafs s pds q" using in_leafs Cons by simp
  ultimately show ?thesis using vm_inv_D(12) [OF inv vm_inv_D(9-11) [OF inv]] by fastforce
qed simp

lemma user_pages_all: "n \<in> set user_pages \<longleftrightarrow> n < 977920" "distinct user_pages"
proof -
  have u: "unat (drop_bit 12 UTOP) = 977920" by (simp add: unat_drop)
  show "n \<in> set user_pages \<longleftrightarrow> n < 977920"
    unfolding user_pages_def u set_upt atLeastLessThan_iff by (simp only: le0 simp_thms)
  show "distinct user_pages" unfolding user_pages_def by (rule distinct_upt)
qed

lemma fork_inv_start:
  assumes inv: "vm_inv pds ext s" and pair: "fork_pair pds child c pd d cd s"
    and new: "\<And>va. PDX va < NUPDE \<Longrightarrow> translate s cd va = None"
    and ref: "\<And>q. q < npages s \<Longrightarrow> page_ref s q < 32768" and mem: "card (missing s pd cd s) \<le> length (page_pool s)"
  shows "fork_inv pds ext pd cd s user_pages s"
proof -
  have "PGNUM va < 977920" if "PDX va < NUPDE" for va using that by (simp add: PDX_PGNUM)
  moreover have "page_ref s q + length (filter (mapped_at s pd q) user_pages) < 65535" if "q < npages s" for q
  proof -
    have "\<forall>n\<in>set user_pages. n < 977920" using user_pages_all(1) by blast
    from mapped_count [OF inv fork_pair_D(2) [OF pair] this user_pages_all(2), of q] ref [OF that] show ?thesis
      by linarith
  qed
  ultimately show ?thesis using inv new mem by (simp add: fork_inv_def user_pages_all(1))
qed

section \<open>A small example\<close>

text \<open>
  A parent (directory 1, one table 2) with one writable page 3 at 0x800000, and a new child (directory 4).
\<close>

definition fork_kernel :: kstate where
  "fork_kernel =
     \<lparr>npages = 7,
      pages = map (\<lambda>p. \<lparr>pp_link = (if p = 5 then Some 6 else None), pp_ref = (if p \<in> {1, 2, 3, 4} then 1 else 0)\<rparr>) [0..<7],
      page_free_list = Some 5,
      phys = (\<lambda>p i. if p = 1 \<and> i = 2 then 0x2007 else if p = 1 \<and> i = 957 then 0x1005
                     else if p = 2 \<and> i = 0 then 0x3007 else 0),
      kern_pgdir = 0, cr3 = 1, invlpgs = [], nextfree = None, mmio_base = MMIOBASE, user_mem_check_addr = 0,
      envs = [zero_env\<lparr>env_id := 0x1000, env_pgdir := Some 1, env_status := ENV_RUNNING\<rparr>,
              zero_env\<lparr>env_id := 0x1001, env_parent_id := 0x1000, env_pgdir := Some 4,
                env_status := ENV_NOT_RUNNABLE\<rparr>],
      env_free_list = None, cpus = [\<lparr>cpu_status = CPU_STARTED, cpu_env = Some 0\<rparr>], thiscpu = 0,
      kernel_lock = \<lparr>locked = 1, lock_cpu = Some 0\<rparr>, sched_stats = zero_sched_stats\<rparr>"

lemma fork_kernel_sel:
  "npages fork_kernel = 7" "cr3 fork_kernel = 1" "curenv fork_kernel = Some 0"
  "phys fork_kernel p i = (if p = 1 \<and> i = 2 then 0x2007 else if p = 1 \<and> i = 957 then 0x1005
     else if p = 2 \<and> i = 0 then 0x3007 else 0)"
  "p < 7 \<Longrightarrow> page_link fork_kernel p = (if p = 5 then Some 6 else None)"
  "p < 7 \<Longrightarrow> page_ref fork_kernel p = (if p \<in> {1, 2, 3, 4} then 1 else 0)"
  "page_free_list fork_kernel = Some 5" "length (pages fork_kernel) = 7"
  by (simp_all add: fork_kernel_def curenv_def page_link_def page_ref_def del: upt_Suc)

lemma fork_kernel_pages: "page_inv fork_kernel" "page_pool fork_kernel = [5, 6]"
  by (rule page_inv_intro [where xs = "[5, 6]"]; auto simp: fork_kernel_sel)+

lemma fork_kernel_tables:
  "tables fork_kernel {1, 4} = {2}"
  "leafs fork_kernel {1, 4} q = (if q = 3 then {(1, 2, 0)} else {})"
proof -
  have t: "pt_of fork_kernel p i = (if p = 1 \<and> i = 2 then 2 else if p = 1 \<and> i = 957 then 1
      else if p = 2 \<and> i = 0 then 3 else 0)" for p i
    by (simp add: pt_of_def fork_kernel_sel PGNUM_div)
  have "pt_of fork_kernel 1 2 \<in> tables fork_kernel {1, 4}" by (rule pt_of_table) (simp_all add: fork_kernel_sel)
  then have "2 \<in> tables fork_kernel {1, 4}" by (simp add: t)
  moreover have "tables fork_kernel {1, 4} \<subseteq> {2}" by (auto simp: tables_def t fork_kernel_sel split: if_splits)
  ultimately show "tables fork_kernel {1, 4} = {2}" by blast
  show "leafs fork_kernel {1, 4} q = (if q = 3 then {(1, 2, 0)} else {})"
    by (auto simp: leafs_def t fork_kernel_sel PGNUM_div split: if_splits)
qed

lemma fork_kernel_vm: "vm_inv {1, 4} (\<lambda>_. 0) fork_kernel"
  unfolding vm_inv_def fork_kernel_tables
  by (auto simp: fork_kernel_sel fork_kernel_pages pt_of_def PGNUM_div)

lemma fork_kernel_envs:
  "envs fork_kernel ! 0 = zero_env\<lparr>env_id := 0x1000, env_pgdir := Some 1, env_status := ENV_RUNNING\<rparr>"
  "envs fork_kernel ! 1 = zero_env\<lparr>env_id := 0x1001, env_parent_id := 0x1000, env_pgdir := Some 4,
     env_status := ENV_NOT_RUNNABLE\<rparr>"
  by (simp_all add: fork_kernel_def)

lemma fork_kernel_pair: "fork_pair {1, 4} 0x1001 0 1 1 4 fork_kernel"
  by (simp add: fork_pair_def user_runs_def fork_kernel_sel envid2env_def ENVX_def page2pa_def PDX_div
      fork_kernel_envs [unfolded One_nat_def])

section \<open>The whole loop\<close>

text \<open>C4: The page loop of \<open>fork\<close>, run for a child whose user space is empty and with a free page for every page
  table the child lacks, gives the child at every user address the page the parent has there, except at the
  exception stack, at an absent page and at a page or a table without user access, where the child stays
  empty. Child and parent then share the page, writable by neither; a page that was writable or copy-on-write,
  device pages with \<open>PTE_PCD\<close> or \<open>PTE_PWT\<close> included, is copy-on-write in both (the comment in
  \<open>duppage\<close> excludes device pages). The parent's mappings that are not shared, the mappings of every other address space
  and the contents of every page mapped in some address space stay as they are.\<close>

theorem fork_shares_pages:
  assumes "vm_inv pds ext s" "fork_pair pds child c pd d cd s"
    and "\<forall>va. va < UTOP \<longrightarrow> translate s cd va = None"
    and "\<forall>q<npages s. page_ref s q < 32768" "card (missing s pd cd s) \<le> length (page_pool s)"
  shows "\<exists>s'. foldU (fork_page cfg child) user_pages s = Inr s' \<and> vm_inv pds ext s' \<and>
    (\<forall>va. va < UTOP \<longrightarrow> translate s' cd va = child_map s pd va \<and> translate s' pd va = parent_map s pd va) \<and>
    (\<forall>va q w. va < UTOP \<and> forked s pd va = Some (q, w) \<longrightarrow>
       (\<exists>w1 w2. translate s' pd va = Some (q, w1) \<and> translate s' cd va = Some (q, w2) \<and>
          w1 AND PTE_W = 0 \<and> w2 AND PTE_W = 0 \<and>
          (w AND (PTE_W OR PTE_COW) \<noteq> 0 \<longrightarrow> w1 AND PTE_COW \<noteq> 0 \<and> w2 AND PTE_COW \<noteq> 0))) \<and>
    (\<forall>pd'\<in>pds - {pd, cd}. \<forall>va. va < UTOP \<longrightarrow> translate s' pd' va = translate s pd' va) \<and>
    (\<forall>pd'\<in>pds. \<forall>va q w. va < UTOP \<and> translate s pd' va = Some (q, w) \<longrightarrow> phys s' q = phys s q)"
proof -
  note P = fork_pair_D [OF assms(2)]
  have user: "va < UTOP" if "PDX va < NUPDE" for va
    using that by (simp add: PDX_div word_less_nat_alt) 
  have start: "fork_inv pds ext pd cd s user_pages s"
    by (rule fork_inv_start [OF assms(1,2)]) (use assms(3-5) user in blast)+
  obtain s' where s': "foldU (fork_page cfg child) user_pages s = Inr s'" "fork_inv pds ext pd cd s [] s'"
    using fork_loop [OF start assms(2,1)] user_pages_all by blast
  note D = fork_inv_D [OF s'(2)]
  have maps: "translate s' cd va = child_map s pd va" "translate s' pd va = parent_map s pd va" if "va < UTOP" for va
    using D(6,7) [OF PDX_user [OF that]] by simp_all
  have shared: "\<exists>w1 w2. translate s' pd va = Some (q, w1) \<and> translate s' cd va = Some (q, w2) \<and>
      w1 AND PTE_W = 0 \<and> w2 AND PTE_W = 0 \<and> (w AND (PTE_W OR PTE_COW) \<noteq> 0 \<longrightarrow> w1 AND PTE_COW \<noteq> 0 \<and> w2 AND PTE_COW \<noteq> 0)"
    if f: "va < UTOP" "forked s pd va = Some (q, w)" for va q w
  proof -
    have t: "translate s pd va = Some (q, w)" using f(2) by (auto simp: forked_def split: if_splits option.splits)
    have "\<not> w AND (PTE_W OR PTE_COW) \<noteq> 0 \<Longrightarrow> w AND PTE_W = 0"
      unfolding bit.conj_disj_distrib or_eq_0_iff by blast
    then show ?thesis
      unfolding maps [OF f(1)] child_map_def parent_map_def f(2)
      using t fork_perm_bits(1) [of w] fork_perm_cow [of w] by auto
  qed
  have content: "phys s' q = phys s q" if "pd' \<in> pds" "va < UTOP" "translate s pd' va = Some (q, w)" for pd' va q w
    by (rule D(11)) (rule mapped_ref [OF assms(1) that(1) PDX_user [OF that(2)] that(3)])+
  show ?thesis
    using s'(1) D(1) maps shared content D(8) PDX_user by (intro exI [of _ s'] conjI) blast+
qed

theorem fork_shares_pages_witness:
  "\<exists>s'. foldU (fork_page SCHED_ROUND_ROBIN 0x1001) user_pages fork_kernel = Inr s' \<and>
     translate s' 1 0x800000 = Some (3, 0x805) \<and> translate s' 4 0x800000 = Some (3, 0x805)"
proof -
  have none: "\<forall>va. va < UTOP \<longrightarrow> translate fork_kernel 4 va = None" by (simp add: translate_def fork_kernel_sel)
  have "missing fork_kernel 1 4 fork_kernel = {2}" by (auto simp: missing_def fork_kernel_sel)
  then have mem: "card (missing fork_kernel 1 4 fork_kernel) \<le> length (page_pool fork_kernel)"
    by (simp add: fork_kernel_pages)
  have "forked fork_kernel 1 0x800000 = Some (3, 7)"
    by (simp add: forked_def translate_def fork_kernel_sel PDX_div PTX_mod PGNUM_div pt_of_def)
  then have maps: "child_map fork_kernel 1 0x800000 = Some (3, 0x805)" "parent_map fork_kernel 1 0x800000 = Some (3, 0x805)"
    by (simp_all add: child_map_def parent_map_def fork_perm_def)
  have ref: "\<forall>q<npages fork_kernel. page_ref fork_kernel q < 32768" by (simp add: fork_kernel_sel)
  from fork_shares_pages [OF fork_kernel_vm fork_kernel_pair none ref mem, of SCHED_ROUND_ROBIN] show ?thesis
    using maps by auto
qed

end
