(* ===== verification/CowProps.thy ===== *)
theory CowProps
  imports ForkProps
begin

text \<open>
  The page fault handler of \<open>fork\<close>: the faulting page becomes a private, writable copy.
\<close>

section \<open>System calls on the caller's own pages\<close>

lemma user_runs_rest:
  assumes "user_runs c pd s" "rest s' = rest s" "phys s' pd (PDX UVPT) = phys s pd (PDX UVPT)"
  shows "user_runs c pd s'" "envid2env 0 True s' = Inr (0, Some c)" "env_pgdir (envs s' ! c) = Some pd"
  using assms by (simp_all add: user_runs_def envid2env_def rest_sel [OF assms(2)])

lemma page_alloc_call:
  assumes inv: "vm_inv pds ext s" and run: "user_runs c pd s" "pd \<in> pds" and va: "\<not> bad_va v" "PDX v < NUPDE"
    and pool: "page_pool s = p # ps" and mem: "phys s pd (PDX v) \<noteq> 0 \<or> ps \<noteq> []"
    and new: "translate s pd v = None"
  obtains s' where "usys_page_alloc cfg 0 v 7 s = Inr (0, s')" "vm_inv pds ext s'" "rest s' = rest s"
    "\<And>pd' v'. pd' \<in> pds \<Longrightarrow> PDX v' < NUPDE \<Longrightarrow> translate s' pd' v' =
       (if pd' = pd \<and> PGNUM v' = PGNUM v then Some (p, 7) else translate s pd' v')"
    "page_ref s' p = 1"
    "\<And>pd' j. pd' \<in> pds \<Longrightarrow> (pd', j) \<noteq> (pd, PDX v) \<or> phys s pd (PDX v) \<noteq> 0 \<Longrightarrow> phys s' pd' j = phys s pd' j"
    "phys s pd (PDX v) = 0 \<Longrightarrow> phys s' pd (PDX v) AND 7 = 7"
    "\<And>q. q \<notin> pds \<Longrightarrow> q \<notin> tables s pds \<Longrightarrow> q \<notin> set (page_pool s) \<Longrightarrow> phys s' q = phys s q"
proof -
  note V = vm_popped [OF inv pool]
  let ?s = "popped True p s"
  have dir: "phys ?s pd' = phys s pd'" if "pd' \<in> pds" for pd' using that V(5) by auto
  have mem': "phys ?s pd (PDX v) \<noteq> 0 \<or> page_pool ?s \<noteq> []" using mem V(2) dir [OF run(2)] by simp
  have new': "translate ?s pd v = None" using V(10) [OF run(2) va(2)] new by simp
  have pp: "p < npages ?s" "p \<notin> tables ?s pds" "p \<notin> set (page_pool ?s)" "page_ref ?s p < 65535"
    using V(3,2,4,6-9) by simp_all
  have rest: "rest ?s = rest s" using page_alloc_cons(1) [OF vm_inv_D(1) [OF inv] pool] by (rule rest_page_alloc)
  obtain s' where s': "page_insert pd p v 7 ?s = Inr (0, s')" "vm_inv pds ext s'" "rest s' = rest ?s"
    "\<And>pd' va'. pd' \<in> pds \<Longrightarrow> PDX va' < NUPDE \<Longrightarrow> translate s' pd' va' =
       (if pd' = pd \<and> PGNUM va' = PGNUM v then Some (p, 7 OR PTE_P) else translate ?s pd' va')"
    "\<And>q. q \<notin> set (page_pool ?s) \<Longrightarrow>
       page_ref s' q = (if q = p \<and> translate ?s pd v = None then Suc (page_ref ?s q) else page_ref ?s q)"
    "\<And>pd' j. pd' \<in> pds \<Longrightarrow> (pd', j) \<noteq> (pd, PDX v) \<or> phys ?s pd (PDX v) \<noteq> 0 \<Longrightarrow> phys s' pd' j = phys ?s pd' j"
    "\<And>q. q \<notin> pds \<Longrightarrow> q \<notin> tables ?s pds \<Longrightarrow> q \<notin> set (page_pool ?s) \<Longrightarrow> phys s' q = phys ?s q"
    "phys ?s pd (PDX v) = 0 \<Longrightarrow> phys s' pd (PDX v) AND 7 = 7"
    by (rule insert_shared [OF V(1) run(2) va(2) mem' pp(1) V(5) pp(2-4), of 7]) (use new' in auto)
  have alloc: "page_alloc True s = Inr (Some p, ?s)"
    using page_alloc_cons(1) [OF vm_inv_D(1) [OF inv] pool] .
  have "env_page_alloc c v 7 s = Inr (0, s')"
    using run(1) alloc s'(1)
    by (simp add: env_page_alloc_def check_perm_def pgdir_of_def user_runs_def rest_sel [OF rest])
  then have call: "usys_page_alloc cfg 0 v 7 s = Inr (0, s')"
    using va(1) run(1) by (simp add: usys_page_alloc_def user_syscall_def syscall_def sys_page_alloc_def
        with_env_def envid2env_def user_runs_def ret_int_def)
  show thesis
  proof (rule that [OF call s'(2)])
    show "rest s' = rest s" using s'(3) rest by simp
    show "translate s' pd' v' = (if pd' = pd \<and> PGNUM v' = PGNUM v then Some (p, 7) else translate s pd' v')"
      if "pd' \<in> pds" "PDX v' < NUPDE" for pd' v'
      using s'(4) [OF that] V(10) [OF that] by simp
    show "page_ref s' p = 1" using s'(5) [OF pp(3)] new' V(8,9) by simp
    show "phys s' pd' j = phys s pd' j" if "pd' \<in> pds" "(pd', j) \<noteq> (pd, PDX v) \<or> phys s pd (PDX v) \<noteq> 0" for pd' j
      using s'(6) [OF that(1)] that(2) dir that(1) run(2) by simp
    show "phys s' pd (PDX v) AND 7 = 7" if "phys s pd (PDX v) = 0" using s'(8) that dir [OF run(2)] by simp
    show "phys s' q = phys s q" if "q \<notin> pds" "q \<notin> tables s pds" "q \<notin> set (page_pool s)" for q
      using s'(7) [of q] that V(2,3) pool by (simp add: fun_eq_iff)
  qed
qed

lemma page_unmap_call:
  assumes inv: "vm_inv pds ext s" and run: "user_runs c pd s" "pd \<in> pds" and va: "\<not> bad_va v" "PDX v < NUPDE"
    and map: "translate s pd v = Some (p, w)"
  obtains s' where "usys_page_unmap cfg 0 v s = Inr (0, s')" "vm_inv pds ext s'"
    "\<And>pd' va'. pd' \<in> pds \<Longrightarrow> PDX va' < NUPDE \<Longrightarrow> translate s' pd' va' =
       (if pd' = pd \<and> PGNUM va' = PGNUM v then None else translate s pd' va')"
    "\<And>t. t \<notin> tables s pds \<Longrightarrow> phys s' t = phys s t"
proof (rule remove_mapped [OF inv run(2) va(2) map])
  fix s' assume s': "page_remove pd v s = Inr s'" "vm_inv pds ext s'"
    "\<And>pd' va'. pd' \<in> pds \<Longrightarrow> PDX va' < NUPDE \<Longrightarrow> translate s' pd' va' =
       (if pd' = pd \<and> PGNUM va' = PGNUM v then None else translate s pd' va')"
    "\<And>t j. t \<notin> tables s pds \<Longrightarrow> phys s' t j = phys s t j"
  have "usys_page_unmap cfg 0 v s = Inr (0, s')"
    using va(1) run(1) s'(1) by (simp add: usys_page_unmap_def user_syscall_def syscall_def sys_page_unmap_def
        with_env_def envid2env_def user_runs_def pgdir_of_def)
  with s' show thesis by (intro that [of s']) (auto simp: fun_eq_iff)
qed

lemma user_page_at:
  assumes run: "user_runs c pd s" and pde: "phys s pd (PDX v) AND need = need" "need \<noteq> 0" "need < 0x1000"
    and map: "translate s pd v = Some (p, w)" "w AND need = need"
  shows "user_page need v s = Inr p"
proof -
  let ?pte = "phys s (pt_of s pd (PDX v)) (PTX v)"
  have "phys s pd (PDX v) \<noteq> 0" using pde by auto
  then have t: "PGNUM ?pte = p" "?pte AND 0xFFF = w"
    using map by (auto simp: translate_def Let_def split: if_splits)
  have "need AND 0xFFF = need"
    using low12_take [OF pde(3)] by (simp add: take_bit_eq_mask mask_eq_exp_minus_1)
  then have "?pte AND need = w AND need" unfolding t(2) [symmetric] by (metis and.assoc and.commute)
  with t map(2) pde run show ?thesis by (simp add: user_page_def Let_def user_runs_def pt_of_def)
qed

section \<open>The handler\<close>

lemma page_start:
  assumes "va < UTOP"
  shows "ROUNDDOWN va PGSIZE = pgva (PGNUM va)" "PGNUM va < 977920"
proof -
  show "PGNUM va < 977920" using PDX_user [OF assms] by (simp add: PDX_PGNUM)
  show "ROUNDDOWN va PGSIZE = pgva (PGNUM va)"
    by (rule unsigned_word_eqI [where 'a = nat]) (simp only: unat_ROUNDDOWN unat_pgva [OF PGNUM_bound], simp only: PGNUM_div)
qed

lemma useless_check: "(err AND FEC_WR) AND (if b then 1 else 0) = (0::u32)"
  by (simp add: and.assoc)

text \<open>C7: A page fault of the program at a mapped address ends with a fresh, writable page there that has the contents
  of the old one, which every other mapping of the old page keeps; nothing else changes. This holds
  whether or not the page was marked copy-on-write and whatever the kind of access: the handler's check
  never panics, so a program writes to its read-only pages, too.\<close>

theorem pgfault_copies_page:
  assumes "vm_inv pds ext s" "user_runs c pd s" "pd \<in> pds" "va < UTOP" "PGNUM va \<noteq> PGNUM PFTEMP"
    and "translate s pd va = Some (q, w)" "w AND PTE_U \<noteq> 0" "phys s pd (PDX va) AND PTE_U \<noteq> 0"
    and "translate s pd PFTEMP = None" "page_pool s = p # ps"
    and "phys s pd (PDX PFTEMP) = 0 \<and> ps \<noteq> [] \<or> phys s pd (PDX PFTEMP) AND 7 = 7"
  shows "\<exists>s'. pgfault cfg va err s = Inr s' \<and> vm_inv pds ext s' \<and> phys s' p = phys s q \<and>
    (\<forall>pd'\<in>pds. \<forall>v. v < UTOP \<longrightarrow> translate s' pd' v =
       (if pd' = pd \<and> PGNUM v = PGNUM va then Some (p, PTE_P OR PTE_U OR PTE_W) else translate s pd' v))"
proof -
  note inv = assms(1) and run = assms(2) and pd = assms(3)
  let ?n = "PGNUM va" and ?a = "pgva (PGNUM va)"
  note st = page_start [OF assms(4)] and n20 = PGNUM_bound [of va]
  note N = pgva_parts [OF n20] pgva_user [OF st(2)]
  have pd': "PDX va = ?n div 1024" by (rule PDX_PGNUM)
  have tmp: "\<not> bad_va PFTEMP" "PDX PFTEMP < NUPDE" by (simp_all add: bad_va_def PDX_div)
  have map0: "translate s pd ?a = Some (q, w)" using same_page(1) [of ?a va s pd] N(1) assms(6) by simp
  note t0 = translate_eq [OF n20 map0]
  have i: "?n div 1024 < NUPDE" using N(2,5) by simp
  have p0: "phys s pd (?n div 1024) AND PTE_P \<noteq> 0" by (rule vm_inv_D(13) [OF inv pd i t0(1)])
  have w1: "w AND PTE_P \<noteq> 0"
    using vm_inv_D(14) [OF inv pt_of_table [OF pd i t0(1)] _ t0(2)] unfolding t0(4) [symmetric] low_and by simp
  have uv: "uvpt s ?n = Inr (phys s (pt_of s pd (?n div 1024)) (?n mod 1024))"
    by (rule uvpt_eq [OF run n20 p0]) (use assms(8) pd' in simp)
  have mem: "phys s pd (PDX PFTEMP) \<noteq> 0 \<or> ps \<noteq> []" using assms(11) by auto
  obtain s1 where s1: "usys_page_alloc cfg 0 PFTEMP 7 s = Inr (0, s1)" "vm_inv pds ext s1" "rest s1 = rest s"
    "\<And>pd' v'. pd' \<in> pds \<Longrightarrow> PDX v' < NUPDE \<Longrightarrow> translate s1 pd' v' =
       (if pd' = pd \<and> PGNUM v' = PGNUM PFTEMP then Some (p, 7) else translate s pd' v')"
    "page_ref s1 p = 1"
    "\<And>pd' j. pd' \<in> pds \<Longrightarrow> (pd', j) \<noteq> (pd, PDX PFTEMP) \<or> phys s pd (PDX PFTEMP) \<noteq> 0 \<Longrightarrow> phys s1 pd' j = phys s pd' j"
    "phys s pd (PDX PFTEMP) = 0 \<Longrightarrow> phys s1 pd (PDX PFTEMP) AND 7 = 7"
    "\<And>q. q \<notin> pds \<Longrightarrow> q \<notin> tables s pds \<Longrightarrow> q \<notin> set (page_pool s) \<Longrightarrow> phys s1 q = phys s q"
    by (rule page_alloc_call [OF inv run pd tmp assms(10) mem assms(9)]) (rule that; assumption)
  have kern: "PDX UVPT \<noteq> PDX PFTEMP" by (simp add: PDX_div)
  have run1: "user_runs c pd s1" by (rule user_runs_rest [OF run s1(3)]) (use s1(6) [OF pd] kern in simp)
  have map1: "translate s1 pd ?a = Some (q, w)" "translate s1 pd PFTEMP = Some (p, 7)"
    using s1(4) [OF pd N(5)] s1(4) [OF pd tmp(2)] assms(5) map0 N(1) by simp_all
  have same1: "phys s1 pd (?n div 1024) = phys s pd (?n div 1024)"
    using s1(6) [OF pd, of "?n div 1024"] t0(1) by (cases "?n div 1024 = PDX PFTEMP") auto
  have u1: "phys s1 pd (?n div 1024) AND 5 = 5" using p0 assms(8) unfolding same1 pu_iff pd' by simp
  have source: "user_page (PTE_P OR PTE_U) ?a s1 = Inr q"
    by (rule user_page_at [OF run1 _ _ _ map1(1)]) (use u1 w1 assms(7) in \<open>simp_all add: N pu_iff\<close>)
  have seven: "phys s1 pd (PDX PFTEMP) AND 7 = 7"
    using s1(7) s1(6) [OF pd, of "PDX PFTEMP"] assms(11) by (cases "phys s pd (PDX PFTEMP) = 0") auto
  have target: "user_page (PTE_P OR PTE_U OR PTE_W) PFTEMP s1 = Inr p"
    by (rule user_page_at [OF run1 _ _ _ map1(2)]) (use seven in simp_all)
  let ?s2 = "s1\<lparr>phys := (phys s1)(p := phys s1 q)\<rparr>"
  have move: "move_page PFTEMP ?a s1 = Inr ?s2" using source target by (simp add: move_page_def)
  note pm = mapped_ref [OF s1(2) pd tmp(2) map1(2)]
  have agree: "page_inv ?s2" "page_ref ?s2 = page_ref s1" "page_pool ?s2 = page_pool s1"
    using page_inv_cong [of ?s2 s1] vm_inv_D(1) [OF s1(2)] by simp_all
  have ph2: "phys ?s2 x = phys s1 x" if "x \<in> pds \<or> x \<in> tables s1 pds" for x using that pm by auto
  have dirs: "\<And>x. x \<in> pds \<Longrightarrow> phys ?s2 x = phys s1 x" "\<And>x. x \<in> tables s1 pds \<Longrightarrow> phys ?s2 x = phys s1 x"
    using ph2 by blast+
  note V = vm_inv_agree [OF s1(2) _ agree(1,2) dirs, simplified]
  have run2: "user_runs c pd ?s2" by (rule user_runs_rest [OF run1]) (use ph2 pd in simp_all)
  have e2: "envid2env 0 True ?s2 = Inr (0, Some c)" "env_pgdir (envs ?s2 ! c) = Some pd"
    using run2 by (simp_all add: user_runs_def envid2env_def)
  have map2: "translate ?s2 pd PFTEMP = Some (p, 7)" using V(4) [OF pd tmp(2)] map1(2) by simp
  note pm2 = mapped_ref(2-5) [OF V(1) pd tmp(2) map2]
  have ref2: "page_ref ?s2 p < 65535" unfolding agree(2) s1(5) by simp
  have pde2: "phys ?s2 pd (PDX ?a) \<noteq> 0" using ph2 pd u1 N(2) by auto
  obtain s3 where s3: "page_insert pd p ?a 7 ?s2 = Inr (0, s3)" "vm_inv pds ext s3"
    "\<And>pd' va'. pd' \<in> pds \<Longrightarrow> PDX va' < NUPDE \<Longrightarrow> translate s3 pd' va' =
       (if pd' = pd \<and> PGNUM va' = PGNUM ?a then Some (p, 7 OR PTE_P) else translate ?s2 pd' va')"
    by (rule insert_maps [OF V(1) pd N(5) disjI1 [OF pde2] pm2 ref2, of 7]) (simp, blast)
  have call3: "usys_page_map cfg 0 PFTEMP 0 ?a 7 ?s2 = Inr (0, s3)"
    by (rule page_map_call [OF V(1) tmp N(4) e2 pd e2 map2]) (simp_all add: s3(1))
  have map3: "translate s3 pd PFTEMP = Some (p, 7)"
    using s3(3) [OF pd tmp(2)] map2 assms(5) N(1) by simp
  have ph3: "phys s3 x = phys ?s2 x" if "x \<notin> tables ?s2 pds" for x
    by (rule insert_phys [OF V(1) pd N(5) pde2 pm2 ref2 s3(1) that])
  have pdt: "pd \<notin> tables ?s2 pds" using vm_inv_D(7) [OF V(1)] pd by blast
  have run3: "user_runs c pd s3"
    by (rule user_runs_rest [OF run2 rest_page_insert [OF s3(1)]]) (simp only: ph3 [OF pdt])
  obtain s4 where s4: "usys_page_unmap cfg 0 PFTEMP s3 = Inr (0, s4)" "vm_inv pds ext s4"
    "\<And>pd' va'. pd' \<in> pds \<Longrightarrow> PDX va' < NUPDE \<Longrightarrow> translate s4 pd' va' =
       (if pd' = pd \<and> PGNUM va' = PGNUM PFTEMP then None else translate s3 pd' va')"
    "\<And>t. t \<notin> tables s3 pds \<Longrightarrow> phys s4 t = phys s3 t"
    by (rule page_unmap_call [OF s3(2) run3 pd tmp map3]) (rule that; assumption)
  have "phys s4 p = phys s3 p" by (rule s4(4), rule mapped_ref(4) [OF s3(2) pd tmp(2) map3])
  also have "phys s3 p = phys ?s2 p" by (rule ph3, rule pm2(3))
  also have "\<dots> = phys s1 q" by simp
  also have "\<dots> = phys s q"
    by (rule s1(8)) (rule mapped_ref [OF inv pd PDX_user [OF assms(4)] assms(6)])+
  finally have copied: "phys s4 p = phys s q" .
  have tmp_page: "translate s x v = None" if "x = pd" "PGNUM v = PGNUM PFTEMP" for x v
    using same_page(1) [OF that(2), of s pd] that(1) assms(9) by simp
  have final: "translate s4 pd' v = (if pd' = pd \<and> PGNUM v = PGNUM va then Some (p, 7) else translate s pd' v)"
    if "pd' \<in> pds" "v < UTOP" for pd' v
    unfolding s4(3) [OF that(1) PDX_user [OF that(2)]] s3(3) [OF that(1) PDX_user [OF that(2)]]
      V(4) [OF that(1) PDX_user [OF that(2)]] s1(4) [OF that(1) PDX_user [OF that(2)]] N(1)
    using assms(5) tmp_page [of pd' v] by auto
  have "pgfault cfg va err s = Inr s4"
    unfolding pgfault_def uv bindU_simps Let_def useless_check st(1)
    using s1(1) move call3 s4(1) by (simp add: or_panic_def)
  with s4(2) copied final show ?thesis by (intro exI [of _ s4]) simp
qed

theorem pgfault_copies_page_witness:
  "\<exists>s'. pgfault SCHED_ROUND_ROBIN 0x800123 2 fork_kernel = Inr s' \<and> phys s' 5 = phys fork_kernel 3 \<and>
     translate s' 1 0x800000 = Some (5, 7)"
proof -
  have map: "translate fork_kernel 1 0x800123 = Some (3, 7)" "translate fork_kernel 1 PFTEMP = None"
    by (simp_all add: translate_def fork_kernel_sel PDX_div PTX_mod PGNUM_div pt_of_def)
  have run: "user_runs 0 1 fork_kernel" using fork_kernel_pair by (simp add: fork_pair_def)
  have sizes: "(0x800123::u32) < UTOP" "(0x800000::u32) < UTOP" "PGNUM 0x800123 \<noteq> PGNUM PFTEMP"
    "PGNUM 0x800000 = PGNUM 0x800123" by (simp_all add: PGNUM_div)
  have pde: "phys fork_kernel 1 (PDX 0x800123) AND PTE_U \<noteq> 0"
    "phys fork_kernel 1 (PDX PFTEMP) = 0 \<and> [6::nat] \<noteq> [] \<or> phys fork_kernel 1 (PDX PFTEMP) AND 7 = 7"
    by (simp_all add: fork_kernel_sel PDX_div)
  from pgfault_copies_page [OF fork_kernel_vm run _ sizes(1,3) map(1) _ pde(1) map(2) fork_kernel_pages(2) pde(2),
      of SCHED_ROUND_ROBIN 2]
  show ?thesis using sizes(2,4) by auto
qed

end
