(* ===== verification/IpcProps.thy ===== *)
theory IpcProps
  imports ForkProps
begin

text \<open>
  Messages between environments: what \<open>ipc_send\<close> hands over is what \<open>ipc_recv\<close> returns.
\<close>

lemma try_send_value:
  assumes "curenv s = Some c" "envid2env to False s = Inr (0, Some d)" "env_ipc_recving (envs s ! d)"
  shows "usys_ipc_try_send cfg to val UTOP perm s =
    Inr (0, ipc_deliver c d val (upd_env d (\<lambda>x. x\<lparr>env_ipc_perm := 0\<rparr>) s))"
  using assms by (simp add: usys_ipc_try_send_def user_syscall_def syscall_def sys_ipc_try_send_def
      with_env_def with_curenv_def)

lemma delivered:
  fixes val :: u32
  assumes "d < length (envs s)" "c \<noteq> d"
  defines "s' \<equiv> ipc_deliver c d val (upd_env d (\<lambda>x. x\<lparr>env_ipc_perm := 0\<rparr>) s)"
  shows "env_status (envs s' ! d) = ENV_RUNNABLE" "\<not> env_ipc_recving (envs s' ! d)"
    "env_ipc_value (envs s' ! d) = val" "env_ipc_from (envs s' ! d) = env_id (envs s ! c)"
    "env_ipc_perm (envs s' ! d) = 0" "reg_eax (tf_regs (env_tf (envs s' ! d))) = 0"
    "j \<noteq> d \<Longrightarrow> envs s' ! j = envs s ! j"
  using assms by (simp_all add: ipc_deliver_def)

section \<open>Between blocking and running again\<close>

text \<open>What a blocked receiver waits for: the part of its record that a message consists of.\<close>

definition message :: "env \<Rightarrow> bool \<times> u32 \<times> u32 \<times> u32 \<times> u32" where
  "message x = (env_ipc_recving x, env_ipc_value x, env_ipc_from x, env_ipc_perm x, reg_eax (tf_regs (env_tf x)))"

definition same_message :: "nat \<Rightarrow> kstate \<Rightarrow> kstate \<Rightarrow> bool" where
  "same_message d s s' \<longleftrightarrow> length (envs s') = length (envs s) \<and> message (envs s' ! d) = message (envs s ! d)"

lemma same_message_trans: "same_message d s t \<Longrightarrow> same_message d t u \<Longrightarrow> same_message d s u"
  by (simp add: same_message_def)

lemma same_message_envs: "envs s' = envs s \<Longrightarrow> same_message d s s'"
  by (simp add: same_message_def)

lemma same_message_upd:
  "(\<And>x. message (f x) = message x) \<Longrightarrow> same_message d s (upd_env e f s)"
  by (cases "e < length (envs s)") (auto simp: same_message_def upd_env_def nth_list_update list_update_beyond)

lemma envs_unlock: "spin_unlock s = Inr s' \<Longrightarrow> envs s' = envs s"
  by (auto simp: spin_unlock_def cres_simps)

lemma env_run_message: "env_run e s = Inr (r, s') \<Longrightarrow> same_message d s s'"
proof -
  assume run: "env_run e s = Inr (r, s')"
  define s1 where "s1 = (case curenv s of None \<Rightarrow> s | Some c \<Rightarrow>
      if env_status (envs s ! c) = ENV_RUNNING then upd_env c (\<lambda>x. x\<lparr>env_status := ENV_RUNNABLE\<rparr>) s else s)"
  define s3 where "s3 = upd_env e (\<lambda>x. x\<lparr>env_status := ENV_RUNNING, env_runs := env_runs x + 1\<rparr>) (set_curenv (Some e) s1)"
  obtain s4 s5 where s4: "env_load_pgdir e s3 = Inr s4" "spin_unlock s4 = Inr s5"
    "s' = upd_env e (\<lambda>x. x\<lparr>env_cpunum := int (thiscpu s5)\<rparr>) s5"
    using run by (auto simp: env_run_def s1_def [symmetric] s3_def [symmetric] Let_def cres_simps)
  have "same_message d s s1"
    by (auto simp: s1_def message_def same_message_envs intro!: same_message_upd split: option.split)
  moreover have "same_message d s1 (set_curenv (Some e) s1)" by (rule same_message_envs) (simp add: set_curenv_def)
  moreover have "same_message d (set_curenv (Some e) s1) s3"
    unfolding s3_def by (rule same_message_upd) (simp add: message_def)
  moreover have "same_message d s3 s4"
    using s4(1) by (auto simp: env_load_pgdir_def intro: same_message_envs split: option.splits)
  moreover have "same_message d s4 s5" by (rule same_message_envs [OF envs_unlock [OF s4(2)]])
  moreover have "same_message d s5 s'" unfolding s4(3) by (rule same_message_upd) (simp add: message_def)
  ultimately show ?thesis by (blast intro: same_message_trans)
qed

lemma sched_rest_message: "sched_rest s = Inr (r, s') \<Longrightarrow> same_message d s s'"
  by (auto simp: sched_rest_def sched_halt_def set_curenv_def Let_def cres_simps dest!: envs_unlock
      intro: env_run_message same_message_envs split: option.splits if_splits)

lemma add_counts_message: "add_counts_to_sched i s = Inr s' \<Longrightarrow> same_message d s s'"
  by (auto simp: add_counts_to_sched_def upd_stats_def Let_def cres_simps intro: same_message_envs)

lemma boost_message: "d < length (envs s) \<Longrightarrow> same_message d s (boost_all_envs s)"
  by (simp add: same_message_def boost_all_envs_def message_def)

text \<open>The scheduler, in both variants, leaves the message of every environment alone.\<close>

lemma sched_yield_message:
  assumes "sched_yield cfg s = Inr (r, s')" "d < length (envs s)"
  shows "same_message d s s'"
proof -
  define s0 where "s0 = upd_stats (\<lambda>st. st\<lparr>scheduler_calls := c_int (scheduler_calls st + 1)\<rparr>) s"
  have s0: "same_message d s s0" "d < length (envs s0)"
    using assms(2) by (simp_all add: s0_def upd_stats_def same_message_envs)
  have "same_message d s0 s'"
  proof (cases cfg)
    case SCHED_ROUND_ROBIN
    then have "sched_round_robin (sched_start s0) s0 = Inr (r, s')"
      using assms(1) by (simp add: sched_yield_def s0_def Let_def)
    then show ?thesis
      by (auto simp: sched_round_robin_def Let_def cres_simps intro: sched_rest_message
          same_message_trans [OF add_counts_message env_run_message] split: option.splits)
  next
    case SCHED_PRIORITIES
    define s1 where "s1 = (if scheduler_calls (sched_stats s0) \<ge> BOOST_INTERVAL
        then upd_stats (\<lambda>st. st\<lparr>total_boots := c_int (total_boots st + 1)\<rparr>) (boost_all_envs s0) else s0)"
    have "same_message d (boost_all_envs s0) (upd_stats f (boost_all_envs s0))" for f
      by (rule same_message_envs) (simp add: upd_stats_def)
    then have s1: "same_message d s0 s1"
      using same_message_trans [OF boost_message [OF s0(2)]] by (simp add: s1_def same_message_envs)
    have "sched_priorities (sched_start s0) s0 = Inr (r, s')"
      using assms(1) SCHED_PRIORITIES by (simp add: sched_yield_def s0_def Let_def)
    note run = this [unfolded sched_priorities_def s1_def [symmetric] Let_def]
    show ?thesis
    proof (cases "best_env s1 (sched_start s0)")
      case None
      with run have "sched_rest s1 = Inr (r, s')" by simp
      then show ?thesis using same_message_trans [OF s1 sched_rest_message] by blast
    next
      case (Some b)
      then obtain s2 s3 where s2: "add_counts_to_sched (sint (env_id (envs s1 ! b))) s1 = Inr s2"
        "s3 = s2 \<or> s3 = upd_env b (\<lambda>e. e\<lparr>env_priority := env_priority e - 1\<rparr>) s2" "env_run b s3 = Inr (r, s')"
        using run by (auto simp: cres_simps split: if_splits)
      have "same_message d s2 s3"
        using s2(2) by (auto simp: message_def same_message_envs intro!: same_message_upd)
      then show ?thesis
        using s1 add_counts_message [OF s2(1)] env_run_message [OF s2(3)] by (blast intro: same_message_trans)
    qed
  qed
  with s0(1) show ?thesis by (rule same_message_trans)
qed

text \<open>
  What happens while \<open>d\<close> is off the CPU: decisions of the scheduler, on any CPU, and steps of the rest of the
  system that leave the record of \<open>d\<close> alone, such as other programs running and entering the kernel.
\<close>

inductive turns :: "nat \<Rightarrow> kstate \<Rightarrow> kstate \<Rightarrow> bool" for d where
  turns_none: "turns d s s"
| turns_sched: "turns d s t \<Longrightarrow> sched_yield cfg t = Inr (r, u) \<Longrightarrow> turns d s u"
| turns_other: "turns d s t \<Longrightarrow> length (envs u) = length (envs t) \<Longrightarrow> envs u ! d = envs t ! d \<Longrightarrow> turns d s u"

lemma turns_message: "turns d s t \<Longrightarrow> d < length (envs s) \<Longrightarrow> same_message d s t"
proof (induction rule: turns.induct)
  case (turns_sched s t cfg r u)
  then have "d < length (envs t)" by (simp add: same_message_def)
  with turns_sched show ?case by (blast intro: same_message_trans sched_yield_message)
qed (simp_all add: same_message_def)

lemma recv_blocks:
  assumes "curenv s = Some d" "d < length (envs s)" "usys_ipc_recv cfg dstva s = Inl (OffCpu r s1)"
  shows "env_ipc_recving (envs s1 ! d)" "length (envs s1) = length (envs s)"
proof -
  define t where "t = upd_env d (\<lambda>x. x\<lparr>env_ipc_dstva := dstva, env_status := ENV_NOT_RUNNABLE\<rparr>)
    (upd_env d (\<lambda>x. x\<lparr>env_ipc_recving := True\<rparr>) s)"
  have "syscall cfg 0 12 dstva 0 0 0 0 s = Inr (Leaves r, s1)"
    using assms(3) by (auto simp: usys_ipc_recv_def user_syscall_def split: sum.splits prod.splits sysret.splits if_splits)
  then have "sys_ipc_recv cfg dstva s = Inr (Leaves r, s1)" by (simp add: syscall_def)
  then have "sched_yield cfg t = Inr (r, s1)"
    using assms(1) by (auto simp: sys_ipc_recv_def with_curenv_def sys_yield_def t_def Let_def cres_simps split: if_splits)
  moreover have "d < length (envs t)" "length (envs t) = length (envs s)" "env_ipc_recving (envs t ! d)"
    using assms(2) by (simp_all add: t_def)
  ultimately show "env_ipc_recving (envs s1 ! d)" "length (envs s1) = length (envs s)"
    using sched_yield_message [of cfg t r s1 d] by (simp_all add: same_message_def message_def)
qed

text \<open>C24: A message without a page, from one end to the other. An environment calls \<open>ipc_recv\<close> and gives up the CPU; the
  scheduler runs, on any CPU and as often as it likes, and the rest of the system does anything that leaves the record of
  the receiver alone; then another environment sends. The value is delivered at the first attempt: the receiver becomes
  runnable and no longer receives, and no other environment changes. Whatever turns follow, when the
  receiver runs again its \<open>ipc_recv\<close> returns that value, with the identifier of the sender and no page.\<close>

theorem message_arrives:
  assumes recv: "curenv s0 = Some d" "d < length (envs s0)" "usys_ipc_recv cfg dstva s0 = Inl (OffCpu r s1)"
    and before: "turns d s1 s"
    and send: "curenv s = Some c" "envid2env to False s = Inr (0, Some d)" "c \<noteq> d"
  shows "\<exists>s2. ipc_send cfg others c to val 0 perm s = Some (Inr s2) \<and>
    env_status (envs s2 ! d) = ENV_RUNNABLE \<and> \<not> env_ipc_recving (envs s2 ! d) \<and>
    (\<forall>j. j \<noteq> d \<longrightarrow> envs s2 ! j = envs s ! j) \<and>
    (\<forall>s3. turns d s2 s3 \<longrightarrow> ipc_recv cfg (\<lambda>_. s3) d dstva s0 = Inr (sint val, env_id (envs s ! c), 0, s3))"
proof -
  let ?s = "ipc_deliver c d val (upd_env d (\<lambda>x. x\<lparr>env_ipc_perm := 0\<rparr>) s)"
  have "same_message d s1 s" using turns_message [OF before] recv_blocks(2) [OF recv] recv(2) by simp
  then have d: "env_ipc_recving (envs s ! d)" "d < length (envs s)"
    using recv_blocks [OF recv] recv(2) by (simp_all add: same_message_def message_def)
  note D = delivered [OF d(2) send(3), where val = val]
  have len: "d < length (envs ?s)" using d(2) by (simp add: ipc_deliver_def)
  have run: "ipc_send cfg others c to val 0 perm s = Some (Inr ?s)"
    unfolding ipc_send_def Let_def if_P [OF refl] try_send_value [OF send(1,2) d(1)]
    by (subst ipc_send_loop.simps) simp
  have "ipc_recv cfg (\<lambda>_. s3) d dstva s0 = Inr (sint val, env_id (envs s ! c), 0, s3)" if "turns d ?s s3" for s3
    using turns_message [OF that len] D recv(3)
    by (simp add: ipc_recv_def continue_with_def Let_def same_message_def message_def)
  with run D show ?thesis by (intro exI [of _ ?s]) auto
qed

text \<open>Two environments: the receiver on the CPU, and the sender in slot 1, which the scheduler picks next.\<close>

definition ipc_kernel :: kstate where
  "ipc_kernel = fork_kernel\<lparr>envs :=
     [zero_env\<lparr>env_id := 0x1000, env_pgdir := Some 1, env_status := ENV_RUNNING\<rparr>,
      zero_env\<lparr>env_id := 0x1001, env_pgdir := Some 4, env_status := ENV_RUNNABLE\<rparr>] @ replicate 1022 zero_env\<rparr>"

lemma ipc_kernel_blocks:
  "\<exists>s1. usys_ipc_recv SCHED_ROUND_ROBIN 0 ipc_kernel = Inl (OffCpu (Resume 1) s1) \<and>
     curenv s1 = Some 1 \<and> env_id (envs s1 ! 0) = 0x1000 \<and> env_status (envs s1 ! 0) = ENV_NOT_RUNNABLE \<and>
     env_id (envs s1 ! 1) = 0x1001"
proof -
  define t where "t = upd_env 0 (\<lambda>x. x\<lparr>env_ipc_dstva := 0, env_status := ENV_NOT_RUNNABLE\<rparr>)
    (upd_env 0 (\<lambda>x. x\<lparr>env_ipc_recving := True\<rparr>) ipc_kernel)"
  have t: "curenv t = Some 0" "thiscpu t = 0" "cpus t = [\<lparr>cpu_status = CPU_STARTED, cpu_env = Some 0\<rparr>]"
    "kernel_lock t = \<lparr>locked = 1, lock_cpu = Some 0\<rparr>" "sched_stats t = zero_sched_stats" "length (envs t) = 1024"
    "envs t ! 0 = zero_env\<lparr>env_id := 0x1000, env_pgdir := Some 1, env_status := ENV_NOT_RUNNABLE, env_ipc_recving := True, env_ipc_dstva := 0\<rparr>"
    "envs t ! 1 = zero_env\<lparr>env_id := 0x1001, env_pgdir := Some 4, env_status := ENV_RUNNABLE\<rparr>"
    by (simp_all add: t_def ipc_kernel_def fork_kernel_def curenv_def)
  have first: "rr_first t 0 1" using t(7,8) by (simp add: rr_first_def)
  have start: "sched_start t = 0" by (simp add: sched_start_def t ENVX_def)
  obtain s1 where run: "sched_yield SCHED_ROUND_ROBIN t = Inr (Resume 1, s1)"
    "curenv s1 = Some 1" "envs s1 ! 0 = envs t ! 0" "env_id (envs s1 ! 1) = 0x1001"
    unfolding yield_rr start sched_round_robin_def counted_sel rr_find [THEN iffD2, OF first] option.case
    using t by (simp add: add_counts_to_sched_def upd_stats_def env_run_def env_load_pgdir_def spin_unlock_def holding_def
        curenv_def set_curenv_def zero_sched_stats_def ENVX_def Let_def)
  have "curenv ipc_kernel = Some 0" by (simp add: ipc_kernel_def fork_kernel_def curenv_def)
  then have "usys_ipc_recv SCHED_ROUND_ROBIN 0 ipc_kernel = Inl (OffCpu (Resume 1) s1)"
    using run(1) by (simp add: usys_ipc_recv_def user_syscall_def syscall_def sys_ipc_recv_def with_curenv_def
        bad_va_def sys_yield_def t_def Let_def)
  with run t(7) show ?thesis by auto
qed

theorem message_arrives_witness:
  "\<exists>s1 s2. usys_ipc_recv SCHED_ROUND_ROBIN 0 ipc_kernel = Inl (OffCpu (Resume 1) s1) \<and>
     ipc_send SCHED_ROUND_ROBIN id 1 0x1000 42 0 0 s1 = Some (Inr s2) \<and>
     ipc_recv SCHED_ROUND_ROBIN (\<lambda>_. s2) 0 0 ipc_kernel = Inr (42, 0x1001, 0, s2)"
proof -
  obtain s1 where s1: "usys_ipc_recv SCHED_ROUND_ROBIN 0 ipc_kernel = Inl (OffCpu (Resume 1) s1)"
    "curenv s1 = Some 1" "env_id (envs s1 ! 0) = 0x1000" "env_status (envs s1 ! 0) = ENV_NOT_RUNNABLE"
    "env_id (envs s1 ! 1) = 0x1001"
    using ipc_kernel_blocks by blast
  have r: "curenv ipc_kernel = Some 0" "0 < length (envs ipc_kernel)"
    by (simp_all add: ipc_kernel_def fork_kernel_def curenv_def)
  have "envid2env 0x1000 False s1 = Inr (0, Some 0)"
    using s1(3,4) by (simp add: envid2env_def ENVX_def)
  from message_arrives [OF r s1(1) turns_none s1(2) this, of id 42 0] show ?thesis
    using s1(1,5) turns_none by auto
qed

end
