(* ===== verification/ShellParse.thy ===== *)
theory ShellParse
  imports Prelude
begin

text \<open>
  The shell's parser: \<^verbatim>\<open>src/2-shell/utils.c\<close>, \<^verbatim>\<open>createcmd.c\<close>, \<^verbatim>\<open>parsing.c\<close> and the
  command structures of \<^verbatim>\<open>types.h\<close>. The command line is an array of bytes that the parser cuts into
  strings in place; a pointer into it is an offset. Reading or writing outside the array is a fault,
  as is an argument that does not fit the arrays of a command.
\<close>

section \<open>Commands\<close>

abbreviation (input) BUFLEN :: nat where "BUFLEN \<equiv> 1024"
abbreviation (input) MAXARGS :: nat where "MAXARGS \<equiv> 20"
abbreviation (input) ARGSIZE :: nat where "ARGSIZE \<equiv> 1024"
abbreviation (input) FNAMESIZE :: nat where "FNAMESIZE \<equiv> 1024"
abbreviation (input) SPACE :: byte where "SPACE \<equiv> CHR '' ''"

datatype cmd_type = EXEC | BACK | REDIR | PIPE

text \<open>\<open>argc\<close> and \<open>eargc\<close> are the lengths of \<open>argv\<close> and \<open>eargv\<close>.\<close>

record execcmd =
  etype :: cmd_type
  scmd :: string
  argv :: "string list"
  eargv :: "string list"
  out_file :: string
  in_file :: string
  err_file :: string

text \<open>\<open>leftcmd\<close> may be the null pointer.\<close>

datatype cmd =
    Exec execcmd
  | Back string cmd
  | Pipe "cmd option" cmd

fun ctype :: "cmd \<Rightarrow> cmd_type" where
  "ctype (Exec e) = etype e"
| "ctype (Back s c) = BACK"
| "ctype (Pipe l r) = PIPE"

fun cscmd :: "cmd \<Rightarrow> string" where
  "cscmd (Exec e) = scmd e"
| "cscmd (Back s c) = s"
| "cscmd (Pipe l r) = []"

definition exec_cmd_create :: "string \<Rightarrow> execcmd cres" where
  "exec_cmd_create buf_cmd =
     bindR (guardR (length buf_cmd < BUFLEN) OutOfBounds) (\<lambda>_.
       Inr \<lparr>etype = EXEC, scmd = buf_cmd, argv = [], eargv = [], out_file = [], in_file = [], err_file = []\<rparr>)"

definition back_cmd_create :: "cmd \<Rightarrow> cmd" where
  "back_cmd_create c = Back (cscmd c) c"

definition pipe_cmd_create :: "cmd option \<Rightarrow> cmd option \<Rightarrow> cmd option" where
  "pipe_cmd_create left right = (case right of None \<Rightarrow> left | Some r \<Rightarrow> Some (Pipe left r))"

section \<open>Strings in the line\<close>

text \<open>A loop that moves forward while the byte satisfies \<open>P\<close>, and the string at an offset.\<close>

definition scan_while :: "(byte \<Rightarrow> bool) \<Rightarrow> buffer \<Rightarrow> nat \<Rightarrow> nat cres" where
  "scan_while P buf i =
     (let j = i + length (takeWhile P (drop i buf))
      in if j < length buf then Inr j else Inl OutOfBounds)"

definition str_at :: "buffer \<Rightarrow> nat \<Rightarrow> string cres" where
  "str_at buf i = (if NUL \<in> set (drop i buf) then Inr (cstr (drop i buf)) else Inl OutOfBounds)"

definition split_line :: "buffer \<Rightarrow> nat \<Rightarrow> byte \<Rightarrow> (buffer \<times> nat) cres" where
  "split_line buf off splitter =
     bindR (scan_while (\<lambda>c. c \<noteq> splitter \<and> c \<noteq> NUL) buf off) (\<lambda>i.
       let buf1 = buf[i := NUL]
       in bindR (scan_while (\<lambda>c. c = SPACE) buf1 (i + 1)) (\<lambda>j. Inr (buf1, j)))"

definition block_contains :: "string \<Rightarrow> byte \<Rightarrow> int" where
  "block_contains buf c = first_index (length buf) (\<lambda>i. buf ! i = c)"

section \<open>One command\<close>

text \<open>The token and its terminator have to fit the array.\<close>

definition get_token :: "string \<Rightarrow> nat \<Rightarrow> string cres" where
  "get_token buf idx =
     (let tok = takeWhile (\<lambda>c. c \<noteq> SPACE) (drop idx buf)
      in bindR (guardR (length tok < ARGSIZE) OutOfBounds) (\<lambda>_. Inr tok))"

definition parse_redir_flow :: "execcmd \<Rightarrow> string \<Rightarrow> bool \<times> execcmd" where
  "parse_redir_flow c arg =
     (let outIdx = block_contains arg (CHR ''>'')
      in if outIdx \<ge> 0 then
           (True, (if outIdx = 0 then c\<lparr>out_file := drop 1 arg\<rparr>
                   else if outIdx = 1 then c\<lparr>err_file := drop (nat outIdx + 1) arg\<rparr>
                   else c)\<lparr>etype := REDIR\<rparr>)
         else let inIdx = block_contains arg (CHR ''<'')
           in if inIdx \<ge> 0 then (True, c\<lparr>in_file := drop 1 arg, etype := REDIR\<rparr>)
              else (False, c))"

definition parse_environ_var :: "execcmd \<Rightarrow> string \<Rightarrow> (bool \<times> execcmd) cres" where
  "parse_environ_var c arg =
     (if block_contains arg (CHR ''='') > 0 \<and> block_contains arg (CHR ''-'') < 0 then
        bindR (guardR (length (eargv c) < MAXARGS) OutOfBounds) (\<lambda>_.
          Inr (True, c\<lparr>eargv := eargv c @ [arg]\<rparr>))
      else Inr (False, c))"

text \<open>The environment of the shell and the status of its last command are parameters of the parser.\<close>

definition expand_environ_var :: "(string \<Rightarrow> string option) \<Rightarrow> int \<Rightarrow> string \<Rightarrow> string" where
  "expand_environ_var getenv status arg =
     (if arg \<noteq> [] \<and> arg ! 0 = CHR ''$'' then
        (if arg = ''$?'' then decimal status
         else case getenv (drop 1 arg) of Some v \<Rightarrow> v | None \<Rightarrow> [])
      else arg)"

text \<open>The loop of \<open>parse_exec\<close> from the index \<open>idx\<close> on; \<open>argc\<close> is the length of \<open>argv\<close> so far.\<close>

function parse_exec_from ::
  "(string \<Rightarrow> string option) \<Rightarrow> int \<Rightarrow> string \<Rightarrow> nat \<Rightarrow> execcmd \<Rightarrow> execcmd cres" where
  "parse_exec_from getenv status buf idx c =
     (if idx \<ge> length buf then Inr c
      else bindR (get_token buf idx) (\<lambda>tok.
        let idx1 = idx + length tok;
            idx2 = (if idx1 < length buf then idx1 + 1 else idx1)
        in case parse_redir_flow c tok of
             (True, c1) \<Rightarrow> parse_exec_from getenv status buf idx2 c1
           | (False, c1) \<Rightarrow>
               bindR (parse_environ_var c1 tok) (\<lambda>(set, c2).
                 if set then parse_exec_from getenv status buf idx2 c2
                 else
                   let tok1 = expand_environ_var getenv status tok
                   in if length tok1 > 0 then
                        bindR (guardR (length (argv c2) < MAXARGS) OutOfBounds) (\<lambda>_.
                          parse_exec_from getenv status buf idx2 (c2\<lparr>argv := argv c2 @ [tok1]\<rparr>))
                      else parse_exec_from getenv status buf idx2 c2)))"
  by pat_completeness auto
termination
  by (relation "measure (\<lambda>(g, st, buf, idx, c). length buf - idx)")
    (auto simp: get_token_def guardR_def Let_def split: if_splits)

declare parse_exec_from.simps [simp del]

definition parse_exec :: "(string \<Rightarrow> string option) \<Rightarrow> int \<Rightarrow> string \<Rightarrow> execcmd cres" where
  "parse_exec getenv status buf_cmd =
     bindR (exec_cmd_create buf_cmd) (\<lambda>c0.
     bindR (parse_exec_from getenv status buf_cmd 0 c0) (\<lambda>c.
     bindR (guardR (length (argv c) < MAXARGS) OutOfBounds) (\<lambda>_. Inr c)))"

section \<open>The line\<close>

definition parse_back :: "(string \<Rightarrow> string option) \<Rightarrow> int \<Rightarrow> buffer \<Rightarrow> nat \<Rightarrow> cmd cres" where
  "parse_back getenv status buf off =
     bindR (scan_while (\<lambda>c. c \<noteq> CHR ''&'') buf off) (\<lambda>i.
     bindR (str_at (buf[i := NUL]) off) (\<lambda>s.
     bindR (parse_exec getenv status s) (\<lambda>e. Inr (back_cmd_create (Exec e)))))"

text \<open>\<open>buf_cmd[idx - 1]\<close> with \<open>idx = 0\<close> is the byte before the string.\<close>

definition byte_before :: "buffer \<Rightarrow> nat \<Rightarrow> byte cres" where
  "byte_before buf i = (if 0 < i \<and> i \<le> length buf then Inr (buf ! (i - 1)) else Inl OutOfBounds)"

definition parse_cmd :: "(string \<Rightarrow> string option) \<Rightarrow> int \<Rightarrow> buffer \<Rightarrow> nat \<Rightarrow> cmd option cres" where
  "parse_cmd getenv status buf off =
     bindR (str_at buf off) (\<lambda>s.
       if length s = 0 then Inr None
       else let idx = block_contains s (CHR ''&'')
         in if idx \<ge> 0 then
              bindR (byte_before buf (off + nat idx)) (\<lambda>b.
                if b \<noteq> CHR ''>'' then bindR (parse_back getenv status buf off) (\<lambda>c. Inr (Some c))
                else bindR (parse_exec getenv status s) (\<lambda>e. Inr (Some (Exec e))))
            else bindR (parse_exec getenv status s) (\<lambda>e. Inr (Some (Exec e))))"

lemma split_line_bounds:
  "split_line buf off sp = Inr (buf', j) \<Longrightarrow> length buf' = length buf \<and> off < j \<and> j < length buf"
  by (auto simp: split_line_def scan_while_def Let_def cres_simps split: if_splits)

text \<open>The parser calls itself on the part after the first bar.\<close>

function parse_line :: "(string \<Rightarrow> string option) \<Rightarrow> int \<Rightarrow> buffer \<Rightarrow> nat \<Rightarrow> cmd option cres" where
  "parse_line getenv status buf off =
     bindR (split_line buf off (CHR ''|'')) (\<lambda>(buf1, right).
     bindR (parse_cmd getenv status buf1 off) (\<lambda>l.
     bindR (str_at buf1 right) (\<lambda>s.
     bindR (if block_contains s (CHR ''|'') \<ge> 0 then parse_line getenv status buf1 right
            else parse_cmd getenv status buf1 right) (\<lambda>r.
       Inr (pipe_cmd_create l r)))))"
  by pat_completeness auto
termination
  by (relation "measure (\<lambda>(g, st, buf, off). length buf - off)") (auto dest!: split_line_bounds)

declare parse_line.simps [simp del]

end
