(* ===== verification/ShellLine.thy ===== *)
theory ShellLine
  imports ShellParse
begin

text \<open>
  What the parser of the shell computes, without indices and in-place cuts: the words of a command,
  the commands of a line.
\<close>

section \<open>Cutting at a byte\<close>

fun split_on :: "byte \<Rightarrow> string \<Rightarrow> string list" where
  "split_on d [] = [[]]"
| "split_on d (x # xs) =
     (if x = d then [] # split_on d xs
      else (case split_on d xs of [] \<Rightarrow> [[x]] | w # ws \<Rightarrow> (x # w) # ws))"

lemma split_on_not_Nil [simp]: "split_on d s \<noteq> []"
  by (induction s) (auto split: list.splits)

lemma split_on_absent: "d \<notin> set s \<Longrightarrow> split_on d s = [s]"
  by (induction s) auto

lemma split_on_append: "d \<notin> set w \<Longrightarrow> split_on d (w @ d # r) = w # split_on d r"
  by (induction w) auto

lemma takeWhile_word: "d \<notin> set w \<Longrightarrow> takeWhile (\<lambda>c. c \<noteq> d) (w @ d # r) = w"
  by (induction w) auto

lemma takeWhile_absent: "d \<notin> set s \<Longrightarrow> takeWhile (\<lambda>c. c \<noteq> d) s = s"
  by (induction s) auto

lemma length_takeWhile_less: "length (takeWhile (\<lambda>c. c \<noteq> d) s) < length s \<longleftrightarrow> d \<in> set s"
  by (induction s) auto

lemma split_on_step:
  "split_on d s =
     takeWhile (\<lambda>c. c \<noteq> d) s # (if d \<in> set s then split_on d (drop (Suc (length (takeWhile (\<lambda>c. c \<noteq> d) s))) s) else [])"
proof (cases "d \<in> set s")
  case True
  then obtain w r where "s = w @ d # r" "d \<notin> set w" by (meson split_list_first)
  moreover from this have "takeWhile (\<lambda>c. c \<noteq> d) s = w" by (simp add: takeWhile_word)
  ultimately show ?thesis by (simp add: split_on_append)
next
  case False
  then show ?thesis by (simp add: split_on_absent takeWhile_absent)
qed

lemma block_contains_minus1 [scan_simps]: "block_contains s c = - 1 \<longleftrightarrow> c \<notin> set s"
  by (auto simp: block_contains_def scan_simps in_set_conv_nth)

lemma block_contains_neg [scan_simps]: "block_contains s c < 0 \<longleftrightarrow> c \<notin> set s"
  by (auto simp: block_contains_def scan_simps in_set_conv_nth)

lemma block_contains_int [scan_simps]:
  "block_contains s c = int i \<longleftrightarrow> i < length s \<and> s ! i = c \<and> (\<forall>j<i. s ! j \<noteq> c)"
  by (simp add: block_contains_def scan_simps)

lemma block_contains_pos [scan_simps]: "0 < block_contains s c \<longleftrightarrow> c \<in> set s \<and> hd s \<noteq> c"
proof (cases "c \<in> set s")
  case True
  then obtain i where i: "block_contains s c = int i"
    by (metis block_contains_neg nonneg_int_cases not_less)
  have s: "s ! 0 = hd s" using True by (cases s) auto
  show ?thesis
  proof (cases i)
    case 0
    then show ?thesis using i s block_contains_int [of s c 0] by simp
  next
    case (Suc k)
    then show ?thesis using i s True block_contains_int [of s c i] by auto
  qed
next
  case False
  then show ?thesis using block_contains_neg [of s c] by simp
qed

lemma block_contains_0 [scan_simps]: "block_contains s c = 0 \<longleftrightarrow> s \<noteq> [] \<and> hd s = c"
  using block_contains_int [of s c 0] by (cases s) auto

lemma block_contains_1 [scan_simps]:
  "block_contains s c = 1 \<longleftrightarrow> 1 < length s \<and> s ! 1 = c \<and> hd s \<noteq> c"
  using block_contains_int [of s c 1] by (cases s) auto

lemma block_contains_append: "c \<notin> set w \<Longrightarrow> block_contains (w @ c # r) c = int (length w)"
  by (auto simp: scan_simps nth_append)

section \<open>The words of a command\<close>

definition is_redir :: "string \<Rightarrow> bool" where
  "is_redir w \<longleftrightarrow> CHR ''>'' \<in> set w \<or> CHR ''<'' \<in> set w"

definition is_var :: "string \<Rightarrow> bool" where
  "is_var w \<longleftrightarrow> CHR ''='' \<in> set w \<and> hd w \<noteq> CHR ''='' \<and> CHR ''-'' \<notin> set w"

definition out_files :: "string list \<Rightarrow> string list" where
  "out_files ws = map (drop 1) (filter (\<lambda>w. w \<noteq> [] \<and> hd w = CHR ''>'') ws)"

definition err_files :: "string list \<Rightarrow> string list" where
  "err_files ws = map (drop 2) (filter (\<lambda>w. 1 < length w \<and> hd w \<noteq> CHR ''>'' \<and> w ! 1 = CHR ''>'') ws)"

definition in_files :: "string list \<Rightarrow> string list" where
  "in_files ws = map (drop 1) (filter (\<lambda>w. CHR ''>'' \<notin> set w \<and> CHR ''<'' \<in> set w) ws)"

definition variables :: "string list \<Rightarrow> string list" where
  "variables ws = filter (\<lambda>w. \<not> is_redir w \<and> is_var w) ws"

text \<open>What a word stands for: \<open>$?\<close> is the status, \<open>$NAME\<close> the variable or nothing, every other word itself.\<close>

definition word_value :: "(string \<Rightarrow> string option) \<Rightarrow> int \<Rightarrow> string \<Rightarrow> string" where
  "word_value getenv status w =
     (case w of
        [] \<Rightarrow> []
      | c # name \<Rightarrow>
          if c \<noteq> CHR ''$'' then w
          else if name = ''?'' then decimal status
          else (case getenv name of None \<Rightarrow> [] | Some v \<Rightarrow> v))"

lemma expand_word: "expand_environ_var getenv status = word_value getenv status"
  by (auto simp: fun_eq_iff expand_environ_var_def word_value_def split: list.split option.split)

definition arguments :: "(string \<Rightarrow> string option) \<Rightarrow> int \<Rightarrow> string list \<Rightarrow> string list" where
  "arguments getenv status ws =
     filter (\<lambda>w. w \<noteq> []) (map (word_value getenv status) (filter (\<lambda>w. \<not> is_redir w \<and> \<not> is_var w) ws))"

lemmas word_defs = out_files_def err_files_def in_files_def variables_def arguments_def [folded expand_word]

definition word_step :: "(string \<Rightarrow> string option) \<Rightarrow> int \<Rightarrow> string \<Rightarrow> execcmd \<Rightarrow> execcmd cres" where
  "word_step getenv status w c =
     (case parse_redir_flow c w of
        (True, c1) \<Rightarrow> Inr c1
      | (False, c1) \<Rightarrow>
          bindR (parse_environ_var c1 w) (\<lambda>(set, c2).
            if set then Inr c2
            else
              let a = expand_environ_var getenv status w
              in if length a > 0 then
                   bindR (guardR (length (argv c2) < MAXARGS) OutOfBounds) (\<lambda>_. Inr (c2\<lparr>argv := argv c2 @ [a]\<rparr>))
                 else Inr c2))"

lemma word_step_Nil [simp]: "word_step g st [] c = Inr c"
  by (simp add: word_step_def parse_redir_flow_def parse_environ_var_def expand_environ_var_def
      block_contains_def first_index_def)

lemma parse_redir_flow_simp:
  "parse_redir_flow c w =
     (if is_redir w then
        (True, c\<lparr>etype := REDIR,
          out_file := last (out_file c # out_files [w]),
          err_file := last (err_file c # err_files [w]),
          in_file := last (in_file c # in_files [w])\<rparr>)
      else (False, c))"
proof (cases "CHR ''>'' \<in> set w")
  case True
  then have ge: "0 \<le> block_contains w (CHR ''>'')" using block_contains_neg [of w "CHR ''>''"] by simp
  consider "block_contains w (CHR ''>'') = 0" | "block_contains w (CHR ''>'') = 1"
    | "block_contains w (CHR ''>'') \<noteq> 0" "block_contains w (CHR ''>'') \<noteq> 1" by blast
  then show ?thesis
  proof cases
    case 1
    moreover from this have "w \<noteq> [] \<and> hd w = CHR ''>''" using block_contains_0 by blast
    ultimately show ?thesis using True
      by (simp add: parse_redir_flow_def is_redir_def word_defs)
  next
    case 2
    moreover from this have "1 < length w \<and> w ! 1 = CHR ''>'' \<and> hd w \<noteq> CHR ''>''"
      using block_contains_1 by blast
    ultimately show ?thesis using True
      by (simp add: parse_redir_flow_def is_redir_def word_defs numeral_2_eq_2)
  next
    case 3
    then have "out_files [w] = []" "err_files [w] = []" "in_files [w] = []" using True
      by (auto simp: block_contains_0 block_contains_1 word_defs)
    with True ge 3 show ?thesis
      by (simp add: parse_redir_flow_def is_redir_def)
  qed
next
  case False
  then have "block_contains w (CHR ''>'') < 0" by (simp add: scan_simps)
  moreover have "0 \<le> block_contains w (CHR ''<'') \<longleftrightarrow> CHR ''<'' \<in> set w"
    using block_contains_neg [of w "CHR ''<''"] by linarith
  moreover have "\<not> (w \<noteq> [] \<and> hd w = CHR ''>'')" "\<not> (1 < length w \<and> w ! 1 = CHR ''>'')"
    using False by (auto simp: in_set_conv_nth hd_conv_nth)
  ultimately show ?thesis using False
    by (auto simp: parse_redir_flow_def is_redir_def word_defs Let_def)
qed

lemma foldR_word_step_blank: "foldR (word_step g st) [[]] = foldR (word_step g st) []"
  by (simp add: fun_eq_iff)

lemma word_step_simp:
  "word_step g st w c =
     (if length (argv c) + length (arguments g st [w]) \<le> MAXARGS \<or> arguments g st [w] = [] then
        if length (eargv c) + length (variables [w]) \<le> MAXARGS \<or> variables [w] = [] then
        Inr (c\<lparr>etype := (if is_redir w then REDIR else etype c),
          argv := argv c @ arguments g st [w], eargv := eargv c @ variables [w],
          out_file := last (out_file c # out_files [w]),
          in_file := last (in_file c # in_files [w]),
          err_file := last (err_file c # err_files [w])\<rparr>)
        else Inl OutOfBounds
      else Inl OutOfBounds)"
proof (cases "is_redir w")
  case True
  then have "variables [w] = []" "arguments g st [w] = []" by (simp_all add: word_defs)
  with True show ?thesis by (simp add: word_step_def parse_redir_flow_simp)
next
  case False
  then have f: "out_files [w] = []" "err_files [w] = []" "in_files [w] = []"
    by (auto simp: word_defs is_redir_def in_set_conv_nth hd_conv_nth)
  have v: "0 < block_contains w (CHR ''='') \<and> block_contains w (CHR ''-'') < 0 \<longleftrightarrow> is_var w"
    by (auto simp: scan_simps is_var_def)
  show ?thesis
  proof (cases "is_var w")
    case True
    with False have "variables [w] = [w]" "arguments g st [w] = []" by (simp_all add: word_defs)
    with True False f show ?thesis
      by (simp add: word_step_def parse_redir_flow_simp parse_environ_var_def v guardR_def)
  next
    case nv: False
    with False have "variables [w] = []"
      "arguments g st [w] = (let a = expand_environ_var g st w in if a = [] then [] else [a])"
      by (simp_all add: word_defs Let_def)
    with nv False f show ?thesis
      by (simp add: word_step_def parse_redir_flow_simp parse_environ_var_def v guardR_def Let_def)
  qed
qed

lemma word_step_bind:
  "(case parse_redir_flow c w of
      (True, c1) \<Rightarrow> k c1
    | (False, c1) \<Rightarrow>
        bindR (parse_environ_var c1 w) (\<lambda>(set, c2).
          if set then k c2
          else if length (expand_environ_var g st w) > 0 then
            bindR (guardR (length (argv c2) < MAXARGS) OutOfBounds) (\<lambda>_.
              k (c2\<lparr>argv := argv c2 @ [expand_environ_var g st w]\<rparr>))
          else k c2)) = bindR (word_step g st w c) k"
proof -
  obtain b c1 where r: "parse_redir_flow c w = (b, c1)" by fastforce
  show ?thesis
  proof (cases b)
    case True
    then show ?thesis by (simp add: word_step_def r)
  next
    case False
    show ?thesis
    proof (cases "parse_environ_var c1 w")
      case (Inl e)
      then show ?thesis using False by (simp add: word_step_def r)
    next
      case (Inr p)
      then show ?thesis using False
        by (cases p) (simp add: word_step_def r bindR_assoc Let_def)
    qed
  qed
qed

lemma parse_exec_from_words:
  assumes "length buf < BUFLEN"
  shows "parse_exec_from g st buf idx c = foldR (word_step g st) (split_on SPACE (drop idx buf)) c"
  using assms
proof (induction "length buf - idx" arbitrary: idx c rule: less_induct)
  case less
  show ?case
  proof (cases "length buf \<le> idx")
    case True
    then show ?thesis by (simp add: parse_exec_from.simps)
  next
    case False
    let ?tok = "takeWhile (\<lambda>x. x \<noteq> SPACE) (drop idx buf)"
    let ?i = "idx + length ?tok"
    have le: "length ?tok \<le> length buf - idx"
      using length_takeWhile_le [of "\<lambda>x. x \<noteq> SPACE" "drop idx buf"] by simp
    then have "length ?tok < ARGSIZE" using less.prems by linarith
    then have tok: "get_token buf idx = Inr ?tok"
      by (simp add: get_token_def Let_def guardR_def)
    have sp: "?i < length buf \<longleftrightarrow> SPACE \<in> set (drop idx buf)"
      unfolding length_takeWhile_less [symmetric] using False by simp linarith
    define j where "j = (if ?i < length buf then ?i + 1 else ?i)"
    have j: "length buf - j < length buf - idx"
    proof (cases "?i < length buf")
      case True
      then show ?thesis using False by (simp add: j_def)
    next
      case f: False
      then have "length ?tok = length buf - idx" using le False by simp
      then show ?thesis using f False by (simp add: j_def)
    qed
    have rest: "parse_exec_from g st buf j = foldR (word_step g st) (split_on SPACE (drop j buf))"
      by (rule ext) (rule less.hyps [OF j less.prems])
    have tail: "foldR (word_step g st) (split_on SPACE (drop idx buf)) c =
        bindR (word_step g st ?tok c) (foldR (word_step g st) (split_on SPACE (drop j buf)))"
    proof (cases "?i < length buf")
      case True
      then show ?thesis using sp
        by (subst split_on_step) (simp add: j_def add.commute)
    next
      case f: False
      then have "drop j buf = []" by (simp add: j_def)
      with f sp show ?thesis
        by (subst split_on_step) (simp add: foldR_word_step_blank)
    qed
    show ?thesis
      unfolding tail
      by (subst parse_exec_from.simps)
        (simp only: tok bindR_Inr Let_def if_not_P [OF False] j_def [symmetric] rest
          word_step_bind)
  qed
qed

text \<open>What a list of words adds to a command.\<close>

definition with_words ::
  "execcmd \<Rightarrow> bool \<Rightarrow> string list \<Rightarrow> string list \<Rightarrow> string list \<Rightarrow> string list \<Rightarrow> string list \<Rightarrow> execcmd" where
  "with_words c r as vs os is es =
     c\<lparr>etype := (if r then REDIR else etype c), argv := argv c @ as, eargv := eargv c @ vs,
       out_file := last (out_file c # os), in_file := last (in_file c # is), err_file := last (err_file c # es)\<rparr>"

lemma last_Cons_append: "last (x # xs @ ys) = last (last (x # xs) # ys)"
  by (cases ys) auto

lemma with_words_append:
  "with_words (with_words c r as vs os is es) r' as' vs' os' is' es' =
   with_words c (r \<or> r') (as @ as') (vs @ vs') (os @ os') (is @ is') (es @ es')"
  by (rule execcmd.equality) (simp_all add: with_words_def last_Cons_append del: last.simps)

lemma with_words_sel [simp]:
  "argv (with_words c r as vs os is es) = argv c @ as"
  "eargv (with_words c r as vs os is es) = eargv c @ vs"
  by (simp_all add: with_words_def)

lemma foldR_word_step:
  assumes "length (argv c) \<le> MAXARGS" "length (eargv c) \<le> MAXARGS"
  shows "foldR (word_step g st) ws c =
     (if length (argv c) + length (arguments g st ws) \<le> MAXARGS
         \<and> length (eargv c) + length (variables ws) \<le> MAXARGS then
        Inr (with_words c (\<exists>w\<in>set ws. is_redir w) (arguments g st ws) (variables ws)
               (out_files ws) (in_files ws) (err_files ws))
      else Inl OutOfBounds)"
  using assms
proof (induction ws arbitrary: c)
  case Nil
  then show ?case by (simp add: word_defs with_words_def)
next
  case (Cons w ws)
  have app: "arguments g st (w # ws) = arguments g st [w] @ arguments g st ws"
    "variables (w # ws) = variables [w] @ variables ws"
    "out_files (w # ws) = out_files [w] @ out_files ws"
    "in_files (w # ws) = in_files [w] @ in_files ws"
    "err_files (w # ws) = err_files [w] @ err_files ws"
    by (simp_all add: word_defs)
  show ?case
  proof (cases "length (argv c) + length (arguments g st [w]) \<le> MAXARGS \<and>
      length (eargv c) + length (variables [w]) \<le> MAXARGS")
    case True
    let ?c = "with_words c (is_redir w) (arguments g st [w]) (variables [w])
        (out_files [w]) (in_files [w]) (err_files [w])"
    have step: "word_step g st w c = Inr ?c"
      using True by (simp add: word_step_simp with_words_def del: last.simps)
    have len: "length (argv ?c) \<le> MAXARGS" "length (eargv ?c) \<le> MAXARGS" using True by simp_all
    show ?thesis
      unfolding foldR.simps step bindR_Inr Cons.IH [OF len] with_words_append
      by (simp add: app add.assoc)
  next
    case False
    then show ?thesis using Cons.prems
      by (auto simp: word_step_simp app)
  qed
qed

lemma parse_exec_words_lemma:
  "parse_exec g st s =
     (let ws = split_on SPACE s
      in if length s < BUFLEN \<and> length (arguments g st ws) < MAXARGS \<and> length (variables ws) \<le> MAXARGS then
           Inr \<lparr>etype = (if \<exists>w\<in>set ws. is_redir w then REDIR else EXEC), scmd = s,
                argv = arguments g st ws, eargv = variables ws,
                out_file = last ([] # out_files ws), in_file = last ([] # in_files ws),
                err_file = last ([] # err_files ws)\<rparr>
         else Inl OutOfBounds)"
proof (cases "length s < BUFLEN")
  case True
  let ?c = "\<lparr>etype = EXEC, scmd = s, argv = [], eargv = [], out_file = [], in_file = [], err_file = []\<rparr>"
  have c: "exec_cmd_create s = Inr ?c" using True by (simp add: exec_cmd_create_def)
  show ?thesis using True
    by (simp add: parse_exec_def c parse_exec_from_words foldR_word_step Let_def guardR_def with_words_def)
next
  case False
  then show ?thesis by (simp add: parse_exec_def exec_cmd_create_def Let_def)
qed

section \<open>The commands of a line\<close>

definition strip :: "string \<Rightarrow> string" where
  "strip s = dropWhile (\<lambda>c. c = SPACE) s"

definition segments :: "string \<Rightarrow> string list" where
  "segments s = hd (split_on (CHR ''|'') s) # map strip (tl (split_on (CHR ''|'') s))"

text \<open>One command, the first of its line or a later one.\<close>

definition parse_segment ::
  "(string \<Rightarrow> string option) \<Rightarrow> int \<Rightarrow> bool \<Rightarrow> string \<Rightarrow> cmd option cres" where
  "parse_segment getenv status first s =
     (let before = takeWhile (\<lambda>c. c \<noteq> CHR ''&'') s;
          exec = (\<lambda>t. parse_exec getenv status t)
      in if s = [] then Inr None
         else if CHR ''&'' \<notin> set s then bindR (exec s) (\<lambda>e. Inr (Some (Exec e)))
         else if before = [] \<and> first then Inl OutOfBounds
         else if before \<noteq> [] \<and> last before = CHR ''>'' then bindR (exec s) (\<lambda>e. Inr (Some (Exec e)))
         else bindR (exec before) (\<lambda>e. Inr (Some (Back (scmd e) (Exec e)))))"

fun pipeline ::
  "(string \<Rightarrow> string option) \<Rightarrow> int \<Rightarrow> bool \<Rightarrow> string list \<Rightarrow> cmd option cres" where
  "pipeline getenv status first [] = Inr None"
| "pipeline getenv status first (s # ss) =
     bindR (parse_segment getenv status first s) (\<lambda>l.
     bindR (pipeline getenv status False ss) (\<lambda>r. Inr (pipe_cmd_create l r)))"

lemma strip_idem [simp]: "strip (strip s) = strip s"
  by (induction s) (auto simp: strip_def)

lemma segments_absent: "CHR ''|'' \<notin> set s \<Longrightarrow> segments s = [s]"
  by (simp add: segments_def split_on_absent)

lemma segments_bar: "CHR ''|'' \<notin> set w \<Longrightarrow> segments (w @ CHR ''|'' # r) = w # map strip (split_on (CHR ''|'') r)"
  by (simp add: segments_def split_on_append)

lemma map_strip_split_on: "map strip (split_on (CHR ''|'') r) = segments (strip r)"
proof (induction r)
  case (Cons x r)
  show ?case
  proof (cases "x = SPACE")
    case True
    obtain w ws where "split_on (CHR ''|'') r = w # ws" by (cases "split_on (CHR ''|'') r") auto
    with True Cons.IH show ?thesis by (simp add: strip_def)
  next
    case False
    then have "strip (x # r) = x # r" by (simp add: strip_def)
    moreover have "strip (hd (split_on (CHR ''|'') (x # r))) = hd (split_on (CHR ''|'') (x # r))"
      using False by (cases "split_on (CHR ''|'') r") (simp_all add: strip_def)
    ultimately show ?thesis
      unfolding segments_def by (metis list.collapse list.simps(9) split_on_not_Nil)
  qed
qed (simp add: segments_def strip_def)

text \<open>The scans of the parser on a buffer whose parts are known.\<close>

lemma scan_while_at:
  assumes "\<forall>c\<in>set s. P c" "\<not> P d"
  shows "scan_while P (pre @ s @ d # rest) (length pre) = Inr (length pre + length s)"
  using assms by (simp add: scan_while_def takeWhile_append2)

lemma str_at_pre: "NUL \<notin> set s \<Longrightarrow> str_at (pre @ s @ NUL # rest) (length pre) = Inr s"
  by (simp add: str_at_def)

lemma split_line_at:
  assumes "sp \<noteq> SPACE" "sp \<noteq> NUL" "NUL \<notin> set w" "sp \<notin> set w" "d = sp \<or> d = NUL" "e \<noteq> SPACE"
  shows "split_line (pre @ w @ d # replicate k SPACE @ e # rest) (length pre) sp =
     Inr (pre @ w @ NUL # replicate k SPACE @ e # rest, length pre + length w + 1 + k)"
proof -
  have s1: "scan_while (\<lambda>c. c \<noteq> sp \<and> c \<noteq> NUL) (pre @ w @ d # replicate k SPACE @ e # rest) (length pre) =
      Inr (length pre + length w)"
    by (rule scan_while_at) (use assms in auto)
  have up: "(pre @ w @ d # replicate k SPACE @ e # rest)[length pre + length w := NUL] =
      pre @ w @ NUL # replicate k SPACE @ e # rest"
    by (simp add: list_update_append)
  have s2: "scan_while (\<lambda>c. c = SPACE) ((pre @ w @ [NUL]) @ replicate k SPACE @ e # rest) (length (pre @ w @ [NUL])) =
      Inr (length (pre @ w @ [NUL]) + length (replicate k SPACE))"
    by (rule scan_while_at) (use assms in auto)
  show ?thesis
    using s2 by (simp add: split_line_def s1 up Let_def)
qed

lemma takeWhile_spaces:
  "replicate (length (takeWhile (\<lambda>c. c = d) s)) d @ dropWhile (\<lambda>c. c = d) s = s"
  by (induction s) auto

lemma strip_split: "\<exists>k. s = replicate k SPACE @ strip s"
  by (rule exI [of _ "length (takeWhile (\<lambda>c. c = SPACE) s)"])
    (simp add: strip_def takeWhile_spaces)

lemma strip_head: "strip s = [] \<or> hd (strip s) \<noteq> SPACE"
  using hd_dropWhile [of "\<lambda>c. c = SPACE" s] by (auto simp: strip_def)

lemma parse_back_at:
  assumes "NUL \<notin> set w" "CHR ''&'' \<notin> set w"
  shows "parse_back g st (pre @ w @ CHR ''&'' # rest) (length pre) =
     bindR (parse_exec g st w) (\<lambda>e. Inr (Back (scmd e) (Exec e)))"
proof -
  have s1: "scan_while (\<lambda>c. c \<noteq> CHR ''&'') (pre @ w @ CHR ''&'' # rest) (length pre) = Inr (length pre + length w)"
    by (rule scan_while_at) (use assms in auto)
  have up: "(pre @ w @ CHR ''&'' # rest)[length pre + length w := NUL] = pre @ w @ NUL # rest"
    by (simp add: list_update_append)
  show ?thesis
    by (simp add: parse_back_def s1 up str_at_pre assms back_cmd_create_def)
qed

lemma byte_before_at:
  "byte_before (pre @ w @ rest) (length pre + length w) =
     (if w \<noteq> [] then Inr (last w) else if pre \<noteq> [] then Inr (last pre) else Inl OutOfBounds)"
  by (cases w rule: rev_cases; cases pre rule: rev_cases) (auto simp: byte_before_def nth_append)

lemma parse_cmd_at:
  assumes nul: "NUL \<notin> set s" and pre: "pre = [] \<or> last pre \<noteq> CHR ''>''"
  shows "parse_cmd g st (pre @ s @ NUL # rest) (length pre) = parse_segment g st (pre = []) s"
proof (cases "CHR ''&'' \<in> set s")
  case True
  then obtain w t where s: "s = w @ CHR ''&'' # t" "CHR ''&'' \<notin> set w" by (meson split_list_first)
  have bef: "takeWhile (\<lambda>c. c \<noteq> CHR ''&'') s = w" unfolding s(1) by (rule takeWhile_word) (rule s(2))
  have idx: "block_contains s (CHR ''&'') = int (length w)"
    unfolding s(1) by (rule block_contains_append) (rule s(2))
  have bk: "parse_back g st (pre @ s @ NUL # rest) (length pre) =
      bindR (parse_exec g st w) (\<lambda>e. Inr (Back (scmd e) (Exec e)))"
    using parse_back_at [of w g st pre "t @ NUL # rest"] nul s by simp
  have bb: "byte_before (pre @ s @ NUL # rest) (length pre + length w) =
      (if w \<noteq> [] then Inr (last w) else if pre \<noteq> [] then Inr (last pre) else Inl OutOfBounds)"
    using byte_before_at [of pre w "CHR ''&'' # t @ NUL # rest"] s by simp
  show ?thesis
    unfolding parse_cmd_def str_at_pre [OF nul] bindR_Inr parse_segment_def bef Let_def
    using True pre by (auto simp: idx bb bk bindR_assoc)
next
  case False
  then have "block_contains s (CHR ''&'') < 0" by (simp add: scan_simps)
  with False show ?thesis
    by (simp add: parse_cmd_def str_at_pre nul parse_segment_def Let_def)
qed

lemma pipe_cmd_create_None: "bindR m (\<lambda>l. Inr (pipe_cmd_create l None)) = m"
  by (cases m) (simp_all add: pipe_cmd_create_def)

lemma pipeline_single: "pipeline g st first [s] = parse_segment g st first s"
  by (simp add: pipe_cmd_create_None)

lemma parse_line_at:
  assumes "NUL \<notin> set s" "pre = [] \<or> last pre \<noteq> CHR ''>''"
  shows "parse_line g st (pre @ s @ NUL # NUL # rest) (length pre) = pipeline g st (pre = []) (segments s)"
  using assms
proof (induction s arbitrary: pre rule: length_induct)
  case (1 s pre)
  show ?case
  proof (cases "CHR ''|'' \<in> set s")
    case False
    then have sp: "split_line (pre @ s @ NUL # NUL # rest) (length pre) (CHR ''|'') =
        Inr (pre @ s @ NUL # NUL # rest, length pre + length s + 1)"
      using split_line_at [of "CHR ''|''" s NUL NUL pre 0 rest] 1 by simp
    have e: "str_at (pre @ s @ NUL # NUL # rest) (length pre + length s + 1) = Inr []"
      using str_at_pre [of "[]" "pre @ s @ [NUL]" rest] by simp
    then have n: "parse_cmd g st (pre @ s @ NUL # NUL # rest) (length pre + length s + 1) = Inr None"
      by (simp add: parse_cmd_def)
    have b: "\<not> 0 \<le> block_contains [] (CHR ''|'')" by (simp add: scan_simps not_le)
    have l: "parse_cmd g st (pre @ s @ NUL # NUL # rest) (length pre) = parse_segment g st (pre = []) s"
      by (rule parse_cmd_at) (use 1 in auto)
    show ?thesis
      by (subst parse_line.simps)
        (simp only: sp bindR_Inr prod.case e n b l if_False pipe_cmd_create_None pipeline_single
          segments_absent [OF False])
  next
    case True
    then obtain w r where s: "s = w @ CHR ''|'' # r" "CHR ''|'' \<notin> set w" by (meson split_list_first)
    obtain k where k: "r = replicate k SPACE @ strip r" using strip_split by blast
    define t where "t = strip r"
    define pre' where "pre' = pre @ w @ NUL # replicate k SPACE"
    have len: "length t < length s" unfolding s(1) t_def using length_dropWhile_le [of _ r]
      by (simp add: strip_def le_imp_less_Suc trans_le_add2)
    have nul: "NUL \<notin> set t" "NUL \<notin> set w"
      using 1(2) k unfolding s(1) t_def by (auto dest: arg_cong [where f = set])
    have last: "last pre' \<noteq> CHR ''>''" "pre' \<noteq> []"
      by (auto simp: pre'_def last_append)
    obtain e u where t: "t @ NUL # NUL # rest = e # u" "e \<noteq> SPACE"
      using strip_head [of r] unfolding t_def by (cases "strip r") auto
    have buf1: "pre @ w @ NUL # replicate k SPACE @ e # u = pre' @ t @ NUL # NUL # rest"
      by (simp add: pre'_def t)
    have sp: "split_line (pre @ s @ NUL # NUL # rest) (length pre) (CHR ''|'') =
        Inr (pre' @ t @ NUL # NUL # rest, length pre')"
    proof -
      have "pre @ s @ NUL # NUL # rest = pre @ w @ CHR ''|'' # replicate k SPACE @ e # u"
        unfolding s(1) by (subst k) (simp add: t(1) [symmetric] t_def)
      then show ?thesis
        using split_line_at [of "CHR ''|''" w "CHR ''|''" e pre k u] s nul t
        by (simp add: buf1) (simp add: pre'_def)
    qed
    have l: "parse_cmd g st (pre' @ t @ NUL # NUL # rest) (length pre) = parse_segment g st (pre = []) w"
      using parse_cmd_at [of w pre g st "replicate k SPACE @ t @ NUL # NUL # rest"] nul 1(3)
      by (simp add: pre'_def)
    have r: "(if block_contains t (CHR ''|'') \<ge> 0
          then parse_line g st (pre' @ t @ NUL # NUL # rest) (length pre')
          else parse_cmd g st (pre' @ t @ NUL # NUL # rest) (length pre')) = pipeline g st False (segments t)"
    proof (cases "CHR ''|'' \<in> set t")
      case bar: True
      then have "0 \<le> block_contains t (CHR ''|'')"
        using block_contains_neg [of t "CHR ''|''"] by simp
      moreover have "parse_line g st (pre' @ t @ NUL # NUL # rest) (length pre') = pipeline g st False (segments t)"
        using 1(1) len nul last by auto
      ultimately show ?thesis by simp
    next
      case nobar: False
      then have "\<not> 0 \<le> block_contains t (CHR ''|'')" by (simp add: scan_simps not_le)
      moreover have "parse_cmd g st (pre' @ t @ NUL # NUL # rest) (length pre') = parse_segment g st False t"
        using parse_cmd_at [of t pre' g st "NUL # rest"] nul last by simp
      ultimately show ?thesis by (simp only: segments_absent [OF nobar] pipeline_single if_False)
    qed
    have seg: "segments s = w # segments t"
      unfolding s(1) t_def by (simp add: segments_bar s(2) map_strip_split_on)
    show ?thesis
      by (subst parse_line.simps)
        (simp only: sp bindR_Inr prod.case l str_at_pre [OF nul(1)] r seg pipeline.simps)
  qed
qed

lemma parse_line_buffer:
  assumes "NUL \<notin> set s" "length s < BUFLEN - 1"
  shows "parse_line g st (s @ replicate (BUFLEN - length s) NUL) 0 = pipeline g st True (segments s)"
proof -
  obtain k where "BUFLEN - length s = Suc (Suc k)"
    by (rule that [of "BUFLEN - length s - 2"]) (use assms(2) in linarith)
  then show ?thesis using parse_line_at [of s "[]" g st "replicate k NUL"] assms(1) by simp
qed

text \<open>A line without bars that fills the buffer: the scan for the right side starts past its end.\<close>

lemma parse_line_full:
  assumes "NUL \<notin> set s" "CHR ''|'' \<notin> set s"
  shows "parse_line g st (s @ [NUL]) 0 = Inl OutOfBounds"
proof -
  have "scan_while (\<lambda>c. c \<noteq> CHR ''|'' \<and> c \<noteq> NUL) ([] @ s @ NUL # []) (length ([] :: string)) = Inr (length ([] :: string) + length s)"
    by (rule scan_while_at) (use assms in auto)
  then have "split_line (s @ [NUL]) 0 (CHR ''|'') = Inl OutOfBounds"
    by (simp add: split_line_def Let_def) (simp add: scan_while_def)
  then show ?thesis by (subst parse_line.simps) simp
qed

end
