(* ===== verification/ShellRun.thy ===== *)
theory ShellRun
  imports ShellParse
begin

text \<open>
  Running commands: \<^verbatim>\<open>src/2-shell/builtin.c\<close>, \<^verbatim>\<open>exec.c\<close>, \<^verbatim>\<open>freecmd.c\<close>, \<^verbatim>\<open>printstatus.c\<close>,
  \<^verbatim>\<open>runcmd.c\<close>, \<^verbatim>\<open>readline.c\<close> and the loop of \<^verbatim>\<open>sh.c\<close>. The answers of the operating system are
  parameters; what is printed is left out. File descriptors 0, 1 and 2 are open when the shell
  starts, so a descriptor that \<open>open\<close> or \<open>pipe\<close> returns is none of them.
\<close>

section \<open>Built-in commands\<close>

fun contains_command :: "string \<Rightarrow> string \<Rightarrow> bool" where
  "contains_command str [] = True"
| "contains_command [] (c # cs) = False"
| "contains_command (x # xs) (c # cs) = (x = c \<and> contains_command xs cs)"

definition exit_shell :: "string \<Rightarrow> bool" where
  "exit_shell cmd = contains_command cmd ''exit''"

definition history_builtin :: "string \<Rightarrow> bool" where
  "history_builtin cmd = False"

text \<open>\<open>reverse\<close> swaps in place.\<close>

definition swap :: "'a list \<Rightarrow> nat \<Rightarrow> nat \<Rightarrow> 'a list" where
  "swap xs i j = xs[i := xs ! j, j := xs ! i]"

definition reverse :: "'a list \<Rightarrow> 'a list" where
  "reverse str = foldl (\<lambda>s i. swap s i (length str - i - 1)) str [0..<length str div 2]"

text \<open>
  \<open>chdir cwd dir\<close> is the new working directory, or \<open>None\<close> when the call fails. The buffer
  \<open>getcwd\<close> fills has \<open>BUFLEN\<close> bytes; a longer path makes it return the null pointer.
\<close>

type_synonym chdir_call = "string \<Rightarrow> string \<Rightarrow> string option"

definition try_chdir :: "chdir_call \<Rightarrow> string \<Rightarrow> string \<Rightarrow> string" where
  "try_chdir chdir cwd dir = (case chdir cwd dir of None \<Rightarrow> cwd | Some d \<Rightarrow> d)"

definition go_back :: "string \<Rightarrow> string cres" where
  "go_back cwd =
     bindR (guardR (length cwd < BUFLEN) NullDeref) (\<lambda>_.
     bindR (split_line (reverse cwd @ replicate (BUFLEN - length cwd) NUL) 0 (CHR ''/'')) (\<lambda>(buf, i).
     bindR (str_at buf i) (\<lambda>s. Inr (reverse s))))"

text \<open>\<open>chdir(NULL)\<close> fails when \<open>HOME\<close> is not set. The result tells whether the command was \<open>cd\<close>.\<close>

definition cd :: "chdir_call \<Rightarrow> (string \<Rightarrow> string option) \<Rightarrow> buffer \<Rightarrow> string \<Rightarrow> (bool \<times> buffer \<times> string) cres" where
  "cd chdir getenv cmd cwd =
     bindR (str_at cmd 0) (\<lambda>s.
       if \<not> contains_command s ''cd'' then Inr (False, cmd, cwd)
       else bindR (split_line cmd 0 SPACE) (\<lambda>(cmd1, d).
         bindR (str_at cmd1 d) (\<lambda>directory.
           if directory = [] then
             let cwd1 = (case getenv ''HOME'' of None \<Rightarrow> cwd | Some home \<Rightarrow> try_chdir chdir cwd home)
             in Inr (True, cmd1, try_chdir chdir cwd1 directory)
           else if directory = ''.'' then Inr (True, cmd1, cwd)
           else if directory = ''..'' then
             bindR (go_back cwd) (\<lambda>up.
               let cwd1 = try_chdir chdir cwd up
               in Inr (True, cmd1, try_chdir chdir cwd1 directory))
           else Inr (True, cmd1, try_chdir chdir cwd directory))))"

definition pwd :: "string \<Rightarrow> bool" where
  "pwd cmd = contains_command cmd ''pwd''"

section \<open>Executing\<close>

text \<open>
  What a process does in the end: it becomes another program, exits or dies of a memory fault. A program
  starts with its arguments, its environment, its standard descriptors and the ends of pipes that are open on other
  descriptors as well. The process of a pipe first starts two children. A fault of a child does not reach its parent.
\<close>

datatype stream =
    Inherited nat
  | FileOut string
  | FileIn string
  | PipeWrite nat
  | PipeRead nat

datatype proc =
    Runs "string list" "string \<Rightarrow> string option" "nat \<Rightarrow> stream" "stream set"
  | Exits int
  | Dies fault
  | Spawns proc proc

fun or_dies :: "'a cres \<Rightarrow> ('a \<Rightarrow> proc) \<Rightarrow> proc" where
  "or_dies (Inl e) k = Dies e"
| "or_dies (Inr x) k = k x"

record os_answers =
  open_out :: "string \<Rightarrow> bool"
  open_in :: "string \<Rightarrow> bool"
  execvp_ok :: "string list \<Rightarrow> bool"
  pipe_ok :: bool
  fork_ok :: "cmd option \<Rightarrow> bool"

fun free_command :: "cmd option \<Rightarrow> unit cres" where
  "free_command None = Inl NullDeref"
| "free_command (Some (Exec e)) = Inr ()"
| "free_command (Some (Back s c)) = free_command (Some c)"
| "free_command (Some (Pipe l r)) = bindR (free_command l) (\<lambda>_. free_command (Some r))"

definition get_environ_key :: "string \<Rightarrow> string cres" where
  "get_environ_key arg =
     (let key = takeWhile (\<lambda>c. c \<noteq> CHR ''='') arg
      in bindR (guardR (length key < length arg \<and> length key < FNAMESIZE) OutOfBounds) (\<lambda>_. Inr key))"

definition get_environ_value :: "string \<Rightarrow> int \<Rightarrow> string cres" where
  "get_environ_value arg idx =
     (let v = drop (nat (idx + 1)) arg
      in bindR (guardR (length v < FNAMESIZE) OutOfBounds) (\<lambda>_. Inr v))"

fun set_environ_vars :: "string list \<Rightarrow> (string \<Rightarrow> string option) \<Rightarrow> (string \<Rightarrow> string option) cres" where
  "set_environ_vars [] environ = Inr environ"
| "set_environ_vars (arg # args) environ =
     bindR (get_environ_key arg) (\<lambda>key.
     bindR (get_environ_value arg (block_contains arg (CHR ''=''))) (\<lambda>val.
       set_environ_vars args (environ(key \<mapsto> val))))"

text \<open>The case \<open>EXEC\<close>; \<open>execvp\<close> follows its first argument, which is the null pointer when there is no word.\<close>

definition exec_program ::
  "os_answers \<Rightarrow> execcmd \<Rightarrow> (string \<Rightarrow> string option) \<Rightarrow> (nat \<Rightarrow> stream) \<Rightarrow> stream set \<Rightarrow> proc" where
  "exec_program os e environ fds ends =
     or_dies (set_environ_vars (eargv e) environ) (\<lambda>environ1.
       if argv e = [] then Dies NullDeref
       else if execvp_ok os (argv e) then Runs (argv e) environ1 fds ends
       else or_dies (free_command (Some (Exec e))) (\<lambda>_. Exits 255))"

text \<open>The case \<open>REDIR\<close>, which closes every file it opens once it is duplicated: the standard descriptors after the redirections, or \<open>None\<close> when the process exits.\<close>

definition redirect :: "os_answers \<Rightarrow> execcmd \<Rightarrow> (nat \<Rightarrow> stream) \<Rightarrow> (nat \<Rightarrow> stream) option" where
  "redirect os r fds =
     (if out_file r \<noteq> [] \<and> \<not> open_out os (out_file r) then None
      else
        let fds1 = (if out_file r \<noteq> [] then fds(1 := FileOut (out_file r)) else fds)
        in if in_file r \<noteq> [] \<and> \<not> open_in os (in_file r) then None
           else
             let fds2 = (if in_file r \<noteq> [] then fds1(0 := FileIn (in_file r)) else fds1)
             in Some (if err_file r = [] then fds2
                      else if take 2 (err_file r) = ''&1'' then fds2(2 := fds2 1)
                      else if open_out os (err_file r) then fds2(2 := FileOut (err_file r))
                      else fds2))"

text \<open>
  \<open>parsed_pipe\<close> is the command of the whole line when it is a pipe; \<open>n\<close> numbers the pipes; \<open>ends\<close> are the ends of
  pipes that the process has open besides the standard descriptors. A process that only waits and exits is
  not described further.
\<close>

fun exec_cmd ::
  "os_answers \<Rightarrow> cmd option \<Rightarrow> nat \<Rightarrow> cmd option \<Rightarrow> (string \<Rightarrow> string option) \<Rightarrow> (nat \<Rightarrow> stream) \<Rightarrow> stream set \<Rightarrow> proc" where
  "exec_cmd os parsed_pipe n None environ fds ends = Dies NullDeref"
| "exec_cmd os parsed_pipe n (Some (Exec e)) environ fds ends =
     (if etype e = REDIR then
        case redirect os e fds of
          None \<Rightarrow> Exits 255
        | Some fds1 \<Rightarrow> exec_program os (e\<lparr>etype := EXEC\<rparr>) environ fds1 ends
      else exec_program os e environ fds ends)"
| "exec_cmd os parsed_pipe n (Some (Back s c)) environ fds ends = exec_cmd os parsed_pipe n (Some c) environ fds ends"
| "exec_cmd os parsed_pipe n (Some (Pipe l r)) environ fds ends =
     (if \<not> pipe_ok os \<or> \<not> fork_ok os l then or_dies (free_command parsed_pipe) (\<lambda>_. Exits 255)
      else
        let both = ends \<union> {PipeRead n, PipeWrite n}
        in Spawns (exec_cmd os parsed_pipe (Suc n) l environ (fds(1 := PipeWrite n)) (both - {PipeRead n} - {PipeWrite n}))
          (if \<not> fork_ok os (Some r) then or_dies (free_command parsed_pipe) (\<lambda>_. Exits 255)
           else
             Spawns
               (exec_cmd os parsed_pipe (Suc n) (Some r) environ (fds(0 := PipeRead n)) (both - {PipeWrite n} - {PipeRead n}))
               (or_dies (free_command parsed_pipe) (\<lambda>_. Exits 0))))"

section \<open>Status\<close>

text \<open>The macros that take a wait status apart.\<close>

definition WTERMSIG :: "int \<Rightarrow> int" where "WTERMSIG w = w mod 128"
definition WEXITSTATUS :: "int \<Rightarrow> int" where "WEXITSTATUS w = w div 256 mod 256"
definition WIFEXITED :: "int \<Rightarrow> bool" where "WIFEXITED w \<longleftrightarrow> WTERMSIG w = 0"
definition WIFSIGNALED :: "int \<Rightarrow> bool" where "WIFSIGNALED w \<longleftrightarrow> 0 < WTERMSIG w \<and> WTERMSIG w < 127"

text \<open>\<open>print_status_info\<close> overwrites the status with what it prints.\<close>

definition print_status_info :: "cmd \<Rightarrow> int \<Rightarrow> int" where
  "print_status_info c status =
     (if length (cscmd c) = 0 \<or> ctype c = PIPE then status
      else if WIFEXITED status then WEXITSTATUS status
      else if WIFSIGNALED status then - WTERMSIG status
      else if WTERMSIG status \<noteq> 0 then - WEXITSTATUS status
      else status)"

section \<open>The shell\<close>

abbreviation (input) PRMTLEN :: nat where "PRMTLEN \<equiv> 1024"

text \<open>
  \<open>child_status c\<close> is the wait status \<open>waitpid\<close> stores for the process that runs \<open>c\<close>, or \<open>None\<close> when it
  stores nothing (a background process that is still running, or a failed \<open>fork\<close>).
\<close>

record shell_os =
  os_chdir :: chdir_call
  os_getenv :: "string \<Rightarrow> string option"
  child_status :: "cmd \<Rightarrow> int option"

record shell =
  cwd :: string
  prompt :: string
  last_status :: int

abbreviation (input) EXIT_SHELL :: int where "EXIT_SHELL \<equiv> 1"

definition run_cmd :: "shell_os \<Rightarrow> buffer \<Rightarrow> shell \<Rightarrow> (int \<times> shell) cres" where
  "run_cmd os cmd st =
     bindR (str_at cmd 0) (\<lambda>s.
       if s = [] then Inr (0, st)
       else if history_builtin s then Inr (0, st)
       else bindR (cd (os_chdir os) (os_getenv os) cmd (cwd st)) (\<lambda>(is_cd, cmd1, cwd1).
         if is_cd then Inr (0, st\<lparr>cwd := cwd1\<rparr>)
         else if exit_shell s then Inr (EXIT_SHELL, st)
         else if pwd s then Inr (0, st)
         else bindR (parse_line (os_getenv os) (last_status st) cmd 0) (\<lambda>parsed.
           case parsed of
             None \<Rightarrow> Inl NullDeref
           | Some c \<Rightarrow>
               let status1 = (case child_status os c of None \<Rightarrow> last_status st | Some w \<Rightarrow> w);
                   status2 = (if ctype c = BACK then status1 else print_status_info c status1)
               in bindR (free_command (Some c)) (\<lambda>_. Inr (0, st\<lparr>last_status := status2\<rparr>)))))"

text \<open>
  \<open>read_line\<close> on the bytes still to come from standard input: the filled buffer, or \<open>None\<close> at the end
  of the input, which also drops a last line without a newline.
\<close>

definition read_line :: "string \<Rightarrow> (buffer option \<times> string) cres" where
  "read_line inp =
     (let line = takeWhile (\<lambda>c. c \<noteq> CHR 0x0A) inp
      in if length line = length inp then
           bindR (guardR (length line \<le> BUFLEN) OutOfBounds) (\<lambda>_. Inr (None, []))
         else
           bindR (guardR (length line < BUFLEN) OutOfBounds) (\<lambda>_.
             Inr (Some (line @ replicate (BUFLEN - length line) NUL), drop (length line + 1) inp)))"

lemma read_line_shorter: "read_line inp = Inr (Some buf, rest) \<Longrightarrow> length rest < length inp"
  using length_takeWhile_le [of "\<lambda>c. c \<noteq> CHR 0x0A" inp]
  by (auto simp: read_line_def Let_def cres_simps split: if_splits)

function run_shell :: "shell_os \<Rightarrow> string \<Rightarrow> shell \<Rightarrow> shell cres" where
  "run_shell os inp st =
     bindR (read_line inp) (\<lambda>(line, rest).
       case line of
         None \<Rightarrow> Inr st
       | Some cmd \<Rightarrow> bindR (run_cmd os cmd st) (\<lambda>(r, st1).
           if r = EXIT_SHELL then Inr st1 else run_shell os rest st1))"
  by pat_completeness auto
termination
  by (relation "measure (\<lambda>(os, inp, st). length inp)") (auto dest: read_line_shorter)

declare run_shell.simps [simp del]

definition init_shell :: "shell_os \<Rightarrow> string \<Rightarrow> shell" where
  "init_shell os start =
     (case os_getenv os ''HOME'' of
        None \<Rightarrow> \<lparr>cwd = start, prompt = [], last_status = 0\<rparr>
      | Some home \<Rightarrow>
          (case os_chdir os start home of
             None \<Rightarrow> \<lparr>cwd = start, prompt = [], last_status = 0\<rparr>
           | Some d \<Rightarrow> \<lparr>cwd = d, prompt = take (PRMTLEN - 1) (''('' @ home @ '')''), last_status = 0\<rparr>))"

text \<open>\<open>main\<close> without the signal handler, which only reaps and reports finished children.\<close>

definition shell_main :: "shell_os \<Rightarrow> string \<Rightarrow> string \<Rightarrow> shell cres" where
  "shell_main os start inp = run_shell os inp (init_shell os start)"

end
