(* ===== verification/ShellProps.thy ===== *)
theory ShellProps
  imports ShellLine ShellRun
begin

text \<open>
  Properties of the shell: what its parser computes, how a pipeline is wired, what \<open>cd ..\<close> and the
  status do, and the lines that make it fail.
\<close>

section \<open>Helper facts\<close>

lemma length_swap [simp]: "length (swap xs i j) = length xs"
  by (simp add: swap_def)

lemma nth_swap:
  assumes "i < length xs" "j < length xs" "k < length xs"
  shows "swap xs i j ! k = (if k = j then xs ! i else if k = i then xs ! j else xs ! k)"
  using assms by (simp add: swap_def nth_list_update)

lemma foldl_swap:
  assumes "m \<le> length xs div 2"
  shows "foldl (\<lambda>s i. swap s i (length xs - i - 1)) xs [0..<m] =
     map (\<lambda>j. if j < m \<or> length xs - m \<le> j then xs ! (length xs - 1 - j) else xs ! j) [0..<length xs]"
  using assms
proof (induction m)
  case 0
  show ?case by (rule nth_equalityI) simp_all
next
  case (Suc m)
  let ?f = "\<lambda>m j. if j < m \<or> length xs - m \<le> j then xs ! (length xs - 1 - j) else xs ! j"
  let ?n = "length xs"
  have m: "m < ?n" "?n - m - 1 < ?n" "m < ?n - m - 1" using Suc.prems by auto
  have "foldl (\<lambda>s i. swap s i (?n - i - 1)) xs [0..<Suc m] = swap (map (?f m) [0..<?n]) m (?n - m - 1)"
    using Suc by simp
  also have "\<dots> = map (?f (Suc m)) [0..<?n]"
  proof (rule nth_equalityI)
    fix k
    assume "k < length (swap (map (?f m) [0..<?n]) m (?n - m - 1))"
    then have k: "k < ?n" by simp
    have "swap (map (?f m) [0..<?n]) m (?n - m - 1) ! k =
        (if k = ?n - m - 1 then ?f m m else if k = m then ?f m (?n - m - 1) else ?f m k)"
      using nth_swap [of m "map (?f m) [0..<?n]" "?n - m - 1" k] m k by simp
    also have "\<dots> = ?f (Suc m) k"
    proof -
      consider "k = ?n - m - 1" | "k = m" | "k \<noteq> m" "k \<noteq> ?n - m - 1" by blast
      then show ?thesis
      proof cases
        case 1
        then have "?n - 1 - k = m" "\<not> ?n - m \<le> m" "?n - Suc m \<le> k" using m by linarith+
        then show ?thesis using 1 by simp
      next
        case 2
        then show ?thesis using m by simp
      next
        case 3
        then have "(k < m \<or> ?n - m \<le> k) = (k < Suc m \<or> ?n - Suc m \<le> k)" using m by linarith
        then show ?thesis using 3 by simp
      qed
    qed
    finally show "swap (map (?f m) [0..<?n]) m (?n - m - 1) ! k = map (?f (Suc m)) [0..<?n] ! k"
      using k by simp
  qed simp
  finally show ?case .
qed

lemma reverse_rev [simp]: "reverse xs = rev xs"
proof -
  have "reverse xs = map (\<lambda>j. if j < length xs div 2 \<or> length xs - length xs div 2 \<le> j
      then xs ! (length xs - 1 - j) else xs ! j) [0..<length xs]"
    unfolding reverse_def by (rule foldl_swap) simp
  also have "\<dots> = rev xs"
  proof (rule nth_equalityI)
    fix j
    assume "j < length (map (\<lambda>j. if j < length xs div 2 \<or> length xs - length xs div 2 \<le> j
      then xs ! (length xs - 1 - j) else xs ! j) [0..<length xs])"
    then have j: "j < length xs" by simp
    show "map (\<lambda>j. if j < length xs div 2 \<or> length xs - length xs div 2 \<le> j
      then xs ! (length xs - 1 - j) else xs ! j) [0..<length xs] ! j = rev xs ! j"
    proof (cases "j < length xs div 2 \<or> length xs - length xs div 2 \<le> j")
      case True
      then show ?thesis using j by (simp add: rev_nth)
    next
      case False
      then have "length xs - 1 - j = j" using j by linarith
      then show ?thesis using j False by (simp add: rev_nth)
    qed
  qed simp
  finally show ?thesis .
qed

lemma go_back_parent:
  assumes "CHR ''/'' \<notin> set n" "NUL \<notin> set n" "NUL \<notin> set d" "length (d @ ''/'' @ n) < BUFLEN"
    and "d = [] \<or> last d \<noteq> SPACE"
  shows "go_back (d @ ''/'' @ n) = Inr d"
proof -
  obtain k where k: "BUFLEN - length (d @ ''/'' @ n) = Suc k"
    using assms(4) by (metis Suc_diff_Suc)
  obtain e u where e: "rev d @ replicate (Suc k) NUL = e # u" "e \<noteq> SPACE"
    using assms(5) by (cases d rule: rev_cases) auto
  have split: "split_line (rev n @ CHR ''/'' # e # u) 0 (CHR ''/'') = Inr (rev n @ NUL # e # u, length n + 1)"
    using split_line_at [of "CHR ''/''" "rev n" "CHR ''/''" e "[]" 0 u] assms e by simp
  have str: "str_at (rev n @ NUL # e # u) (length n + 1) = Inr (rev d)"
    using str_at_pre [of "rev d" "rev n @ [NUL]" "replicate k NUL"] assms(3) e(1) by simp
  have "reverse (d @ ''/'' @ n) @ replicate (BUFLEN - length (d @ ''/'' @ n)) NUL = rev n @ CHR ''/'' # e # u"
    unfolding k using e(1) by simp
  then show ?thesis
    using assms(4) split str unfolding go_back_def by (simp add: guardR_def)
qed

lemma contains_command_prefix: "contains_command (c @ s) c"
  by (induction c) auto

lemma dec_digits_3: "dec_digits 3 = ''3''"
  by code_simp

section \<open>Parsing\<close>

text \<open>C8: The parser of a single command collects its words. The words are what spaces separate. A word
  with a redirection sign only names a file, the last one for each stream counts, and makes the
  command a redirection; a word \<open>KEY=VALUE\<close> with a minus sign neither in the key nor in the value is a variable of
  the command (the comment of \<open>parse_environ_var\<close> asks for the key only, but \<open>A=x-y\<close> is an argument); every
  other word is an argument with the value \<open>word_value\<close>, unless that is empty. More than 19 arguments, more
  than 20 variables or a text of 1024 bytes do not fit the structure.\<close>

theorem parse_exec_collects_words:
  "parse_exec getenv status s =
     (let ws = split_on SPACE s
      in if length s < BUFLEN \<and> length (arguments getenv status ws) < MAXARGS
            \<and> length (variables ws) \<le> MAXARGS then
           Inr \<lparr>etype = (if \<exists>w\<in>set ws. is_redir w then REDIR else EXEC), scmd = s,
                argv = arguments getenv status ws, eargv = variables ws,
                out_file = last ([] # out_files ws), in_file = last ([] # in_files ws),
                err_file = last ([] # err_files ws)\<rparr>
         else Inl OutOfBounds)"
  by (rule parse_exec_words_lemma)

lemma parse_exec_collects_words_witness:
  "parse_exec (\<lambda>v. if v = ''HOME'' then Some ''/root'' else None) 3 ''A=b  ls $HOME $? $X >o 2>&1'' =
     Inr \<lparr>etype = REDIR, scmd = ''A=b  ls $HOME $? $X >o 2>&1'', argv = [''ls'', ''/root'', ''3''],
          eargv = [''A=b''], out_file = ''o'', in_file = [], err_file = ''&1''\<rparr>"
  unfolding parse_exec_collects_words
  by (simp add: word_defs is_redir_def is_var_def expand_environ_var_def decimal_def dec_digits_3 Let_def)

text \<open>C9: The parser, which cuts the line in place at every bar and looks behind each cut, computes the
  pipeline of the commands between the bars, each without its leading spaces, for every line of at
  most 1022 bytes.\<close>

theorem parse_line_is_pipeline:
  assumes "NUL \<notin> set s" "length s < BUFLEN - 1"
  shows "parse_line getenv status (s @ replicate (BUFLEN - length s) NUL) 0 =
    pipeline getenv status True (segments s)"
  by (rule parse_line_buffer [OF assms])

lemma parse_line_is_pipeline_witness:
  "parse_line Map.empty 0 (''a | b|c&'' @ replicate 1016 NUL) 0 =
     pipeline Map.empty 0 True [''a '', ''b'', ''c&'']"
  using parse_line_is_pipeline [of "''a | b|c&''" Map.empty 0]
  by (simp add: segments_def strip_def)

section \<open>Running\<close>

text \<open>A pipeline of plain commands and the programs that a process and its children become.\<close>

fun pipe_of :: "execcmd \<Rightarrow> execcmd list \<Rightarrow> cmd" where
  "pipe_of e [] = Exec e"
| "pipe_of e (f # fs) = Pipe (Some (Exec e)) (pipe_of f fs)"

fun stages :: "proc \<Rightarrow> proc list" where
  "stages (Spawns p q) = stages p @ stages q"
| "stages (Runs a e f o') = [Runs a e f o']"
| "stages (Exits n) = []"
| "stages (Dies e) = []"

definition plain :: "os_answers \<Rightarrow> execcmd \<Rightarrow> bool" where
  "plain os e \<longleftrightarrow> etype e = EXEC \<and> argv e \<noteq> [] \<and> eargv e = [] \<and> execvp_ok os (argv e)"

definition piped :: "nat \<Rightarrow> nat \<Rightarrow> (nat \<Rightarrow> stream) \<Rightarrow> nat \<Rightarrow> nat \<Rightarrow> stream" where
  "piped n m fds k =
     fds(0 := if k = 0 then fds 0 else PipeRead (n + k - 1),
         1 := if k = m then fds 1 else PipeWrite (n + k))"

lemma stages_or_dies: "stages (or_dies r (\<lambda>_. Exits x)) = []"
  by (cases r) simp_all

lemma exec_plain: "plain os e \<Longrightarrow> exec_cmd os pp n (Some (Exec e)) environ fds ends = Runs (argv e) environ fds ends"
  by (simp add: plain_def exec_program_def)

lemma piped_Suc: "piped (Suc n) l (fds(0 := PipeRead n)) k = piped n (Suc l) fds (Suc k)"
  by (auto simp: piped_def fun_eq_iff)

text \<open>C20: The shell wires a pipeline of programs the way it is written: every program runs with its own
  arguments, reads the pipe before it and writes the pipe after it, and only the first one's input
  and the last one's output are those of the shell; no program has an end of these pipes open on
  another descriptor.\<close>

theorem pipeline_wiring:
  assumes "pipe_ok os" "\<forall>c. fork_ok os c" "\<forall>e\<in>set (e # es). plain os e"
    and "\<forall>k\<ge>n. PipeRead k \<notin> ends \<and> PipeWrite k \<notin> ends"
  shows "stages (exec_cmd os pp n (Some (pipe_of e es)) environ fds ends) =
    map (\<lambda>k. Runs (argv ((e # es) ! k)) environ (piped n (length es) fds k) ends) [0..<Suc (length es)]"
  using assms(3,4)
proof (induction es arbitrary: e n fds)
  case Nil
  then have "plain os e" by simp
  moreover have "piped n 0 fds 0 = fds" by (simp add: piped_def fun_eq_iff)
  ultimately show ?case unfolding pipe_of.simps exec_plain [OF \<open>plain os e\<close>] by simp
next
  case (Cons f es)
  have closed: "ends \<union> {PipeRead n, PipeWrite n} - {PipeRead n} - {PipeWrite n} = ends"
    "ends \<union> {PipeRead n, PipeWrite n} - {PipeWrite n} - {PipeRead n} = ends"
    using Cons.prems(2) by auto
  have first: "exec_cmd os pp (Suc n) (Some (Exec e)) environ (fds(1 := PipeWrite n)) ends =
      Runs (argv e) environ (piped n (Suc (length es)) fds 0) ends"
    by (subst exec_plain) (use Cons.prems in \<open>auto simp: piped_def fun_eq_iff\<close>)
  have rest: "stages (exec_cmd os pp (Suc n) (Some (pipe_of f es)) environ (fds(0 := PipeRead n)) ends) =
      map (\<lambda>k. Runs (argv ((f # es) ! k)) environ (piped n (Suc (length es)) fds (Suc k)) ends) [0..<Suc (length es)]"
    unfolding piped_Suc [symmetric] by (rule Cons.IH) (use Cons.prems in auto)
  have cut: "[0..<Suc (Suc (length es))] = 0 # map Suc [0..<Suc (length es)]"
    by (simp add: upt_conv_Cons map_Suc_upt del: upt_Suc)
  have "stages (exec_cmd os pp n (Some (pipe_of e (f # es))) environ fds ends) =
      Runs (argv e) environ (piped n (Suc (length es)) fds 0) ends #
      stages (exec_cmd os pp (Suc n) (Some (pipe_of f es)) environ (fds(0 := PipeRead n)) ends)"
    unfolding pipe_of.simps exec_cmd.simps(4) Let_def closed first using assms(1,2) by (simp add: stages_or_dies)
  then show ?case unfolding rest length_Cons cut by (simp del: upt_Suc)
qed

definition example_exec :: "string \<Rightarrow> execcmd" where
  "example_exec p =
     \<lparr>etype = EXEC, scmd = p, argv = [p], eargv = [], out_file = [], in_file = [], err_file = []\<rparr>"

lemma pipeline_wiring_witness:
  "stages (exec_cmd \<lparr>open_out = \<lambda>_. True, open_in = \<lambda>_. True, execvp_ok = \<lambda>_. True, pipe_ok = True,
                     fork_ok = \<lambda>_. True\<rparr> None 0
             (Some (pipe_of (example_exec ''ls'') [example_exec ''wc''])) Map.empty Inherited {}) =
     [Runs [''ls''] Map.empty (Inherited(1 := PipeWrite 0)) {},
      Runs [''wc''] Map.empty (Inherited(0 := PipeRead 0)) {}]"
proof -
  have "Inherited(0 := PipeRead 0, Suc 0 := Inherited (Suc 0)) = Inherited(0 := PipeRead 0)"
    by (simp add: fun_eq_iff)
  then show ?thesis
    using pipeline_wiring [of "\<lparr>open_out = \<lambda>_. True, open_in = \<lambda>_. True, execvp_ok = \<lambda>_. True,
        pipe_ok = True, fork_ok = \<lambda>_. True\<rparr>" "example_exec ''ls''" "[example_exec ''wc'']" 0 "{}" None
        Map.empty Inherited]
    by (simp add: plain_def example_exec_def piped_def fun_upd_idem)
qed

text \<open>\<open>cd ..\<close> enters the parent directory by its path and then enters \<open>..\<close> once more, so it goes up two
  levels wherever both calls succeed.\<close>

lemma cd_dotdot_goes_up_twice:
  assumes "CHR ''/'' \<notin> set n" "NUL \<notin> set n" "NUL \<notin> set d" "length (d @ ''/'' @ n) < BUFLEN"
    and "d = [] \<or> last d \<noteq> SPACE"
    and "chdir (d @ ''/'' @ n) d = Some d" "chdir d ''..'' = Some up"
  shows "\<exists>buf. cd chdir getenv (''cd ..'' @ replicate (BUFLEN - 6) NUL) (d @ ''/'' @ n) = Inr (True, buf, up)"
proof -
  have line: "str_at (''cd ..'' @ replicate (BUFLEN - 6) NUL) 0 = Inr ''cd ..''"
    by (simp add: str_at_def cstr_def)
  have split: "split_line (''cd ..'' @ replicate (BUFLEN - 6) NUL) 0 SPACE =
      Inr (''cd'' @ NUL # ''..'' @ replicate (BUFLEN - 6) NUL, 3)"
    by (simp add: split_line_def scan_while_def Let_def)
  have dir: "str_at (''cd'' @ NUL # ''..'' @ replicate (BUFLEN - 6) NUL) 3 = Inr ''..''"
    by (simp add: str_at_def cstr_def)
  show ?thesis
    unfolding cd_def line split bindR_Inr prod.case dir
    using go_back_parent [OF assms(1-5)] assms(6,7) by (simp add: try_chdir_def)
qed

lemma cd_dotdot_goes_up_twice_witness:
  "\<exists>buf. cd (\<lambda>cwd dir. Some (if dir = ''..'' then ''/usr'' else dir)) Map.empty
     (''cd ..'' @ replicate 1018 NUL) ''/usr/share/doc'' = Inr (True, buf, ''/usr'')"
  using cd_dotdot_goes_up_twice [of "''doc''" "''/usr/share''"
      "\<lambda>cwd dir. Some (if dir = ''..'' then ''/usr'' else dir)" "''/usr''" Map.empty]
  by simp

text \<open>A line in the buffer of \<open>read_line\<close>.\<close>

definition in_buffer :: "string \<Rightarrow> buffer" where
  "in_buffer s = s @ replicate (BUFLEN - length s) NUL"

lemma str_at_in_buffer: "NUL \<notin> set s \<Longrightarrow> length s < BUFLEN \<Longrightarrow> str_at (in_buffer s) 0 = Inr s"
  by (simp add: str_at_def in_buffer_def)

definition is_builtin :: "string \<Rightarrow> bool" where
  "is_builtin s \<longleftrightarrow> contains_command s ''cd'' \<or> contains_command s ''exit'' \<or> contains_command s ''pwd''"

lemma run_cmd_parses:
  assumes "NUL \<notin> set s" "length s < BUFLEN - 1" "s \<noteq> []" "\<not> is_builtin s"
  shows "run_cmd os (in_buffer s) st =
    bindR (pipeline (os_getenv os) (last_status st) True (segments s)) (\<lambda>parsed.
      case parsed of
        None \<Rightarrow> Inl NullDeref
      | Some c \<Rightarrow>
          bindR (free_command (Some c)) (\<lambda>_. Inr (0, st\<lparr>last_status :=
            if ctype c = BACK then (case child_status os c of None \<Rightarrow> last_status st | Some w \<Rightarrow> w)
            else print_status_info c (case child_status os c of None \<Rightarrow> last_status st | Some w \<Rightarrow> w)\<rparr>)))"
proof -
  have line: "str_at (in_buffer s) 0 = Inr s" using assms by (simp add: str_at_in_buffer)
  have cd: "cd (os_chdir os) (os_getenv os) (in_buffer s) (cwd st) = Inr (False, in_buffer s, cwd st)"
    using assms(4) by (simp add: cd_def line is_builtin_def)
  have parse: "parse_line (os_getenv os) (last_status st) (in_buffer s) 0 =
      pipeline (os_getenv os) (last_status st) True (segments s)"
    unfolding in_buffer_def by (rule parse_line_buffer [OF assms(1,2)])
  show ?thesis
    unfolding run_cmd_def line cd parse bindR_Inr prod.case
    using assms(3,4)
    by (simp add: history_builtin_def exit_shell_def pwd_def is_builtin_def Let_def)
qed

text \<open>C31: A line that starts with a bar, like \<open>| wc\<close>, makes the shell itself follow a null pointer: the command in front of the
  bar is the null pointer, and the shell follows it when it frees the line (or at once when nothing
  else is on the line). The one other outcome is a fault in parsing the commands behind the bar, such as
  too many arguments, which comes first.\<close>

theorem leading_bar_crashes:
  assumes "NUL \<notin> set r" "length r < BUFLEN - 2"
  shows "run_cmd os (in_buffer (CHR ''|'' # r)) st =
    (case pipeline (os_getenv os) (last_status st) False (map strip (split_on (CHR ''|'') r)) of
       Inl e \<Rightarrow> Inl e
     | Inr _ \<Rightarrow> Inl NullDeref)"
proof -
  have "NUL \<notin> set (CHR ''|'' # r)" "length (CHR ''|'' # r) < BUFLEN - 1" "\<not> is_builtin (CHR ''|'' # r)"
    using assms by (auto simp: is_builtin_def)
  note run = run_cmd_parses [OF this(1,2) _ this(3)]
  have seg: "segments (CHR ''|'' # r) = [] # map strip (split_on (CHR ''|'') r)"
    using segments_bar [of "[]" r] by simp
  have empty: "parse_segment g i True [] = Inr None" for g i by (simp add: parse_segment_def)
  show ?thesis
    unfolding run [OF list.simps(3)] seg pipeline.simps empty bindR_Inr
    by (cases "pipeline (os_getenv os) (last_status st) False (map strip (split_on (CHR ''|'') r))")
      (auto simp: pipe_cmd_create_def split: option.split)
qed

definition example_os :: shell_os where
  "example_os = \<lparr>os_chdir = (\<lambda>c d. None), os_getenv = Map.empty, child_status = (\<lambda>c. Some (3 * 256))\<rparr>"

lemma leading_bar_crashes_witness:
  "run_cmd example_os (in_buffer ''| wc'') \<lparr>cwd = ''/'', prompt = [], last_status = 0\<rparr> = Inl NullDeref"
  using leading_bar_crashes [of "'' wc''" example_os "\<lparr>cwd = ''/'', prompt = [], last_status = 0\<rparr>"]
  by (simp add: parse_segment_def parse_exec_words_lemma word_defs is_redir_def is_var_def expand_environ_var_def
      strip_def Let_def)

text \<open>C22: The status after a plain foreground command is what its process ended with, and the next
  \<open>$?\<close> shows it: the exit code, or minus the signal that killed it. The argument vector of the command
  is that of its words.\<close>

theorem status_after_command:
  assumes "NUL \<notin> set s" "length s < BUFLEN - 1" "s \<noteq> []" "\<not> is_builtin s"
    and "CHR ''|'' \<notin> set s" "CHR ''&'' \<notin> set s"
    and "parse_exec (os_getenv os) (last_status st) s = Inr e"
    and "child_status os (Exec e) = Some w" "0 \<le> w" "w < 2 ^ 16" "w mod 128 \<noteq> 127"
  shows "\<exists>st'. run_cmd os (in_buffer s) st = Inr (0, st') \<and>
    expand_environ_var getenv (last_status st') ''$?'' =
      decimal (if w mod 128 = 0 then w div 256 else - (w mod 128))"
proof -
  have e: "scmd e = s" "etype e \<noteq> PIPE" "etype e \<noteq> BACK"
    using assms(7) unfolding parse_exec_words_lemma by (auto simp: Let_def split: if_splits)
  have parse: "pipeline (os_getenv os) (last_status st) True (segments s) = Inr (Some (Exec e))"
    unfolding segments_absent [OF assms(5)] pipeline_single
    using assms(3,6,7) by (simp add: parse_segment_def)
  have "w div 256 < 256" "0 \<le> w div 256" using assms(9,10) by auto
  then have code: "w div 256 mod 256 = w div 256" by simp
  have m: "0 \<le> w mod 128" "w mod 128 < 128" by simp_all
  then have sig: "w mod 128 \<noteq> 0 \<Longrightarrow> 0 < w mod 128 \<and> w mod 128 < 127" using assms(11) by linarith
  have status: "print_status_info (Exec e) w = (if w mod 128 = 0 then w div 256 else - (w mod 128))"
    using e assms(3) sig
    by (simp add: print_status_info_def WIFEXITED_def WIFSIGNALED_def WTERMSIG_def WEXITSTATUS_def code)
  show ?thesis
    unfolding run_cmd_parses [OF assms(1-4)] parse
    using e assms(8) by (simp add: status expand_environ_var_def)
qed

lemma status_after_command_witness:
  "\<exists>st'. run_cmd example_os (in_buffer ''ls x'') \<lparr>cwd = ''/'', prompt = [], last_status = 0\<rparr> = Inr (0, st') \<and>
     expand_environ_var Map.empty (last_status st') ''$?'' = ''3''"
proof -
  have "parse_exec (os_getenv example_os) 0 ''ls x'' = Inr \<lparr>etype = EXEC, scmd = ''ls x'',
      argv = [''ls'', ''x''], eargv = [], out_file = [], in_file = [], err_file = []\<rparr>"
    unfolding parse_exec_words_lemma
    by (simp add: word_defs is_redir_def is_var_def expand_environ_var_def Let_def example_os_def)
  then show ?thesis
    using status_after_command [of "''ls x''" example_os "\<lparr>cwd = ''/'', prompt = [], last_status = 0\<rparr>" _ "3 * 256" Map.empty]
    by (simp add: is_builtin_def decimal_def dec_digits_3) (simp add: example_os_def)
qed

end
