(* ===== verification/Primes.thy ===== *)
theory Primes
  imports Prelude
begin

text \<open>
  The prime sieve of \<^verbatim>\<open>src/1-fork/primes.c\<close>: a chain of processes, each of which prints the first number
  it reads and hands on the numbers that are not multiples of it. A pipe is the list of the numbers
  written to it. What \<open>printf\<close> prints goes to a terminal line by line; anywhere else it stays in a buffer of
  \<open>cap\<close> bytes that is written out whenever it is full, that \<open>fork\<close> copies and that \<open>exit\<close> flushes.
\<close>

section \<open>The program\<close>













section \<open>The sieve\<close>















section \<open>Properties\<close>



end
