(* ===== verification/Xargs.thy ===== *)
theory Xargs
  imports Prelude
begin

text \<open>
  The \<open>xargs\<close> of \<^verbatim>\<open>src/1-fork/xargs.c\<close>: a program that packs the lines of its input, four at a time, into
  calls of a command. The array of arguments is a list of slots, the null pointer is \<open>None\<close>; the
  recorded calls are the argument vectors that the children hand to \<open>execvp\<close>.
\<close>

section \<open>The program\<close>

abbreviation (input) NARGS :: nat where "NARGS \<equiv> 4"
abbreviation (input) END_LINE :: byte where "END_LINE \<equiv> CHR 0x0A"

type_synonym comandos = "string option list"

text \<open>What \<open>execvp\<close> sees of an array: the slots before the first null pointer.\<close>

definition argument_vector :: "comandos \<Rightarrow> string list" where
  "argument_vector cs = map the (takeWhile (\<lambda>c. c \<noteq> None) cs)"

text \<open>A failing \<open>fork\<close> ends the program; \<open>fork_ok k\<close> is the outcome of the \<open>k\<close>-th one.\<close>

record corrida =
  comandos :: comandos
  iterador :: nat
  llamadas :: "string list list"

definition set_comando :: "corrida \<Rightarrow> nat \<Rightarrow> string option \<Rightarrow> corrida cres" where
  "set_comando s i c =
     bindR (guardR (i < length (comandos s)) OutOfBounds) (\<lambda>_. Inr (s\<lparr>comandos := (comandos s)[i := c]\<rparr>))"

text \<open>
  The parent waits for the child. \<open>execvp\<close> is taken to succeed: a child in which it fails returns into the loop
  of \<open>main\<close> and goes on with a copy of the input, which is not modelled.
\<close>

definition leer_comandos :: "(nat \<Rightarrow> bool) \<Rightarrow> corrida \<Rightarrow> corrida option" where
  "leer_comandos fork_ok s =
     (if fork_ok (length (llamadas s))
      then Some (s\<lparr>llamadas := llamadas s @ [argument_vector (comandos s)]\<rparr>) else None)"

definition liberar_memoria :: "corrida \<Rightarrow> nat \<Rightarrow> corrida cres" where
  "liberar_memoria s i = foldR (\<lambda>j t. set_comando t j None) [1..<Suc i] s"

text \<open>\<open>Inr None\<close> is the exit of the program after a failed \<open>fork\<close>.\<close>

definition verificar_numero_argumentos_alcanzado ::
  "(nat \<Rightarrow> bool) \<Rightarrow> corrida \<Rightarrow> corrida option cres" where
  "verificar_numero_argumentos_alcanzado fork_ok s =
     (if iterador s = NARGS then
        (case leer_comandos fork_ok s of
           None \<Rightarrow> Inr None
         | Some t \<Rightarrow> bindR (liberar_memoria t (iterador t)) (\<lambda>u. Inr (Some (u\<lparr>iterador := 0 + 1\<rparr>))))
      else Inr (Some (s\<lparr>iterador := iterador s + 1\<rparr>)))"

text \<open>
  \<open>getline\<close>: the next line with its newline, or the rest of the input, and what follows.
\<close>

definition getline :: "string \<Rightarrow> (string \<times> string) option" where
  "getline inp =
     (if inp = [] then None
      else let l = takeWhile (\<lambda>c. c \<noteq> END_LINE) inp
           in Some (take (length l + 1) inp, drop (length l + 1) inp))"

lemma getline_shorter: "getline inp = Some (l, rest) \<Longrightarrow> length rest < length inp"
  by (auto simp: getline_def Let_def split: if_splits)

text \<open>The loop of \<open>main\<close>: the last byte of the line becomes the terminator, whatever it is.\<close>

function leer_lineas :: "(nat \<Rightarrow> bool) \<Rightarrow> string \<Rightarrow> corrida \<Rightarrow> corrida option cres" where
  "leer_lineas fork_ok inp s =
     (case getline inp of
        None \<Rightarrow> Inr (Some s)
      | Some (linea, resto) \<Rightarrow>
          bindR (set_comando s (iterador s) (Some (cstr (butlast linea)))) (\<lambda>t.
          bindR (verificar_numero_argumentos_alcanzado fork_ok t) (\<lambda>r.
            case r of None \<Rightarrow> Inr None | Some u \<Rightarrow> leer_lineas fork_ok resto u)))"
  by pat_completeness auto
termination
  by (relation "measure (\<lambda>(f, inp, s). length inp)") (auto dest: getline_shorter)

declare leer_lineas.simps [simp del]

definition xargs_main :: "(nat \<Rightarrow> bool) \<Rightarrow> string list \<Rightarrow> string \<Rightarrow> string list list option cres" where
  "xargs_main fork_ok args inp =
     (if length args \<noteq> 2 then Inr None
      else
        bindR (set_comando \<lparr>comandos = replicate (NARGS + 2) None, iterador = 1, llamadas = []\<rparr> 0 (Some (args ! 1))) (\<lambda>s.
        bindR (leer_lineas fork_ok inp s) (\<lambda>r.
          case r of
            None \<Rightarrow> Inr None
          | Some t \<Rightarrow>
              (case leer_comandos fork_ok t of
                 None \<Rightarrow> Inr None
               | Some u \<Rightarrow> bindR (liberar_memoria u (iterador u)) (\<lambda>v. Inr (Some (llamadas v)))))))"

section \<open>Packing\<close>

text \<open>The calls for a list of words: full calls of four, then one with what is left, even when that is nothing.\<close>

function packed :: "string \<Rightarrow> string list \<Rightarrow> string list list" where
  "packed cmd ws =
     (if length ws < NARGS then [cmd # ws] else (cmd # take NARGS ws) # packed cmd (drop NARGS ws))"
  by pat_completeness auto
termination
  by (relation "measure (\<lambda>(cmd, ws). length ws)") auto

declare packed.simps [simp del]

abbreviation as_input :: "string list \<Rightarrow> string" where
  "as_input ws \<equiv> concat (map (\<lambda>w. w @ [END_LINE]) ws)"

text \<open>The array with the command and \<open>ws\<close> in its first slots.\<close>

definition slots :: "string \<Rightarrow> string list \<Rightarrow> comandos" where
  "slots cmd ws = Some cmd # map Some ws @ replicate (NARGS + 1 - length ws) None"

lemma argument_vector_slots: "length ws \<le> NARGS \<Longrightarrow> argument_vector (slots cmd ws) = cmd # ws"
proof -
  assume "length ws \<le> NARGS"
  then obtain k where k: "NARGS + 1 - length ws = Suc k" by (metis Suc_diff_le add.commute plus_1_eq_Suc)
  have "takeWhile (\<lambda>c. c \<noteq> None) (map Some ws @ None # replicate k None) = map Some ws"
    by (induction ws) auto
  then show ?thesis unfolding argument_vector_def slots_def k by (simp add: comp_def)
qed

lemma length_slots: "length ws \<le> NARGS + 1 \<Longrightarrow> length (slots cmd ws) = NARGS + 2"
  by (simp add: slots_def)

lemma slots_snoc: "length ws < NARGS + 1 \<Longrightarrow> (slots cmd ws)[Suc (length ws) := Some w] = slots cmd (ws @ [w])"
proof -
  assume "length ws < NARGS + 1"
  then obtain k where k: "NARGS + 1 - length ws = Suc k" "NARGS + 1 - length (ws @ [w]) = k"
    by (metis Suc_diff_Suc diff_Suc_1 length_append_singleton diff_Suc_eq_diff_pred)
  show ?thesis unfolding slots_def k by (simp add: list_update_append)
qed

lemma liberar_full:
  assumes "length ws = NARGS" "comandos s = slots cmd ws"
  shows "liberar_memoria s NARGS = Inr (s\<lparr>comandos := slots cmd []\<rparr>)"
proof -
  obtain a b c d where ws: "ws = [a, b, c, d]"
    using assms(1) by (auto simp: length_Suc_conv numeral_eq_Suc)
  have "[1..<Suc NARGS] = [1, 2, 3, 4]" by (simp add: upt_rec)
  then show ?thesis
    using assms(2) unfolding ws
    by (simp add: liberar_memoria_def set_comando_def slots_def numeral_eq_Suc)
qed

lemma getline_word:
  assumes "END_LINE \<notin> set w"
  shows "getline (w @ END_LINE # rest) = Some (w @ [END_LINE], rest)"
proof -
  have "takeWhile (\<lambda>c. c \<noteq> END_LINE) (w @ END_LINE # rest) = w"
    using assms by (induction w) auto
  then show ?thesis by (simp add: getline_def Let_def)
qed

lemma set_word:
  assumes "length ws < NARGS" "comandos s = slots cmd ws" "iterador s = Suc (length ws)"
  shows "set_comando s (iterador s) (Some w) = Inr (s\<lparr>comandos := slots cmd (ws @ [w])\<rparr>)"
  using assms by (simp add: set_comando_def length_slots slots_snoc)

lemma leer_lineas_packs:
  assumes "\<forall>w\<in>set ls. END_LINE \<notin> set w \<and> NUL \<notin> set w" "length ws < NARGS"
    and "comandos s = slots cmd ws" "iterador s = Suc (length ws)"
  shows "\<exists>ws' full. length ws' < NARGS \<and> packed cmd (ws @ ls) = full @ [cmd # ws'] \<and>
    leer_lineas (\<lambda>_. True) (as_input ls) s =
      Inr (Some \<lparr>comandos = slots cmd ws', iterador = Suc (length ws'), llamadas = llamadas s @ full\<rparr>)"
  using assms
proof (induction ls arbitrary: ws s)
  case Nil
  then have "packed cmd (ws @ []) = [] @ [cmd # ws]" by (subst packed.simps) simp
  moreover have "leer_lineas (\<lambda>_. True) (as_input []) s =
      Inr (Some \<lparr>comandos = slots cmd ws, iterador = Suc (length ws), llamadas = llamadas s @ []\<rparr>)"
    using Nil by (subst leer_lineas.simps) (cases s, simp add: getline_def)
  ultimately show ?case using Nil.prems(2) by blast
next
  case (Cons w ls)
  let ?t = "s\<lparr>comandos := slots cmd (ws @ [w])\<rparr>"
  have line: "getline (as_input (w # ls)) = Some (w @ [END_LINE], as_input ls)"
    using Cons.prems(1) getline_word [of w "as_input ls"] by simp
  have word: "cstr (butlast (w @ [END_LINE])) = w" using Cons.prems(1) by simp
  note store = set_word [OF Cons.prems(2-4)]
  have step: "leer_lineas (\<lambda>_. True) (as_input (w # ls)) s =
      bindR (verificar_numero_argumentos_alcanzado (\<lambda>_. True) ?t) (\<lambda>r.
        case r of None \<Rightarrow> Inr None | Some u \<Rightarrow> leer_lineas (\<lambda>_. True) (as_input ls) u)"
    by (subst leer_lineas.simps) (simp only: line option.case prod.case word store bindR_Inr)
  show ?case
  proof (cases "Suc (length ws) = NARGS")
    case False
    let ?u = "?t\<lparr>iterador := iterador s + 1\<rparr>"
    have "verificar_numero_argumentos_alcanzado (\<lambda>_. True) ?t = Inr (Some ?u)"
      using False Cons.prems(4) by (simp add: verificar_numero_argumentos_alcanzado_def)
    then have "leer_lineas (\<lambda>_. True) (as_input (w # ls)) s = leer_lineas (\<lambda>_. True) (as_input ls) ?u"
      unfolding step by simp
    moreover have "\<exists>ws' full. length ws' < NARGS \<and> packed cmd ((ws @ [w]) @ ls) = full @ [cmd # ws'] \<and>
        leer_lineas (\<lambda>_. True) (as_input ls) ?u =
          Inr (Some \<lparr>comandos = slots cmd ws', iterador = Suc (length ws'), llamadas = llamadas ?u @ full\<rparr>)"
      by (rule Cons.IH) (use Cons.prems False in auto)
    ultimately show ?thesis by simp
  next
    case True
    let ?call = "cmd # ws @ [w]"
    let ?u = "\<lparr>comandos = slots cmd [], iterador = Suc 0, llamadas = llamadas s @ [?call]\<rparr>"
    have "argument_vector (comandos ?t) = ?call"
      using argument_vector_slots [of "ws @ [w]" cmd] True by simp
    then have call: "leer_comandos (\<lambda>_. True) ?t = Some (?t\<lparr>llamadas := llamadas s @ [?call]\<rparr>)"
      by (simp add: leer_comandos_def)
    have free: "liberar_memoria (?t\<lparr>llamadas := llamadas s @ [?call]\<rparr>) NARGS =
        Inr (?t\<lparr>llamadas := llamadas s @ [?call], comandos := slots cmd []\<rparr>)"
      using liberar_full [of "ws @ [w]" "?t\<lparr>llamadas := llamadas s @ [?call]\<rparr>" cmd] True by simp
    have "verificar_numero_argumentos_alcanzado (\<lambda>_. True) ?t = Inr (Some ?u)"
      using True Cons.prems(4) call free
      by (cases s) (simp add: verificar_numero_argumentos_alcanzado_def)
    then have go: "leer_lineas (\<lambda>_. True) (as_input (w # ls)) s = leer_lineas (\<lambda>_. True) (as_input ls) ?u"
      unfolding step by simp
    have pack: "packed cmd (ws @ w # ls) = ?call # packed cmd ls"
      using True by (subst packed.simps) simp
    have "\<exists>ws' full. length ws' < NARGS \<and> packed cmd ([] @ ls) = full @ [cmd # ws'] \<and>
        leer_lineas (\<lambda>_. True) (as_input ls) ?u =
          Inr (Some \<lparr>comandos = slots cmd ws', iterador = Suc (length ws'), llamadas = llamadas ?u @ full\<rparr>)"
      by (rule Cons.IH) (use Cons.prems in auto)
    then obtain ws' full where ih: "length ws' < NARGS" "packed cmd ls = full @ [cmd # ws']"
      "leer_lineas (\<lambda>_. True) (as_input ls) ?u =
          Inr (Some \<lparr>comandos = slots cmd ws', iterador = Suc (length ws'), llamadas = llamadas ?u @ full\<rparr>)"
      by auto
    show ?thesis
      by (rule exI [of _ ws'], rule exI [of _ "?call # full"]) (use go pack ih in simp)
  qed
qed

lemma liberar_ok:
  assumes "i < length (comandos s)"
  shows "\<exists>t. liberar_memoria s i = Inr t \<and> llamadas t = llamadas s"
proof -
  have "\<exists>t. foldR (\<lambda>j t. set_comando t j None) xs s = Inr t \<and> llamadas t = llamadas s"
    if "\<forall>j\<in>set xs. j < length (comandos s)" for xs
    using that
  proof (induction xs arbitrary: s)
    case (Cons x xs)
    let ?s = "s\<lparr>comandos := (comandos s)[x := None]\<rparr>"
    have "set_comando s x None = Inr ?s" using Cons.prems by (simp add: set_comando_def)
    moreover have "\<exists>t. foldR (\<lambda>j t. set_comando t j None) xs ?s = Inr t \<and> llamadas t = llamadas ?s"
      by (rule Cons.IH) (use Cons.prems in simp)
    ultimately show ?case by simp
  qed simp
  then show ?thesis using assms by (simp add: liberar_memoria_def del: upt_Suc)
qed

section \<open>Property\<close>

text \<open>C19: For every input of complete lines, and when every \<open>fork\<close> succeeds, the command is called with the
  lines four at a time and a last time with what is left over, without arguments when nothing is left,
  and no access leaves the array.\<close>

theorem xargs_packs_lines:
  assumes "\<forall>w\<in>set ls. END_LINE \<notin> set w \<and> NUL \<notin> set w"
  shows "xargs_main (\<lambda>_. True) [prog, cmd] (as_input ls) = Inr (Some (packed cmd ls))"
proof -
  let ?s = "\<lparr>comandos = slots cmd [], iterador = 1, llamadas = []\<rparr>"
  have init: "set_comando \<lparr>comandos = replicate (NARGS + 2) None, iterador = 1, llamadas = []\<rparr> 0 (Some ([prog, cmd] ! 1)) = Inr ?s"
    by (simp add: set_comando_def slots_def numeral_eq_Suc)
  obtain ws full where r: "length ws < NARGS" "packed cmd ([] @ ls) = full @ [cmd # ws]"
    "leer_lineas (\<lambda>_. True) (as_input ls) ?s =
      Inr (Some \<lparr>comandos = slots cmd ws, iterador = Suc (length ws), llamadas = llamadas ?s @ full\<rparr>)"
    using leer_lineas_packs [OF assms, of "[]" ?s cmd] by auto
  let ?t = "\<lparr>comandos = slots cmd ws, iterador = Suc (length ws), llamadas = full\<rparr>"
  have last: "leer_comandos (\<lambda>_. True) ?t = Some (?t\<lparr>llamadas := full @ [cmd # ws]\<rparr>)"
    using r(1) by (simp add: leer_comandos_def argument_vector_slots)
  obtain v where v: "liberar_memoria (?t\<lparr>llamadas := full @ [cmd # ws]\<rparr>) (Suc (length ws)) = Inr v"
    "llamadas v = full @ [cmd # ws]"
    using liberar_ok [of "Suc (length ws)" "?t\<lparr>llamadas := full @ [cmd # ws]\<rparr>"] r(1)
    by (auto simp: length_slots)
  show ?thesis
    unfolding xargs_main_def init using r last v by simp
qed

lemma xargs_packs_lines_witness:
  "xargs_main (\<lambda>_. True) [''xargs'', ''echo''] (as_input [''a'', ''b'', ''c'', ''d'']) =
     Inr (Some [[''echo'', ''a'', ''b'', ''c'', ''d''], [''echo'']])"
  using xargs_packs_lines [of "[''a'', ''b'', ''c'', ''d'']" "''xargs''" "''echo''"]
  by (simp add: packed.simps)

text \<open>The last byte of a line without a newline is lost.\<close>

lemma xargs_cuts_last_line:
  "xargs_main (\<lambda>_. True) [''xargs'', ''echo''] ''abc'' = Inr (Some [[''echo'', ''ab'']])"
  by code_simp

end
