(* ===== verification/Console.thy ===== *)
theory Console
  imports Prelude
begin

unbundle bit_operations_syntax

text \<open>
  The console of the JOS kernel, \<^verbatim>\<open>src/3-sched/kern/console.c\<close>: the serial and parallel output, the text
  screen, the keyboard tables and their decoder, and the circular input buffer that the interrupt
  routines fill, and \<^verbatim>\<open>lib/readline.c\<close>. What the ports answer is part of the state: one pair of status
  and data for every poll still to come, and an idle port afterwards.
\<close>

section \<open>State\<close>

abbreviation (input) CONSBUFSIZE :: nat where "CONSBUFSIZE \<equiv> 512"
abbreviation (input) CRT_ROWS :: nat where "CRT_ROWS \<equiv> 25"
abbreviation (input) CRT_COLS :: nat where "CRT_COLS \<equiv> 80"
abbreviation (input) CRT_SIZE :: nat where "CRT_SIZE \<equiv> CRT_ROWS * CRT_COLS"

record cons_state =
  buf :: "8 word list"
  rpos :: nat
  wpos :: nat
  serial_exists :: bool
  serial_in :: "(8 word \<times> 8 word) list"
  kbd_in :: "(8 word \<times> 8 word) list"
  shift :: "32 word"
  rebooted :: bool
  crt_buf :: "16 word list"
  crt_pos :: "16 word"
  cursor :: "16 word"
  serial_out :: "8 word list"
  lpt_out :: "8 word list"

text \<open>
  What a poll of a port reads, and the port afterwards. A port has finitely many readings and is idle from then
  on; a device that never stops sending, which would keep \<open>cons_intr\<close> in its loop, is outside the model.
\<close>

definition port_read :: "(8 word \<times> 8 word) list \<Rightarrow> (8 word \<times> 8 word) \<times> (8 word \<times> 8 word) list" where
  "port_read rs = (case rs of [] \<Rightarrow> ((0, 0), []) | r # rs' \<Rightarrow> (r, rs'))"

section \<open>Keyboard tables\<close>

abbreviation (input) SHIFT :: "32 word" where "SHIFT \<equiv> 1"
abbreviation (input) CTL :: "32 word" where "CTL \<equiv> 2"
abbreviation (input) ALT :: "32 word" where "ALT \<equiv> 4"
abbreviation (input) CAPSLOCK :: "32 word" where "CAPSLOCK \<equiv> 8"
abbreviation (input) NUMLOCK :: "32 word" where "NUMLOCK \<equiv> 16"
abbreviation (input) SCROLLLOCK :: "32 word" where "SCROLLLOCK \<equiv> 32"
abbreviation (input) E0ESC :: "32 word" where "E0ESC \<equiv> 64"

abbreviation (input) KEY_HOME :: "8 word" where "KEY_HOME \<equiv> 0xE0"
abbreviation (input) KEY_END :: "8 word" where "KEY_END \<equiv> 0xE1"
abbreviation (input) KEY_UP :: "8 word" where "KEY_UP \<equiv> 0xE2"
abbreviation (input) KEY_DN :: "8 word" where "KEY_DN \<equiv> 0xE3"
abbreviation (input) KEY_LF :: "8 word" where "KEY_LF \<equiv> 0xE4"
abbreviation (input) KEY_RT :: "8 word" where "KEY_RT \<equiv> 0xE5"
abbreviation (input) KEY_PGUP :: "8 word" where "KEY_PGUP \<equiv> 0xE6"
abbreviation (input) KEY_PGDN :: "8 word" where "KEY_PGDN \<equiv> 0xE7"
abbreviation (input) KEY_INS :: "8 word" where "KEY_INS \<equiv> 0xE8"
abbreviation (input) KEY_DEL :: "8 word" where "KEY_DEL \<equiv> 0xE9"

text \<open>
  An array initialiser: the elements in order, then the designated ones; the rest is zero. \<open>ascii\<close> are the
  codes of a run of characters.
\<close>

definition array256 :: "'a::zero list \<Rightarrow> (nat \<times> 'a) list \<Rightarrow> 'a list" where
  "array256 xs ds = foldl (\<lambda>t (i, v). t[i := v]) (xs @ replicate (256 - length xs) 0) ds"

definition ascii :: "string \<Rightarrow> 8 word list" where
  "ascii s = map of_char s"

definition shiftcode :: "32 word list" where
  "shiftcode = array256 [] [(0x1D, CTL), (0x2A, SHIFT), (0x36, SHIFT), (0x38, ALT), (0x9D, CTL), (0xB8, ALT)]"

definition togglecode :: "32 word list" where
  "togglecode = array256 [] [(0x3A, CAPSLOCK), (0x45, NUMLOCK), (0x46, SCROLLLOCK)]"

definition normalmap :: "8 word list" where
  "normalmap = array256
     ([0, 0x1B] @ ascii ''1234567890-='' @ [0x08, 0x09] @
      ascii ''qwertyuiop[]'' @ [0x0A, 0] @
      ascii ''asdfghjkl;'' @ [0x27, 0x60, 0, 0x5C] @
      ascii ''zxcvbnm,./'' @ [0, 0x2A, 0, 0x20] @
      replicate 13 0 @ ascii ''789-456+1230.'' @ replicate 4 0)
     [(0xC7, KEY_HOME), (0x9C, 0x0A), (0xB5, 0x2F), (0xC8, KEY_UP), (0xC9, KEY_PGUP), (0xCB, KEY_LF),
      (0xCD, KEY_RT), (0xCF, KEY_END), (0xD0, KEY_DN), (0xD1, KEY_PGDN), (0xD2, KEY_INS), (0xD3, KEY_DEL)]"

definition shiftmap :: "8 word list" where
  "shiftmap = array256
     ([0, 0x1B] @ ascii ''!@#$%^&*()_+'' @ [0x08, 0x09] @
      ascii ''QWERTYUIOP{}'' @ [0x0A, 0] @
      ascii ''ASDFGHJKL:'' @ [0x22, 0x7E, 0, 0x7C] @
      ascii ''ZXCVBNM<>?'' @ [0, 0x2A, 0, 0x20] @
      replicate 13 0 @ ascii ''789-456+1230.'' @ replicate 4 0)
     [(0xC7, KEY_HOME), (0x9C, 0x0A), (0xB5, 0x2F), (0xC8, KEY_UP), (0xC9, KEY_PGUP), (0xCB, KEY_LF),
      (0xCD, KEY_RT), (0xCF, KEY_END), (0xD0, KEY_DN), (0xD1, KEY_PGDN), (0xD2, KEY_INS), (0xD3, KEY_DEL)]"

text \<open>The macro \<open>C\<close>: the control codes of a run of characters.\<close>

definition control :: "string \<Rightarrow> 8 word list" where
  "control s = map (\<lambda>c. of_char c - 0x40) s"

definition ctlmap :: "8 word list" where
  "ctlmap = array256
     (replicate 16 0 @ control ''QWERTYUIOP'' @ [0, 0, 0x0D, 0] @
      control ''ASDFGHJKL'' @ [0, 0, 0, 0, 0x5C - 0x40] @
      control ''ZXCVBNM'' @ [0, 0, 0x2F - 0x40, 0, 0])
     [(0x97, KEY_HOME), (0xB5, 0x2F - 0x40), (0xC8, KEY_UP), (0xC9, KEY_PGUP), (0xCB, KEY_LF),
      (0xCD, KEY_RT), (0xCF, KEY_END), (0xD0, KEY_DN), (0xD1, KEY_PGDN), (0xD2, KEY_INS), (0xD3, KEY_DEL)]"

definition charcode :: "8 word list list" where
  "charcode = [normalmap, shiftmap, ctlmap, ctlmap]"

section \<open>Keyboard and serial input\<close>

text \<open>What one reading of the keyboard ports means: the key (or 0, or -1), the modifiers, and whether it reboots.\<close>

definition kbd_decode :: "8 word \<Rightarrow> 8 word \<Rightarrow> 32 word \<Rightarrow> int \<times> 32 word \<times> bool" where
  "kbd_decode stat data sh =
     (if stat AND 0x01 = 0 then (- 1, sh, False)
      else if stat AND 0x20 \<noteq> 0 then (- 1, sh, False)
      else if data = 0xE0 then (0, sh OR E0ESC, False)
      else if data AND 0x80 \<noteq> 0 then
        let data1 = (if sh AND E0ESC \<noteq> 0 then data else data AND 0x7F)
        in (0, sh AND NOT (shiftcode ! unat data1 OR E0ESC), False)
      else
        let esc = (sh AND E0ESC \<noteq> 0);
            data1 = (if esc then data OR 0x80 else data);
            sh0 = (if esc then sh AND NOT E0ESC else sh);
            sh1 = (sh0 OR shiftcode ! unat data1) XOR togglecode ! unat data1;
            c = uint (charcode ! unat (sh1 AND (CTL OR SHIFT)) ! unat data1);
            c1 = (if sh1 AND CAPSLOCK \<noteq> 0 then
                    if 0x61 \<le> c \<and> c \<le> 0x7A then c + (0x41 - 0x61)
                    else if 0x41 \<le> c \<and> c \<le> 0x5A then c + (0x61 - 0x41) else c
                  else c)
        in (c1, sh1, NOT sh1 AND (CTL OR ALT) = 0 \<and> c1 = uint KEY_DEL))"

definition kbd_proc_data :: "cons_state \<Rightarrow> int \<times> cons_state" where
  "kbd_proc_data s =
     (let ((stat, data), rest) = port_read (kbd_in s);
          (c, sh, reboot) = kbd_decode stat data (shift s)
      in (c, s\<lparr>kbd_in := rest, shift := sh, rebooted := rebooted s \<or> reboot\<rparr>))"

definition serial_proc_data :: "cons_state \<Rightarrow> int \<times> cons_state" where
  "serial_proc_data s =
     (let ((lsr, rx), rest) = port_read (serial_in s)
      in (if lsr AND 0x01 = 0 then - 1 else uint rx, s\<lparr>serial_in := rest\<rparr>))"

section \<open>The input buffer\<close>

text \<open>One character into the circular buffer, and one out of it; the positions stay below its size.\<close>

definition put_char :: "8 word \<Rightarrow> cons_state \<Rightarrow> cons_state" where
  "put_char c s =
     s\<lparr>buf := (buf s)[wpos s := c],
       wpos := (if wpos s + 1 = CONSBUFSIZE then 0 else wpos s + 1)\<rparr>"

definition ring_get :: "cons_state \<Rightarrow> (8 word \<times> cons_state) option" where
  "ring_get s =
     (if rpos s \<noteq> wpos s then
        Some (buf s ! rpos s, s\<lparr>rpos := (if rpos s + 1 = CONSBUFSIZE then 0 else rpos s + 1)\<rparr>)
      else None)"

text \<open>The loop of \<open>cons_intr\<close> runs until the device has nothing more; \<open>None\<close> would be a loop without end.\<close>

partial_function (option) cons_intr ::
  "(cons_state \<Rightarrow> int \<times> cons_state) \<Rightarrow> cons_state \<Rightarrow> cons_state option" where
  "cons_intr proc s =
     (case proc s of (c, t) \<Rightarrow>
        if c = - 1 then Some t
        else if c = 0 then cons_intr proc t
        else cons_intr proc (put_char (word_of_int c) t))"

definition serial_intr :: "cons_state \<Rightarrow> cons_state option" where
  "serial_intr s = (if serial_exists s then cons_intr serial_proc_data s else Some s)"

definition kbd_intr :: "cons_state \<Rightarrow> cons_state option" where
  "kbd_intr s = cons_intr kbd_proc_data s"

definition cons_getc :: "cons_state \<Rightarrow> (int \<times> cons_state) option" where
  "cons_getc s =
     Option.bind (serial_intr s) (\<lambda>t.
     Option.bind (kbd_intr t) (\<lambda>u.
       Some (case ring_get u of None \<Rightarrow> (0, u) | Some (c, v) \<Rightarrow> (uint c, v))))"

partial_function (option) getchar :: "cons_state \<Rightarrow> (int \<times> cons_state) option" where
  "getchar s =
     (case cons_getc s of
        None \<Rightarrow> None
      | Some (c, t) \<Rightarrow> if c = 0 then getchar t else Some (c, t))"

section \<open>Output\<close>

text \<open>The polls for readiness end after 12800 rounds, ready or not.\<close>

definition serial_putc :: "32 word \<Rightarrow> cons_state \<Rightarrow> cons_state" where
  "serial_putc c s = s\<lparr>serial_out := serial_out s @ [ucast c]\<rparr>"

definition lpt_putc :: "32 word \<Rightarrow> cons_state \<Rightarrow> cons_state" where
  "lpt_putc c s = s\<lparr>lpt_out := lpt_out s @ [ucast c]\<rparr>"

definition crt_store :: "16 word \<Rightarrow> 32 word \<Rightarrow> cons_state \<Rightarrow> cons_state cres" where
  "crt_store pos c s =
     bindR (guardR (unat pos < length (crt_buf s)) OutOfBounds) (\<lambda>_.
       Inr (s\<lparr>crt_buf := (crt_buf s)[unat pos := ucast c]\<rparr>))"

text \<open>The cases of \<open>cga_putc\<close> but the tabulator.\<close>

definition cga_write :: "32 word \<Rightarrow> cons_state \<Rightarrow> cons_state cres" where
  "cga_write c s =
     (let key = c AND 0xFF
      in if key = 0x08 then
           if crt_pos s > 0 then
             crt_store (crt_pos s - 1) ((c AND NOT 0xFF) OR 0x20) (s\<lparr>crt_pos := crt_pos s - 1\<rparr>)
           else Inr s
         else if key = 0x0A then
           let p = crt_pos s + of_nat CRT_COLS in Inr (s\<lparr>crt_pos := p - p mod of_nat CRT_COLS\<rparr>)
         else if key = 0x0D then Inr (s\<lparr>crt_pos := crt_pos s - crt_pos s mod of_nat CRT_COLS\<rparr>)
         else crt_store (crt_pos s) c (s\<lparr>crt_pos := crt_pos s + 1\<rparr>))"

definition cga_scroll :: "cons_state \<Rightarrow> cons_state cres" where
  "cga_scroll s =
     (if unat (crt_pos s) \<ge> CRT_SIZE then
        bindR (guardR (CRT_SIZE \<le> length (crt_buf s)) OutOfBounds) (\<lambda>_.
          Inr (s\<lparr>crt_buf := take (CRT_SIZE - CRT_COLS) (drop CRT_COLS (crt_buf s)) @
                   replicate CRT_COLS (0x0700 OR 0x20) @ drop CRT_SIZE (crt_buf s),
                 crt_pos := crt_pos s - of_nat CRT_COLS\<rparr>))
      else Inr s)"

definition cga_cursor :: "cons_state \<Rightarrow> cons_state" where
  "cga_cursor s = s\<lparr>cursor := crt_pos s\<rparr>"

definition cga_finish :: "cons_state \<Rightarrow> cons_state cres" where
  "cga_finish s = bindR (cga_scroll s) (\<lambda>t. Inr (cga_cursor t))"

definition cga_attr :: "32 word \<Rightarrow> 32 word" where
  "cga_attr c = (if c AND NOT 0xFF = 0 then c OR 0x0700 else c)"

text \<open>\<open>cons_putc\<close> of a space, which \<open>cga_putc\<close> calls for a tabulator, needs no further call.\<close>

definition cons_space :: "cons_state \<Rightarrow> cons_state cres" where
  "cons_space s = bindR (cga_write (cga_attr 0x20) (lpt_putc 0x20 (serial_putc 0x20 s))) cga_finish"

definition cga_putc :: "32 word \<Rightarrow> cons_state \<Rightarrow> cons_state cres" where
  "cga_putc c s =
     (let c1 = cga_attr c
      in bindR (if c1 AND 0xFF = 0x09 then foldR (\<lambda>_. cons_space) [0..<5] s else cga_write c1 s) cga_finish)"

definition cons_putc :: "32 word \<Rightarrow> cons_state \<Rightarrow> cons_state cres" where
  "cons_putc c s = cga_putc c (lpt_putc c (serial_putc c s))"

definition cputchar :: "32 word \<Rightarrow> cons_state \<Rightarrow> cons_state cres" where
  "cputchar c s = cons_putc c s"

text \<open>
  \<open>cga_init\<close> with the cells of the screen memory it finds and the cursor it reads back; \<open>serial_init\<close> with
  the line status it reads.
\<close>

definition cga_init :: "16 word list \<Rightarrow> 16 word \<Rightarrow> cons_state \<Rightarrow> cons_state" where
  "cga_init cells pos s = s\<lparr>crt_buf := cells, crt_pos := pos\<rparr>"

definition serial_init :: "8 word \<Rightarrow> cons_state \<Rightarrow> cons_state" where
  "serial_init lsr s = s\<lparr>serial_exists := (lsr \<noteq> 0xFF)\<rparr>"

definition cons_init :: "16 word list \<Rightarrow> 16 word \<Rightarrow> 8 word \<Rightarrow> cons_state \<Rightarrow> cons_state option" where
  "cons_init cells pos lsr s =
     Option.bind (kbd_intr (cga_init cells pos s)) (\<lambda>t. Some (serial_init lsr t))"

section \<open>Reading a line\<close>

text \<open>
  \<open>readline\<close> on the characters \<open>getchar\<close> returns: \<open>Some (Some line)\<close> when the line is complete, \<open>Some None\<close> after a
  read error, \<open>None\<close> while it waits for more; \<open>b\<close> is the text in the buffer.
\<close>

fun readline_loop ::
  "bool \<Rightarrow> int list \<Rightarrow> 8 word list \<Rightarrow> cons_state \<Rightarrow> (8 word list option option \<times> cons_state) cres" where
  "readline_loop echoing [] b s = Inr (None, s)"
| "readline_loop echoing (c # cs) b s =
     (let echo = (\<lambda>x. if echoing then cputchar x s else Inr s)
      in if c < 0 then Inr (Some None, s)
         else if (c = 0x08 \<or> c = 0x7F) \<and> length b > 0 then
           bindR (echo 0x08) (\<lambda>t. readline_loop echoing cs (butlast b) t)
         else if c \<ge> 0x20 \<and> length b < 1024 - 1 then
           bindR (echo (word_of_int c)) (\<lambda>t. readline_loop echoing cs (b @ [word_of_int c]) t)
         else if c = 0x0A \<or> c = 0x0D then bindR (echo 0x0A) (\<lambda>t. Inr (Some (Some b), t))
         else readline_loop echoing cs b s)"

definition readline :: "int list \<Rightarrow> cons_state \<Rightarrow> (8 word list option option \<times> cons_state) cres" where
  "readline cs s = readline_loop True cs [] s"

end
