(* ===== verification/ConsoleProps.thy ===== *)
theory ConsoleProps
  imports Console
begin

text \<open>
  The console: the input buffer is a bounded queue between the devices and their readers, and the text
  output never leaves the screen memory.
\<close>

section \<open>A bounded queue\<close>

locale bounded_queue =
  fixes ok :: "'s \<Rightarrow> bool"
    and items :: "'s \<Rightarrow> 'a list"
    and room :: nat
    and put :: "'a \<Rightarrow> 's \<Rightarrow> 's"
    and get :: "'s \<Rightarrow> ('a \<times> 's) option"
  assumes put_items: "ok s \<Longrightarrow> length (items s) < room \<Longrightarrow> ok (put x s) \<and> items (put x s) = items s @ [x]"
    and get_none: "ok s \<Longrightarrow> items s = [] \<Longrightarrow> get s = None"
    and get_some: "ok s \<Longrightarrow> items s = x # xs \<Longrightarrow> \<exists>t. get s = Some (x, t) \<and> ok t \<and> items t = xs"
begin

lemma put_all:
  "ok s \<Longrightarrow> length (items s) + length xs \<le> room \<Longrightarrow>
   ok (foldl (\<lambda>t x. put x t) s xs) \<and> items (foldl (\<lambda>t x. put x t) s xs) = items s @ xs"
proof (induction xs arbitrary: s)
  case (Cons x xs)
  then have "ok (put x s)" "items (put x s) = items s @ [x]" using put_items [of s x] by auto
  with Cons.IH [of "put x s"] Cons.prems show ?case by simp
qed simp

lemma put_all_get:
  assumes "ok s" "length (items s) + length xs \<le> room" "items s @ xs = y # ys"
  shows "\<exists>t. get (foldl (\<lambda>t x. put x t) s xs) = Some (y, t) \<and> ok t \<and> items t = ys"
  using put_all [OF assms(1,2)] assms(3) by (intro get_some) auto

lemma put_all_none:
  assumes "ok s" "items s @ xs = []"
  shows "get (foldl (\<lambda>t x. put x t) s xs) = None"
  using assms by (simp add: get_none)

end

section \<open>The circular buffer\<close>

definition ring_ok :: "cons_state \<Rightarrow> bool" where
  "ring_ok s \<longleftrightarrow> length (buf s) = CONSBUFSIZE \<and> rpos s < CONSBUFSIZE \<and> wpos s < CONSBUFSIZE"

definition pending_count :: "cons_state \<Rightarrow> nat" where
  "pending_count s = (if rpos s \<le> wpos s then wpos s - rpos s else wpos s + CONSBUFSIZE - rpos s)"

definition pending :: "cons_state \<Rightarrow> 8 word list" where
  "pending s = map (\<lambda>k. buf s ! ((rpos s + k) mod CONSBUFSIZE)) [0..<pending_count s]"

lemma length_pending [simp]: "length (pending s) = pending_count s"
  by (simp add: pending_def)

lemma ring_mod:
  "r < CONSBUFSIZE \<Longrightarrow> k \<le> CONSBUFSIZE \<Longrightarrow>
   (r + k) mod CONSBUFSIZE = (if r + k < CONSBUFSIZE then r + k else r + k - CONSBUFSIZE)"
  by (simp add: mod_if)

lemma pending_end:
  assumes "ring_ok s"
  shows "(rpos s + pending_count s) mod CONSBUFSIZE = wpos s"
proof -
  have b: "rpos s < CONSBUFSIZE" "wpos s < CONSBUFSIZE" using assms by (simp_all add: ring_ok_def)
  then have "pending_count s \<le> CONSBUFSIZE"
    by (cases "rpos s \<le> wpos s") (simp_all add: pending_count_def)
  from ring_mod [OF b(1) this] show ?thesis using b
    by (cases "rpos s \<le> wpos s") (simp_all add: pending_count_def)
qed

lemma pending_before_end:
  assumes "ring_ok s" "k < pending_count s"
  shows "(rpos s + k) mod CONSBUFSIZE \<noteq> wpos s"
proof -
  have b: "rpos s < CONSBUFSIZE" "wpos s < CONSBUFSIZE" using assms by (simp_all add: ring_ok_def)
  then have "k \<le> CONSBUFSIZE" using assms(2) by (cases "rpos s \<le> wpos s") (simp_all add: pending_count_def)
  from ring_mod [OF b(1) this] show ?thesis using b assms(2)
    by (cases "rpos s \<le> wpos s") (auto simp: pending_count_def)
qed

lemma pending_put:
  assumes "ring_ok s" "pending_count s < CONSBUFSIZE - 1"
  shows "ring_ok (put_char c s) \<and> pending (put_char c s) = pending s @ [c]"
proof -
  let ?t = "put_char c s"
  have ok: "ring_ok ?t" using assms(1) by (auto simp: ring_ok_def put_char_def)
  have b: "rpos s < CONSBUFSIZE" "wpos s < CONSBUFSIZE" using assms(1) by (simp_all add: ring_ok_def)
  have n: "pending_count ?t = Suc (pending_count s)"
  proof (cases "rpos s \<le> wpos s")
    case True
    then show ?thesis using b assms(2) by (auto simp: put_char_def pending_count_def)
  next
    case False
    then show ?thesis using b assms(2) by (auto simp: put_char_def pending_count_def)
  qed
  note at = pending_end [OF assms(1)] and ne = pending_before_end [OF assms(1)]
  have old: "buf ?t ! ((rpos s + k) mod CONSBUFSIZE) = buf s ! ((rpos s + k) mod CONSBUFSIZE)"
    if "k < pending_count s" for k
    using ne [OF that] by (simp add: put_char_def)
  have new: "buf ?t ! wpos s = c" using assms(1) by (simp add: put_char_def ring_ok_def)
  have r: "rpos ?t = rpos s" by (simp add: put_char_def)
  have "pending ?t = map (\<lambda>k. buf ?t ! ((rpos s + k) mod CONSBUFSIZE)) [0..<pending_count s] @ [buf ?t ! wpos s]"
    unfolding pending_def n r by (simp add: at)
  also have "\<dots> = pending s @ [c]" unfolding new pending_def using old by simp
  finally show ?thesis using ok by simp
qed

lemma ring_get_none:
  assumes "ring_ok s" "pending s = []"
  shows "ring_get s = None"
proof -
  have "pending_count s = 0" using assms(2) by (metis length_pending list.size(3))
  then show ?thesis using assms(1) by (auto simp: pending_count_def ring_get_def ring_ok_def split: if_splits)
qed

lemma ring_get_some:
  assumes "ring_ok s" "pending s = x # xs"
  shows "\<exists>t. ring_get s = Some (x, t) \<and> ring_ok t \<and> pending t = xs"
proof -
  obtain n where n: "pending_count s = Suc n" using assms(2) by (metis length_pending length_Cons)
  let ?t = "s\<lparr>rpos := (if rpos s + 1 = CONSBUFSIZE then 0 else rpos s + 1)\<rparr>"
  have ne: "rpos s \<noteq> wpos s" using n by (auto simp: pending_count_def)
  have cut: "pending s = buf s ! rpos s # map (\<lambda>k. buf s ! ((rpos s + Suc k) mod CONSBUFSIZE)) [0..<n]"
    unfolding pending_def n using assms(1)
    by (subst upt_conv_Cons) (simp_all add: ring_ok_def map_Suc_upt [symmetric] del: upt_Suc)
  have m: "pending_count ?t = n"
    using n assms(1) by (auto simp: pending_count_def ring_ok_def split: if_splits)
  have idx: "(rpos ?t + k) mod CONSBUFSIZE = (rpos s + Suc k) mod CONSBUFSIZE" for k
    by (auto simp: mod_simps)
  have "pending ?t = xs" using cut assms(2) unfolding pending_def m idx by simp
  moreover have "ring_get s = Some (x, ?t)" using cut assms(2) ne by (simp add: ring_get_def)
  moreover have "ring_ok ?t" using assms(1) by (auto simp: ring_ok_def)
  ultimately show ?thesis by blast
qed

interpretation cq: bounded_queue ring_ok pending "CONSBUFSIZE - 1" put_char ring_get
  by unfold_locales (simp_all add: pending_put ring_get_none ring_get_some)

section \<open>Devices\<close>

text \<open>The characters that the readings of a device stand for, up to the first idle one.\<close>

fun serial_chars :: "(8 word \<times> 8 word) list \<Rightarrow> 8 word list" where
  "serial_chars [] = []"
| "serial_chars ((lsr, rx) # rs) =
     (if lsr AND 0x01 = 0 then [] else (if rx = 0 then [] else [rx]) @ serial_chars rs)"

fun kbd_chars :: "(8 word \<times> 8 word) list \<Rightarrow> 32 word \<Rightarrow> 8 word list" where
  "kbd_chars [] sh = []"
| "kbd_chars ((stat, data) # rs) sh =
     (case kbd_decode stat data sh of (c, sh1, reboot) \<Rightarrow>
        if c = - 1 then []
        else (if c = 0 then [] else [word_of_int c]) @ kbd_chars rs sh1)"

definition put_chars :: "8 word list \<Rightarrow> cons_state \<Rightarrow> cons_state" where
  "put_chars cs s = foldl (\<lambda>t c. put_char c t) s cs"

lemma put_chars_simps [simp]:
  "put_chars [] s = s" "put_chars (c # cs) s = put_chars cs (put_char c s)"
  by (simp_all add: put_chars_def)

lemma put_char_sel [simp]:
  "serial_in (put_char c s) = serial_in s" "kbd_in (put_char c s) = kbd_in s"
  "shift (put_char c s) = shift s" "serial_exists (put_char c s) = serial_exists s"
  "rebooted (put_char c s) = rebooted s"
  by (simp_all add: put_char_def)

lemma put_char_serial_in: "(put_char c s)\<lparr>serial_in := r\<rparr> = put_char c (s\<lparr>serial_in := r\<rparr>)"
  by (rule cons_state.equality) (simp_all add: put_char_def)

lemma put_char_kbd:
  "(put_char c s)\<lparr>kbd_in := r, shift := sh, rebooted := rb\<rparr> =
   put_char c (s\<lparr>kbd_in := r, shift := sh, rebooted := rb\<rparr>)"
  by (rule cons_state.equality) (simp_all add: put_char_def)

lemma kbd_upd_twice:
  "s\<lparr>kbd_in := a, shift := b, rebooted := c, kbd_in := a', shift := b', rebooted := c'\<rparr> =
   s\<lparr>kbd_in := a', shift := b', rebooted := c'\<rparr>"
  by (rule cons_state.equality) simp_all

lemma put_chars_sel [simp]:
  "serial_in (put_chars cs s) = serial_in s" "kbd_in (put_chars cs s) = kbd_in s"
  "shift (put_chars cs s) = shift s" "serial_exists (put_chars cs s) = serial_exists s"
  by (induction cs arbitrary: s) simp_all

lemma put_chars_kbd:
  "(put_chars cs s)\<lparr>kbd_in := r, shift := sh, rebooted := rb\<rparr> =
   put_chars cs (s\<lparr>kbd_in := r, shift := sh, rebooted := rb\<rparr>)"
  by (induction cs arbitrary: s) (simp_all add: put_char_kbd)

lemma put_chars_append: "put_chars (xs @ ys) s = put_chars ys (put_chars xs s)"
  by (simp add: put_chars_def)

lemma cons_intr_serial:
  "\<exists>rest. cons_intr serial_proc_data s = Some (put_chars (serial_chars (serial_in s)) (s\<lparr>serial_in := rest\<rparr>))"
proof (induction "serial_in s" arbitrary: s)
  case Nil
  then have "serial_in s = []" by simp
  then show ?case
    by (subst cons_intr.simps) (auto simp: serial_proc_data_def port_read_def)
next
  case (Cons r rs)
  obtain lsr rx where r: "r = (lsr, rx)" by (cases r)
  have s: "serial_in s = (lsr, rx) # rs" using Cons(2) r by simp
  let ?t = "s\<lparr>serial_in := rs\<rparr>"
  show ?case
  proof (cases "lsr AND 0x01 = 0")
    case True
    then show ?thesis
      by (subst cons_intr.simps) (auto simp: s serial_proc_data_def port_read_def)
  next
    case False
    have proc: "serial_proc_data s = (uint rx, ?t)"
      using False by (simp add: s serial_proc_data_def port_read_def)
    have pos: "uint rx \<noteq> - 1" using uint_ge_0 [of rx] by linarith
    show ?thesis
    proof (cases "rx = 0")
      case True
      obtain rest where "cons_intr serial_proc_data ?t =
          Some (put_chars (serial_chars (serial_in ?t)) (?t\<lparr>serial_in := rest\<rparr>))"
        using Cons(1) [of ?t] by auto
      then show ?thesis using True False
        by (subst cons_intr.simps) (auto simp: proc s)
    next
      case nz: False
      then have "uint rx \<noteq> 0" by (metis uint_0_iff)
      moreover obtain rest where "cons_intr serial_proc_data (put_char rx ?t) =
          Some (put_chars (serial_chars (serial_in (put_char rx ?t))) ((put_char rx ?t)\<lparr>serial_in := rest\<rparr>))"
        using Cons(1) [of "put_char rx ?t"] by auto
      ultimately show ?thesis using nz False pos
        by (subst cons_intr.simps) (auto simp: proc s put_char_serial_in)
    qed
  qed
qed

lemma cons_intr_kbd:
  "\<exists>rest sh rb. cons_intr kbd_proc_data s =
     Some (put_chars (kbd_chars (kbd_in s) (shift s)) (s\<lparr>kbd_in := rest, shift := sh, rebooted := rb\<rparr>))"
proof (induction "kbd_in s" arbitrary: s)
  case Nil
  then have "kbd_in s = []" by simp
  then have "kbd_proc_data s = (- 1, s\<lparr>kbd_in := [], shift := shift s, rebooted := rebooted s\<rparr>)"
    by (simp add: kbd_proc_data_def port_read_def kbd_decode_def)
  moreover have "put_chars (kbd_chars (kbd_in s) (shift s)) x = x" for x using \<open>kbd_in s = []\<close> by simp
  ultimately show ?case
    by (subst cons_intr.simps)
      (rule exI [of _ "[]"], rule exI [of _ "shift s"], rule exI [of _ "rebooted s"], simp only: prod.case if_P refl)
next
  case (Cons r rs)
  obtain stat data where r: "r = (stat, data)" by (cases r)
  have s: "kbd_in s = (stat, data) # rs" using Cons(2) r by simp
  obtain c sh1 reboot where d: "kbd_decode stat data (shift s) = (c, sh1, reboot)" by (metis prod_cases3)
  let ?t = "s\<lparr>kbd_in := rs, shift := sh1, rebooted := rebooted s \<or> reboot\<rparr>"
  have proc: "kbd_proc_data s = (c, ?t)" by (simp add: kbd_proc_data_def port_read_def s d)
  consider "c = - 1" | "c = 0" | "c \<noteq> - 1" "c \<noteq> 0" by blast
  then show ?case
  proof cases
    case 1
    moreover have "put_chars (kbd_chars (kbd_in s) (shift s)) x = x" for x using 1 by (simp add: s d)
    ultimately show ?thesis using 1
      by (subst cons_intr.simps)
        (rule exI [of _ rs], rule exI [of _ sh1], rule exI [of _ "rebooted s \<or> reboot"],
          simp only: proc prod.case if_P refl)
  next
    case 2
    obtain rest sh rb where "cons_intr kbd_proc_data ?t =
        Some (put_chars (kbd_chars (kbd_in ?t) (shift ?t)) (?t\<lparr>kbd_in := rest, shift := sh, rebooted := rb\<rparr>))"
      using Cons(1) [of ?t] by auto
    then have "cons_intr kbd_proc_data ?t =
        Some (put_chars (kbd_chars rs sh1) (s\<lparr>kbd_in := rest, shift := sh, rebooted := rb\<rparr>))"
      unfolding kbd_upd_twice by simp
    moreover have "kbd_chars (kbd_in s) (shift s) = kbd_chars rs sh1" using 2 by (simp add: s d)
    ultimately show ?thesis using 2
      by (subst cons_intr.simps) (auto simp: proc)
  next
    case 3
    let ?u = "put_char (word_of_int c) ?t"
    have "rs = kbd_in ?u" by (simp add: put_char_def)
    from Cons(1) [OF this] obtain rest sh rb where "cons_intr kbd_proc_data ?u =
        Some (put_chars (kbd_chars (kbd_in ?u) (shift ?u)) (?u\<lparr>kbd_in := rest, shift := sh, rebooted := rb\<rparr>))"
      by auto
    then have "cons_intr kbd_proc_data ?u =
        Some (put_chars (kbd_chars rs sh1) (put_char (word_of_int c) (s\<lparr>kbd_in := rest, shift := sh, rebooted := rb\<rparr>)))"
      unfolding put_char_kbd kbd_upd_twice by simp
    moreover have "kbd_chars (kbd_in s) (shift s) = word_of_int c # kbd_chars rs sh1" using 3 by (simp add: s d)
    ultimately show ?thesis using 3
      by (subst cons_intr.simps) (auto simp: proc)
  qed
qed

text \<open>The characters that have arrived when \<open>cons_getc\<close> polls.\<close>

definition arrived :: "cons_state \<Rightarrow> 8 word list" where
  "arrived s = (if serial_exists s then serial_chars (serial_in s) else []) @ kbd_chars (kbd_in s) (shift s)"

text \<open>C12: The console is a queue: as long as fewer than 512 characters wait, \<open>cons_getc\<close> returns, whatever
  the devices hold, the oldest of the characters waiting and arriving, or 0 when there is none, and
  keeps the others in order.\<close>

theorem console_is_queue:
  assumes "ring_ok s" "length (pending s @ arrived s) < CONSBUFSIZE"
  shows "\<exists>c t. cons_getc s = Some (c, t) \<and> ring_ok t \<and>
    (case pending s @ arrived s of
       [] \<Rightarrow> c = 0 \<and> pending t = []
     | x # xs \<Rightarrow> c = uint x \<and> pending t = xs)"
proof -
  obtain r1 where s1: "serial_intr s = Some (put_chars (if serial_exists s then serial_chars (serial_in s) else [])
      (s\<lparr>serial_in := r1\<rparr>))"
  proof (cases "serial_exists s")
    case True
    then show ?thesis using cons_intr_serial [of s] that by (auto simp: serial_intr_def)
  next
    case False
    then show ?thesis using that [of "serial_in s"] by (simp add: serial_intr_def)
  qed
  let ?t = "put_chars (if serial_exists s then serial_chars (serial_in s) else []) (s\<lparr>serial_in := r1\<rparr>)"
  obtain r2 sh rb where s2: "kbd_intr ?t = Some (put_chars (kbd_chars (kbd_in s) (shift s))
      (?t\<lparr>kbd_in := r2, shift := sh, rebooted := rb\<rparr>))"
    using cons_intr_kbd [of ?t] by (auto simp: kbd_intr_def)
  define b where "b = s\<lparr>serial_in := r1, kbd_in := r2, shift := sh, rebooted := rb\<rparr>"
  have u: "put_chars (kbd_chars (kbd_in s) (shift s)) (?t\<lparr>kbd_in := r2, shift := sh, rebooted := rb\<rparr>) =
      foldl (\<lambda>t c. put_char c t) b (arrived s)"
    unfolding put_chars_kbd by (simp add: arrived_def b_def put_chars_def)
  have b: "ring_ok b" "pending b = pending s"
    using assms(1) by (simp_all add: b_def ring_ok_def pending_def pending_count_def)
  have room: "length (pending b) + length (arrived s) \<le> CONSBUFSIZE - 1"
    using assms(2) b(2) by simp
  have getc: "cons_getc s = Some (case ring_get (foldl (\<lambda>t c. put_char c t) b (arrived s)) of
      None \<Rightarrow> (0, foldl (\<lambda>t c. put_char c t) b (arrived s)) | Some (c, v) \<Rightarrow> (uint c, v))"
    by (simp only: cons_getc_def s1 s2 u Option.bind.simps)
  show ?thesis
  proof (cases "pending s @ arrived s")
    case Nil
    then have "ring_get (foldl (\<lambda>t c. put_char c t) b (arrived s)) = None"
      using cq.put_all_none [OF b(1)] b(2) by simp
    then show ?thesis using getc Nil b by simp
  next
    case (Cons x xs)
    then obtain t where "ring_get (foldl (\<lambda>t c. put_char c t) b (arrived s)) = Some (x, t)" "ring_ok t" "pending t = xs"
      using cq.put_all_get [OF b(1) room] b(2) by auto
    then show ?thesis using getc Cons by simp
  qed
qed

definition empty_console :: cons_state where
  "empty_console = \<lparr>buf = replicate 512 0, rpos = 511, wpos = 511, serial_exists = True, serial_in = [(1, 0x61), (1, 0x62)],
     kbd_in = [(1, 0x2A), (1, 0x1E), (1, 0xAA)], shift = 0, rebooted = False, crt_buf = replicate 2000 0x0720,
     crt_pos = 0, cursor = 0, serial_out = [], lpt_out = []\<rparr>"

lemma console_is_queue_witness:
  "\<exists>t. cons_getc empty_console = Some (0x61, t) \<and> pending t = [0x62, 0x41]"
proof -
  have p: "pending empty_console = []" by (simp add: pending_def pending_count_def empty_console_def)
  have a: "arrived empty_console = [0x61, 0x62, 0x41]" by code_simp
  have "ring_ok empty_console" by (simp add: ring_ok_def empty_console_def)
  then show ?thesis
    using console_is_queue [of empty_console] by (auto simp: p a)
qed

text \<open>The buffer holds 511 characters: one more makes it look empty, and all of them are lost.\<close>

lemma put_chars_wpos:
  "ring_ok s \<Longrightarrow> ring_ok (put_chars cs s) \<and> rpos (put_chars cs s) = rpos s \<and>
   wpos (put_chars cs s) = (wpos s + length cs) mod CONSBUFSIZE"
proof (induction cs arbitrary: s)
  case Nil
  then show ?case by (simp add: ring_ok_def)
next
  case (Cons c cs)
  have ok: "ring_ok (put_char c s)" using Cons.prems by (auto simp: ring_ok_def put_char_def)
  have w: "wpos (put_char c s) = (wpos s + 1) mod CONSBUFSIZE" "rpos (put_char c s) = rpos s"
    using Cons.prems by (auto simp: put_char_def ring_ok_def)
  show ?case using Cons.IH [OF ok] by (simp add: w mod_simps)
qed

lemma console_overrun:
  assumes "ring_ok s" "pending s = []" "length cs = CONSBUFSIZE"
  shows "pending (put_chars cs s) = []"
proof -
  have "pending_count s = 0" using assms(2) by (metis length_pending list.size(3))
  then have "wpos s = rpos s" using assms(1) by (auto simp: pending_count_def ring_ok_def split: if_splits)
  moreover have "wpos s < CONSBUFSIZE" using assms(1) by (simp add: ring_ok_def)
  ultimately have "wpos (put_chars cs s) = rpos (put_chars cs s)"
    using put_chars_wpos [OF assms(1), of cs] assms(3) by simp
  then show ?thesis by (simp add: pending_def pending_count_def)
qed

section \<open>The screen\<close>

definition on_screen :: "cons_state \<Rightarrow> bool" where
  "on_screen s \<longleftrightarrow> unat (crt_pos s) < CRT_SIZE \<and> length (crt_buf s) = CRT_SIZE"

text \<open>After a character and before the scroll the position may be up to a line past the end.\<close>

definition near_screen :: "cons_state \<Rightarrow> bool" where
  "near_screen s \<longleftrightarrow> unat (crt_pos s) < CRT_SIZE + CRT_COLS \<and> length (crt_buf s) = CRT_SIZE"

lemma unat_line_start: "unat (p - p mod 80) = unat p - unat p mod 80" for p :: "16 word"
proof -
  have "unat (p mod 80) = unat p mod 80" by (simp add: unat_mod_distrib)
  moreover have "p mod 80 \<le> p" by (simp add: word_le_nat_alt unat_mod_distrib)
  ultimately show ?thesis by (simp add: unat_sub)
qed

lemma unat_plus_80: "unat p < 2000 \<Longrightarrow> unat (p + 80) = unat p + 80" for p :: "16 word"
  by (subst unat_add_lem [THEN iffD1]) simp_all

lemma unat_plus_1: "unat p < 2000 \<Longrightarrow> unat (p + 1) = unat p + 1" for p :: "16 word"
  by (subst unat_add_lem [THEN iffD1]) simp_all

lemma unat_minus_1: "0 < p \<Longrightarrow> unat (p - 1) = unat p - 1" for p :: "16 word"
  by (simp add: unat_minus_one word_gt_0)

lemma cga_write_near:
  assumes "on_screen s"
  shows "\<exists>t. cga_write c s = Inr t \<and> near_screen t \<and> serial_out t = serial_out s"
proof -
  have p: "unat (crt_pos s) < 2000" "length (crt_buf s) = 2000" using assms by (simp_all add: on_screen_def)
  consider "c AND 0xFF = 0x08" | "c AND 0xFF = 0x0A" | "c AND 0xFF = 0x0D"
    | "c AND 0xFF \<noteq> 0x08" "c AND 0xFF \<noteq> 0x0A" "c AND 0xFF \<noteq> 0x0D" by blast
  then show ?thesis
  proof cases
    case 1
    then show ?thesis using p
      by (cases "crt_pos s > 0")
        (auto simp: cga_write_def crt_store_def guardR_def near_screen_def unat_minus_1 Let_def)
  next
    case 2
    then show ?thesis using p
      by (auto simp: cga_write_def near_screen_def Let_def unat_line_start unat_plus_80)
  next
    case 3
    then show ?thesis using p
      by (auto simp: cga_write_def near_screen_def Let_def unat_line_start)
  next
    case 4
    then show ?thesis using p
      by (auto simp: cga_write_def crt_store_def guardR_def near_screen_def Let_def unat_plus_1)
  qed
qed

lemma cga_finish_on:
  assumes "near_screen s"
  shows "\<exists>t. cga_finish s = Inr t \<and> on_screen t \<and> serial_out t = serial_out s"
proof (cases "unat (crt_pos s) \<ge> CRT_SIZE")
  case True
  have p: "unat (crt_pos s) < 2080" "length (crt_buf s) = 2000" using assms by (simp_all add: near_screen_def)
  have "(80 :: 16 word) \<le> crt_pos s" using True by (simp add: word_le_nat_alt)
  then have "unat (crt_pos s - 80) = unat (crt_pos s) - 80" by (simp add: unat_sub)
  then show ?thesis using True p
    by (simp add: cga_finish_def cga_scroll_def cga_cursor_def on_screen_def)
next
  case False
  then show ?thesis using assms
    by (simp add: cga_finish_def cga_scroll_def cga_cursor_def on_screen_def near_screen_def)
qed

lemma on_near: "on_screen s \<Longrightarrow> near_screen s"
  by (simp add: on_screen_def near_screen_def)

lemma ports_on [simp]:
  "on_screen (lpt_putc c (serial_putc d s)) = on_screen s"
  "serial_out (lpt_putc c (serial_putc d s)) = serial_out s @ [ucast d]"
  by (simp_all add: on_screen_def lpt_putc_def serial_putc_def)

lemma cons_space_on:
  assumes "on_screen s"
  shows "\<exists>t. cons_space s = Inr t \<and> on_screen t \<and> serial_out t = serial_out s @ [0x20]"
proof -
  obtain t where "cga_write (cga_attr 0x20) (lpt_putc 0x20 (serial_putc 0x20 s)) = Inr t" "near_screen t"
    "serial_out t = serial_out s @ [0x20]"
    using cga_write_near [of "lpt_putc 0x20 (serial_putc 0x20 s)" "cga_attr 0x20"] assms by auto
  with cga_finish_on [of t] show ?thesis by (auto simp: cons_space_def)
qed

lemma spaces_on:
  assumes "on_screen s"
  shows "\<exists>t. foldR (\<lambda>_. cons_space) [0..<n] s = Inr t \<and> on_screen t \<and> serial_out t = serial_out s @ replicate n 0x20"
  using foldR_upt [where n = n and f = "\<lambda>_. cons_space" and s = s
      and I = "\<lambda>k t. on_screen t \<and> serial_out t = serial_out s @ replicate k 0x20"] assms cons_space_on
  by (fastforce simp: replicate_append_same)

text \<open>What the serial port gets for a character: a tabulator is followed by the five spaces of the screen.\<close>

definition serial_echo :: "32 word \<Rightarrow> 8 word list" where
  "serial_echo c = ucast c # (if cga_attr c AND 0xFF = 0x09 then replicate 5 0x20 else [])"

lemma cputchar_on:
  assumes "on_screen s"
  shows "\<exists>t. cputchar c s = Inr t \<and> on_screen t \<and> serial_out t = serial_out s @ serial_echo c"
proof -
  let ?s = "lpt_putc c (serial_putc c s)"
  have "\<exists>t. (if cga_attr c AND 0xFF = 0x09 then foldR (\<lambda>_. cons_space) [0..<5] ?s else cga_write (cga_attr c) ?s) = Inr t \<and>
      near_screen t \<and> serial_out t = serial_out s @ serial_echo c"
  proof (cases "cga_attr c AND 0xFF = 0x09")
    case True
    obtain t where "foldR (\<lambda>_. cons_space) [0..<5] ?s = Inr t" "on_screen t"
      "serial_out t = serial_out ?s @ replicate 5 0x20"
      using spaces_on [of ?s 5] assms by (auto simp del: upt_rec_numeral)
    then show ?thesis using True on_near by (auto simp: serial_echo_def simp del: upt_rec_numeral)
  next
    case False
    then show ?thesis using cga_write_near [of ?s "cga_attr c"] assms by (auto simp: serial_echo_def)
  qed
  then obtain t where t: "(if cga_attr c AND 0xFF = 0x09 then foldR (\<lambda>_. cons_space) [0..<5] ?s
      else cga_write (cga_attr c) ?s) = Inr t" "near_screen t" "serial_out t = serial_out s @ serial_echo c"
    by blast
  show ?thesis
    unfolding cputchar_def cons_putc_def cga_putc_def Let_def t(1) bindR_Inr
    using cga_finish_on [OF t(2)] t(3) by auto
qed

text \<open>C15: Once the cursor is on the screen, no text, whatever its control characters and attributes, makes the
  console write outside the screen memory or leave the screen, and the serial port gets every
  character, each tabulator with five spaces after it.\<close>

theorem text_stays_on_screen:
  assumes "on_screen s"
  shows "\<exists>t. foldR cputchar cs s = Inr t \<and> on_screen t \<and>
    serial_out t = serial_out s @ concat (map serial_echo cs)"
  using assms
proof (induction cs arbitrary: s)
  case (Cons c cs)
  from cputchar_on [OF Cons.prems, of c] obtain t where
    "cputchar c s = Inr t" "on_screen t" "serial_out t = serial_out s @ serial_echo c" by blast
  with Cons.IH [of t] show ?case by auto
qed simp

lemma text_stays_on_screen_witness:
  "\<exists>t. foldR cputchar [0x41, 0x09, 0x0A] empty_console = Inr t \<and> serial_out t = [0x41, 9, 32, 32, 32, 32, 32, 10]"
proof -
  have "on_screen empty_console" by (simp add: on_screen_def empty_console_def)
  moreover have "concat (map serial_echo [0x41, 0x09, 0x0A]) = [0x41, 9, 32, 32, 32, 32, 32, 10]" by code_simp
  ultimately show ?thesis
    using text_stays_on_screen [of empty_console "[0x41, 0x09, 0x0A]"] by (auto simp: empty_console_def)
qed

end
