(* ===== verification/LibString.thy ===== *)
theory LibString
  imports Prelude
begin

text \<open>
  The string routines of JOS, \<^verbatim>\<open>src/3-sched/lib/string.c\<close>. A pointer to a string is the buffer from there
  on; a destination is the buffer from there on, too, and a routine returns its new contents. The
  routines that take two pointers into one memory get that memory and two offsets.
\<close>

section \<open>Lengths, copies and comparisons\<close>

fun strlen :: "buffer \<Rightarrow> nat cres" where
  "strlen [] = Inl OutOfBounds"
| "strlen (c # s) = (if c \<noteq> NUL then bindR (strlen s) (\<lambda>n. Inr (Suc n)) else Inr 0)"

fun strnlen :: "buffer \<Rightarrow> nat \<Rightarrow> nat cres" where
  "strnlen s 0 = Inr 0"
| "strnlen [] (Suc n) = Inl OutOfBounds"
| "strnlen (c # s) (Suc n) = (if c \<noteq> NUL then bindR (strnlen s n) (\<lambda>k. Inr (Suc k)) else Inr 0)"

text \<open>\<open>while ((*dst++ = *src++) != 0)\<close>: the byte is stored before it is tested.\<close>

fun strcpy :: "buffer \<Rightarrow> buffer \<Rightarrow> buffer cres" where
  "strcpy (d # dst) (c # src) =
     (if c \<noteq> NUL then bindR (strcpy dst src) (\<lambda>r. Inr (c # r)) else Inr (c # dst))"
| "strcpy dst src = Inl OutOfBounds"

definition strcat :: "buffer \<Rightarrow> buffer \<Rightarrow> buffer cres" where
  "strcat dst src =
     bindR (strlen dst) (\<lambda>n. bindR (strcpy (drop n dst) src) (\<lambda>r. Inr (take n dst @ r)))"

fun strncpy :: "buffer \<Rightarrow> buffer \<Rightarrow> nat \<Rightarrow> buffer cres" where
  "strncpy dst src 0 = Inr dst"
| "strncpy (d # dst) (c # src) (Suc n) =
     bindR (strncpy dst (if c \<noteq> NUL then src else c # src) n) (\<lambda>r. Inr (c # r))"
| "strncpy dst src (Suc n) = Inl OutOfBounds"

text \<open>The new destination and the number of bytes copied.\<close>

fun strlcpy_loop :: "buffer \<Rightarrow> buffer \<Rightarrow> nat \<Rightarrow> (buffer \<times> nat) cres" where
  "strlcpy_loop (d # dst) src 0 = Inr (NUL # dst, 0)"
| "strlcpy_loop (d # dst) (c # src) (Suc n) =
     (if c \<noteq> NUL then bindR (strlcpy_loop dst src n) (\<lambda>(r, k). Inr (c # r, Suc k)) else Inr (NUL # dst, 0))"
| "strlcpy_loop dst src n = Inl OutOfBounds"

definition strlcpy :: "buffer \<Rightarrow> buffer \<Rightarrow> nat \<Rightarrow> (buffer \<times> nat) cres" where
  "strlcpy dst src n = (if n > 0 then strlcpy_loop dst src (n - 1) else Inr (dst, 0))"

definition uchar :: "byte \<Rightarrow> int" where
  "uchar c = int (of_char c)"

fun strcmp :: "buffer \<Rightarrow> buffer \<Rightarrow> int cres" where
  "strcmp (p # ps) (q # qs) =
     (if p \<noteq> NUL \<and> p = q then strcmp ps qs else Inr (uchar p - uchar q))"
| "strcmp ps qs = Inl OutOfBounds"

fun strncmp :: "buffer \<Rightarrow> buffer \<Rightarrow> nat \<Rightarrow> int cres" where
  "strncmp ps qs 0 = Inr 0"
| "strncmp (p # ps) (q # qs) (Suc n) =
     (if p \<noteq> NUL \<and> p = q then strncmp ps qs n else Inr (uchar p - uchar q))"
| "strncmp ps qs (Suc n) = Inl OutOfBounds"

text \<open>The results of the searches are offsets; \<open>None\<close> is the null pointer.\<close>

fun strchr :: "buffer \<Rightarrow> byte \<Rightarrow> nat option cres" where
  "strchr [] c = Inl OutOfBounds"
| "strchr (x # s) c =
     (if x = NUL then Inr None
      else if x = c then Inr (Some 0)
      else bindR (strchr s c) (\<lambda>r. Inr (map_option Suc r)))"

fun strfind :: "buffer \<Rightarrow> byte \<Rightarrow> nat cres" where
  "strfind [] c = Inl OutOfBounds"
| "strfind (x # s) c = (if x = NUL \<or> x = c then Inr 0 else bindR (strfind s c) (\<lambda>n. Inr (Suc n)))"

fun memcmp :: "buffer \<Rightarrow> buffer \<Rightarrow> nat \<Rightarrow> int cres" where
  "memcmp ps qs 0 = Inr 0"
| "memcmp (p # ps) (q # qs) (Suc n) = (if p \<noteq> q then Inr (uchar p - uchar q) else memcmp ps qs n)"
| "memcmp ps qs (Suc n) = Inl OutOfBounds"

fun memfind :: "buffer \<Rightarrow> byte \<Rightarrow> nat \<Rightarrow> nat cres" where
  "memfind s c 0 = Inr 0"
| "memfind [] c (Suc n) = Inl OutOfBounds"
| "memfind (x # s) c (Suc n) = (if x = c then Inr 0 else bindR (memfind s c n) (\<lambda>k. Inr (Suc k)))"

section \<open>Moving memory\<close>

text \<open>
  \<open>rep movsb\<close> and \<open>rep movsl\<close> move units of one or four bytes, the latter when both addresses and the
  count are multiples of four. \<open>move_unit\<close> reads a unit and then writes it; the direction flag chooses
  the order of the units.
\<close>

definition move_unit :: "nat \<Rightarrow> nat \<Rightarrow> nat \<Rightarrow> nat \<Rightarrow> buffer \<Rightarrow> buffer" where
  "move_unit u d s i m = overwrite m (d + u * i) (take u (drop (s + u * i) m))"

definition unit_of :: "nat \<Rightarrow> nat \<Rightarrow> nat \<Rightarrow> nat" where
  "unit_of s d n = (if s mod 4 = 0 \<and> d mod 4 = 0 \<and> n mod 4 = 0 then 4 else 1)"

definition memmove :: "buffer \<Rightarrow> nat \<Rightarrow> nat \<Rightarrow> nat \<Rightarrow> buffer cres" where
  "memmove m d s n =
     bindR (guardR (d + n \<le> length m \<and> s + n \<le> length m) OutOfBounds) (\<lambda>_.
       let u = unit_of s d n
       in Inr (if s < d \<and> s + n > d
               then foldl (\<lambda>t i. move_unit u d s i t) m (rev [0..<n div u])
               else foldl (\<lambda>t i. move_unit u d s i t) m [0..<n div u]))"

definition memcpy :: "buffer \<Rightarrow> nat \<Rightarrow> nat \<Rightarrow> nat \<Rightarrow> buffer cres" where
  "memcpy m d s n = memmove m d s n"

text \<open>\<open>rep stosl\<close> stores the byte in all four places of a word.\<close>

definition memset :: "buffer \<Rightarrow> nat \<Rightarrow> byte \<Rightarrow> nat \<Rightarrow> buffer cres" where
  "memset m v c n =
     (if n = 0 then Inr m
      else bindR (guardR (v + n \<le> length m) OutOfBounds) (\<lambda>_.
        let u = (if v mod 4 = 0 \<and> n mod 4 = 0 then 4 else 1)
        in Inr (foldl (\<lambda>t i. overwrite t (v + u * i) (replicate u c)) m [0..<n div u])))"

section \<open>Numbers\<close>

fun digit_value :: "byte \<Rightarrow> int option" where
  "digit_value c =
     (let n = uchar c
      in if 48 \<le> n \<and> n \<le> 57 then Some (n - 48)
         else if 97 \<le> n \<and> n \<le> 122 then Some (n - 97 + 10)
         else if 65 \<le> n \<and> n \<le> 90 then Some (n - 65 + 10)
         else None)"

text \<open>
  The result is the value and the offset of the first byte left over. A number too large for a \<open>long\<close> overflows, which
  C leaves undefined; the two's complement instructions of the target wrap, and so does the model.
\<close>

fun strtol_digits :: "buffer \<Rightarrow> int \<Rightarrow> int \<Rightarrow> (int \<times> nat) cres" where
  "strtol_digits [] base val = Inl OutOfBounds"
| "strtol_digits (c # s) base val =
     (case digit_value c of
        None \<Rightarrow> Inr (val, 0)
      | Some dig \<Rightarrow>
          if dig \<ge> base then Inr (val, 0)
          else bindR (strtol_digits s base (c_int (val * base + dig))) (\<lambda>(v, k). Inr (v, Suc k)))"

definition peek :: "buffer \<Rightarrow> nat \<Rightarrow> byte cres" where
  "peek s i = (if i < length s then Inr (s ! i) else Inl OutOfBounds)"

text \<open>The prefix \<open>0x\<close> or \<open>0\<close>: the base it stands for and its length; \<open>s[1]\<close> is only read after a \<open>0\<close>.\<close>

definition strtol_prefix :: "buffer \<Rightarrow> int \<Rightarrow> (int \<times> nat) cres" where
  "strtol_prefix s base =
     bindR (peek s 0) (\<lambda>c0.
     bindR (if (base = 0 \<or> base = 16) \<and> c0 = CHR ''0''
            then bindR (peek s 1) (\<lambda>c1. Inr (c1 = CHR ''x'')) else Inr False) (\<lambda>hex.
       Inr (if hex then (16, 2)
            else if base = 0 \<and> c0 = CHR ''0'' then (8, 1)
            else if base = 0 then (10, 0) else (base, 0))))"

definition strtol :: "buffer \<Rightarrow> int \<Rightarrow> (int \<times> nat) cres" where
  "strtol s base =
     (let k0 = length (takeWhile (\<lambda>c. c = CHR '' '' \<or> c = CHR 0x09) s)
      in bindR (peek s k0) (\<lambda>c.
         let neg = (c = CHR ''-'');
             k1 = (if c = CHR ''+'' \<or> neg then k0 + 1 else k0)
         in bindR (strtol_prefix (drop k1 s) base) (\<lambda>(b, p).
            bindR (strtol_digits (drop (k1 + p) s) b 0) (\<lambda>(val, k).
              Inr (if neg then c_int (- val) else val, k1 + p + k)))))"

section \<open>Moving is copying\<close>

text \<open>The memory \<open>t\<close> is \<open>m\<close> with the bytes from \<open>a\<close> to \<open>b\<close> of the move done.\<close>

definition moved :: "buffer \<Rightarrow> nat \<Rightarrow> nat \<Rightarrow> nat \<Rightarrow> nat \<Rightarrow> buffer \<Rightarrow> bool" where
  "moved m d s a b t \<longleftrightarrow> length t = length m \<and>
     (\<forall>j<length m. t ! j = (if d + a \<le> j \<and> j < d + b then m ! (s + (j - d)) else m ! j))"

lemma moved_none: "moved m d s a a m"
  by (auto simp: moved_def)

lemma moved_overwrite:
  assumes "moved m d s 0 n t" "d + n \<le> length m" "s + n \<le> length m"
  shows "t = overwrite m d (take n (drop s m))"
proof (rule nth_equalityI)
  have len: "length (take n (drop s m)) = n" using assms by simp
  show "length t = length (overwrite m d (take n (drop s m)))"
    using assms(1,2) len by (simp add: moved_def)
  fix j
  assume "j < length t"
  then have j: "j < length m" using assms(1) by (simp add: moved_def)
  show "t ! j = overwrite m d (take n (drop s m)) ! j"
    by (subst nth_overwrite) (use assms j len in \<open>auto simp: moved_def\<close>)
qed

lemma move_unit_nth:
  assumes "length t = length m" "d + x + u \<le> length m" "s + x + u \<le> length m" "j < length m" "x = u * i"
  shows "move_unit u d s i t ! j = (if d + x \<le> j \<and> j < d + x + u then t ! (s + (j - d)) else t ! j)"
proof -
  have len: "length (take u (drop (s + u * i) t)) = u" using assms by simp
  show ?thesis
    unfolding move_unit_def
    by (subst nth_overwrite) (use assms len in \<open>auto simp: ac_simps\<close>)
qed

lemma move_unit_up:
  assumes "moved m d s 0 (u * i) t" "d + u * i + u \<le> length m" "s + u * i + u \<le> length m"
    and "d \<le> s \<or> s + u * i + u \<le> d"
  shows "moved m d s 0 (u * Suc i) (move_unit u d s i t)"
proof -
  have len: "length t = length m" using assms(1) by (simp add: moved_def)
  have "length (move_unit u d s i t) = length m"
    unfolding move_unit_def by (subst length_overwrite) (use assms len in simp_all)
  moreover have "move_unit u d s i t ! j = (if d \<le> j \<and> j < d + u * Suc i then m ! (s + (j - d)) else m ! j)"
    if j: "j < length m" for j
  proof (cases "d + u * i \<le> j \<and> j < d + u * i + u")
    case True
    then have "s + (j - d) < length m" using assms(3) by linarith
    moreover have "\<not> (d \<le> s + (j - d) \<and> s + (j - d) < d + u * i)" using True assms(4) by linarith
    ultimately have "t ! (s + (j - d)) = m ! (s + (j - d))" using assms(1) by (metis moved_def add_0_right)
    then show ?thesis using True by (subst move_unit_nth [OF len assms(2,3) j refl]) simp
  next
    case False
    then have "(d \<le> j \<and> j < d + u * Suc i) = (d \<le> j \<and> j < d + u * i)" by auto
    then show ?thesis using False assms(1) j
      by (subst move_unit_nth [OF len assms(2,3) j refl]) (simp only: if_False moved_def add_0_right)
  qed
  ultimately show ?thesis by (simp add: moved_def)
qed

lemma move_unit_down:
  assumes "moved m d s (u * Suc i) n t" "d + u * i + u \<le> length m" "s + u * i + u \<le> length m"
    and "s < d" "u * Suc i \<le> n"
  shows "moved m d s (u * i) n (move_unit u d s i t)"
proof -
  have len: "length t = length m" using assms(1) by (simp add: moved_def)
  have "length (move_unit u d s i t) = length m"
    unfolding move_unit_def by (subst length_overwrite) (use assms len in simp_all)
  moreover have "move_unit u d s i t ! j = (if d + u * i \<le> j \<and> j < d + n then m ! (s + (j - d)) else m ! j)"
    if j: "j < length m" for j
  proof (cases "d + u * i \<le> j \<and> j < d + u * i + u")
    case True
    then have "s + (j - d) < length m" using assms(3) by linarith
    moreover have "\<not> d + u * Suc i \<le> s + (j - d)"
    proof -
      have "s + (j - d) < j" using True assms(4) by linarith
      then show ?thesis using True by simp
    qed
    ultimately have "t ! (s + (j - d)) = m ! (s + (j - d))" using assms(1) by (simp add: moved_def)
    moreover have "j < d + n" using True assms(5) by simp
    ultimately show ?thesis using True by (subst move_unit_nth [OF len assms(2,3) j refl]) simp
  next
    case False
    then have "(d + u * i \<le> j \<and> j < d + n) = (d + u * Suc i \<le> j \<and> j < d + n)"
      using assms(5) by auto
    then show ?thesis using False assms(1) j
      by (subst move_unit_nth [OF len assms(2,3) j refl]) (simp only: if_False moved_def add_0_right)
  qed
  ultimately show ?thesis by (simp add: moved_def)
qed

lemma moves_up:
  assumes "d + u * k \<le> length m" "s + u * k \<le> length m" "d \<le> s \<or> s + u * k \<le> d"
  shows "moved m d s 0 (u * k) (foldl (\<lambda>t i. move_unit u d s i t) m [0..<k])"
  using assms
proof (induction k)
  case 0
  show ?case by (simp add: moved_none)
next
  case (Suc k)
  then have "moved m d s 0 (u * k) (foldl (\<lambda>t i. move_unit u d s i t) m [0..<k])" by auto
  then have "moved m d s 0 (u * Suc k) (move_unit u d s k (foldl (\<lambda>t i. move_unit u d s i t) m [0..<k]))"
    by (rule move_unit_up) (use Suc.prems in auto)
  then show ?case by simp
qed

lemma moves_down:
  assumes "d + u * n \<le> length m" "s + u * n \<le> length m" "s < d" "k \<le> n"
  shows "moved m d s (u * (n - k)) (u * n) (foldl (\<lambda>t i. move_unit u d s i t) m (rev [n - k..<n]))"
  using assms(4)
proof (induction k)
  case 0
  show ?case by (simp add: moved_none)
next
  case (Suc k)
  let ?i = "n - Suc k"
  have i: "Suc ?i = n - k" "?i < n" using Suc.prems by auto
  have "moved m d s (u * Suc ?i) (u * n) (foldl (\<lambda>t i. move_unit u d s i t) m (rev [n - k..<n]))"
    using Suc i by auto
  moreover have "u * Suc ?i \<le> u * n" using i by (intro mult_le_mono2) simp
  ultimately have "moved m d s (u * ?i) (u * n) (move_unit u d s ?i (foldl (\<lambda>t i. move_unit u d s i t) m (rev [n - k..<n])))"
    using assms(1-3) by (intro move_unit_down) auto
  moreover have "[?i..<n] = ?i # [n - k..<n]" using i by (metis upt_conv_Cons)
  ultimately show ?case by simp
qed

lemma unit_of_divides: "unit_of s d n * (n div unit_of s d n) = n"
  by (simp add: unit_of_def) presburger

lemma memmove_overwrite:
  assumes "d + n \<le> length m" "s + n \<le> length m"
  shows "memmove m d s n = Inr (overwrite m d (take n (drop s m)))"
proof -
  let ?u = "unit_of s d n" and ?k = "n div unit_of s d n"
  have n: "?u * ?k = n" by (rule unit_of_divides)
  show ?thesis
  proof (cases "s < d \<and> s + n > d")
    case True
    have "moved m d s (?u * (?k - ?k)) (?u * ?k) (foldl (\<lambda>t i. move_unit ?u d s i t) m (rev [?k - ?k..<?k]))"
      by (rule moves_down) (use True assms n in auto)
    then have "moved m d s 0 n (foldl (\<lambda>t i. move_unit ?u d s i t) m (rev [0..<?k]))" by (simp add: n)
    from moved_overwrite [OF this assms] show ?thesis using True assms by (simp add: memmove_def Let_def)
  next
    case False
    have "moved m d s 0 (?u * ?k) (foldl (\<lambda>t i. move_unit ?u d s i t) m [0..<?k])"
      by (rule moves_up) (use False assms n in auto)
    then have "moved m d s 0 n (foldl (\<lambda>t i. move_unit ?u d s i t) m [0..<?k])" by (simp add: n)
    from moved_overwrite [OF this assms] show ?thesis using False assms by (auto simp: memmove_def Let_def)
  qed
qed

end
