(* ===== verification/LibPrintf.thy ===== *)
theory LibPrintf
  imports LibString
begin

text \<open>
  The formatted output of JOS, \<^verbatim>\<open>src/3-sched/lib/printfmt.c\<close>. What \<open>putch\<close> is given is collected in a
  string. An argument list is a list of words and strings; taking an argument that is missing or of
  another size is a fault.
\<close>

datatype vararg = Int_arg "32 word" | Long_arg "64 word" | Str_arg "string option"

text \<open>The names of the error codes, from \<^verbatim>\<open>inc/error.h\<close>.\<close>

abbreviation (input) MAXERROR :: int where "MAXERROR \<equiv> 9"

definition error_string :: "string option list" where
  "error_string =
     [None,
      Some ''unspecified error'', Some ''bad environment'', Some ''invalid parameter'',
      Some ''out of memory'', Some ''out of environments'', Some ''segmentation fault'',
      Some ''env is not recving'', Some ''unexpected end of file'']"

section \<open>Numbers\<close>

definition hexdigits :: string where
  "hexdigits = ''0123456789abcdef''"

text \<open>Every call has base 8, 10 or 16; the test for a base above 1 makes the recursion end.\<close>

function printnum :: "nat \<Rightarrow> nat \<Rightarrow> int \<Rightarrow> byte \<Rightarrow> string" where
  "printnum num base width padc =
     (if num \<ge> base \<and> 1 < base then printnum (num div base) base (width - 1) padc
      else replicate (nat (width - 1)) padc) @ [hexdigits ! (num mod base)]"
  by pat_completeness auto
termination
  by (relation "measure (\<lambda>(num, base, width, padc). num)") auto

declare printnum.simps [simp del]

fun getuint :: "vararg list \<Rightarrow> int \<Rightarrow> (nat \<times> vararg list) cres" where
  "getuint (Long_arg w # ap) lflag = (if lflag \<ge> 2 then Inr (unat w, ap) else Inl UninitRead)"
| "getuint (Int_arg w # ap) lflag = (if lflag \<ge> 2 then Inl UninitRead else Inr (unat w, ap))"
| "getuint ap lflag = Inl UninitRead"

fun getint :: "vararg list \<Rightarrow> int \<Rightarrow> (int \<times> vararg list) cres" where
  "getint (Long_arg w # ap) lflag = (if lflag \<ge> 2 then Inr (sint w, ap) else Inl UninitRead)"
| "getint (Int_arg w # ap) lflag = (if lflag \<ge> 2 then Inl UninitRead else Inr (sint w, ap))"
| "getint ap lflag = Inl UninitRead"

fun va_int :: "vararg list \<Rightarrow> (32 word \<times> vararg list) cres" where
  "va_int (Int_arg w # ap) = Inr (w, ap)"
| "va_int ap = Inl UninitRead"

fun va_str :: "vararg list \<Rightarrow> (string option \<times> vararg list) cres" where
  "va_str (Str_arg s # ap) = Inr (s, ap)"
| "va_str ap = Inl UninitRead"

section \<open>A conversion\<close>

record fmt_state =
  padc :: byte
  width :: int
  precision :: int
  lflag :: int
  altflag :: bool

definition fmt_init :: fmt_state where
  "fmt_init = \<lparr>padc = CHR '' '', width = - 1, precision = - 1, lflag = 0, altflag = False\<rparr>"

definition is_digit :: "byte \<Rightarrow> bool" where
  "is_digit c \<longleftrightarrow> 48 \<le> uchar c \<and> uchar c \<le> 57"

fun read_precision :: "string \<Rightarrow> int \<Rightarrow> int \<times> string" where
  "read_precision [] p = (p, [])"
| "read_precision (c # cs) p = (if is_digit c then read_precision cs (p * 10 + (uchar c - 48)) else (p, c # cs))"

lemma read_precision_shorter: "length (snd (read_precision cs p)) \<le> length cs"
  by (induction cs arbitrary: p) (auto simp: le_SucI)

lemma read_precision_rest: "(p, rest) = read_precision cs x \<Longrightarrow> length rest < Suc (length cs)"
  using read_precision_shorter [of cs x] by (metis le_imp_less_Suc snd_conv)

definition process_precision :: "fmt_state \<Rightarrow> fmt_state" where
  "process_precision f = (if width f < 0 then f\<lparr>width := precision f, precision := - 1\<rparr> else f)"

text \<open>
  The flags up to the character of the conversion; \<open>None\<close> is the end of the format. The rest of the
  format and of the arguments follow.
\<close>

function read_flags ::
  "string \<Rightarrow> fmt_state \<Rightarrow> vararg list \<Rightarrow> (byte option \<times> fmt_state \<times> string \<times> vararg list) cres" where
  "read_flags [] f ap = Inr (None, f, [], ap)"
| "read_flags (c # cs) f ap =
     (if c = CHR ''-'' then read_flags cs (f\<lparr>padc := CHR ''-''\<rparr>) ap
      else if c = CHR ''0'' then read_flags cs (f\<lparr>padc := CHR ''0''\<rparr>) ap
      else if is_digit c then
        (case read_precision cs (uchar c - 48) of (p, rest) \<Rightarrow>
           read_flags rest (process_precision (f\<lparr>precision := p\<rparr>)) ap)
      else if c = CHR ''*'' then
        bindR (va_int ap) (\<lambda>(w, ap1). read_flags cs (process_precision (f\<lparr>precision := sint w\<rparr>)) ap1)
      else if c = CHR ''.'' then read_flags cs (if width f < 0 then f\<lparr>width := 0\<rparr> else f) ap
      else if c = CHR ''#'' then read_flags cs (f\<lparr>altflag := True\<rparr>) ap
      else if c = CHR ''l'' then read_flags cs (f\<lparr>lflag := lflag f + 1\<rparr>) ap
      else Inr (Some c, f, cs, ap))"
  by pat_completeness auto
termination
  by (relation "measure (\<lambda>(cs, f, ap). length cs)") (auto dest!: read_precision_rest)

text \<open>The string conversion: \<open>strnlen\<close> with a negative precision counts to the end.\<close>

definition print_string :: "fmt_state \<Rightarrow> string option \<Rightarrow> string" where
  "print_string f s =
     (let p = (case s of None \<Rightarrow> ''(null)'' | Some p \<Rightarrow> p);
          body = (if precision f < 0 then p else take (nat (precision f)) p);
          n = int (length body);
          left = (width f > 0 \<and> padc f \<noteq> CHR ''-'')
      in (if left then replicate (nat (width f - n)) (padc f) else []) @
         map (\<lambda>ch. if altflag f \<and> \<not> (32 \<le> uchar ch \<and> uchar ch \<le> 126) then CHR ''?'' else ch) body @
         (if left then [] else replicate (nat (width f - n)) (CHR '' '')))"

definition print_error :: "32 word \<Rightarrow> string cres" where
  "print_error w =
     (let err = (if sint w < 0 then c_int (- sint w) else sint w)
      in if err \<ge> MAXERROR then Inr (''error '' @ printnum (nat err) 10 (- 1) (CHR '' ''))
         else bindR (guardR (0 \<le> err) OutOfBounds) (\<lambda>_.
           Inr (case error_string ! nat err of
                  None \<Rightarrow> ''error '' @ printnum (nat err) 10 (- 1) (CHR '' '')
                | Some p \<Rightarrow> p)))"

definition print_unsigned :: "fmt_state \<Rightarrow> nat \<Rightarrow> vararg list \<Rightarrow> (string \<times> vararg list) cres" where
  "print_unsigned f base ap =
     bindR (getuint ap (lflag f)) (\<lambda>(num, ap1). Inr (printnum num base (width f) (padc f), ap1))"

text \<open>The conversions; \<open>None\<close> when the character is none of them.\<close>

definition convert :: "byte \<Rightarrow> fmt_state \<Rightarrow> vararg list \<Rightarrow> (string \<times> vararg list) cres option" where
  "convert ch f ap =
     (if ch = CHR ''c'' then Some (bindR (va_int ap) (\<lambda>(w, ap1). Inr ([char_of (unat w mod 256)], ap1)))
      else if ch = CHR ''e'' then Some (bindR (va_int ap) (\<lambda>(w, ap1). bindR (print_error w) (\<lambda>s. Inr (s, ap1))))
      else if ch = CHR ''s'' then Some (bindR (va_str ap) (\<lambda>(s, ap1). Inr (print_string f s, ap1)))
      else if ch = CHR ''d'' then
        Some (bindR (getint ap (lflag f)) (\<lambda>(num, ap1).
          Inr ((if num < 0 then [CHR ''-''] else []) @ printnum (nat \<bar>num\<bar>) 10 (width f) (padc f), ap1)))
      else if ch = CHR ''u'' then Some (print_unsigned f 10 ap)
      else if ch = CHR ''o'' then Some (print_unsigned f 8 ap)
      else if ch = CHR ''p'' then
        Some (bindR (va_int ap) (\<lambda>(w, ap1). Inr (''0x'' @ printnum (unat w) 16 (width f) (padc f), ap1)))
      else if ch = CHR ''x'' then Some (print_unsigned f 16 ap)
      else if ch = CHR ''%'' then Some (Inr ([ch], ap))
      else None)"

section \<open>A format\<close>

lemma read_flags_shorter:
  "read_flags cs f ap = Inr (ch, f', rest, ap') \<Longrightarrow> length rest \<le> length cs"
proof (induction cs f ap arbitrary: ch f' rest ap' rule: read_flags.induct)
  case (2 c cs f ap)
  have p: "length (snd (read_precision cs (uchar c - 48))) \<le> length cs" by (rule read_precision_shorter)
  show ?case
  proof (cases "is_digit c \<and> c \<noteq> CHR ''0''")
    case True
    then have "c \<noteq> CHR ''-''" by (auto simp: is_digit_def uchar_def)
    obtain q r where qr: "read_precision cs (uchar c - 48) = (q, r)" by fastforce
    then have "length rest \<le> length r"
      using 2 True \<open>c \<noteq> CHR ''-''\<close> by simp
    then show ?thesis using p qr by simp
  next
    case False
    then show ?thesis using 2
      by (auto simp: cres_simps split: if_splits) (fastforce intro: le_SucI)+
  qed
qed auto

text \<open>After an unknown conversion the output goes on behind the percent sign.\<close>

function vprintfmt :: "string \<Rightarrow> vararg list \<Rightarrow> string cres" where
  "vprintfmt [] ap = Inr []"
| "vprintfmt (c # cs) ap =
     (if c \<noteq> CHR ''%'' then bindR (vprintfmt cs ap) (\<lambda>out. Inr (c # out))
      else
        bindR (read_flags cs fmt_init ap) (\<lambda>(ch, f, rest, ap1).
          case Option.bind ch (\<lambda>k. convert k f ap1) of
            None \<Rightarrow> bindR (vprintfmt cs ap1) (\<lambda>out. Inr (CHR ''%'' # out))
          | Some conv \<Rightarrow>
              bindR conv (\<lambda>(s, ap2). bindR (vprintfmt rest ap2) (\<lambda>out. Inr (s @ out)))))"
  by pat_completeness auto
termination
  by (relation "measure (\<lambda>(fmt, ap). length fmt)") (auto simp: less_Suc_eq_le read_flags_shorter)

text \<open>
  \<open>vsnprintf\<close>: the buffer gets at most \<open>n - 1\<close> bytes and a terminator, the result is the length of the
  whole output. An empty or null buffer is refused with \<open>-E_INVAL\<close>.
\<close>

definition vsnprintf :: "buffer option \<Rightarrow> int \<Rightarrow> string \<Rightarrow> vararg list \<Rightarrow> (int \<times> buffer option) cres" where
  "vsnprintf b n fmt ap =
     (case b of
        None \<Rightarrow> Inr (- 3, None)
      | Some bf \<Rightarrow>
          if n < 1 then Inr (- 3, b)
          else bindR (vprintfmt fmt ap) (\<lambda>out.
            let kept = take (nat (n - 1)) out @ [NUL]
            in bindR (guardR (length kept \<le> length bf) OutOfBounds) (\<lambda>_.
                 Inr (int (length out), Some (overwrite bf 0 kept)))))"

end
