(* ===== verification/LibProps.thy ===== *)
theory LibProps
  imports LibPrintf
begin

text \<open>
  The JOS library: moving memory is copying, whatever the overlap, and a printed number reads back.
\<close>

text \<open>C16: \<open>memmove\<close>, and \<open>memcpy\<close> which calls it, copy the bytes as they were before the call, however source and
  destination overlap and whether the bytes are moved one or four at a time, upwards or downwards.\<close>

theorem memmove_copies:
  assumes "d + n \<le> length m" "s + n \<le> length m"
  shows "memcpy m d s n = Inr (overwrite m d (take n (drop s m)))"
  using memmove_overwrite [OF assms] by (simp add: memcpy_def)

lemma memmove_copies_witness: "memcpy ''abcdefgh'' 4 0 4 = Inr ''abcdabcd'' \<and> memcpy ''abcdef'' 1 0 4 = Inr ''aabcdf''"
  using memmove_copies [of 4 4 "''abcdefgh''" 0] memmove_copies [of 1 4 "''abcdef''" 0]
  by (simp add: overwrite_def)

section \<open>Printed numbers\<close>

lemma c_int_mod: "c_int x = c_int y \<longleftrightarrow> x mod 2 ^ 32 = y mod 2 ^ 32"
  by (simp add: c_int_def mod_eq_dvd_iff)

lemma c_int_mod_eq: "c_int x mod 2 ^ 32 = x mod 2 ^ 32"
  by (simp add: c_int_def mod_diff_left_eq)

lemma c_int_step: "c_int (c_int x * b + d) = c_int (x * b + d)"
  unfolding c_int_mod by (metis c_int_mod_eq mod_add_left_eq mod_mult_left_eq)

lemma c_int_neg: "c_int (- c_int x) = c_int (- x)"
  unfolding c_int_mod by (metis c_int_mod_eq mod_minus_eq)

lemma digit_value_hexdigits:
  assumes "d < 16"
  shows "digit_value (hexdigits ! d) = Some (int d)"
proof -
  have "\<forall>d\<in>set [0..<16]. digit_value (hexdigits ! d) = Some (int d)" by code_simp
  then show ?thesis using assms by simp
qed

lemma strtol_digits_cons:
  "digit_value c = Some dig \<Longrightarrow> dig < base \<Longrightarrow>
   strtol_digits (c # s) base val = bindR (strtol_digits s base (c_int (val * base + dig))) (\<lambda>(v, k). Inr (v, Suc k))"
  by (simp del: digit_value.simps)

lemma strtol_digits_printnum:
  assumes "1 < b" "b \<le> 16" "w \<le> 1"
  shows "strtol_digits (printnum n b w p @ t) (int b) 0 =
    bindR (strtol_digits t (int b) (c_int (int n))) (\<lambda>(v, k). Inr (v, length (printnum n b w p) + k))"
  using assms
proof (induction n b w p arbitrary: t rule: printnum.induct)
  case (1 n b w p)
  have dig: "digit_value (hexdigits ! (n mod b)) = Some (int (n mod b))" "int (n mod b) < int b"
    using 1(2,3) mod_less_divisor [of b n] by (simp_all add: digit_value_hexdigits less_le_trans [of _ b] del: digit_value.simps)
  show ?case
  proof (cases "n \<ge> b")
    case True
    have p: "printnum n b w p = printnum (n div b) b (w - 1) p @ [hexdigits ! (n mod b)]"
      using True 1(2) by (subst printnum.simps) simp
    have "int (n div b) * int b + int (n mod b) = int n"
      by (metis div_mult_mod_eq of_nat_add of_nat_mult)
    then have step: "c_int (c_int (int (n div b)) * int b + int (n mod b)) = c_int (int n)"
      by (simp only: c_int_step)
    have ih: "strtol_digits (printnum (n div b) b (w - 1) p @ (hexdigits ! (n mod b)) # t) (int b) 0 =
        bindR (strtol_digits ((hexdigits ! (n mod b)) # t) (int b) (c_int (int (n div b))))
          (\<lambda>(v, k). Inr (v, length (printnum (n div b) b (w - 1) p) + k))"
      by (rule 1(1)) (use True 1(2-4) in auto)
    show ?thesis
      unfolding p append_assoc append_Cons append_Nil ih strtol_digits_cons [OF dig] step bindR_assoc
      by (cases "strtol_digits t (int b) (c_int (int n))") auto
  next
    case False
    then have p: "printnum n b w p = [hexdigits ! (n mod b)]" using 1(4) by (subst printnum.simps) simp
    have step: "c_int (0 * int b + int (n mod b)) = c_int (int n)" using False by simp
    show ?thesis
      unfolding p append_Cons append_Nil strtol_digits_cons [OF dig] step by simp
  qed
qed

lemma strtol_digits_end: "strtol_digits [NUL] b v = Inr (v, 0)"
  by (simp add: uchar_def)

lemma printnum_first:
  assumes "1 < b" "b \<le> 16" "w \<le> 1"
  shows "\<exists>d<16. \<exists>r. printnum n b w p = hexdigits ! d # r"
  using assms
proof (induction n b w p rule: printnum.induct)
  case (1 n b w p)
  show ?case
  proof (cases "n \<ge> b")
    case True
    then obtain d r where "d < 16" "printnum (n div b) b (w - 1) p = hexdigits ! d # r" using 1 by fastforce
    then show ?thesis using True 1(2) by (subst printnum.simps) auto
  next
    case False
    then show ?thesis using 1(2-4)
      by (subst printnum.simps) (auto intro: exI [of _ "n mod b"])
  qed
qed

lemma hexdigit_no_space:
  assumes "d < 16"
  shows "hexdigits ! d \<notin> {CHR '' '', CHR 0x09, CHR ''+'', CHR ''-''}"
proof -
  have "\<forall>d\<in>set [0..<16]. hexdigits ! d \<notin> {CHR '' '', CHR 0x09, CHR ''+'', CHR ''-''}" by code_simp
  then show ?thesis using assms by simp
qed

lemma strtol_printnum:
  "strtol (printnum n 10 (- 1) p @ [NUL]) 10 = Inr (c_int (int n), length (printnum n 10 (- 1) p))"
  "strtol (CHR ''-'' # printnum n 10 (- 1) p @ [NUL]) 10 =
     Inr (c_int (- c_int (int n)), Suc (length (printnum n 10 (- 1) p)))"
proof -
  let ?s = "printnum n 10 (- 1) p @ [NUL]"
  obtain d r where d: "d < 16" "printnum n 10 (- 1) p = hexdigits ! d # r"
    using printnum_first [of 10 "- 1" n p] by auto
  note no = hexdigit_no_space [OF d(1)]
  have dig: "strtol_digits ?s 10 0 = Inr (c_int (int n), length (printnum n 10 (- 1) p))"
    using strtol_digits_printnum [of 10 "- 1" n p "[NUL]"] by (simp add: strtol_digits_end del: strtol_digits.simps)
  have pre: "strtol_prefix ?s 10 = Inr (10, 0)" unfolding d by (simp add: strtol_prefix_def peek_def)
  show "strtol ?s 10 = Inr (c_int (int n), length (printnum n 10 (- 1) p))"
    using dig pre no unfolding d by (simp add: strtol_def peek_def Let_def del: strtol_digits.simps)
  show "strtol (CHR ''-'' # ?s) 10 = Inr (c_int (- c_int (int n)), Suc (length (printnum n 10 (- 1) p)))"
    using dig pre by (simp add: strtol_def peek_def Let_def del: strtol_digits.simps)
qed

text \<open>C17: Every 32-bit integer that \<open>%d\<close> prints, the least one included, is read back by \<open>strtol\<close>, which stops at
  the end of the text.\<close>

theorem printed_number_reads_back:
  "\<exists>out. vprintfmt ''%d'' [Int_arg w] = Inr out \<and> strtol (out @ [NUL]) 10 = Inr (sint w, length out)"
proof -
  let ?n = "nat \<bar>sint w\<bar>"
  have range: "- (2 ^ 31) \<le> sint w" "sint w < 2 ^ 31"
    using sint_ge [of w] sint_lt [of w] by simp_all
  have out: "vprintfmt ''%d'' [Int_arg w] =
      Inr ((if sint w < 0 then [CHR ''-''] else []) @ printnum ?n 10 (- 1) (CHR '' ''))"
    by (simp add: fmt_init_def convert_def is_digit_def uchar_def)
  show ?thesis
  proof (cases "sint w < 0")
    case True
    then have "c_int (- c_int (int ?n)) = sint w"
      using range by (simp add: c_int_neg c_int_id)
    then show ?thesis using out True strtol_printnum(2) [of ?n "CHR '' ''"] by simp
  next
    case False
    then have "c_int (int ?n) = sint w" using range by (simp add: c_int_id)
    then show ?thesis using out False strtol_printnum(1) [of ?n "CHR '' ''"] by simp
  qed
qed

end
