(* ===== verification/KDebug.thy ===== *)
theory KDebug
  imports KPmap LibString "HOL-Library.Signed_Division"
begin

text \<open>
  Symbol tables: \<^verbatim>\<open>src/3-sched/kern/kdebug.c\<close>, which finds the function and the line of an instruction
  in a table of stabs. Indices are \<open>int\<close>, as in the source; an access outside the table is a fault.
\<close>

record stab =
  n_strx :: u32
  n_type :: "8 word"
  n_other :: "8 word"
  n_desc :: u16
  n_value :: u32

abbreviation (input) N_FUN :: "8 word" where "N_FUN \<equiv> 0x24"
abbreviation (input) N_SLINE :: "8 word" where "N_SLINE \<equiv> 0x44"
abbreviation (input) N_SO :: "8 word" where "N_SO \<equiv> 0x64"
abbreviation (input) N_SOL :: "8 word" where "N_SOL \<equiv> 0x84"
abbreviation (input) N_PSYM :: "8 word" where "N_PSYM \<equiv> 0xa0"
abbreviation (input) ULIM :: u32 where "ULIM \<equiv> 0xEF800000"
abbreviation (input) USTABDATA :: u32 where "USTABDATA \<equiv> 0x200000"

section \<open>Searching a table\<close>

definition stab_at :: "stab list \<Rightarrow> int \<Rightarrow> stab cres" where
  "stab_at stabs i = (if 0 \<le> i \<and> nat i < length stabs then Inr (stabs ! nat i) else Inl OutOfBounds)"

text \<open>\<open>while (m >= l && stabs[m].n_type != type) m--\<close>\<close>

function stab_back :: "stab list \<Rightarrow> int \<Rightarrow> 8 word \<Rightarrow> int \<Rightarrow> int cres" where
  "stab_back stabs l type m =
     (if m \<ge> l then
        bindR (stab_at stabs m) (\<lambda>x. if n_type x \<noteq> type then stab_back stabs l type (m - 1) else Inr m)
      else Inr m)"
  by pat_completeness auto
termination by (relation "measure (\<lambda>(stabs, l, type, m). nat (m - l + 1))") auto

lemma stab_back_range: "stab_back stabs l type m = Inr k \<Longrightarrow> k \<le> m \<and> (l \<le> m \<longrightarrow> l - 1 \<le> k)"
proof (induction stabs l type m rule: stab_back.induct)
  case (1 stabs l type m)
  show ?case
  proof (cases "l \<le> m")
    case True
    then obtain x where x: "stab_at stabs m = Inr x" using 1(2) by (cases "stab_at stabs m") auto
    show ?thesis
    proof (cases "n_type x = type")
      case False
      then have "stab_back stabs l type (m - 1) = Inr k" using 1(2) True x by simp
      from 1(1) [OF True x False this] this True show ?thesis by (cases "l \<le> m - 1") auto
    qed (use 1(2) True x in simp)
  qed (use 1(2) in simp)
qed

declare stab_back.simps [simp del]

lemma half_between:
  assumes "(l::int) \<le> r"
  shows "l \<le> (l + r) sdiv 2" "(l + r) sdiv 2 \<le> r"
proof -
  have "x sdiv 2 = (if x \<ge> 0 then x div 2 else - (- x div 2))" for x :: int
    by (auto simp: signed_divide_int_def sgn_if)
  with assms show "l \<le> (l + r) sdiv 2" "(l + r) sdiv 2 \<le> r" by auto
qed

text \<open>
  The loop of \<open>stab_binsearch\<close>, with the division of C, which rounds towards zero. The result holds
  \<open>*region_left\<close>, \<open>*region_right\<close> and \<open>any_matches\<close>.
\<close>

function stab_search ::
  "stab list \<Rightarrow> 8 word \<Rightarrow> int \<Rightarrow> int \<Rightarrow> int \<Rightarrow> int \<Rightarrow> bool \<Rightarrow> u32 \<Rightarrow> (int \<times> int \<times> bool) cres" where
  "stab_search stabs type l r left right any addr =
     (if l \<le> r then
        let true_m = (l + r) sdiv 2
        in bindR (stab_back stabs l type true_m) (\<lambda>m.
          if m < l then stab_search stabs type (true_m + 1) r left right any addr
          else bindR (stab_at stabs m) (\<lambda>x.
            if n_value x < addr then stab_search stabs type (true_m + 1) r m right True addr
            else if n_value x > addr then stab_search stabs type l (m - 1) left (m - 1) True addr
            else stab_search stabs type m r m right True (addr + 1)))
      else Inr (left, right, any))"
  by pat_completeness auto
termination
proof (relation "measures [\<lambda>(stabs, type, l, r, left, right, any, addr). nat (r - l + 1),
    \<lambda>(stabs, type, l, r, left, right, any, addr). case stab_at stabs l of Inr x \<Rightarrow> if n_value x = addr then 1 else 0 | _ \<Rightarrow> 0]")
  fix stabs type l r left right any addr true_m m x
  assume a: "l \<le> r" "(true_m::int) = (l + r) sdiv 2" "stab_back stabs l type true_m = Inr m" "\<not> m < l"
    "stab_at stabs m = Inr x" "\<not> n_value x < addr" "\<not> addr < n_value x"
  have "n_value x = addr" using a(6,7) by simp
  then show "((stabs, type, m, r, m, right, True, addr + 1), stabs, type, l, r, left, right, any, addr)
      \<in> measures [\<lambda>(stabs, type, l, r, left, right, any, addr). nat (r - l + 1),
    \<lambda>(stabs, type, l, r, left, right, any, addr). case stab_at stabs l of Inr x \<Rightarrow> if n_value x = addr then 1 else 0 | _ \<Rightarrow> 0]"
    using a stab_back_range [OF a(3)] by (cases "m = l") auto
qed (auto dest!: stab_back_range dest: half_between)

declare stab_search.simps [simp del]

definition stab_binsearch :: "stab list \<Rightarrow> int \<Rightarrow> int \<Rightarrow> 8 word \<Rightarrow> u32 \<Rightarrow> (int \<times> int) cres" where
  "stab_binsearch stabs left0 right0 type addr =
     bindR (stab_search stabs type left0 right0 left0 right0 False addr) (\<lambda>(left, right, any_matches).
       if \<not> any_matches then Inr (left, left - 1)
       else bindR (stab_back stabs (left + 1) type right) (\<lambda>l. Inr (l, right)))"

section \<open>Information about an instruction\<close>

text \<open>
  The tables of the kernel or of the program: where they start and end, and what is stored there. The
  kernel's come from linker symbols, a program's addresses from a structure at \<open>USTABDATA\<close>.
\<close>

record debug_tables =
  dt_stabs :: u32
  dt_stab_end :: u32
  dt_stabstr :: u32
  dt_stabstr_end :: u32
  dt_stab_data :: "stab list"
  dt_str_data :: buffer

record eipdebuginfo =
  eip_file :: buffer
  eip_line :: int
  eip_fn_name :: buffer
  eip_fn_namelen :: int
  eip_fn_addr :: u32
  eip_fn_narg :: int

definition init_info :: "u32 \<Rightarrow> eipdebuginfo" where
  "init_info addr =
     \<lparr>eip_file = ''<unknown>'' @ [NUL], eip_line = 0, eip_fn_name = ''<unknown>'' @ [NUL], eip_fn_namelen = 9,
      eip_fn_addr = addr, eip_fn_narg = 0\<rparr>"

text \<open>\<open>stab_end - stabs\<close>, a difference of pointers to 12-byte entries; and the string an entry names.\<close>

definition stab_count :: "debug_tables \<Rightarrow> int" where
  "stab_count t = sint (dt_stab_end t - dt_stabs t) sdiv 12"

definition stab_name :: "debug_tables \<Rightarrow> stab \<Rightarrow> buffer \<Rightarrow> buffer" where
  "stab_name t x old =
     (if n_strx x < dt_stabstr_end t - dt_stabstr t then drop (unat (n_strx x)) (dt_str_data t) else old)"

text \<open>Whether a program's tables may be read.\<close>

definition user_tables_ok :: "debug_tables \<Rightarrow> kstate \<Rightarrow> (bool \<times> kstate) cres" where
  "user_tables_ok t s =
     (case curenv s of
        None \<Rightarrow> Inl NullDeref
      | Some c \<Rightarrow>
          bindR (user_mem_check c USTABDATA 16 0 s) (\<lambda>(r, s1).
            if r \<noteq> 0 then Inr (False, s1)
            else bindR (user_mem_check c (dt_stabs t) (word_of_int (stab_count t)) 0 s1) (\<lambda>(r1, s2).
              if r1 \<noteq> 0 then Inr (False, s2)
              else bindR (user_mem_check c (dt_stabstr t) (dt_stabstr_end t - dt_stabstr t) 0 s2) (\<lambda>(r2, s3).
                Inr (r2 = 0, s3)))))"

text \<open>The search backwards for the file: an \<open>N_SOL\<close>, or an \<open>N_SO\<close> with a value.\<close>

function file_back :: "stab list \<Rightarrow> int \<Rightarrow> int \<Rightarrow> int cres" where
  "file_back stabs lfile lline =
     (if lline \<ge> lfile then
        bindR (stab_at stabs lline) (\<lambda>x.
          if n_type x \<noteq> N_SOL \<and> (n_type x \<noteq> N_SO \<or> n_value x = 0) then file_back stabs lfile (lline - 1)
          else Inr lline)
      else Inr lline)"
  by pat_completeness auto
termination by (relation "measure (\<lambda>(stabs, lfile, lline). nat (lline - lfile + 1))") auto

text \<open>The number of parameters: the \<open>N_PSYM\<close> entries right after the function.\<close>

function count_args :: "stab list \<Rightarrow> int \<Rightarrow> int \<Rightarrow> int cres" where
  "count_args stabs rfun lline =
     (if lline < rfun then
        bindR (stab_at stabs lline) (\<lambda>x.
          if n_type x = N_PSYM then bindR (count_args stabs rfun (lline + 1)) (\<lambda>n. Inr (n + 1)) else Inr 0)
      else Inr 0)"
  by pat_completeness auto
termination by (relation "measure (\<lambda>(stabs, rfun, lline). nat (rfun - lline))") auto

definition find_function ::
  "debug_tables \<Rightarrow> u32 \<Rightarrow> int \<times> int \<Rightarrow> int \<times> int \<Rightarrow> eipdebuginfo \<Rightarrow> (u32 \<times> (int \<times> int) \<times> eipdebuginfo) cres" where
  "find_function t addr file fun info =
     (case fun of (lfun, rfun) \<Rightarrow>
        if lfun \<le> rfun then
          bindR (stab_at (dt_stab_data t) lfun) (\<lambda>x.
            Inr (addr - n_value x, (lfun, rfun),
              info\<lparr>eip_fn_name := stab_name t x (eip_fn_name info), eip_fn_addr := n_value x\<rparr>))
        else Inr (addr, file, info\<lparr>eip_fn_addr := addr\<rparr>))"

definition debuginfo_tables :: "debug_tables \<Rightarrow> u32 \<Rightarrow> eipdebuginfo \<Rightarrow> (int \<times> eipdebuginfo) cres" where
  "debuginfo_tables t addr0 info0 =
     (let stabs = dt_stab_data t
      in if dt_stabstr_end t \<le> dt_stabstr t then Inr (- 1, info0)
         else bindR (if unat (dt_stabstr_end t - dt_stabstr t - 1) < length (dt_str_data t)
                     then Inr (dt_str_data t ! unat (dt_stabstr_end t - dt_stabstr t - 1)) else Inl OutOfBounds) (\<lambda>final.
           if final \<noteq> NUL then Inr (- 1, info0)
           else bindR (stab_binsearch stabs 0 (stab_count t - 1) N_SO addr0) (\<lambda>(lfile, rfile).
             if lfile = 0 then Inr (- 1, info0)
             else bindR (stab_binsearch stabs lfile rfile N_FUN addr0) (\<lambda>(lfun, rfun).
               bindR (find_function t addr0 (lfile, rfile) (lfun, rfun) info0) (\<lambda>(addr, (lline0, rline0), info1).
               bindR (strfind (eip_fn_name info1) CHR '':'') (\<lambda>len.
                 let info2 = info1\<lparr>eip_fn_namelen := int len\<rparr>
                 in bindR (stab_binsearch stabs lline0 rline0 N_SLINE addr) (\<lambda>(lline, rline).
                    bindR (if lline \<le> rline
                           then bindR (stab_at stabs lline) (\<lambda>x. Inr (info2\<lparr>eip_line := uint (n_desc x)\<rparr>))
                           else Inr info2) (\<lambda>info3.
                    bindR (file_back stabs lfile lline) (\<lambda>k.
                    bindR (if k \<ge> lfile
                           then bindR (stab_at stabs k) (\<lambda>x. Inr (info3\<lparr>eip_file := stab_name t x (eip_file info3)\<rparr>))
                           else Inr info3) (\<lambda>info4.
                    bindR (if lfun < rfun then count_args stabs rfun (lfun + 1) else Inr 0) (\<lambda>narg.
                      Inr (0, info4\<lparr>eip_fn_narg := eip_fn_narg info4 + narg\<rparr>))))))))))))"

definition debuginfo_eip ::
  "debug_tables \<Rightarrow> debug_tables \<Rightarrow> u32 \<Rightarrow> kstate \<Rightarrow> (int \<times> eipdebuginfo \<times> kstate) cres" where
  "debuginfo_eip ktables utables addr s =
     bindR (if addr \<ge> ULIM then Inr (True, s) else user_tables_ok utables s) (\<lambda>(ok, s1).
       if \<not> ok then Inr (- 1, init_info addr, s1)
       else bindR (debuginfo_tables (if addr \<ge> ULIM then ktables else utables) addr (init_info addr))
              (\<lambda>(r, info). Inr (r, info, s1)))"

end
