(* ===== verification/KDebugProps.thy ===== *)
theory KDebugProps
  imports KDebug
begin

text \<open>
  The search in a symbol table: what \<open>stab_binsearch\<close> returns, by the invariant of its loop.
\<close>

section \<open>What the search finds\<close>

definition typed :: "stab list \<Rightarrow> 8 word \<Rightarrow> int \<Rightarrow> bool" where
  "typed stabs type i \<longleftrightarrow> 0 \<le> i \<and> i < int (length stabs) \<and> n_type (stabs ! nat i) = type"

abbreviation (input) stab_val :: "stab list \<Rightarrow> int \<Rightarrow> u32" where
  "stab_val stabs i \<equiv> n_value (stabs ! nat i)"

lemma stab_at_eq: "0 \<le> i \<Longrightarrow> i < int (length stabs) \<Longrightarrow> stab_at stabs i = Inr (stabs ! nat i)"
  by (simp add: stab_at_def)

lemma stab_back_finds:
  assumes "0 \<le> l" "m < int (length stabs)" "l \<le> m + 1"
  shows "\<exists>k. stab_back stabs l type m = Inr k \<and> l - 1 \<le> k \<and> k \<le> m \<and>
    (l \<le> k \<longrightarrow> typed stabs type k) \<and> (\<forall>i. k < i \<and> i \<le> m \<longrightarrow> \<not> typed stabs type i)"
  using assms
proof (induction stabs l type m rule: stab_back.induct)
  case (1 stabs l type m)
  show ?case
  proof (cases "l \<le> m")
    case False
    then have "stab_back stabs l type m = Inr m" by (simp add: stab_back.simps [of stabs l type m])
    then show ?thesis using 1(4) False by (intro exI [of _ m]) auto
  next
    case True
    then have x: "stab_at stabs m = Inr (stabs ! nat m)" using 1(2,3) by (simp add: stab_at_eq)
    show ?thesis
    proof (cases "n_type (stabs ! nat m) = type")
      case ty: True
      then have "stab_back stabs l type m = Inr m" using True x by (simp add: stab_back.simps [of stabs l type m])
      moreover have "typed stabs type m" using ty True 1(2,3) by (simp add: typed_def)
      ultimately show ?thesis using True by (intro exI [of _ m]) auto
    next
      case False
      have step: "stab_back stabs l type m = stab_back stabs l type (m - 1)"
        using True x False by (simp add: stab_back.simps [of stabs l type m])
      have "\<exists>k. stab_back stabs l type (m - 1) = Inr k \<and> l - 1 \<le> k \<and> k \<le> m - 1 \<and>
          (l \<le> k \<longrightarrow> typed stabs type k) \<and> (\<forall>i. k < i \<and> i \<le> m - 1 \<longrightarrow> \<not> typed stabs type i)"
        by (rule 1(1) [OF True x False]) (use 1(2,3) True in simp_all)
      then obtain k where k: "stab_back stabs l type (m - 1) = Inr k" "l - 1 \<le> k" "k \<le> m - 1"
        "l \<le> k \<longrightarrow> typed stabs type k" "\<forall>i. k < i \<and> i \<le> m - 1 \<longrightarrow> \<not> typed stabs type i" by blast
      have "\<not> typed stabs type m" using False by (simp add: typed_def)
      then have "\<forall>i. k < i \<and> i \<le> m \<longrightarrow> \<not> typed stabs type i" using k(5) by (metis le_less zle_diff1_eq)
      with k(1-4) step show ?thesis by (intro exI [of _ k]) simp
    qed
  qed
qed

text \<open>The state of the loop: which entries of the wanted type the bounds have left behind.\<close>

definition left_ok :: "stab list \<Rightarrow> 8 word \<Rightarrow> int \<Rightarrow> u32 \<Rightarrow> int \<Rightarrow> int \<Rightarrow> int \<Rightarrow> bool \<Rightarrow> bool" where
  "left_ok stabs type L a l r left any \<longleftrightarrow>
     left = L \<and> (\<forall>i. L \<le> i \<and> i < l \<longrightarrow> \<not> typed stabs type i) \<or>
     L \<le> left \<and> left \<le> l \<and> left \<le> r \<and> any \<and> typed stabs type left \<and> stab_val stabs left \<le> a \<and>
       (\<forall>i. left < i \<and> i < l \<longrightarrow> \<not> typed stabs type i)"

definition search_inv ::
  "stab list \<Rightarrow> 8 word \<Rightarrow> int \<Rightarrow> int \<Rightarrow> u32 \<Rightarrow> int \<Rightarrow> int \<Rightarrow> int \<Rightarrow> int \<Rightarrow> bool \<Rightarrow> u32 \<Rightarrow> bool" where
  "search_inv stabs type L R a l r left right any addr \<longleftrightarrow>
     L \<le> l \<and> l \<le> r + 1 \<and> r \<le> R \<and> right = r \<and>
     (\<forall>i. L \<le> i \<and> i < l \<and> typed stabs type i \<longrightarrow> stab_val stabs i \<le> a) \<and>
     (\<forall>i. r < i \<and> i \<le> R \<and> typed stabs type i \<longrightarrow> a < stab_val stabs i) \<and>
     (r < R \<longrightarrow> typed stabs type (r + 1)) \<and>
     (addr = a \<or> addr = a + 1) \<and> left_ok stabs type L a l r left any \<and>
     (\<not> any \<longrightarrow> r = R \<and> left = L \<and> (\<forall>i. L \<le> i \<and> i < l \<longrightarrow> \<not> typed stabs type i)) \<and>
     (any \<longrightarrow> (\<exists>i. L \<le> i \<and> i \<le> R \<and> typed stabs type i))"

lemma search_inv_D:
  assumes "search_inv stabs type L R a l r left right any addr"
  shows "L \<le> l" "l \<le> r + 1" "r \<le> R" "right = r"
    "L \<le> i \<Longrightarrow> i < l \<Longrightarrow> typed stabs type i \<Longrightarrow> stab_val stabs i \<le> a"
    "r < i \<Longrightarrow> i \<le> R \<Longrightarrow> typed stabs type i \<Longrightarrow> a < stab_val stabs i"
    "r < R \<Longrightarrow> typed stabs type (r + 1)" "addr = a \<or> addr = a + 1" "left_ok stabs type L a l r left any"
    "\<not> any \<Longrightarrow> r = R" "\<not> any \<Longrightarrow> left = L" "\<not> any \<Longrightarrow> L \<le> i \<Longrightarrow> i < l \<Longrightarrow> \<not> typed stabs type i"
    "any \<Longrightarrow> \<exists>i. L \<le> i \<and> i \<le> R \<and> typed stabs type i"
  using assms unfolding search_inv_def by blast+

definition stabs_ordered :: "stab list \<Rightarrow> 8 word \<Rightarrow> int \<Rightarrow> int \<Rightarrow> bool" where
  "stabs_ordered stabs type L R \<longleftrightarrow>
     (\<forall>i j. L \<le> i \<and> i < j \<and> j \<le> R \<and> typed stabs type i \<and> typed stabs type j \<longrightarrow> stab_val stabs i \<le> stab_val stabs j)"

text \<open>
  The loop looks for \<open>a + 1\<close> once it has met the address \<open>a\<close>; the search relies on no entry starting there.
\<close>

definition no_next :: "stab list \<Rightarrow> 8 word \<Rightarrow> int \<Rightarrow> int \<Rightarrow> u32 \<Rightarrow> bool" where
  "no_next stabs type L R a \<longleftrightarrow>
     a < a + 1 \<and> (\<forall>i. L \<le> i \<and> i \<le> R \<and> typed stabs type i \<longrightarrow> stab_val stabs i \<noteq> a + 1)"

lemma less_next: "(a::u32) < a + 1 \<Longrightarrow> v \<noteq> a + 1 \<Longrightarrow> v < a + 1 \<longleftrightarrow> v \<le> a"
  by (auto simp: word_less_nat_alt word_le_nat_alt unat_word_ariths word_unat_eq_iff split: if_splits)

lemma inv_miss:
  assumes I: "search_inv stabs type L R a l r left right any addr"
    and none: "\<And>i. l \<le> i \<Longrightarrow> i < l' \<Longrightarrow> \<not> typed stabs type i" and l': "l \<le> l'" "l' \<le> r + 1"
  shows "search_inv stabs type L R a l' r left right any addr"
proof -
  note D = search_inv_D [OF I]
  have more: "\<not> typed stabs type i" if "l \<le> i \<or> \<not> typed stabs type i" "i < l'" for i
    using none [of i] that by blast
  have "left_ok stabs type L a l' r left any"
    using D(9) more l'(1) unfolding left_ok_def by (metis linorder_not_le order_trans)
  moreover have "stab_val stabs i \<le> a" if "L \<le> i" "i < l'" "typed stabs type i" for i
    using D(5) none that by (metis linorder_not_le)
  moreover have "\<not> typed stabs type i" if "\<not> any" "L \<le> i" "i < l'" for i
    using D(12) none that by (metis linorder_not_le)
  ultimately show ?thesis
    unfolding search_inv_def using D(1-4,6-8,10,11,13) l' by (intro conjI allI impI) auto
qed

lemma inv_below:
  assumes I: "search_inv stabs type L R a l r left right any addr" and m: "l \<le> m" "m \<le> r" "typed stabs type m"
    and val: "stab_val stabs m \<le> a" and ord: "stabs_ordered stabs type L R"
    and l': "m \<le> l'" "l' \<le> r + 1" and none: "\<And>i. m < i \<Longrightarrow> i < l' \<Longrightarrow> \<not> typed stabs type i"
    and addr: "addr' = a \<or> addr' = a + 1"
  shows "search_inv stabs type L R a l' r m right True addr'"
proof -
  note D = search_inv_D [OF I]
  have low: "stab_val stabs i \<le> a" if "L \<le> i" "i < l'" "typed stabs type i" for i
  proof -
    have "i \<le> m" using none [of i] that by force
    then have "stab_val stabs i \<le> stab_val stabs m"
      using ord that m D(3) unfolding stabs_ordered_def by (cases "i = m") auto
    then show ?thesis using val by simp
  qed
  have "left_ok stabs type L a l' r m True"
    using m val none D(1) l'(1) unfolding left_ok_def by auto
  then show ?thesis
    unfolding search_inv_def using D(1-4,6,7) m l' low addr by (intro conjI allI impI exI [of _ m]) auto
qed

lemma inv_above:
  assumes I: "search_inv stabs type L R a l r left right any addr" and m: "l \<le> m" "m \<le> r" "typed stabs type m"
    and val: "a < stab_val stabs m" and ord: "stabs_ordered stabs type L R"
  shows "search_inv stabs type L R a l (m - 1) left (m - 1) True addr"
proof -
  note D = search_inv_D [OF I]
  have high: "a < stab_val stabs i" if "m - 1 < i" "i \<le> R" "typed stabs type i" for i
  proof (cases "i = m")
    case False
    then have "stab_val stabs m \<le> stab_val stabs i"
      using ord that m D(1) unfolding stabs_ordered_def by auto
    with val show ?thesis by simp
  qed (use val in simp)
  have "left_ok stabs type L a l (m - 1) left True"
  proof -
    have "left \<noteq> m" if "stab_val stabs left \<le> a" using that val by auto
    then show ?thesis using D(9) m unfolding left_ok_def by force
  qed
  then show ?thesis
    unfolding search_inv_def using D(1-3,5,8) m high by (intro conjI allI impI exI [of _ m]) auto
qed

lemma search_ok:
  assumes "search_inv stabs type L R a l r left right any addr" "0 \<le> L" "R < int (length stabs)"
    and "stabs_ordered stabs type L R" "no_next stabs type L R a"
  shows "\<exists>left' right' any' addr'. stab_search stabs type l r left right any addr = Inr (left', right', any') \<and>
    search_inv stabs type L R a (right' + 1) right' left' right' any' addr'"
  using assms
proof (induction stabs type l r left right any addr rule: stab_search.induct)
  case (1 stabs type l r left right any addr)
  note step = 1(1-4) and I = 1(5) and bounds = 1(6,7) and ord = 1(8) and nxt = 1(9)
  note D = search_inv_D [OF I] and eq = stab_search.simps [of stabs type l r left right any addr]
  have a: "a < a + 1" using nxt by (simp add: no_next_def)
  show ?case
  proof (cases "l \<le> r")
    case False
    then have "l = r + 1" "stab_search stabs type l r left right any addr = Inr (left, right, any)"
      using D(2) eq by simp_all
    with I D(4) show ?thesis by blast
  next
    case True
    let ?t = "(l + r) sdiv 2"
    note t = half_between [OF True]
    have b: "0 \<le> l" "?t < int (length stabs)" "l \<le> ?t + 1" using t D(1,3) bounds by simp_all
    obtain m where m: "stab_back stabs l type ?t = Inr m" "l - 1 \<le> m" "m \<le> ?t" "l \<le> m \<longrightarrow> typed stabs type m"
      "\<forall>i. m < i \<and> i \<le> ?t \<longrightarrow> \<not> typed stabs type i"
      using stab_back_finds [OF b] by blast
    show ?thesis
    proof (cases "m < l")
      case miss: True
      have eq': "stab_search stabs type l r left right any addr = stab_search stabs type (?t + 1) r left right any addr"
        unfolding eq using True miss m(1) by simp
      have "search_inv stabs type L R a (?t + 1) r left right any addr"
        by (rule inv_miss [OF I]) (use m(5) miss t in auto)
      from step(1) [OF True refl m(1) miss this bounds ord nxt] show ?thesis unfolding eq' .
    next
      case hit: False
      have at: "stab_at stabs m = Inr (stabs ! nat m)" using hit m(3) t D(1,3) bounds by (intro stab_at_eq) auto
      have tm: "l \<le> m" "m \<le> r" "typed stabs type m" using m(3,4) hit t(2) by simp_all
      have ne: "stab_val stabs m \<noteq> a + 1" using nxt tm D(1,3) by (auto simp: no_next_def)
      have run: "stab_search stabs type l r left right any addr =
          (if stab_val stabs m < addr then stab_search stabs type (?t + 1) r m right True addr
           else if stab_val stabs m > addr then stab_search stabs type l (m - 1) left (m - 1) True addr
           else stab_search stabs type m r m right True (addr + 1))"
        unfolding eq using True hit m(1) at by simp
      consider "stab_val stabs m < addr" | "stab_val stabs m > addr" | "stab_val stabs m = addr" by force
      then show ?thesis
      proof cases
        case 1
        have v: "stab_val stabs m \<le> a" using 1 D(8) less_next [OF a ne] by auto
        have "search_inv stabs type L R a (?t + 1) r m right True addr"
          by (rule inv_below [OF I tm v ord _ _ _ D(8)]) (use m(3,5) t in auto)
        from step(2) [OF True refl m(1) hit at 1 this bounds ord nxt] 1 show ?thesis unfolding run by simp
      next
        case 2
        have v: "a < stab_val stabs m" using 2 D(8) a by auto
        have "search_inv stabs type L R a l (m - 1) left (m - 1) True addr" by (rule inv_above [OF I tm v ord])
        moreover have "\<not> stab_val stabs m < addr" using 2 by simp
        ultimately show ?thesis using step(3) [OF True refl m(1) hit at _ 2 _ bounds ord nxt] 2 unfolding run by simp
      next
        case 3
        then have v: "addr = a" using D(8) ne by auto
        have "search_inv stabs type L R a m r m right True (addr + 1)"
          by (rule inv_below [OF I tm _ ord]) (use v 3 tm in auto)
        then show ?thesis using step(4) [OF True refl m(1) hit at _ _ _ bounds ord nxt] 3 unfolding run by simp
      qed
    qed
  qed
qed

text \<open>The loop after the search: nothing of the type between the bounds, so it stops at the left one.\<close>

lemma stab_back_none:
  assumes "0 \<le> l" "r < int (length stabs)" "\<And>i. l < i \<Longrightarrow> i \<le> r \<Longrightarrow> \<not> typed stabs type i"
  shows "stab_back stabs (l + 1) type r = Inr (min l r)"
proof (cases "l \<le> r")
  case True
  obtain k where k: "stab_back stabs (l + 1) type r = Inr k" "l \<le> k" "k \<le> r" "l + 1 \<le> k \<longrightarrow> typed stabs type k"
    using stab_back_finds [of "l + 1" r stabs type] assms(1,2) True by auto
  have "k = l" using assms(3) [of k] k by force
  with k True show ?thesis by simp
next
  case False
  then show ?thesis using stab_back.simps [of stabs "l + 1" type r] by simp
qed

lemma stab_binsearch_runs:
  assumes "0 \<le> L" "L \<le> R + 1" "R < int (length stabs)" "stabs_ordered stabs type L R" "no_next stabs type L R a"
  obtains left right any addr where "search_inv stabs type L R a (right + 1) right left right any addr"
    "stab_binsearch stabs L R type a = Inr (if any then (min left right, right) else (left, left - 1))"
proof -
  have "search_inv stabs type L R a L R L R False a"
    unfolding search_inv_def left_ok_def using assms(2) by auto
  from search_ok [OF this assms(1,3-5)] obtain left right any addr where
    s: "stab_search stabs type L R L R False a = Inr (left, right, any)"
      "search_inv stabs type L R a (right + 1) right left right any addr" by blast
  note D = search_inv_D [OF s(2)]
  have "stab_back stabs (left + 1) type right = Inr (min left right)"
    by (rule stab_back_none) (use D(3,9) assms(1,3) in \<open>auto simp: left_ok_def\<close>)
  then have "stab_binsearch stabs L R type a = Inr (if any then (min left right, right) else (left, left - 1))"
    using s(1) by (simp add: stab_binsearch_def)
  with s(2) show thesis by (rule that)
qed

text \<open>C14: When the entries of the wanted type are in order in the range and none of them starts one byte after the
  address, \<open>stab_binsearch\<close> returns, with bounds that fit: the entries up to the right bound are exactly
  those that start at or before the address, the entry after it is of the type unless the range ends, and
  the left bound is the last entry that starts at or before the address, if there is one. Without any
  entry of the type the right bound is just before the left one.\<close>

theorem stab_binsearch_brackets:
  assumes "0 \<le> L" "L \<le> R + 1" "R < int (length stabs)" "stabs_ordered stabs type L R" "no_next stabs type L R addr"
  shows "\<exists>left right. stab_binsearch stabs L R type addr = Inr (left, right) \<and>
    (if \<exists>i. L \<le> i \<and> i \<le> R \<and> typed stabs type i
     then L - 1 \<le> right \<and> right \<le> R \<and> (right < R \<longrightarrow> typed stabs type (right + 1)) \<and>
       (\<forall>i. L \<le> i \<and> i \<le> R \<and> typed stabs type i \<longrightarrow> (stab_val stabs i \<le> addr \<longleftrightarrow> i \<le> right)) \<and>
       (if \<exists>i. L \<le> i \<and> i \<le> R \<and> typed stabs type i \<and> stab_val stabs i \<le> addr
        then typed stabs type left \<and> L \<le> left \<and> stab_val stabs left \<le> addr \<and>
          (\<forall>i. left < i \<and> i \<le> right \<longrightarrow> \<not> typed stabs type i)
        else left = min L right)
     else left = L \<and> right = L - 1)"
proof -
  obtain left right any a where I: "search_inv stabs type L R addr (right + 1) right left right any a"
    and run: "stab_binsearch stabs L R type addr = Inr (if any then (min left right, right) else (left, left - 1))"
    by (rule stab_binsearch_runs [OF assms])
  note D = search_inv_D [OF I]
  show ?thesis
  proof (cases any)
    case False
    then have none: "\<not> (\<exists>i. L \<le> i \<and> i \<le> R \<and> typed stabs type i)" using D(10,12) by force
    show ?thesis unfolding if_not_P [OF none] using run False D(11) by simp
  next
    case True
    have split: "stab_val stabs i \<le> addr \<longleftrightarrow> i \<le> right" if "L \<le> i" "i \<le> R" "typed stabs type i" for i
      using D(5) [of i] D(6) [of i] that by (cases "i \<le> right") auto
    have last: "typed stabs type left \<and> L \<le> left \<and> left \<le> right \<and> stab_val stabs left \<le> addr \<and>
        (\<forall>i. left < i \<and> i \<le> right \<longrightarrow> \<not> typed stabs type i)"
      if "L \<le> j" "j \<le> R" "typed stabs type j" "stab_val stabs j \<le> addr" for j
      using D(9) split [OF that(1-3)] that unfolding left_ok_def by force
    have first: "left = L" if "\<forall>j. L \<le> j \<and> j \<le> R \<and> typed stabs type j \<longrightarrow> \<not> stab_val stabs j \<le> addr"
      using D(9) D(3) that unfolding left_ok_def by force
    have some: "\<exists>i. L \<le> i \<and> i \<le> R \<and> typed stabs type i" using D(13) True .
    have run: "stab_binsearch stabs L R type addr = Inr (min left right, right)" using run True by simp
    have bounds: "L - 1 \<le> right" "right \<le> R" "right < R \<longrightarrow> typed stabs type (right + 1)" using D(1-3,7) by auto
    show ?thesis
    proof (cases "\<exists>i. L \<le> i \<and> i \<le> R \<and> typed stabs type i \<and> stab_val stabs i \<le> addr")
      case True
      then obtain j where "L \<le> j" "j \<le> R" "typed stabs type j" "stab_val stabs j \<le> addr" by blast
      note l = last [OF this]
      then have "min left right = left" by simp
      then show ?thesis
        unfolding if_P [OF some] if_P [OF True] using run bounds split l by (intro exI [of _ "left"] exI [of _ right] conjI) simp_all
    next
      case False
      then have "left = L" using first by blast
      then show ?thesis
        unfolding if_P [OF some] if_not_P [OF False] using run bounds split by blast
    qed
  qed
qed

definition small_stabs :: "stab list" where
  "small_stabs = map (\<lambda>(t, v). \<lparr>n_strx = 0, n_type = t, n_other = 0, n_desc = 0, n_value = v\<rparr>)
     [(0, 0), (N_SO, 0x10), (N_FUN, 0x10), (N_SLINE, 0), (N_FUN, 0x11), (N_SO, 0x40)]"

lemma small_stabs_typed:
  "typed small_stabs N_SO i \<longleftrightarrow> i = 1 \<or> i = 5" "typed small_stabs N_FUN i \<longleftrightarrow> i = 2 \<or> i = 4"
proof -
  have "0 \<le> i \<and> i < 6 \<longleftrightarrow> i = 0 \<or> i = 1 \<or> i = 2 \<or> i = 3 \<or> i = 4 \<or> i = 5" by auto
  then show "typed small_stabs N_SO i \<longleftrightarrow> i = 1 \<or> i = 5" "typed small_stabs N_FUN i \<longleftrightarrow> i = 2 \<or> i = 4"
    unfolding typed_def by (auto simp: small_stabs_def)
qed

theorem stab_binsearch_brackets_witness:
  "stab_binsearch small_stabs 0 5 N_SO 0x20 = Inr (1, 4)"
proof -
  have vals: "stab_val small_stabs 1 = 0x10" "stab_val small_stabs 5 = 0x40" by (simp_all add: small_stabs_def)
  note vals = vals [simplified]
  have len: "length small_stabs = 6" by (simp add: small_stabs_def)
  have ord: "stabs_ordered small_stabs N_SO 0 5" "no_next small_stabs N_SO 0 5 0x20"
    by (auto simp: stabs_ordered_def no_next_def small_stabs_typed vals)
  obtain left right where r: "stab_binsearch small_stabs 0 5 N_SO 0x20 = Inr (left, right)"
    "right \<le> 5" "right < 5 \<longrightarrow> typed small_stabs N_SO (right + 1)"
    "\<forall>i. 0 \<le> i \<and> i \<le> 5 \<and> typed small_stabs N_SO i \<longrightarrow> (stab_val small_stabs i \<le> 0x20 \<longleftrightarrow> i \<le> right)"
    "typed small_stabs N_SO left" "stab_val small_stabs left \<le> 0x20"
  proof -
    have ex: "\<exists>i. 0 \<le> i \<and> i \<le> 5 \<and> typed small_stabs N_SO i \<and> stab_val small_stabs i \<le> 0x20"
      by (rule exI [of _ 1]) (simp add: small_stabs_typed vals)
    then have ex': "\<exists>i. 0 \<le> i \<and> i \<le> 5 \<and> typed small_stabs N_SO i" by blast
    show thesis
      using stab_binsearch_brackets [of 0 5 small_stabs N_SO "0x20"] ord ex ex' that len by auto
  qed
  have "1 \<le> right" using r(4) [rule_format, of 1] by (simp add: small_stabs_typed vals)
  moreover have "right < 5" using r(4) [rule_format, of 5] by (simp add: small_stabs_typed vals)
  ultimately have "right = 4" using r(3) by (simp add: small_stabs_typed)
  moreover have "left = 1" using r(5,6) by (auto simp: small_stabs_typed vals)
  ultimately show ?thesis using r(1) by simp
qed

text \<open>
  Without the hypothesis the search is wrong: with functions at 0x10 and 0x11, the address 0x10 is found
  in the second one.
\<close>

lemma stab_binsearch_next_byte: "stab_binsearch small_stabs 1 4 N_FUN 0x10 = Inr (4, 4)"
proof -
  have at: "stab_at small_stabs 1 = Inr (small_stabs ! 1)" "stab_at small_stabs 2 = Inr (small_stabs ! 2)"
    "stab_at small_stabs 3 = Inr (small_stabs ! 3)" "stab_at small_stabs 4 = Inr (small_stabs ! 4)"
    by (simp_all add: stab_at_def small_stabs_def)
  have v: "small_stabs ! 1 = \<lparr>n_strx = 0, n_type = N_SO, n_other = 0, n_desc = 0, n_value = 0x10\<rparr>"
    "small_stabs ! 2 = \<lparr>n_strx = 0, n_type = N_FUN, n_other = 0, n_desc = 0, n_value = 0x10\<rparr>"
    "small_stabs ! 3 = \<lparr>n_strx = 0, n_type = N_SLINE, n_other = 0, n_desc = 0, n_value = 0\<rparr>"
    "small_stabs ! 4 = \<lparr>n_strx = 0, n_type = N_FUN, n_other = 0, n_desc = 0, n_value = 0x11\<rparr>"
    by (simp_all add: small_stabs_def)
  have half: "5 sdiv (2::int) = 2" "7 sdiv (2::int) = 3" "8 sdiv (2::int) = 4" "6 sdiv (2::int) = 3"
    by (simp_all add: signed_divide_int_def)
  note backwards = stab_back.simps [of small_stabs]
  show ?thesis
    unfolding stab_binsearch_def
    by (simp add: stab_search.simps backwards at v [simplified] half v)
qed

end
