(* ===== verification/KMonitor.thy ===== *)
theory KMonitor
  imports LibPrintf KTypes
begin

text \<open>
  The kernel monitor, \<^verbatim>\<open>src/3-sched/kern/monitor.c\<close>: splitting a line in place into arguments and running
  the command they name, and what the split computes.
\<close>

section \<open>Splitting the line\<close>

abbreviation (input) MAXARGS :: nat where "MAXARGS \<equiv> 16"

definition whitespace :: "byte \<Rightarrow> bool" where
  "whitespace c \<longleftrightarrow> c \<in> {CHR 0x09, CHR 0x0D, CHR 0x0A, CHR '' ''}"

text \<open>\<open>while (*buf && strchr(WHITESPACE, *buf)) *buf++ = 0;\<close>\<close>

function gobble :: "buffer \<Rightarrow> nat \<Rightarrow> (buffer \<times> nat) cres" where
  "gobble buf i =
     (if i < length buf then
        (if buf ! i \<noteq> NUL \<and> whitespace (buf ! i) then gobble (buf[i := NUL]) (i + 1) else Inr (buf, i))
      else Inl OutOfBounds)"
  by pat_completeness auto
termination by (relation "measure (\<lambda>(buf, i). length buf - i)") auto

text \<open>\<open>while (*buf && !strchr(WHITESPACE, *buf)) buf++;\<close>\<close>

function skip_arg :: "buffer \<Rightarrow> nat \<Rightarrow> nat cres" where
  "skip_arg buf i =
     (if i < length buf then
        (if buf ! i \<noteq> NUL \<and> \<not> whitespace (buf ! i) then skip_arg buf (i + 1) else Inr i)
      else Inl OutOfBounds)"
  by pat_completeness auto
termination by (relation "measure (\<lambda>(buf, i). length buf - i)") auto

declare gobble.simps [simp del] skip_arg.simps [simp del]

lemma gobble_stops:
  "gobble buf i = Inr (b, j) \<Longrightarrow> i \<le> j \<and> j < length b \<and> length b = length buf \<and> (b ! j = NUL \<or> \<not> whitespace (b ! j))"
proof (induction buf i rule: gobble.induct)
  case (1 buf i)
  then show ?case by (auto simp: gobble.simps [of buf i] split: if_splits)
qed

lemma skip_arg_moves: "skip_arg buf i = Inr k \<Longrightarrow> i \<le> k \<and> (buf ! i \<noteq> NUL \<and> \<not> whitespace (buf ! i) \<longrightarrow> i < k)"
proof (induction buf i rule: skip_arg.induct)
  case (1 buf i)
  then show ?case by (auto simp: skip_arg.simps [of buf i] split: if_splits)
qed

text \<open>
  The loop collects the positions of the arguments in \<open>argv\<close>. \<open>None\<close>: there were too many.
\<close>

function parse_args :: "buffer \<Rightarrow> nat \<Rightarrow> nat list \<Rightarrow> (buffer \<times> nat list) option cres" where
  "parse_args buf i argv =
     bindR (gobble buf i) (\<lambda>(b, j).
       if b ! j = NUL then Inr (Some (b, argv))
       else if length argv = MAXARGS - 1 then Inr None
       else bindR (skip_arg b j) (\<lambda>k. parse_args b k (argv @ [j])))"
  by pat_completeness auto
termination
proof (relation "measure (\<lambda>(buf, i, argv). length buf - i)")
  fix buf i argv bj b j k
  assume "gobble buf i = Inr bj" "(b, j) = bj" "b ! j \<noteq> NUL" "skip_arg b j = Inr k"
  then show "((b, k, argv @ [j]), buf, i, argv) \<in> measure (\<lambda>(buf, i, argv). length buf - i)"
    using gobble_stops [of buf i b j] skip_arg_moves [of b j k] by auto
qed simp

declare parse_args.simps [simp del]

section \<open>Commands\<close>

text \<open>\<open>cprintf\<close> returns the number of characters printed, here with the text.\<close>

definition cprintf :: "string \<Rightarrow> vararg list \<Rightarrow> (nat \<times> string) cres" where
  "cprintf fmt ap = bindR (vprintfmt fmt ap) (\<lambda>out. Inr (length out, out))"

abbreviation (input) newline :: string where "newline \<equiv> [CHR 0x0A]"

text \<open>Several calls in a row: the texts one after the other.\<close>

definition print_all :: "(string \<times> vararg list) list \<Rightarrow> string cres" where
  "print_all calls = foldR (\<lambda>(fmt, ap) out. bindR (cprintf fmt ap) (\<lambda>(_, text). Inr (out @ text))) calls []"

definition commands :: "(string \<times> string) list" where
  "commands = [(''help'', ''Display this list of commands''), (''kerninfo'', ''Display information about the kernel'')]"

definition mon_help :: "(int \<times> string) cres" where
  "mon_help = bindR (print_all (map (\<lambda>(name, desc). (''%s - %s'' @ newline, [Str_arg (Some name), Str_arg (Some desc)])) commands))
     (\<lambda>out. Inr (0, out))"

text \<open>The linker symbols.\<close>

record kernel_symbols =
  sym_start :: u32
  sym_entry :: u32
  sym_etext :: u32
  sym_edata :: u32
  sym_end :: u32

definition mon_kerninfo :: "kernel_symbols \<Rightarrow> (int \<times> string) cres" where
  "mon_kerninfo k =
     (let both = (\<lambda>v. [Int_arg v, Int_arg (v - KERNBASE)])
      in bindR (print_all
           [(''Special kernel symbols:'' @ newline, []),
            (''  _start                  %08x (phys)'' @ newline, [Int_arg (sym_start k)]),
            (''  entry  %08x (virt)  %08x (phys)'' @ newline, both (sym_entry k)),
            (''  etext  %08x (virt)  %08x (phys)'' @ newline, both (sym_etext k)),
            (''  edata  %08x (virt)  %08x (phys)'' @ newline, both (sym_edata k)),
            (''  end    %08x (virt)  %08x (phys)'' @ newline, both (sym_end k)),
            (''Kernel executable memory footprint: %dKB'' @ newline,
               [Int_arg (ROUNDUP (sym_end k - sym_entry k) 1024 div 1024)])])
         (\<lambda>out. Inr (0, out)))"

definition mon_backtrace :: "(int \<times> string) cres" where
  "mon_backtrace = Inr (0, [])"

definition run_command :: "kernel_symbols \<Rightarrow> string \<Rightarrow> (int \<times> string) cres" where
  "run_command k name = (if name = ''help'' then mon_help else mon_kerninfo k)"

text \<open>The loop over the table; the first entry whose name compares equal is run.\<close>

fun lookup_command :: "kernel_symbols \<Rightarrow> buffer \<Rightarrow> (string \<times> string) list \<Rightarrow> (int \<times> string) cres" where
  "lookup_command k arg0 [] =
     bindR (cprintf (''Unknown command '' @ [CHR 0x27] @ ''%s'' @ [CHR 0x27] @ newline) [Str_arg (Some (cstr arg0))])
       (\<lambda>(_, out). Inr (0, out))"
| "lookup_command k arg0 ((name, desc) # cs) =
     bindR (strcmp arg0 (name @ [NUL])) (\<lambda>d. if d = 0 then run_command k name else lookup_command k arg0 cs)"

definition runcmd :: "kernel_symbols \<Rightarrow> buffer \<Rightarrow> (int \<times> string) cres" where
  "runcmd k buf =
     bindR (parse_args buf 0 []) (\<lambda>parsed.
       case parsed of
         None \<Rightarrow> bindR (cprintf (''Too many arguments (max %d)'' @ newline) [Int_arg (word_of_nat MAXARGS)])
                   (\<lambda>(_, out). Inr (0, out))
       | Some (b, argv) \<Rightarrow> if argv = [] then Inr (0, []) else lookup_command k (drop (argv ! 0) b) commands)"

text \<open>
  The monitor on the lines it reads (\<open>None\<close> is a failed \<open>readline\<close>): whether it was left, and the text
  that the commands printed.
\<close>

fun monitor :: "kernel_symbols \<Rightarrow> buffer option list \<Rightarrow> (bool \<times> string) cres" where
  "monitor k [] = Inr (False, [])"
| "monitor k (None # lines) = monitor k lines"
| "monitor k (Some buf # lines) =
     bindR (runcmd k buf) (\<lambda>(r, out).
       if r < 0 then Inr (True, out) else bindR (monitor k lines) (\<lambda>(left, more). Inr (left, out @ more)))"

section \<open>What the split computes\<close>

text \<open>The arguments of a line, without indices.\<close>

function arguments :: "string \<Rightarrow> string list" where
  "arguments s =
     (let t = dropWhile whitespace s
      in if t = [] then []
         else takeWhile (\<lambda>c. \<not> whitespace c) t # arguments (dropWhile (\<lambda>c. \<not> whitespace c) t))"
  by pat_completeness auto
termination
proof (relation "measure length")
  fix s :: string and t assume t: "t = dropWhile whitespace s" "t \<noteq> []"
  then obtain c u where c: "t = c # u" "\<not> whitespace c" by (metis hd_dropWhile list.exhaust_sel)
  have "length (dropWhile (\<lambda>c. \<not> whitespace c) t) \<le> length u"
    using c by (simp add: length_dropWhile_le)
  moreover have "length t \<le> length s" unfolding t(1) by (rule length_dropWhile_le)
  ultimately show "(dropWhile (\<lambda>c. \<not> whitespace c) t, s) \<in> measure length" using c(1) by simp
qed simp

declare arguments.simps [simp del]

definition blank :: "string \<Rightarrow> buffer" where
  "blank = map (\<lambda>c. if whitespace c then NUL else c)"

lemma gobble_line:
  assumes "NUL \<notin> set t"
  shows "gobble (pre @ t @ NUL # rest) (length pre) =
    Inr (pre @ blank (takeWhile whitespace t) @ dropWhile whitespace t @ NUL # rest,
      length pre + length (takeWhile whitespace t))"
  using assms
proof (induction t arbitrary: pre)
  case Nil
  then show ?case by (simp add: gobble.simps blank_def)
next
  case (Cons c t)
  have step: "gobble (pre @ (c # t) @ NUL # rest) (length pre) = gobble ((pre @ [NUL]) @ t @ NUL # rest) (length (pre @ [NUL]))"
    if "whitespace c" using that Cons.prems by (subst gobble.simps) (auto simp: nth_append list_update_append)
  show ?case
  proof (cases "whitespace c")
    case True
    with step [OF True] Cons.IH [of "pre @ [NUL]"] Cons.prems show ?thesis by (simp add: blank_def)
  next
    case False
    then show ?thesis by (subst gobble.simps) (simp add: nth_append blank_def)
  qed
qed

lemma skip_line:
  assumes "NUL \<notin> set t"
  shows "skip_arg (pre @ t @ NUL # rest) (length pre) = Inr (length pre + length (takeWhile (\<lambda>c. \<not> whitespace c) t))"
  using assms
proof (induction t arbitrary: pre)
  case Nil
  then show ?case by (simp add: skip_arg.simps)
next
  case (Cons c t)
  have "skip_arg (pre @ (c # t) @ NUL # rest) (length pre) =
      (if whitespace c then Inr (length pre) else skip_arg ((pre @ [c]) @ t @ NUL # rest) (length (pre @ [c])))"
    using Cons.prems by (subst skip_arg.simps) (auto simp: nth_append)
  with Cons.IH [of "pre @ [c]"] Cons.prems show ?case by simp
qed

text \<open>Where the arguments start.\<close>

function starts :: "nat \<Rightarrow> string \<Rightarrow> nat list" where
  "starts k s =
     (let n = length (takeWhile whitespace s); t = dropWhile whitespace s
      in if t = [] then []
         else (k + n) # starts (k + n + length (takeWhile (\<lambda>c. \<not> whitespace c) t)) (dropWhile (\<lambda>c. \<not> whitespace c) t))"
  by pat_completeness auto
termination
proof (relation "measure (length \<circ> snd)")
  fix k n :: nat and s :: string and t assume t: "t = dropWhile whitespace s" "t \<noteq> []"
  show "((k + n + length (takeWhile (\<lambda>c. \<not> whitespace c) t), dropWhile (\<lambda>c. \<not> whitespace c) t), k, s)
      \<in> measure (length \<circ> snd)"
  proof -
    obtain c u where c: "t = c # u" "\<not> whitespace c" using t by (metis hd_dropWhile list.exhaust_sel)
    have "length t \<le> length s" unfolding t(1) by (rule length_dropWhile_le)
    with c length_dropWhile_le [of "\<lambda>c. \<not> whitespace c" u] show ?thesis by simp
  qed
qed simp

declare starts.simps [simp del]

lemma blank_append: "blank (s @ t) = blank s @ blank t"
  by (simp add: blank_def)

lemma blank_arg: "blank (takeWhile (\<lambda>c. \<not> whitespace c) t) = takeWhile (\<lambda>c. \<not> whitespace c) t"
  unfolding blank_def by (rule map_idI) (auto dest: set_takeWhileD)

lemma length_blank [simp]: "length (blank s) = length s"
  by (simp add: blank_def)

text \<open>A line is blanks, an argument and a rest.\<close>

lemma blank_split:
  "blank t = blank (takeWhile whitespace t) @ takeWhile (\<lambda>c. \<not> whitespace c) (dropWhile whitespace t) @
     blank (dropWhile (\<lambda>c. \<not> whitespace c) (dropWhile whitespace t))"
proof -
  have "t = takeWhile whitespace t @ takeWhile (\<lambda>c. \<not> whitespace c) (dropWhile whitespace t) @
      dropWhile (\<lambda>c. \<not> whitespace c) (dropWhile whitespace t)" by simp
  then have "blank t = blank (takeWhile whitespace t @ takeWhile (\<lambda>c. \<not> whitespace c) (dropWhile whitespace t) @
      dropWhile (\<lambda>c. \<not> whitespace c) (dropWhile whitespace t))" by (rule arg_cong)
  then show ?thesis by (simp only: blank_append blank_arg)
qed

lemma parse_args_line:
  assumes "NUL \<notin> set t" "length argv \<le> 15"
  shows "parse_args (pre @ t @ NUL # rest) (length pre) argv =
    (if length argv + length (arguments t) \<le> 15
     then Inr (Some (pre @ blank t @ NUL # rest, argv @ starts (length pre) t)) else Inr None)"
  using assms
proof (induction t arbitrary: pre argv rule: arguments.induct)
  case (1 t)
  let ?w = "takeWhile whitespace t" and ?u = "dropWhile whitespace t"
  let ?a = "takeWhile (\<lambda>c. \<not> whitespace c) ?u" and ?v = "dropWhile (\<lambda>c. \<not> whitespace c) ?u"
  have nul: "NUL \<notin> set ?u" "NUL \<notin> set ?v" using 1(2) by (auto dest!: set_dropWhileD)
  note g = gobble_line [OF 1(2), of pre rest]
  show ?case
  proof (cases "?u = []")
    case True
    then have "?w = t" by (metis append_Nil2 takeWhile_dropWhile_id)
    with True g 1(3) show ?thesis
      by (simp add: parse_args.simps [of _ "length pre"] arguments.simps [of t] starts.simps [of _ t] nth_append)
  next
    case False
    then obtain c u where c: "?u = c # u" by (cases ?u) auto
    have at: "(pre @ blank ?w @ ?u @ NUL # rest) ! (length pre + length ?w) \<noteq> NUL"
      using nul(1) by (auto simp: c nth_append)
    have args: "arguments t = ?a # arguments ?v"
      "starts (length pre) t = (length pre + length ?w) # starts (length pre + length ?w + length ?a) ?v"
      unfolding arguments.simps [of t] starts.simps [of "length pre" t] Let_def if_not_P [OF False] by (rule refl)+
    show ?thesis
    proof (cases "length argv = 15")
      case True
      then show ?thesis using g at args by (simp add: parse_args.simps [of _ "length pre"])
    next
      case False
      let ?pre = "pre @ blank ?w @ ?a"
      have k: "skip_arg ((pre @ blank ?w) @ ?u @ NUL # rest) (length (pre @ blank ?w)) =
          Inr (length (pre @ blank ?w) + length ?a)" by (rule skip_line [OF nul(1)])
      have buf: "pre @ blank ?w @ ?u @ NUL # rest = ?pre @ ?v @ NUL # rest" by simp
      have "parse_args (pre @ t @ NUL # rest) (length pre) argv =
          parse_args (?pre @ ?v @ NUL # rest) (length ?pre) (argv @ [length pre + length ?w])"
        using g at False k by (simp add: parse_args.simps [of _ "length pre"] buf add.assoc)
      also have "\<dots> = (if length (argv @ [length pre + length ?w]) + length (arguments ?v) \<le> 15
          then Inr (Some (?pre @ blank ?v @ NUL # rest, (argv @ [length pre + length ?w]) @ starts (length ?pre) ?v))
          else Inr None)"
        by (rule 1(1) [OF refl \<open>?u \<noteq> []\<close> nul(2)]) (use False 1(3) in simp)
      finally show ?thesis
        using blank_split [of t] by (simp add: args add.assoc)
    qed
  qed
qed

lemma cstr_arg: "cstr (takeWhile (\<lambda>c. \<not> whitespace c) u @ blank (dropWhile (\<lambda>c. \<not> whitespace c) u) @ NUL # rest) =
    takeWhile (\<lambda>c. \<not> whitespace c) u" if "NUL \<notin> set u"
proof -
  have "NUL \<notin> set (takeWhile (\<lambda>c. \<not> whitespace c) u)" using that by (auto dest: set_takeWhileD)
  moreover have "\<exists>r. blank (dropWhile (\<lambda>c. \<not> whitespace c) u) @ NUL # rest = NUL # r"
  proof (cases "dropWhile (\<lambda>c. \<not> whitespace c) u")
    case (Cons c v)
    then have "whitespace c" by (metis dropWhile_eq_Cons_conv)
    with Cons show ?thesis by (simp add: blank_def)
  next
    case Nil
    show ?thesis unfolding Nil blank_def by simp
  qed
  ultimately show ?thesis by auto
qed

lemma starts_hold_arguments:
  assumes "NUL \<notin> set t"
  shows "map (\<lambda>j. cstr (drop j (pre @ blank t @ NUL # rest))) (starts (length pre) t) = arguments t"
  using assms
proof (induction t arbitrary: pre rule: arguments.induct)
  case (1 t)
  let ?w = "takeWhile whitespace t" and ?u = "dropWhile whitespace t"
  let ?a = "takeWhile (\<lambda>c. \<not> whitespace c) ?u" and ?v = "dropWhile (\<lambda>c. \<not> whitespace c) ?u"
  have nul: "NUL \<notin> set ?u" "NUL \<notin> set ?v" using 1(2) by (auto dest!: set_dropWhileD)
  show ?case
  proof (cases "?u = []")
    case True
    then show ?thesis by (simp add: arguments.simps [of t] starts.simps [of _ t])
  next
    case False
    have args: "arguments t = ?a # arguments ?v"
      "starts (length pre) t = (length pre + length ?w) # starts (length pre + length ?w + length ?a) ?v"
      unfolding arguments.simps [of t] starts.simps [of "length pre" t] Let_def if_not_P [OF False] by (rule refl)+
    let ?pre = "pre @ blank ?w @ ?a"
    have buf: "pre @ blank t @ NUL # rest = ?pre @ blank ?v @ NUL # rest" using blank_split [of t] by simp
    have "map (\<lambda>j. cstr (drop j (?pre @ blank ?v @ NUL # rest))) (starts (length ?pre) ?v) = arguments ?v"
      by (rule 1(1) [OF refl False nul(2)])
    moreover have "cstr (drop (length pre + length ?w) (?pre @ blank ?v @ NUL # rest)) = ?a"
      using cstr_arg [OF nul(1)] by simp
    ultimately show ?thesis unfolding buf args by (simp add: add.assoc)
  qed
qed

text \<open>C29: The monitor splits a line into its arguments, the maximal runs of characters that are not blanks: for at most
  fifteen of them it keeps one pointer to each, a terminated string inside the line; for more it gives up
  without running anything. No access leaves the line.\<close>

theorem monitor_splits_arguments:
  assumes "NUL \<notin> set s"
  shows "if length (arguments s) \<le> 15
    then \<exists>b argv. parse_args (s @ NUL # rest) 0 [] = Inr (Some (b, argv)) \<and> length b = length (s @ NUL # rest) \<and>
      map (\<lambda>j. cstr (drop j b)) argv = arguments s
    else parse_args (s @ NUL # rest) 0 [] = Inr None"
  using parse_args_line [OF assms, of "[]" "[]" rest] starts_hold_arguments [OF assms, of "[]" rest] by simp

theorem monitor_splits_arguments_witness:
  "\<exists>b argv. parse_args (''  help me '' @ NUL # []) 0 [] = Inr (Some (b, argv)) \<and>
     map (\<lambda>j. cstr (drop j b)) argv = [''help'', ''me'']"
proof -
  have "arguments ''  help me '' = [''help'', ''me'']"
    by (simp add: arguments.simps whitespace_def)
  with monitor_splits_arguments [of "''  help me ''" "[]"] show ?thesis by auto
qed

text \<open>No command returns a negative number, so nothing that is typed leaves the monitor.\<close>

lemma lookup_zero: "lookup_command k arg0 cs = Inr (r, out) \<Longrightarrow> r = 0"
  by (induction cs)
    (auto simp: cres_simps run_command_def mon_help_def mon_kerninfo_def Let_def split: if_splits)

lemma runcmd_zero: "runcmd k buf = Inr (r, out) \<Longrightarrow> r = 0"
  by (auto simp: runcmd_def cres_simps dest: lookup_zero split: option.splits if_splits)

lemma monitor_stays: "monitor k lines = Inr (left, out) \<Longrightarrow> \<not> left"
proof (induction lines arbitrary: out)
  case (Cons l lines)
  then show ?case
    by (cases l) (auto simp: cres_simps dest!: runcmd_zero split: if_splits)
qed simp

end
