(* ===== verification/KMpConfig.thy ===== *)
theory KMpConfig
  imports KTypes
begin

text \<open>
  Finding the processors: \<^verbatim>\<open>src/3-sched/kern/mpconfig.c\<close>, which looks for the configuration tables the
  firmware left in memory. Physical memory is a function from addresses to bytes; \<open>np\<close> is the number of
  physical pages, which \<open>KADDR\<close> checks.
\<close>

type_synonym memory = "u32 \<Rightarrow> 8 word"

abbreviation (input) NCPU :: nat where "NCPU \<equiv> 8"

definition check_addr :: "nat \<Rightarrow> u32 \<Rightarrow> unit cres" where
  "check_addr np pa = guardR (PGNUM pa < np) (Panic ''KADDR called with invalid pa'')"

definition word16 :: "memory \<Rightarrow> u32 \<Rightarrow> u16" where
  "word16 mem a = ucast (mem a) OR push_bit 8 (ucast (mem (a + 1)))"

definition word32 :: "memory \<Rightarrow> u32 \<Rightarrow> u32" where
  "word32 mem a = ucast (word16 mem a) OR push_bit 16 (ucast (word16 mem (a + 2)))"

text \<open>\<open>sum\<close>: in \<open>int\<close>, then cut to a byte on return.\<close>

definition mp_sum :: "memory \<Rightarrow> u32 \<Rightarrow> nat \<Rightarrow> 8 word" where
  "mp_sum mem addr len = word_of_int (sum_list (map (\<lambda>i. uint (mem (addr + word_of_nat i))) [0..<len]))"

definition bytes_at :: "memory \<Rightarrow> u32 \<Rightarrow> nat \<Rightarrow> 8 word list" where
  "bytes_at mem a n = map (\<lambda>i. mem (a + word_of_nat i)) [0..<n]"

section \<open>The floating pointer\<close>

definition mpsearch1 :: "memory \<Rightarrow> nat \<Rightarrow> u32 \<Rightarrow> nat \<Rightarrow> u32 option cres" where
  "mpsearch1 mem np a len =
     bindR (check_addr np a) (\<lambda>_. bindR (check_addr np (a + word_of_nat len)) (\<lambda>_.
       Inr (find (\<lambda>mp. bytes_at mem mp 4 = [0x5F, 0x4D, 0x50, 0x5F] \<and> mp_sum mem mp 16 = 0)
              (map (\<lambda>i. a + 16 * word_of_nat i) [0..<(len + 15) div 16]))))"

definition mpsearch :: "memory \<Rightarrow> nat \<Rightarrow> u32 option cres" where
  "mpsearch mem np =
     bindR (check_addr np 0x400) (\<lambda>_.
       let ebda = word16 mem 0x40E
       in bindR (if ebda \<noteq> 0 then mpsearch1 mem np (push_bit 4 (ucast ebda)) 1024
                 else mpsearch1 mem np (ucast (word16 mem 0x413) * 1024 - 1024) 1024) (\<lambda>found.
          case found of Some mp \<Rightarrow> Inr (Some mp) | None \<Rightarrow> mpsearch1 mem np 0xF0000 0x10000))"

section \<open>The configuration table\<close>

text \<open>The fields, at their offsets in the packed structures \<open>mp\<close> and \<open>mpconf\<close>.\<close>

definition mp_physaddr :: "memory \<Rightarrow> u32 \<Rightarrow> u32" where "mp_physaddr mem mp = word32 mem (mp + 4)"
definition mp_type :: "memory \<Rightarrow> u32 \<Rightarrow> 8 word" where "mp_type mem mp = mem (mp + 11)"
definition mp_imcrp :: "memory \<Rightarrow> u32 \<Rightarrow> 8 word" where "mp_imcrp mem mp = mem (mp + 12)"
definition conf_length :: "memory \<Rightarrow> u32 \<Rightarrow> u16" where "conf_length mem conf = word16 mem (conf + 4)"
definition conf_version :: "memory \<Rightarrow> u32 \<Rightarrow> 8 word" where "conf_version mem conf = mem (conf + 6)"
definition conf_entry :: "memory \<Rightarrow> u32 \<Rightarrow> u16" where "conf_entry mem conf = word16 mem (conf + 34)"
definition conf_lapicaddr :: "memory \<Rightarrow> u32 \<Rightarrow> u32" where "conf_lapicaddr mem conf = word32 mem (conf + 36)"
definition conf_xlength :: "memory \<Rightarrow> u32 \<Rightarrow> u16" where "conf_xlength mem conf = word16 mem (conf + 40)"
definition conf_xchecksum :: "memory \<Rightarrow> u32 \<Rightarrow> 8 word" where "conf_xchecksum mem conf = mem (conf + 42)"

text \<open>The pointer and the table, or nothing when a check fails (with a message that is left out).\<close>

definition mpconfig :: "memory \<Rightarrow> nat \<Rightarrow> (u32 \<times> u32) option cres" where
  "mpconfig mem np =
     bindR (mpsearch mem np) (\<lambda>found.
       case found of
         None \<Rightarrow> Inr None
       | Some mp \<Rightarrow>
           if mp_physaddr mem mp = 0 \<or> mp_type mem mp \<noteq> 0 then Inr None
           else let conf = mp_physaddr mem mp
             in bindR (check_addr np conf) (\<lambda>_.
                if bytes_at mem conf 4 \<noteq> [0x50, 0x43, 0x4D, 0x50] then Inr None
                else if mp_sum mem conf (unat (conf_length mem conf)) \<noteq> 0 then Inr None
                else if conf_version mem conf \<noteq> 1 \<and> conf_version mem conf \<noteq> 4 then Inr None
                else if mp_sum mem (conf + ucast (conf_length mem conf)) (unat (conf_xlength mem conf)) +
                        conf_xchecksum mem conf \<noteq> 0 then Inr None
                else Inr (Some (mp, conf))))"

section \<open>The processors\<close>

text \<open>\<open>mp_ids\<close> holds the identifiers stored so far, one per slot of \<open>cpus\<close> in use; \<open>ncpu\<close> is their number.\<close>

record mp_state =
  mp_bootcpu :: nat
  mp_ids :: "nat list"
  ismp :: bool
  lapicaddr :: u32

definition mp_start :: mp_state where
  "mp_start = \<lparr>mp_bootcpu = 0, mp_ids = [], ismp = False, lapicaddr = 0\<rparr>"

definition MPPROC_BOOT :: "8 word" where "MPPROC_BOOT = 2"

definition mp_proc :: "8 word \<Rightarrow> mp_state \<Rightarrow> mp_state" where
  "mp_proc flags st =
     (let st1 = (if flags AND MPPROC_BOOT \<noteq> 0 then st\<lparr>mp_bootcpu := length (mp_ids st)\<rparr> else st)
      in if length (mp_ids st) < NCPU then st1\<lparr>mp_ids := mp_ids st @ [length (mp_ids st)]\<rparr> else st1)"

text \<open>The loop over the entries that are left; an entry of an unknown type ends it.\<close>

fun mp_entries :: "memory \<Rightarrow> nat \<Rightarrow> u32 \<Rightarrow> mp_state \<Rightarrow> mp_state" where
  "mp_entries mem 0 p st = st"
| "mp_entries mem (Suc n) p st =
     (if mem p = 0 then mp_entries mem n (p + 20) (mp_proc (mem (p + 3)) st)
      else if mem p \<in> {1, 2, 3, 4} then mp_entries mem n (p + 8) st
      else st\<lparr>ismp := False\<rparr>)"

text \<open>
  The result: the state, the number of processors, the boot processor whose status is set to started
  (if a table was found) and the values written to ports; \<open>pic\<close> is what port 0x23 reads.
\<close>

definition mp_init :: "memory \<Rightarrow> nat \<Rightarrow> 8 word \<Rightarrow> (mp_state \<times> nat \<times> nat option \<times> (u16 \<times> 8 word) list) cres" where
  "mp_init mem np pic =
     bindR (mpconfig mem np) (\<lambda>found.
       case found of
         None \<Rightarrow> Inr (mp_start, 0, None, [])
       | Some (mp, conf) \<Rightarrow>
           let st = mp_entries mem (unat (conf_entry mem conf)) (conf + 44)
                      (mp_start\<lparr>ismp := True, lapicaddr := conf_lapicaddr mem conf\<rparr>)
           in bindR (guardR (mp_bootcpu st < NCPU) OutOfBounds) (\<lambda>_.
              if \<not> ismp st then Inr (st\<lparr>lapicaddr := 0\<rparr>, 1, Some (mp_bootcpu st), [])
              else Inr (st, length (mp_ids st), Some (mp_bootcpu st),
                if mp_imcrp mem mp \<noteq> 0 then [(0x22, 0x70), (0x23, pic OR 1)] else [])))"

section \<open>Which processors are found\<close>

text \<open>The flags of the processor entries of a table, up to the first entry of an unknown type.\<close>

fun proc_flags :: "memory \<Rightarrow> nat \<Rightarrow> u32 \<Rightarrow> 8 word list" where
  "proc_flags mem 0 p = []"
| "proc_flags mem (Suc n) p =
     (if mem p = 0 then mem (p + 3) # proc_flags mem n (p + 20)
      else if mem p \<in> {1, 2, 3, 4} then proc_flags mem n (p + 8) else [])"

fun known_entries :: "memory \<Rightarrow> nat \<Rightarrow> u32 \<Rightarrow> bool" where
  "known_entries mem 0 p \<longleftrightarrow> True"
| "known_entries mem (Suc n) p \<longleftrightarrow>
     (if mem p = 0 then known_entries mem n (p + 20) else mem p \<in> {1, 2, 3, 4} \<and> known_entries mem n (p + 8))"

text \<open>The last processor with the boot flag; the first one when no entry has it.\<close>

definition boot_position :: "8 word list \<Rightarrow> nat" where
  "boot_position flags = fold (\<lambda>i b. if flags ! i AND MPPROC_BOOT \<noteq> 0 then i else b) [0..<length flags] 0"

definition mp_after :: "8 word list \<Rightarrow> mp_state \<Rightarrow> mp_state" where
  "mp_after flags st = fold mp_proc flags st"

lemma mp_entries_procs:
  "mp_entries mem n p st = (mp_after (proc_flags mem n p) st)\<lparr>ismp := ismp st \<and> known_entries mem n p\<rparr>"
proof (induction n arbitrary: p st)
  case (Suc n)
  have "ismp (mp_proc f st) = ismp st" for f by (simp add: mp_proc_def Let_def)
  with Suc show ?case by (simp add: mp_after_def)
qed (simp add: mp_after_def)

lemma boot_position_snoc:
  "boot_position (fs @ [f]) = (if f AND MPPROC_BOOT \<noteq> 0 then length fs else boot_position fs)"
proof -
  have "fold (\<lambda>i b. if (fs @ [f]) ! i AND MPPROC_BOOT \<noteq> 0 then i else b) [0..<length fs] 0 =
      fold (\<lambda>i b. if fs ! i AND MPPROC_BOOT \<noteq> 0 then i else b) [0..<length fs] 0"
    by (rule fold_cong) (simp_all add: nth_append)
  then show ?thesis by (simp add: boot_position_def)
qed

lemma mp_after_start:
  assumes "mp_bootcpu st = 0" "mp_ids st = []"
  shows "mp_ids (mp_after flags st) = [0..<min NCPU (length flags)]"
    "mp_bootcpu (mp_after flags st) = min NCPU (boot_position flags)"
    "ismp (mp_after flags st) = ismp st" "lapicaddr (mp_after flags st) = lapicaddr st"
proof -
  have "mp_ids (mp_after flags st) = [0..<min NCPU (length flags)] \<and>
    mp_bootcpu (mp_after flags st) = min NCPU (boot_position flags) \<and>
    ismp (mp_after flags st) = ismp st \<and> lapicaddr (mp_after flags st) = lapicaddr st"
  proof (induction flags rule: rev_induct)
    case (snoc f fs)
    have after: "mp_after (fs @ [f]) st = mp_proc f (mp_after fs st)" by (simp add: mp_after_def)
    show ?case
    proof (cases "length fs < NCPU")
      case True
      then have "min NCPU (length fs) = length fs" "min NCPU (Suc (length fs)) = Suc (length fs)" by simp_all
      with snoc True show ?thesis unfolding after boot_position_snoc mp_proc_def Let_def by simp
    next
      case False
      then have "min NCPU (length fs) = NCPU" "min NCPU (Suc (length fs)) = NCPU" by simp_all
      with snoc False show ?thesis unfolding after boot_position_snoc mp_proc_def Let_def by simp
    qed
  qed (simp add: mp_after_def boot_position_def assms)
  then show "mp_ids (mp_after flags st) = [0..<min NCPU (length flags)]"
    "mp_bootcpu (mp_after flags st) = min NCPU (boot_position flags)"
    "ismp (mp_after flags st) = ismp st" "lapicaddr (mp_after flags st) = lapicaddr st" by blast+
qed

text \<open>C33: When a valid table of known entries is found, the kernel numbers the first eight processors and takes
  the last one with the boot flag for the one it runs on. When more than eight precede or include it, the
  kernel writes the status of that processor behind the end of its array.\<close>

theorem mp_init_finds_processors:
  assumes "mpconfig mem np = Inr (Some (mp, conf))"
    and "known_entries mem (unat (conf_entry mem conf)) (conf + 44)"
  shows "let flags = proc_flags mem (unat (conf_entry mem conf)) (conf + 44)
    in if boot_position flags < NCPU
       then \<exists>st ports. mp_init mem np pic = Inr (st, min NCPU (length flags), Some (boot_position flags), ports) \<and>
         mp_ids st = [0..<min NCPU (length flags)] \<and> ismp st \<and> lapicaddr st = conf_lapicaddr mem conf
       else mp_init mem np pic = Inl OutOfBounds"
proof -
  let ?n = "unat (conf_entry mem conf)" and ?st = "mp_start\<lparr>ismp := True, lapicaddr := conf_lapicaddr mem conf\<rparr>"
  let ?flags = "proc_flags mem ?n (conf + 44)"
  have st: "mp_bootcpu ?st = 0" "mp_ids ?st = []" "ismp ?st" "lapicaddr ?st = conf_lapicaddr mem conf"
    by (simp_all add: mp_start_def)
  note A = mp_after_start [OF st(1,2), of ?flags]
  show ?thesis
    unfolding Let_def mp_init_def assms(1) using assms(2) A st(3,4)
    by (simp add: mp_entries_procs min_def guardR_def)
qed

text \<open>A table with two processors, the second of them the boot processor, in the EBDA at 0x9FC00.\<close>

definition table_memory :: memory where
  "table_memory a = (case map_of
    [(0x40E, 192), (0x40F, 159), (0x9FC00, 95), (0x9FC01, 77), (0x9FC02, 80), (0x9FC03, 95), (0x9FC04,
     16), (0x9FC05, 252), (0x9FC06, 9), (0x9FC08, 1), (0x9FC09, 4), (0x9FC0A, 139), (0x9FC10, 80),
     (0x9FC11, 67), (0x9FC12, 77), (0x9FC13, 80), (0x9FC14, 84), (0x9FC16, 4), (0x9FC17, 107), (0x9FC32,
     2), (0x9FC36, 224), (0x9FC37, 254), (0x9FC3E, 20), (0x9FC3F, 1), (0x9FC51, 1), (0x9FC52, 20),
     (0x9FC53, 3)] a of Some b \<Rightarrow> b | None \<Rightarrow> 0)"

lemma table_words:
  "word16 table_memory 0x40E = 0x9FC0" "word32 table_memory 0x9FC04 = 0x9FC10" "word16 table_memory 0x9FC14 = 84"
  "word16 table_memory 0x9FC38 = 0" "word16 table_memory 0x9FC32 = 2" "word32 table_memory 0x9FC34 = 0xFEE00000"
  by (simp_all add: word16_def word32_def table_memory_def)

lemma table_entries:
  "table_memory 0x9FC3C = 0" "table_memory 0x9FC3F = 1" "table_memory 0x9FC50 = 0" "table_memory 0x9FC53 = 3"
  by (simp_all add: table_memory_def)

lemma table_sums: "mp_sum table_memory 0x9FC00 16 = 0" "mp_sum table_memory 0x9FC10 84 = 0" "mp_sum table_memory a 0 = 0"
  by (simp_all add: mp_sum_def table_memory_def upt_rec)

lemma mpsearch1_first:
  assumes "check_addr np a = Inr ()" "check_addr np (a + word_of_nat len) = Inr ()" "len > 0"
    and "bytes_at mem a 4 = [0x5F, 0x4D, 0x50, 0x5F]" "mp_sum mem a 16 = 0"
  shows "mpsearch1 mem np a len = Inr (Some a)"
proof -
  have "[0..<(len + 15) div 16] = 0 # [1..<(len + 15) div 16]" using assms(3) by (subst upt_conv_Cons) auto
  then show ?thesis using assms by (simp add: mpsearch1_def)
qed

lemma table_found: "mpsearch table_memory 0x100000 = Inr (Some 0x9FC00)"
proof -
  have "bytes_at table_memory 0x9FC00 4 = [0x5F, 0x4D, 0x50, 0x5F]"
    by (simp add: bytes_at_def table_memory_def upt_rec)
  then have "mpsearch1 table_memory 0x100000 0x9FC00 1024 = Inr (Some 0x9FC00)"
    using table_sums(1) by (intro mpsearch1_first) (simp_all add: check_addr_def PGNUM_def)
  then show ?thesis by (simp add: mpsearch_def check_addr_def PGNUM_def table_words)
qed

lemma table_config: "mpconfig table_memory 0x100000 = Inr (Some (0x9FC00, 0x9FC10))"
proof -
  have "bytes_at table_memory 0x9FC10 4 = [0x50, 0x43, 0x4D, 0x50]"
    "mp_type table_memory 0x9FC00 = 0" "conf_version table_memory 0x9FC10 = 4" "conf_xchecksum table_memory 0x9FC10 = 0"
    by (simp_all add: bytes_at_def table_memory_def upt_rec mp_type_def conf_version_def conf_xchecksum_def)
  then show ?thesis
    by (simp add: mpconfig_def table_found mp_physaddr_def table_words check_addr_def PGNUM_def conf_length_def
        conf_xlength_def table_sums)
qed

theorem mp_init_finds_processors_witness:
  "\<exists>st ports. mp_init table_memory 0x100000 0 = Inr (st, 2, Some 1, ports) \<and> mp_ids st = [0, 1] \<and> ismp st \<and>
     lapicaddr st = 0xFEE00000"
proof -
  have n: "unat (conf_entry table_memory 0x9FC10) = 2" by (simp add: conf_entry_def table_words)
  have k: "known_entries table_memory 2 (0x9FC10 + 44)" "proc_flags table_memory 2 (0x9FC10 + 44) = [1, 3]"
    by (simp_all add: numeral_2_eq_2 table_entries)
  have b: "boot_position [1, 3] = 1" by (simp add: boot_position_def MPPROC_BOOT_def upt_rec)
  have l: "conf_lapicaddr table_memory 0x9FC10 = 0xFEE00000" by (simp add: conf_lapicaddr_def table_words)
  show ?thesis
    using mp_init_finds_processors [OF table_config, of 0] k(1) unfolding n k(2) b l Let_def by (simp add: upt_rec numeral_2_eq_2)
qed

end
