(* ===== verification/KMap.thy ===== *)
theory KMap
  imports KVmOps KFrame
begin

text \<open>
  Building the kernel's address space: \<open>mem_init\<close> of \<^verbatim>\<open>src/3-sched/kern/pmap.c\<close> in its two phases, the
  allocation of the kernel's data and the mappings above \<open>UTOP\<close>, and what \<open>boot_map_region\<close> does to a page
  directory under construction. The self-tests that run between the phases are left out.
\<close>

section \<open>The code\<close>

abbreviation (input) NCPU :: nat where "NCPU \<equiv> 8"
abbreviation (input) PTE_PS :: u32 where "PTE_PS \<equiv> 0x080"
abbreviation (input) KSTACKTOP :: u32 where "KSTACKTOP \<equiv> KERNBASE"
abbreviation (input) KSTKSIZE :: u32 where "KSTKSIZE \<equiv> 8 * PGSIZE"
abbreviation (input) KSTKGAP :: u32 where "KSTKGAP \<equiv> 8 * PGSIZE"

text \<open>\<open>sizeof(struct PageInfo)\<close> and \<open>NENV * sizeof(struct Env)\<close> on i386.\<close>

abbreviation (input) sizeof_PageInfo :: u32 where "sizeof_PageInfo \<equiv> 8"
abbreviation (input) envs_size :: u32 where "envs_size \<equiv> 1024 * 128"

definition pages_size :: "kstate \<Rightarrow> u32" where
  "pages_size s = word_of_nat (npages s) * sizeof_PageInfo"

text \<open>
  \<open>mem_init\<close> up to \<open>page_init\<close>, from the values the CMOS returns; the result holds the addresses of
  the arrays \<open>pages\<close> and \<open>envs\<close>.
\<close>

definition mem_init_allocate :: "u32 \<Rightarrow> u32 \<times> u32 \<times> u32 \<Rightarrow> kstate \<Rightarrow> (u32 \<times> u32 \<times> kstate) cres" where
  "mem_init_allocate kend cmos s0 =
     (let s = s0\<lparr>npages := unat (fst (case cmos of (basemem, extmem, ext16) \<Rightarrow> i386_detect_memory basemem extmem ext16))\<rparr>
      in bindR (boot_alloc kend PGSIZE s) (\<lambda>(pgdir, s1).
         bindR (PADDR pgdir) (\<lambda>pa.
         let pd = PGNUM pa;
             s2 = s1\<lparr>kern_pgdir := pd, phys := (phys s1)(pd := (\<lambda>_. 0))\<rparr>;
             s3 = write_word pd (PDX UVPT) (pa OR PTE_U OR PTE_P) s2
         in bindR (boot_alloc kend (pages_size s3) s3) (\<lambda>(pages_kva, s4).
            let s5 = s4\<lparr>pages := replicate (npages s4) \<lparr>pp_link = None, pp_ref = 0\<rparr>\<rparr>
            in bindR (boot_alloc kend envs_size s5) (\<lambda>(envs_kva, s6).
               let s7 = s6\<lparr>envs := replicate NENV zero_env\<rparr>
               in bindR (page_init kend s7) (\<lambda>s8. Inr (pages_kva, envs_kva, s8)))))))"

definition mem_init_mp :: "u32 \<Rightarrow> kstate \<Rightarrow> kstate cres" where
  "mem_init_mp percpu_kstacks s =
     foldR (\<lambda>i s.
       let stack_start = KSTACKTOP - word_of_nat i * (KSTKSIZE + KSTKGAP) - KSTKSIZE
       in bindR (PADDR (percpu_kstacks + word_of_nat i * KSTKSIZE)) (\<lambda>pa.
          boot_map_region (kern_pgdir s) stack_start KSTKSIZE pa (PTE_W OR PTE_P) s)) [0..<NCPU] s"

definition mem_init_map :: "u32 \<Rightarrow> u32 \<Rightarrow> u32 \<Rightarrow> kstate \<Rightarrow> kstate cres" where
  "mem_init_map pages_kva envs_kva percpu_kstacks s =
     bindR (PADDR pages_kva) (\<lambda>pages_pa.
     bindR (boot_map_region (kern_pgdir s) UPAGES (ROUNDUP (pages_size s) PGSIZE) pages_pa (PTE_U OR PTE_P) s) (\<lambda>s1.
     bindR (PADDR envs_kva) (\<lambda>envs_pa.
     bindR (boot_map_region (kern_pgdir s1) UENVS (ROUNDUP envs_size PGSIZE) envs_pa (PTE_U OR PTE_P) s1) (\<lambda>s2.
     bindR (boot_map_region (kern_pgdir s2) KERNBASE (push_bit 28 1) 0 (PTE_W OR PTE_P) s2) (\<lambda>s3.
       mem_init_mp percpu_kstacks s3)))))"

text \<open>The self-test of the result. \<open>assertR\<close> is \<open>assert\<close>.\<close>

definition assertR :: "bool \<Rightarrow> unit cres" where
  "assertR b = guardR b (Panic ''assertion failed'')"

definition check_va2pa :: "nat \<Rightarrow> u32 \<Rightarrow> kstate \<Rightarrow> u32 cres" where
  "check_va2pa pgdir va s =
     (let pde = phys s pgdir (PDX va)
      in if pde AND PTE_P = 0 then Inr (NOT 0)
         else if pde AND PTE_PS \<noteq> 0 then Inr (PGADDR (PDX pde) (PTX va) (va AND 0xFFF))
         else bindR (KADDR s (PTE_ADDR pde)) (\<lambda>_.
           let pte = phys s (PGNUM (PTE_ADDR pde)) (PTX va)
           in if pte AND PTE_P = 0 then Inr (NOT 0) else Inr (PTE_ADDR pte)))"

text \<open>One loop: the pages from \<open>va\<close> on are mapped to those from \<open>pa\<close> on.\<close>

definition check_region :: "nat \<Rightarrow> u32 \<Rightarrow> u32 \<Rightarrow> u32 cres \<Rightarrow> kstate \<Rightarrow> unit cres" where
  "check_region pgdir va n pa s =
     foldR (\<lambda>i _. bindR (check_va2pa pgdir (va + i) s) (\<lambda>a. bindR pa (\<lambda>p. assertR (a = p + i)))) (va_range 0 n) ()"

definition check_unmapped :: "nat \<Rightarrow> u32 \<Rightarrow> u32 \<Rightarrow> kstate \<Rightarrow> unit cres" where
  "check_unmapped pgdir va n s =
     foldR (\<lambda>i _. bindR (check_va2pa pgdir (va + i) s) (\<lambda>a. assertR (a = NOT 0))) (va_range 0 n) ()"

definition check_pde :: "nat \<Rightarrow> kstate \<Rightarrow> nat \<Rightarrow> unit cres" where
  "check_pde pgdir s i =
     (if i \<in> {PDX UVPT, PDX (KSTACKTOP - 1), PDX UPAGES, PDX UENVS, PDX MMIOBASE} then
        assertR (phys s pgdir i AND PTE_P \<noteq> 0)
      else if i \<ge> PDX KERNBASE then
        bindR (assertR (phys s pgdir i AND PTE_P \<noteq> 0)) (\<lambda>_. assertR (phys s pgdir i AND PTE_W \<noteq> 0))
      else assertR (phys s pgdir i = 0))"

definition check_kern_pgdir :: "u32 \<Rightarrow> u32 \<Rightarrow> u32 \<Rightarrow> kstate \<Rightarrow> unit cres" where
  "check_kern_pgdir pages_kva envs_kva percpu_kstacks s =
     (let pgdir = kern_pgdir s
      in bindR (check_region pgdir UPAGES (ROUNDUP (pages_size s) PGSIZE) (PADDR pages_kva) s) (\<lambda>_.
         bindR (check_region pgdir UENVS (ROUNDUP envs_size PGSIZE) (PADDR envs_kva) s) (\<lambda>_.
         bindR (check_region pgdir KERNBASE (word_of_nat (npages s) * PGSIZE) (Inr 0) s) (\<lambda>_.
         bindR (foldR (\<lambda>n _.
           let base = KSTACKTOP - (KSTKSIZE + KSTKGAP) * (word_of_nat n + 1)
           in bindR (check_region pgdir (base + KSTKGAP) KSTKSIZE (PADDR (percpu_kstacks + word_of_nat n * KSTKSIZE)) s) (\<lambda>_.
                check_unmapped pgdir base KSTKGAP s)) [0..<NCPU] ()) (\<lambda>_.
           foldR (\<lambda>i _. check_pde pgdir s i) [0..<NPDENTRIES] ())))))"

section \<open>A page directory under construction\<close>

text \<open>
  \<open>J\<close> are the slots that may be in use. Every slot but the one that maps the directory itself holds a
  page table of its own, outside the free list.
\<close>

definition kdir :: "nat set \<Rightarrow> nat \<Rightarrow> kstate \<Rightarrow> bool" where
  "kdir J pd s \<longleftrightarrow> page_inv s \<and> pd < npages s \<and> pd \<notin> set (page_pool s) \<and>
     {i. i < 1024 \<and> phys s pd i \<noteq> 0} \<subseteq> J \<and> finite J \<and>
     (\<forall>i<1024. i \<noteq> PDX UVPT \<and> phys s pd i \<noteq> 0 \<longrightarrow> phys s pd i AND 0xFFF = 7) \<and>
     (\<forall>i<1024. i \<noteq> PDX UVPT \<and> phys s pd i \<noteq> 0 \<longrightarrow>
        pt_of s pd i < npages s \<and> pt_of s pd i \<notin> set (page_pool s) \<and> pt_of s pd i \<noteq> pd) \<and>
     (\<forall>i<1024. \<forall>j<1024. i \<noteq> PDX UVPT \<and> j \<noteq> PDX UVPT \<and> phys s pd i \<noteq> 0 \<and> phys s pd j \<noteq> 0 \<and>
        pt_of s pd i = pt_of s pd j \<longrightarrow> i = j)"

text \<open>Free pages and tables in use: the sum stays the same.\<close>

definition budget :: "nat \<Rightarrow> kstate \<Rightarrow> nat" where
  "budget pd s = length (page_pool s) + card {i. i < 1024 \<and> phys s pd i \<noteq> 0}"

lemma kdir_D:
  assumes "kdir J pd s"
  shows "page_inv s" "pd < npages s" "pd \<notin> set (page_pool s)" "{i. i < 1024 \<and> phys s pd i \<noteq> 0} \<subseteq> J" "finite J"
    "i < 1024 \<Longrightarrow> i \<noteq> PDX UVPT \<Longrightarrow> phys s pd i \<noteq> 0 \<Longrightarrow> pt_of s pd i < npages s"
    "i < 1024 \<Longrightarrow> i \<noteq> PDX UVPT \<Longrightarrow> phys s pd i \<noteq> 0 \<Longrightarrow> pt_of s pd i \<notin> set (page_pool s)"
    "i < 1024 \<Longrightarrow> i \<noteq> PDX UVPT \<Longrightarrow> phys s pd i \<noteq> 0 \<Longrightarrow> pt_of s pd i \<noteq> pd"
    "pt_of s pd i = pt_of s pd j \<Longrightarrow> i < 1024 \<Longrightarrow> j < 1024 \<Longrightarrow> i \<noteq> PDX UVPT \<Longrightarrow> j \<noteq> PDX UVPT \<Longrightarrow>
       phys s pd i \<noteq> 0 \<Longrightarrow> phys s pd j \<noteq> 0 \<Longrightarrow> i = j"
    "i < 1024 \<Longrightarrow> i \<noteq> PDX UVPT \<Longrightarrow> phys s pd i \<noteq> 0 \<Longrightarrow> phys s pd i AND 0xFFF = 7"
  using assms unfolding kdir_def by blast+

lemma pool_left:
  assumes "kdir J pd s" "i \<in> J" "i < 1024" "phys s pd i = 0" "card J \<le> budget pd s"
  shows "page_pool s \<noteq> []"
proof
  assume "page_pool s = []"
  then have "card J \<le> card {i. i < 1024 \<and> phys s pd i \<noteq> 0}" using assms(5) by (simp add: budget_def)
  moreover have "{i. i < 1024 \<and> phys s pd i \<noteq> 0} \<subset> J" using kdir_D(4) [OF assms(1)] assms(2,4) by auto
  ultimately show False using psubset_card_mono [OF kdir_D(5) [OF assms(1)]] by (metis not_le)
qed

text \<open>The walk that creates a missing table: nothing changes but the directory slot and a zeroed page.\<close>

lemma kdir_walk:
  assumes k: "kdir J pd s" and i: "PDX va \<in> J" "PDX va \<noteq> PDX UVPT" and b: "card J \<le> budget pd s"
  obtains s1 where "pgdir_walk pd va True s = Inr (Some (pt_of s1 pd (PDX va), PTX va), s1)" "kdir J pd s1"
    "phys s1 pd (PDX va) \<noteq> 0" "budget pd s1 = budget pd s" "npages s1 = npages s"
    "\<And>va'. PDX va' \<noteq> PDX UVPT \<Longrightarrow> translate s1 pd va' = translate s pd va'"
    "\<And>i. phys s pd i \<noteq> 0 \<Longrightarrow> phys s1 pd i = phys s pd i" "rest s1 = rest s" "set (page_pool s1) \<subseteq> set (page_pool s)"
    "\<And>q. q \<notin> set (page_pool s) \<Longrightarrow> page_ref s1 q = page_ref s q"
proof (cases "phys s pd (PDX va) = 0")
  case False
  have "pgdir_walk pd va True s = Inr (Some (pt_of s pd (PDX va), PTX va), s)"
    using kdir_D(6) [OF k _ i(2) False] False by (simp add: pgdir_walk_def KADDR_def pt_of_def)
  then show thesis using that k False by blast
next
  case True
  note D = kdir_D [OF k]
  obtain p ps where pool: "page_pool s = p # ps"
    using pool_left [OF k i(1) _ True b] by (cases "page_pool s") auto
  note A = page_alloc_cons [OF D(1) pool] and P = with_table_pages [OF D(1) pool, of pd "PDX va"]
  let ?s = "with_table p pd (PDX va) s" and ?w = "page2pa p OR 7"
  have p20: "p < 1048576" using A(5) page_inv_D(2) [OF D(1)] by simp
  then have w: "?w \<noteq> 0" "PGNUM ?w = p" using pte_nonzero [of p 7] by simp_all
  have ne: "p \<noteq> pd" using D(3) pool by auto
  have ph: "phys ?s t j = (if t = pd \<and> j = PDX va then ?w else if t = p then 0 else phys s t j)" for t j
    by (simp add: with_table_def)
  have walk: "pgdir_walk pd va True s = Inr (Some (pt_of ?s pd (PDX va), PTX va), ?s)"
    using w p20 A(1,5) True ne by (simp add: pgdir_walk_def KADDR_def with_table_def pt_of_def)
  have pt: "pt_of ?s pd j = (if j = PDX va then p else pt_of s pd j)" for j
    using w ne by (simp add: pt_of_def ph)
  have old: "pt_of s pd j \<noteq> p" "pt_of s pd j \<noteq> pd" if "j < 1024" "j \<noteq> PDX UVPT" "phys s pd j \<noteq> 0" for j
    using D(7,8) [OF that] pool by auto
  have nz: "phys ?s pd j \<noteq> 0 \<longleftrightarrow> j = PDX va \<or> phys s pd j \<noteq> 0" for j using w ne by (simp add: ph)
  have sub: "set (page_pool ?s) \<subseteq> set (page_pool s)" using P(2) pool by auto
  have kd: "kdir J pd ?s"
    unfolding kdir_def nz pt
  proof (intro conjI allI impI)
    show "{j. j < 1024 \<and> (j = PDX va \<or> phys s pd j \<noteq> 0)} \<subseteq> J" using D(4) i(1) by auto
  next
    fix j assume "j < 1024" "j \<noteq> PDX UVPT \<and> (j = PDX va \<or> phys s pd j \<noteq> 0)"
    then show "(if j = PDX va then p else pt_of s pd j) \<notin> set (page_pool ?s)"
      using D(7) [of j] A(7) P(2) pool by auto
  next
    fix j assume "j < 1024" "j \<noteq> PDX UVPT \<and> (j = PDX va \<or> phys s pd j \<noteq> 0)"
    then show "phys ?s pd j AND 0xFFF = 7" using D(10) [of j] ne by (auto simp: ph)
  next
    fix a c assume "a < 1024" "c < 1024" and h: "a \<noteq> PDX UVPT \<and> c \<noteq> PDX UVPT \<and> (a = PDX va \<or> phys s pd a \<noteq> 0) \<and>
        (c = PDX va \<or> phys s pd c \<noteq> 0) \<and>
        (if a = PDX va then p else pt_of s pd a) = (if c = PDX va then p else pt_of s pd c)"
    then show "a = c"
      using old(1) [of a] old(1) [of c] D(9) [of a c] by (cases "a = PDX va"; cases "c = PDX va") simp_all
  next
    fix j assume j: "j < 1024" "j \<noteq> PDX UVPT \<and> (j = PDX va \<or> phys s pd j \<noteq> 0)"
    then show "(if j = PDX va then p else pt_of s pd j) < npages ?s" using D(6) [of j] A(5) by auto
    from j show "(if j = PDX va then p else pt_of s pd j) \<noteq> pd" using D(8) [of j] ne by auto
  qed (use P(1) D(2,3,5) sub in \<open>auto\<close>)
  have "{j. j < 1024 \<and> phys ?s pd j \<noteq> 0} = insert (PDX va) {j. j < 1024 \<and> phys s pd j \<noteq> 0}" unfolding nz by auto
  then have bud: "budget pd ?s = budget pd s" using True P(2) pool by (simp add: budget_def)
  have tr: "translate ?s pd va' = translate s pd va'" if "PDX va' \<noteq> PDX UVPT" for va'
  proof (cases "PDX va' = PDX va")
    case False
    then have e: "phys ?s pd (PDX va') = phys s pd (PDX va')" "pt_of ?s pd (PDX va') = pt_of s pd (PDX va')"
      using ne by (simp_all add: ph pt)
    have "phys ?s (pt_of s pd (PDX va')) k = phys s (pt_of s pd (PDX va')) k" if "phys s pd (PDX va') \<noteq> 0" for k
      unfolding ph using old [OF PDX_bound \<open>PDX va' \<noteq> PDX UVPT\<close> that] by simp
    then show ?thesis unfolding translate_def e by simp
  qed (use True w ne in \<open>simp add: translate_def pt ph\<close>)
  have re: "rest ?s = rest s" unfolding with_table_def popped_def by (simp add: Let_def)
  show thesis
    by (rule that [OF walk kd _ bud _ tr _ re sub]) (use True w ne i(2) P(3) pool in \<open>auto simp: ph\<close>)
qed

lemma kdir_write:
  assumes k: "kdir J pd s" and i: "i < 1024" "i \<noteq> PDX UVPT" "phys s pd i \<noteq> 0" and j: "j < 1024"
  shows "kdir J pd (write_word (pt_of s pd i) j w s)" "budget pd (write_word (pt_of s pd i) j w s) = budget pd s"
    "phys (write_word (pt_of s pd i) j w s) pd = phys s pd"
    "PDX va \<noteq> PDX UVPT \<Longrightarrow> translate (write_word (pt_of s pd i) j w s) pd va =
       (if PDX va = i \<and> PTX va = j then (if w = 0 then None else Some (PGNUM w, w AND 0xFFF)) else translate s pd va)"
proof -
  note D = kdir_D [OF k]
  let ?s = "write_word (pt_of s pd i) j w s"
  have ne: "pt_of s pd i \<noteq> pd" by (rule D(8) [OF i])
  show ph: "phys ?s pd = phys s pd" using ne by (auto simp: fun_eq_iff)
  have pt: "pt_of ?s pd = pt_of s pd" by (rule ext) (use ph in \<open>simp only: pt_of_def\<close>)
  show "kdir J pd ?s" using k unfolding kdir_def ph pt by simp
  show "budget pd ?s = budget pd s" unfolding budget_def ph by simp
  assume va: "PDX va \<noteq> PDX UVPT"
  show "translate ?s pd va =
       (if PDX va = i \<and> PTX va = j then (if w = 0 then None else Some (PGNUM w, w AND 0xFFF)) else translate s pd va)"
  proof (cases "phys s pd (PDX va) = 0")
    case True
    then show ?thesis unfolding translate_def ph using i(3) by auto
  next
    case False
    then have "pt_of s pd (PDX va) = pt_of s pd i \<longleftrightarrow> PDX va = i"
      using D(9) [of "PDX va" i] i va by auto
    with False show ?thesis unfolding translate_def ph pt by (auto simp: Let_def)
  qed
qed

lemma kdir_step:
  assumes k: "kdir J pd s" and i: "PDX (va + i) \<in> J" "PDX (va + i) \<noteq> PDX UVPT" and b: "card J \<le> budget pd s"
    and fresh: "translate s pd (va + i) = None" and pa: "pa + i = page2pa q" "q < 1048576" and perm: "perm < 0x1000"
  obtains s' where "boot_map_step pd va pa perm i s = Inr s'" "kdir J pd s'" "budget pd s' = budget pd s"
    "\<And>va'. PDX va' \<noteq> PDX UVPT \<Longrightarrow>
       translate s' pd va' = (if PGNUM va' = PGNUM (va + i) then Some (q, perm OR 1) else translate s pd va')"
    "\<And>i. phys s pd i \<noteq> 0 \<Longrightarrow> phys s' pd i = phys s pd i" "rest s' = rest s" "set (page_pool s') \<subseteq> set (page_pool s)"
    "\<And>q. q \<notin> set (page_pool s) \<Longrightarrow> page_ref s' q = page_ref s q"
proof (rule kdir_walk [OF k i b])
  fix s1
  assume s1: "pgdir_walk pd (va + i) True s = Inr (Some (pt_of s1 pd (PDX (va + i)), PTX (va + i)), s1)" "kdir J pd s1"
    "phys s1 pd (PDX (va + i)) \<noteq> 0" "budget pd s1 = budget pd s" "npages s1 = npages s"
    "\<And>va'. PDX va' \<noteq> PDX UVPT \<Longrightarrow> translate s1 pd va' = translate s pd va'"
    "\<And>i. phys s pd i \<noteq> 0 \<Longrightarrow> phys s1 pd i = phys s pd i" "rest s1 = rest s" "set (page_pool s1) \<subseteq> set (page_pool s)"
    "\<And>q. q \<notin> set (page_pool s) \<Longrightarrow> page_ref s1 q = page_ref s q"
  let ?t = "pt_of s1 pd (PDX (va + i))" and ?w = "(pa + i) OR perm OR 1"
  have "translate s1 pd (va + i) = None" using s1(6) [OF i(2)] fresh by simp
  then have z: "phys s1 ?t (PTX (va + i)) = 0" using s1(3) by (simp add: translate_def Let_def split: if_splits)
  have t: "?t < npages s1" by (rule kdir_D(6) [OF s1(2) PDX_bound i(2) s1(3)])
  then have "page_remove pd (va + i) s1 = Inr s1"
    using z s1(3) by (simp add: page_remove_def page_lookup_def pgdir_walk_def KADDR_def pt_of_def)
  then have run: "boot_map_step pd va pa perm i s = Inr (write_word ?t (PTX (va + i)) ?w s1)"
    using s1(1) by (simp add: boot_map_step_def)
  note W = kdir_write [OF s1(2) PDX_bound i(2) s1(3) PTX_bound [of "va + i"], where w = ?w]
  have w: "?w \<noteq> 0" "PGNUM ?w = q" "?w AND 0xFFF = perm OR 1"
    using pte_nonzero [OF pa(2) or_P_low [OF perm] or_P_nonzero] PGNUM_pte [OF pa(2) or_P_low [OF perm]]
      pte_low [OF or_P_low [OF perm], of q] unfolding pa(1) by (simp_all add: or.assoc)
  show thesis
  proof (rule that [OF run W(1)])
    fix va' assume v: "PDX va' \<noteq> PDX UVPT"
    show "translate (write_word ?t (PTX (va + i)) ?w s1) pd va' =
        (if PGNUM va' = PGNUM (va + i) then Some (q, perm OR 1) else translate s pd va')"
      unfolding W(4) [OF v] PGNUM_eq_iff s1(6) [OF v] w(2,3) using w(1) by simp
  qed (use W(2,3) s1 in simp_all)
qed

section \<open>Mapping a region\<close>

lemma page_add:
  assumes "unat va mod 4096 = 0" "PGNUM va + i < 1048576"
  shows "PGNUM (va + word_of_nat i * PGSIZE) = PGNUM va + i"
proof -
  have "unat (word_of_nat i * PGSIZE :: u32) = i * 4096"
    using assms(2) by (simp add: unat_word_ariths unat_of_nat_u32)
  moreover have "unat va = 4096 * PGNUM va"
    using mult_div_mod_eq [of 4096 "unat va"] assms(1) by (simp add: PGNUM_div)
  ultimately have "unat (va + word_of_nat i * PGSIZE) = 4096 * (PGNUM va + i)"
    using assms(2) by (simp add: unat_word_ariths)
  then show ?thesis unfolding PGNUM_div by simp
qed

lemma page2pa_add: "page2pa q + word_of_nat i * PGSIZE = page2pa (q + i)"
  by (simp add: page2pa_def push_bit_eq_mult algebra_simps)

definition in_region :: "u32 \<Rightarrow> nat \<Rightarrow> u32 \<Rightarrow> bool" where
  "in_region va n v \<longleftrightarrow> PGNUM va \<le> PGNUM v \<and> PGNUM v < PGNUM va + n"

lemma kdir_region:
  assumes k: "kdir J pd s" and b: "card J \<le> budget pd s" and al: "unat va mod 4096 = 0" and perm: "perm < 0x1000"
    and fit: "PGNUM va + n \<le> 1048576" "q + n \<le> 1048576"
    and free: "\<And>v. in_region va n v \<Longrightarrow> PDX v \<in> J \<and> PDX v \<noteq> PDX UVPT \<and> translate s pd v = None"
  shows "\<exists>s'. foldR (boot_map_step pd va (page2pa q) perm) (map (\<lambda>i. word_of_nat i * PGSIZE) [0..<n]) s = Inr s' \<and>
    kdir J pd s' \<and> budget pd s' = budget pd s \<and> rest s' = rest s \<and> set (page_pool s') \<subseteq> set (page_pool s) \<and>
    (\<forall>i. phys s pd i \<noteq> 0 \<longrightarrow> phys s' pd i = phys s pd i) \<and>
    (\<forall>q. q \<notin> set (page_pool s) \<longrightarrow> page_ref s' q = page_ref s q) \<and>
    (\<forall>v. PDX v \<noteq> PDX UVPT \<longrightarrow> translate s' pd v =
       (if in_region va n v then Some (q + (PGNUM v - PGNUM va), perm OR 1) else translate s pd v))"
  using fit free
proof (induction n)
  case 0
  then show ?case using k by (simp add: in_region_def)
next
  case (Suc n)
  have "in_region va (Suc n) v" if "in_region va n v" for v using that by (simp add: in_region_def)
  then obtain s1 where s1: "foldR (boot_map_step pd va (page2pa q) perm) (map (\<lambda>i. word_of_nat i * PGSIZE) [0..<n]) s = Inr s1"
    "kdir J pd s1" "budget pd s1 = budget pd s" "rest s1 = rest s" "set (page_pool s1) \<subseteq> set (page_pool s)"
    "\<forall>i. phys s pd i \<noteq> 0 \<longrightarrow> phys s1 pd i = phys s pd i" "\<forall>q. q \<notin> set (page_pool s) \<longrightarrow> page_ref s1 q = page_ref s q"
    "\<forall>v. PDX v \<noteq> PDX UVPT \<longrightarrow> translate s1 pd v =
       (if in_region va n v then Some (q + (PGNUM v - PGNUM va), perm OR 1) else translate s pd v)"
    using Suc by auto
  let ?i = "word_of_nat n * PGSIZE :: u32"
  have pn: "PGNUM (va + ?i) = PGNUM va + n" using page_add [OF al, of n] Suc.prems(1) by simp
  then have here: "in_region va (Suc n) (va + ?i)" "\<not> in_region va n (va + ?i)" by (simp_all add: in_region_def)
  note fr = Suc.prems(3) [OF here(1)]
  have tr: "translate s1 pd (va + ?i) = None" using s1(8) fr here(2) by simp
  obtain s2 where s2: "boot_map_step pd va (page2pa q) perm ?i s1 = Inr s2" "kdir J pd s2" "budget pd s2 = budget pd s1"
    "\<And>va'. PDX va' \<noteq> PDX UVPT \<Longrightarrow>
       translate s2 pd va' = (if PGNUM va' = PGNUM (va + ?i) then Some (q + n, perm OR 1) else translate s1 pd va')"
    "\<And>i. phys s1 pd i \<noteq> 0 \<Longrightarrow> phys s2 pd i = phys s1 pd i" "rest s2 = rest s1" "set (page_pool s2) \<subseteq> set (page_pool s1)"
    "\<And>q. q \<notin> set (page_pool s1) \<Longrightarrow> page_ref s2 q = page_ref s1 q"
    by (rule kdir_step [OF s1(2), where va = va and i = ?i and pa = "page2pa q" and q = "q + n" and perm = perm])
      (use fr tr b s1(3) Suc.prems(2) perm in \<open>simp_all add: page2pa_add\<close>)
  have "translate s2 pd v = (if in_region va (Suc n) v then Some (q + (PGNUM v - PGNUM va), perm OR 1) else translate s pd v)"
    if "PDX v \<noteq> PDX UVPT" for v
    unfolding s2(4) [OF that] pn using s1(8) that by (auto simp: in_region_def)
  moreover have "page_ref s2 r = page_ref s r" if "r \<notin> set (page_pool s)" for r
    using s1(5,7) s2(8) that by (metis subsetD)
  moreover have "set (page_pool s2) \<subseteq> set (page_pool s)" using s1(5) s2(7) by simp
  ultimately show ?case using s1(1,3,4,6) s2(1-3,5,6) by (intro exI [of _ s2]) (simp add: foldR_append)
qed

end
