(* ===== verification/KMapProps.thy ===== *)
theory KMapProps
  imports KMap KBoot
begin

text \<open>
  The memory map of the kernel: what \<open>mem_init\<close> allocates, and what its page directory maps.
\<close>

lemma PADDR_page: "q < 65536 \<Longrightarrow> PADDR (KERNBASE + page2pa q) = Inr (page2pa q)"
proof -
  assume q: "q < 65536"
  then have "unat (KERNBASE + page2pa q) = 0xF0000000 + q * 4096"
    by (simp add: unat_word_ariths unat_page2pa)
  then have "KERNBASE \<le> KERNBASE + page2pa q" by (simp only: word_le_nat_alt) simp
  then show ?thesis by (simp add: PADDR_def)
qed

section \<open>The allocations\<close>

lemma boot_alloc_pages:
  assumes nf: "nextfree s = Some (KERNBASE + page2pa b) \<or> nextfree s = None \<and> ROUNDUP kend PGSIZE = KERNBASE + page2pa b"
    and fit: "b + (unat n + 4095) div 4096 < npages s" "npages s \<le> 65536"
  shows "boot_alloc kend n s =
    Inr (KERNBASE + page2pa b, s\<lparr>nextfree := Some (KERNBASE + page2pa (b + (unat n + 4095) div 4096))\<rparr>)"
proof -
  define c where "c = (unat n + 4095) div 4096"
  have c: "unat n \<le> 4096 * c" "4096 * c < unat n + 4096" unfolding c_def by linarith+
  have bc: "b + c < npages s" using fit(1) by (simp add: c_def)
  have un: "unat (page2pa b) = 4096 * b" using fit bc by (subst unat_page2pa) simp_all
  have lst: "unat (page2pa b + n) = 4096 * b + unat n" using c bc fit(2) by (simp add: unat_word_ariths un)
  have sum: "unat (KERNBASE + page2pa b + n) = 0xF0000000 + (4096 * b + unat n)"
  proof -
    have "unat (KERNBASE + (page2pa b + n)) = 0xF0000000 + (4096 * b + unat n)"
      using lst c bc fit(2) by (subst unat_word_ariths) (simp add: lst)
    then show ?thesis by (simp add: add.assoc)
  qed
  have "KERNBASE \<le> KERNBASE + page2pa b + n" unfolding word_le_nat_alt sum by simp
  then have pa: "PADDR (KERNBASE + page2pa b + n) = Inr (page2pa b + n)" by (simp add: PADDR_def)
  have lim: "page2pa b + n < PGSIZE * word_of_nat (npages s)"
  proof -
    have "unat (PGSIZE * word_of_nat (npages s)) = 4096 * npages s"
      using fit(2) by (simp add: unat_word_ariths unat_of_nat_u32)
    then show ?thesis unfolding word_less_nat_alt lst using c bc by simp
  qed
  have kv: "KADDR s (page2pa b + n) = Inr (KERNBASE + page2pa b + n)"
  proof -
    have "PGNUM (page2pa b + n) < npages s" unfolding PGNUM_div lst using c bc by linarith
    then show ?thesis by (simp add: KADDR_def)
  qed
  have up: "ROUNDUP (KERNBASE + page2pa b + n) PGSIZE = KERNBASE + page2pa (b + c)"
  proof (rule unsigned_word_eqI [where 'a = nat])
    have "unat (KERNBASE + page2pa (b + c)) = 0xF0000000 + 4096 * (b + c)"
      using bc fit(2) by (simp add: unat_word_ariths unat_page2pa)
    moreover have "unat (ROUNDUP (KERNBASE + page2pa b + n) PGSIZE) = 0xF0000000 + 4096 * (b + c)"
    proof -
      have "(0xF0000000 + (4096 * b + unat n) + 4095) div 4096 = 0xF0000 + b + c" using c by linarith
      moreover have le: "unat (KERNBASE + page2pa b + n) + 4095 < 4294967296" unfolding sum using c bc fit(2) by linarith
      ultimately show ?thesis unfolding unat_ROUNDUP [OF le] sum by simp
    qed
    ultimately show "unat (ROUNDUP (KERNBASE + page2pa b + n) PGSIZE) = unat (KERNBASE + page2pa (b + c))" by simp
  qed
  from nf have "(case nextfree s of None \<Rightarrow> ROUNDUP kend PGSIZE | Some a \<Rightarrow> a) = KERNBASE + page2pa b" by auto
  then show ?thesis unfolding boot_alloc_def Let_def c_def [symmetric] by (simp add: pa lim kv up)
qed

lemma page_init_frame:
  assumes "page_init kend s = Inr s'"
  shows "phys s' = phys s \<and> kern_pgdir s' = kern_pgdir s \<and> envs s' = envs s"
  using assms unfolding page_init_def
  by (rule foldR_inv [where I = "\<lambda>t. phys t = phys s \<and> kern_pgdir t = kern_pgdir s \<and> envs t = envs s"])
    (auto simp: page_init_step_def boot_alloc_def cres_simps Let_def split: if_splits)

lemma kernel_end:
  assumes "KERNBASE + EXTPHYSMEM \<le> kend"
  shows "(unat (kend - KERNBASE) + 4095) div 4096 < 65536 \<Longrightarrow>
      ROUNDUP kend PGSIZE = KERNBASE + page2pa ((unat (kend - KERNBASE) + 4095) div 4096)"
    "256 \<le> (unat (kend - KERNBASE) + 4095) div 4096"
proof -
  define e where "e = unat (kend - KERNBASE)"
  have k: "unat kend = 0xF0000000 + e" "0x100000 \<le> e"
  proof -
    have "unat kend \<ge> 0xF0100000" using assms by (simp add: word_le_nat_alt)
    moreover have "KERNBASE \<le> kend" using \<open>unat kend \<ge> _\<close> by (simp add: word_le_nat_alt)
    ultimately show "unat kend = 0xF0000000 + e" "0x100000 \<le> e" by (simp_all add: e_def unat_sub)
  qed
  show "256 \<le> (unat (kend - KERNBASE) + 4095) div 4096" using k(2) unfolding e_def [symmetric] by linarith
  assume b: "(unat (kend - KERNBASE) + 4095) div 4096 < 65536"
  show "ROUNDUP kend PGSIZE = KERNBASE + page2pa ((unat (kend - KERNBASE) + 4095) div 4096)"
    unfolding e_def [symmetric]
  proof (rule unsigned_word_eqI [where 'a = nat])
    have "unat (KERNBASE + page2pa ((e + 4095) div 4096)) = 0xF0000000 + (e + 4095) div 4096 * 4096"
      using b by (simp add: unat_word_ariths unat_page2pa e_def)
    moreover have "unat (ROUNDUP kend PGSIZE) = 0xF0000000 + (e + 4095) div 4096 * 4096"
    proof -
      have "e + 4095 < 65536 * 4096" using b unfolding e_def [symmetric] by linarith
      then have "unat kend + 4095 < 4294967296" using k(1) by simp
      moreover have "(0xF0000000 + e + 4095) div 4096 = 0xF0000 + (e + 4095) div 4096" by linarith
      ultimately show ?thesis by (simp add: unat_ROUNDUP k(1))
    qed
    ultimately show "unat (ROUNDUP kend PGSIZE) = unat (KERNBASE + page2pa ((e + 4095) div 4096))" by simp
  qed
qed

lemma page_aligned: "q < 65536 \<Longrightarrow> (KERNBASE + page2pa q) mod PGSIZE = 0 \<and> KERNBASE \<le> KERNBASE + page2pa q"
proof -
  assume q: "q < 65536"
  then have u: "unat (KERNBASE + page2pa q) = 4096 * (0xF0000 + q)" by (simp add: unat_word_ariths unat_page2pa)
  then have "unat ((KERNBASE + page2pa q) mod PGSIZE) = 0" by (simp add: unat_mod)
  then show ?thesis unfolding word_le_nat_alt u by (simp add: unsigned_eq_0_iff)
qed

text \<open>The first phase of \<open>mem_init\<close> puts the page directory of the kernel, the page array and the environment
  table one after the other behind the kernel, with no page in common, clears them, makes the directory map itself at
  \<open>UVPT\<close>, and leaves on the free list exactly the pages that are in use by nobody.\<close>

lemma mem_init_allocates:
  fixes np b n :: nat and kend :: u32
  defines "b \<equiv> (unat (kend - KERNBASE) + 4095) div 4096" and "n \<equiv> (8 * np + 4095) div 4096"
  assumes cmos: "unat (fst (i386_detect_memory basemem extmem ext16)) = np"
    and boot: "nextfree s = None" "page_free_list s = None" "KERNBASE + EXTPHYSMEM \<le> kend"
    and fit: "np \<le> 65536" "b + 1 + n + 32 < np"
  shows "\<exists>s'. mem_init_allocate kend (basemem, extmem, ext16) s =
      Inr (KERNBASE + page2pa (b + 1), KERNBASE + page2pa (b + 1 + n), s') \<and>
    npages s' = np \<and> page_inv s' \<and> kern_pgdir s' = b \<and> page_held s' b \<and> envs s' = replicate NENV zero_env \<and>
    (\<forall>i<1024. phys s' b i \<noteq> 0 \<longleftrightarrow> i = PDX UVPT) \<and> phys s' b (PDX UVPT) AND PTE_P \<noteq> 0 \<and> pt_of s' b (PDX UVPT) = b \<and>
    page_pool s' = rev (filter (\<lambda>i. i \<noteq> 0 \<and> i \<noteq> PGNUM MPENTRY_PADDR \<and>
      \<not> (PGNUM IOPHYSMEM \<le> i \<and> i < b + 1 + n + 32)) [0..<np]) \<and> 67 \<le> length (page_pool s')"
proof -
  let ?s = "s\<lparr>npages := np\<rparr>" and ?nf = "\<lambda>p. KERNBASE + page2pa p"
  note kb = kernel_end [OF boot(3), folded b_def]
  have b: "b < 65536" "256 \<le> b" using fit kb(2) by simp_all
  have up: "ROUNDUP kend PGSIZE = ?nf b" using kb(1) b(1) by simp
  let ?s1 = "?s\<lparr>nextfree := Some (?nf (b + 1))\<rparr>"
  let ?s3 = "write_word b (PDX UVPT) (page2pa b OR PTE_U OR PTE_P) (?s1\<lparr>kern_pgdir := b, phys := (phys s)(b := (\<lambda>_. 0))\<rparr>)"
  let ?s5 = "?s3\<lparr>nextfree := Some (?nf (b + 1 + n)), pages := replicate np \<lparr>pp_link = None, pp_ref = 0\<rparr>\<rparr>"
  let ?s7 = "?s5\<lparr>nextfree := Some (?nf (b + 1 + n + 32)), envs := replicate NENV zero_env\<rparr>"
  have sz: "unat (pages_size ?s3) = 8 * np" using fit(1) by (simp add: pages_size_def unat_word_ariths unat_of_nat_u32)
  have a1: "boot_alloc kend PGSIZE ?s = Inr (?nf b, ?s1)"
    using boot_alloc_pages [of ?s b kend PGSIZE] boot(1) up fit by simp
  have a2: "boot_alloc kend (pages_size ?s3) ?s3 = Inr (?nf (b + 1), ?s3\<lparr>nextfree := Some (?nf (b + 1 + n))\<rparr>)"
    using boot_alloc_pages [of ?s3 "b + 1" kend "pages_size ?s3"] fit unfolding sz n_def [symmetric] by simp
  have a3: "boot_alloc kend envs_size ?s5 = Inr (?nf (b + 1 + n), ?s5\<lparr>nextfree := Some (?nf (b + 1 + n + 32))\<rparr>)"
    using boot_alloc_pages [of ?s5 "b + 1 + n" kend envs_size] fit by simp
  have "page_inv ?s7 \<and> page_pool ?s7 = []"
    by (intro conjI page_inv_intro) (use fit(1) boot(2) in \<open>auto simp: page_link_def\<close>)
  then have inv: "page_inv ?s7" "page_pool ?s7 = []" by simp_all
  have ref: "page_ref ?s7 p = 0" if "p < np" for p using that by (simp add: page_ref_def)
  have nf: "unat (page2pa (33 + (b + n))) = 4096 * (33 + (b + n))" using fit by (simp add: unat_page2pa)
  have ready: "boot_ready (?nf (b + 1 + n + 32)) ?s7"
    using inv(1) fit page_aligned [of "b + 1 + n + 32"] PADDR_page [of "b + 1 + n + 32"]
    by (simp add: boot_ready_def PGNUM_div nf)
  obtain s' where s': "page_init kend ?s7 = Inr s'" "boot_ready (?nf (b + 1 + n + 32)) s'"
    "page_pool s' = rev (filter (usable (?nf (b + 1 + n + 32))) [0..<np])" "page_ref s' = page_ref ?s7" "npages s' = np"
    using page_init_loop [OF ready, of np kend] inv(2) ref unfolding page_init_def by (auto simp: page_held_def)
  have us: "usable (?nf (b + 1 + n + 32)) = (\<lambda>i. i \<noteq> 0 \<and> i \<noteq> PGNUM MPENTRY_PADDR \<and>
      \<not> (PGNUM IOPHYSMEM \<le> i \<and> i < b + 1 + n + 32))"
    using b(2) by (auto simp: usable_def PGNUM_div nf fun_eq_iff)
  note F = page_init_frame [OF s'(1)]
  have w: "page2pa b OR 5 \<noteq> 0" "PGNUM (page2pa b OR 5) = b" using b pte_nonzero [of b 5] by simp_all
  have slots: "phys s' b i = (if i = PDX UVPT then page2pa b OR 5 else 0)" for i using F by simp
  have "b \<notin> set (page_pool s')" using b(2) unfolding s'(3) us by (simp add: PGNUM_div)
  then have held: "page_held s' b" using s'(4,5) ref [of b] fit by (simp add: page_held_def)
  have "set [8..<160] \<subseteq> set (page_pool s')" using fit b(2) unfolding s'(3) us by (auto simp: PGNUM_div)
  then have "card (set [8..<160]) \<le> length (page_pool s')"
    by (meson List.finite_set card_length card_mono le_trans)
  then have "67 \<le> length (page_pool s')" by simp
  moreover have "mem_init_allocate kend (basemem, extmem, ext16) s = Inr (?nf (b + 1), ?nf (b + 1 + n), s')"
    using a1 a2 a3 s'(1) PADDR_page [OF b(1)] cmos PGNUM_pte [of b 0] b(1)
    by (simp add: mem_init_allocate_def Let_def)
  ultimately show ?thesis
    using s'(2,5) held F slots w s'(3) [unfolded us]
    by (intro exI [of _ s'] conjI allI impI) (simp_all add: boot_ready_def pt_of_def and_or_P)
qed

section \<open>The mappings above \<open>UTOP\<close>\<close>

lemma boot_region:
  assumes "unat sz = 4096 * n"
  shows "boot_map_region pd va sz pa perm s =
    foldR (boot_map_step pd va pa perm) (map (\<lambda>i. word_of_nat i * PGSIZE) [0..<n]) s"
proof -
  have "(4096 * n + 4095) div 4096 = n" by simp
  then show ?thesis using assms by (simp add: boot_map_region_def va_range_def)
qed

text \<open>
  The directory slots in use in the end. The slot for devices (958) has a page table when \<open>m\<close> holds: the
  self-test \<open>check_page\<close>, which runs before, leaves one there.
\<close>

definition kernel_slots :: "bool \<Rightarrow> nat set" where
  "kernel_slots m = {955, 956, 957, 959} \<union> {960..<1024} \<union> (if m then {958} else {})"

lemma card_slots: "card (kernel_slots m) = (if m then 69 else 68)"
proof -
  have "card ({955, 956, 957, 959} \<union> {960..<1024::nat}) = 68" by (simp add: card_Un_disjoint)
  moreover have "(958::nat) \<notin> {955, 956, 957, 959} \<union> {960..<1024}" by simp
  ultimately show ?thesis unfolding kernel_slots_def by simp
qed

text \<open>The effect of mapping one region, collected into one relation between states.\<close>

definition mapped_region :: "bool \<Rightarrow> nat \<Rightarrow> u32 \<Rightarrow> nat \<Rightarrow> nat \<Rightarrow> u32 \<Rightarrow> kstate \<Rightarrow> kstate \<Rightarrow> bool" where
  "mapped_region m pd va n q perm s s' \<longleftrightarrow> kdir (kernel_slots m) pd s' \<and> budget pd s' = budget pd s \<and> rest s' = rest s \<and>
     set (page_pool s') \<subseteq> set (page_pool s) \<and> (\<forall>i. phys s pd i \<noteq> 0 \<longrightarrow> phys s' pd i = phys s pd i) \<and>
     (\<forall>q. q \<notin> set (page_pool s) \<longrightarrow> page_ref s' q = page_ref s q) \<and>
     (\<forall>v. PDX v \<noteq> 957 \<longrightarrow> translate s' pd v =
       (if in_region va n v then Some (q + (PGNUM v - PGNUM va), perm) else translate s pd v))"

lemma PDX_consts: "PDX UVPT = 957" "PDX UPAGES = 956" "PDX UENVS = 955" "PDX MMIOBASE = 958" "PDX KERNBASE = 960"
  by (simp_all add: PDX_div)

lemma map_one_region:
  assumes k: "kdir (kernel_slots m) pd s" and b: "card (kernel_slots m) \<le> budget pd s" and al: "unat va mod 4096 = 0"
    and perm: "perm < 0x1000" "perm OR 1 = perm" and sz: "unat sz = 4096 * n" and pa: "pa = page2pa q"
    and fit: "PGNUM va + n \<le> 1048576" "q + n \<le> 1048576"
    and free: "\<And>v. in_region va n v \<Longrightarrow> PDX v \<in> kernel_slots m - {957} \<and> translate s pd v = None"
  shows "\<exists>s'. boot_map_region pd va sz pa perm s = Inr s' \<and> mapped_region m pd va n q perm s s'"
proof -
  have f: "PDX v \<in> kernel_slots m \<and> PDX v \<noteq> PDX UVPT \<and> translate s pd v = None" if "in_region va n v" for v
    using free [OF that] by (simp add: PDX_consts)
  from kdir_region [OF k b al perm(1) fit f] show ?thesis
    unfolding boot_region [OF sz] pa mapped_region_def perm(2) PDX_consts by blast
qed

definition stack_start :: "nat \<Rightarrow> u32" where
  "stack_start i = KSTACKTOP - word_of_nat i * (KSTKSIZE + KSTKGAP) - KSTKSIZE"

lemma stack_start_page:
  assumes "i < 8"
  shows "PGNUM (stack_start i) = 983032 - 16 * i" "unat (stack_start i) mod 4096 = 0"
proof -
  have "i = 0 \<or> i = 1 \<or> i = 2 \<or> i = 3 \<or> i = 4 \<or> i = 5 \<or> i = 6 \<or> i = 7" using assms by linarith
  then show "PGNUM (stack_start i) = 983032 - 16 * i" "unat (stack_start i) mod 4096 = 0"
    by (auto simp: stack_start_def PGNUM_div)
qed

lemma PADDR_stack:
  assumes "q + 8 * n < 65536"
  shows "PADDR (KERNBASE + page2pa q + word_of_nat n * KSTKSIZE) = Inr (page2pa (q + 8 * n))"
proof -
  have "word_of_nat n * KSTKSIZE = word_of_nat (8 * n) * PGSIZE" by simp
  then have "KERNBASE + page2pa q + word_of_nat n * KSTKSIZE = KERNBASE + page2pa (q + 8 * n)"
    using page2pa_add [of q "8 * n"] by (simp only: add.assoc)
  then show ?thesis by (simp only: PADDR_page [OF assms])
qed

lemma map_stacks:
  assumes pd: "kern_pgdir s = pd" and k: "kdir (kernel_slots m) pd s" and b: "card (kernel_slots m) \<le> budget pd s"
    and free: "\<And>v. PDX v = 959 \<Longrightarrow> translate s pd v = None" and q: "q + 64 \<le> 65536" and n: "n \<le> 8"
  shows "\<exists>s'. foldR (\<lambda>i s.
       let stack_start = KSTACKTOP - word_of_nat i * (KSTKSIZE + KSTKGAP) - KSTKSIZE
       in bindR (PADDR (KERNBASE + page2pa q + word_of_nat i * KSTKSIZE)) (\<lambda>pa.
          boot_map_region (kern_pgdir s) stack_start KSTKSIZE pa (PTE_W OR PTE_P) s)) [0..<n] s = Inr s' \<and>
    kdir (kernel_slots m) pd s' \<and> budget pd s' = budget pd s \<and> rest s' = rest s \<and>
    (\<forall>q. q \<notin> set (page_pool s) \<longrightarrow> page_ref s' q = page_ref s q) \<and> set (page_pool s') \<subseteq> set (page_pool s) \<and>
    (\<forall>i. phys s pd i \<noteq> 0 \<longrightarrow> phys s' pd i = phys s pd i) \<and>
    (\<forall>i<n. \<forall>k<8. \<forall>v. PGNUM v = 983032 - 16 * i + k \<longrightarrow> translate s' pd v = Some (q + 8 * i + k, 3)) \<and>
    (\<forall>v. PDX v \<noteq> 957 \<and> (\<forall>i<n. \<forall>k<8. PGNUM v \<noteq> 983032 - 16 * i + k) \<longrightarrow> translate s' pd v = translate s pd v)"
  using n
proof (induction n)
  case 0
  then show ?case using k by simp
next
  case (Suc n)
  then obtain s1 where s1: "foldR (\<lambda>i s.
       let stack_start = KSTACKTOP - word_of_nat i * (KSTKSIZE + KSTKGAP) - KSTKSIZE
       in bindR (PADDR (KERNBASE + page2pa q + word_of_nat i * KSTKSIZE)) (\<lambda>pa.
          boot_map_region (kern_pgdir s) stack_start KSTKSIZE pa (PTE_W OR PTE_P) s)) [0..<n] s = Inr s1"
    "kdir (kernel_slots m) pd s1" "budget pd s1 = budget pd s" "rest s1 = rest s"
    "\<forall>q. q \<notin> set (page_pool s) \<longrightarrow> page_ref s1 q = page_ref s q" "set (page_pool s1) \<subseteq> set (page_pool s)"
    "\<forall>i. phys s pd i \<noteq> 0 \<longrightarrow> phys s1 pd i = phys s pd i"
    "\<forall>i<n. \<forall>k<8. \<forall>v. PGNUM v = 983032 - 16 * i + k \<longrightarrow> translate s1 pd v = Some (q + 8 * i + k, 3)"
    "\<forall>v. PDX v \<noteq> 957 \<and> (\<forall>i<n. \<forall>k<8. PGNUM v \<noteq> 983032 - 16 * i + k) \<longrightarrow> translate s1 pd v = translate s pd v"
    by auto
  have n: "n < 8" using Suc.prems by simp
  note st = stack_start_page [OF n]
  have here: "PGNUM v = 983032 - 16 * n + k \<Longrightarrow> k < 8 \<Longrightarrow> PDX v = 959" for v k
    using n unfolding PDX_PGNUM by simp
  have free': "PDX v \<in> kernel_slots m - {957} \<and> translate s1 pd v = None" if r: "in_region (stack_start n) 8 v" for v
  proof -
    obtain k where kk: "PGNUM v = 983032 - 16 * n + k" "k < 8"
      using r unfolding in_region_def st(1) by (metis add_less_cancel_left le_Suc_ex)
    have "PGNUM v \<noteq> 983032 - 16 * i + j" if "i < n" "j < 8" for i j using kk that n by linarith
    with here [OF kk] s1(9) free show ?thesis by (simp add: kernel_slots_def)
  qed
  have q8: "q + 8 * n < 65536" using q n by simp
  note pa = PADDR_stack [OF q8]
  have "\<exists>s'. boot_map_region pd (stack_start n) KSTKSIZE (page2pa (q + 8 * n)) 3 s1 = Inr s' \<and>
      mapped_region m pd (stack_start n) 8 (q + 8 * n) 3 s1 s'"
    by (rule map_one_region [OF s1(2) _ st(2) _ _ _ refl]) (use s1(3) b st(1) q8 n free' in simp_all)
  then obtain s2 where s2: "boot_map_region pd (stack_start n) KSTKSIZE (page2pa (q + 8 * n)) 3 s1 = Inr s2"
    "mapped_region m pd (stack_start n) 8 (q + 8 * n) 3 s1 s2" by blast
  note M = s2(2) [unfolded mapped_region_def in_region_def st(1)]
  note T = M [THEN conjunct2, THEN conjunct2, THEN conjunct2, THEN conjunct2, THEN conjunct2, THEN conjunct2, rule_format]
  have run: "kern_pgdir s1 = pd" using rest_sel(6) [OF s1(4)] pd by simp
  have old: "translate s2 pd v = translate s1 pd v" if "PDX v \<noteq> 957" "\<forall>k<8. PGNUM v \<noteq> 983032 - 16 * n + k" for v
  proof -
    have "\<not> (983032 - 16 * n \<le> PGNUM v \<and> PGNUM v < 983032 - 16 * n + 8)"
      using that(2) by (metis add_less_cancel_left le_Suc_ex)
    then show ?thesis unfolding T [OF that(1)] by (rule if_not_P)
  qed
  have new: "translate s2 pd v = Some (q + 8 * n + k, 3)" if "PGNUM v = 983032 - 16 * n + k" "k < 8" for v k
    using M here [OF that] that by simp
  have "translate s2 pd v = Some (q + 8 * i + k, 3)" if "i < Suc n" "k < 8" "PGNUM v = 983032 - 16 * i + k" for i k v
  proof (cases "i = n")
    case False
    then have i: "i < n" using that(1) by simp
    have "PDX v = 959" using that n unfolding PDX_PGNUM by simp
    moreover have "\<forall>j<8. PGNUM v \<noteq> 983032 - 16 * n + j" using that i n by auto
    ultimately show ?thesis using old [of v] s1(8) i that by simp
  qed (use that new in simp)
  moreover have "translate s2 pd v = translate s pd v"
    if "PDX v \<noteq> 957" "\<forall>i<Suc n. \<forall>k<8. PGNUM v \<noteq> 983032 - 16 * i + k" for v
    using old [of v] s1(9) that by simp
  moreover have "\<forall>r. r \<notin> set (page_pool s) \<longrightarrow> page_ref s2 r = page_ref s r"
    using M s1(5,6) by (metis subsetD)
  ultimately show ?case
    using s1(1-4,6,7) s2(1) M run pa
    by (intro exI [of _ s2]) (auto simp: foldR_append stack_start_def)
qed

lemma stack_bounds: "i < 8 \<Longrightarrow> k < 8 \<Longrightarrow> 982920 \<le> 983032 - 16 * i + k \<and> 983032 - 16 * i + k < (983040::nat)"
  by linarith

text \<open>After \<open>env_init\<close> the invariant of the kernel holds: no environment has an address space yet.\<close>

lemma env_init_sel:
  assumes "length (envs s) = NENV"
  shows "pages (env_init s) = pages s" "npages (env_init s) = npages s" "phys (env_init s) = phys s"
    "page_free_list (env_init s) = page_free_list s" "kern_pgdir (env_init s) = kern_pgdir s"
  by (subst env_init_other [OF assms], simp)+

lemma boot_kern_inv:
  assumes k: "kdir (kernel_slots m) pd s" and s: "page_held s pd" "kern_pgdir s = pd" "length (envs s) = NENV"
  shows "kern_inv (page_ref s) (env_init s)"
proof -
  note K = kdir_D [OF k]
  have e: "env_dirs (env_init s) = {}" using env_init_nth [OF s(3)] by (auto simp: env_dirs_def)
  have t: "tables s {} = {}" "leafs s {} q = {}" for q by (simp_all add: tables_def leafs_def)
  then have v: "vm_inv {} (page_ref s) s" unfolding vm_inv_def using K(1) by simp
  have z: "phys s pd i = 0" if "i < NUPDE" for i
  proof (rule ccontr)
    assume "phys s pd i \<noteq> 0"
    then have "i \<in> kernel_slots m" using K(4) that by auto
    then show False using that by (auto simp: kernel_slots_def split: if_splits)
  qed
  show ?thesis
    by (rule kern_inv_intro [OF env_init_inv(1) [OF s(3)] v e, where k = pd])
      (simp_all add: env_init_sel [OF s(3)] s(1,2) t z)
qed

lemma region_pages: "PGNUM UPAGES = 978944" "PGNUM UENVS = 977920" "PGNUM KERNBASE = 983040"
  by (simp_all add: PGNUM_div)

lemma kernbase_page:
  "KERNBASE \<le> v \<longleftrightarrow> 983040 \<le> PGNUM v"
  "983040 \<le> PGNUM v \<Longrightarrow> PGNUM (v - KERNBASE) = PGNUM v - 983040" "983040 \<le> PGNUM v \<Longrightarrow> 960 \<le> PDX v"
proof -
  show i: "KERNBASE \<le> v \<longleftrightarrow> 983040 \<le> PGNUM v" unfolding word_le_nat_alt PGNUM_div by auto
  show "960 \<le> PDX v" if "983040 \<le> PGNUM v" unfolding PDX_PGNUM using that by linarith
  assume p: "983040 \<le> PGNUM v"
  then have "unat (v - KERNBASE) = unat v - 4026531840" using i by (simp add: unat_sub)
  then show "PGNUM (v - KERNBASE) = PGNUM v - 983040" using p by (simp add: PGNUM_div)
qed

text \<open>The directory before the mappings: it maps itself, and the slot for devices may have a page table.\<close>

definition start_dir :: "bool \<Rightarrow> nat \<Rightarrow> kstate \<Rightarrow> bool" where
  "start_dir m pd s \<longleftrightarrow> (\<forall>i<1024. phys s pd i \<noteq> 0 \<longleftrightarrow> i = PDX UVPT \<or> m \<and> i = PDX MMIOBASE) \<and>
     phys s pd (PDX UVPT) AND PTE_P \<noteq> 0 \<and>
     (m \<longrightarrow> phys s pd (PDX MMIOBASE) AND 0xFFF = 7 \<and> pt_of s pd (PDX MMIOBASE) < npages s \<and>
       pt_of s pd (PDX MMIOBASE) \<notin> set (page_pool s) \<and> pt_of s pd (PDX MMIOBASE) \<noteq> pd)"

text \<open>The three large regions, one after the other.\<close>

lemma map_three_regions:
  fixes s
  defines "pd \<equiv> kern_pgdir s" and "n \<equiv> (8 * npages s + 4095) div 4096"
  assumes s: "page_inv s" "page_held s pd" "start_dir m pd s" "67 \<le> length (page_pool s)"
    and q: "npages s \<le> 65536" "q1 + n \<le> 65536" "q2 + 32 \<le> 65536"
  shows "\<exists>s3. (\<forall>ks. mem_init_map (KERNBASE + page2pa q1) (KERNBASE + page2pa q2) ks s = mem_init_mp ks s3) \<and>
    kdir (kernel_slots m) pd s3 \<and> card (kernel_slots m) \<le> budget pd s3 \<and> rest s3 = rest s \<and> page_held s3 pd \<and>
    (\<forall>i. phys s pd i \<noteq> 0 \<longrightarrow> phys s3 pd i = phys s pd i) \<and> n \<le> 128 \<and>
    (\<forall>v. PDX v \<noteq> 957 \<and> PDX v \<noteq> 958 \<longrightarrow> translate s3 pd v = (if in_region KERNBASE 65536 v then Some (PGNUM v - 983040, 3)
      else if in_region UENVS 32 v then Some (q2 + (PGNUM v - 977920), 5)
      else if in_region UPAGES n v then Some (q1 + (PGNUM v - 978944), 5) else None))"
proof -
  note Di = page_inv_D [OF s(1)]
  have pages: "unat (pages_size s) = 8 * npages s" using q(1) by (simp add: pages_size_def unat_word_ariths unat_of_nat_u32)
  have n1: "unat (ROUNDUP (pages_size s) PGSIZE) = 4096 * n" "n \<le> 128"
    using q(1) unfolding n_def by (simp_all add: unat_ROUNDUP pages)
  have n2: "unat (ROUNDUP envs_size PGSIZE) = 4096 * 32" by (simp add: unat_ROUNDUP)
  have held: "pd < npages s" "pd \<notin> set (page_pool s)" "page_ref s pd = 0" using s(2) by (simp_all add: page_held_def)
  have "n \<ge> 1" using held(1) unfolding n_def by linarith
  then have q1: "q1 < 65536" using q(2) by simp
  note start = s(3) [unfolded start_dir_def PDX_consts]
  have nz: "phys s pd i \<noteq> 0 \<longleftrightarrow> i = 957 \<or> m \<and> i = 958" if "i < 1024" for i using start that by blast
  have slots: "{i. i < 1024 \<and> phys s pd i \<noteq> 0} = {957} \<union> (if m then {958} else {})"
  proof (rule set_eqI)
    fix i show "i \<in> {i. i < 1024 \<and> phys s pd i \<noteq> 0} \<longleftrightarrow> i \<in> {957} \<union> (if m then {958} else {})"
      using nz [of i] by auto
  qed
  have k0: "kdir (kernel_slots m) pd s"
    unfolding kdir_def slots PDX_consts using s(1) held start nz by (auto simp: kernel_slots_def)
  have b0: "card (kernel_slots m) \<le> budget pd s" using s(4) unfolding budget_def slots card_slots by simp
  have none: "translate s pd v = None" if "PDX v \<noteq> 957" "PDX v \<noteq> 958" for v
    using nz [OF PDX_bound, of v] that by (simp add: translate_def)
  note P = region_pages
  have "\<exists>s1. boot_map_region pd UPAGES (ROUNDUP (pages_size s) PGSIZE) (page2pa q1) 5 s = Inr s1 \<and>
      mapped_region m pd UPAGES n q1 5 s s1"
  proof (rule map_one_region [OF k0 b0 _ _ _ n1(1) refl])
    fix v assume "in_region UPAGES n v"
    then have "PDX v = 956" using n1(2) by (auto simp: in_region_def P PDX_PGNUM)
    then show "PDX v \<in> kernel_slots m - {957} \<and> translate s pd v = None" by (simp add: none kernel_slots_def)
  qed (use n1(2) q(2) in \<open>simp_all add: P\<close>)
  then obtain s1 where s1: "boot_map_region pd UPAGES (ROUNDUP (pages_size s) PGSIZE) (page2pa q1) 5 s = Inr s1"
      "mapped_region m pd UPAGES n q1 5 s s1" by blast
  note M1 = s1(2) [unfolded mapped_region_def]
  have "\<exists>s2. boot_map_region pd UENVS (ROUNDUP envs_size PGSIZE) (page2pa q2) 5 s1 = Inr s2 \<and>
      mapped_region m pd UENVS 32 q2 5 s1 s2"
  proof (rule map_one_region [OF _ _ _ _ _ n2 refl])
    fix v assume "in_region UENVS 32 v"
    then have "PDX v = 955" "\<not> in_region UPAGES n v" by (auto simp: in_region_def P PDX_PGNUM)
    then show "PDX v \<in> kernel_slots m - {957} \<and> translate s1 pd v = None" using M1 by (simp add: none kernel_slots_def)
  qed (use M1 b0 q(3) in \<open>simp_all add: P\<close>)
  then obtain s2 where s2: "boot_map_region pd UENVS (ROUNDUP envs_size PGSIZE) (page2pa q2) 5 s1 = Inr s2"
      "mapped_region m pd UENVS 32 q2 5 s1 s2" by blast
  note M2 = s2(2) [unfolded mapped_region_def]
  have "\<exists>s3. boot_map_region pd KERNBASE (push_bit 28 1) 0 3 s2 = Inr s3 \<and> mapped_region m pd KERNBASE 65536 0 3 s2 s3"
  proof (rule map_one_region)
    fix v assume "in_region KERNBASE 65536 v"
    then have v: "960 \<le> PDX v" "\<not> in_region UPAGES n v" "\<not> in_region UENVS 32 v" using n1(2) 
      by (auto simp: in_region_def P PDX_PGNUM)
    then show "PDX v \<in> kernel_slots m - {957} \<and> translate s2 pd v = None"
      using M1 M2 PDX_bound [of v] by (simp add: none kernel_slots_def)
  qed (use M1 M2 b0 in \<open>simp_all add: P page2pa_def push_bit_eq_mult\<close>)
  then obtain s3 where s3: "boot_map_region pd KERNBASE (push_bit 28 1) 0 3 s2 = Inr s3"
      "mapped_region m pd KERNBASE 65536 0 3 s2 s3" by blast
  note M3 = s3(2) [unfolded mapped_region_def]
  have r3: "rest s3 = rest s" using M1 M2 M3 by simp
  have tr3: "translate s3 pd v = (if in_region KERNBASE 65536 v then Some (PGNUM v - 983040, 3)
      else if in_region UENVS 32 v then Some (q2 + (PGNUM v - 977920), 5)
      else if in_region UPAGES n v then Some (q1 + (PGNUM v - 978944), 5) else None)" if "PDX v \<noteq> 957" "PDX v \<noteq> 958" for v
    using M1 M2 M3 that by (simp add: none P)
  have "mem_init_map (KERNBASE + page2pa q1) (KERNBASE + page2pa q2) ks s = mem_init_mp ks s3" for ks
    using s1(1) s2(1) s3(1) rest_sel(1,6) [of s1 s] rest_sel(1,6) [of s2 s] M1 M2 q1 q(3)
    by (simp add: mem_init_map_def PADDR_page pd_def [symmetric])
  moreover have "page_held s3 pd"
    using s(2) M1 M2 M3 rest_sel(1) [OF r3] unfolding page_held_def by (metis subsetD)
  ultimately show ?thesis using M1 M2 M3 b0 n1(2) r3 tr3 by (intro exI [of _ s3]) simp
qed

section \<open>The self-test\<close>

lemma PTE_ADDR_page: "PTE_ADDR w = page2pa (PGNUM w)"
proof -
  have "page2pa (PGNUM w) = push_bit 12 (drop_bit 12 w)" by (simp add: page2pa_def PGNUM_def)
  also have "\<dots> = PTE_ADDR w"
    unfolding PTE_ADDR_def mask12 by (rule bit_word_eqI) (auto simp: bit_simps dest: bit_imp_le_length)
  finally show ?thesis by simp
qed

lemma low_flags: "(w::u32) AND 0xFFF = 7 \<Longrightarrow> w AND 1 = 1 \<and> w AND 2 = 2 \<and> w AND 0x80 = 0"
proof -
  assume w: "w AND 0xFFF = 7"
  have "w AND 1 = (w AND 0xFFF) AND 1" "w AND 2 = (w AND 0xFFF) AND 2" "w AND 0x80 = (w AND 0xFFF) AND 0x80"
    by (simp_all add: and.assoc)
  then show ?thesis unfolding w by simp
qed

lemma check_va2pa_translate:
  assumes k: "kdir J pd s" and va: "PDX va \<noteq> 957"
  shows "check_va2pa pd va s = Inr (case translate s pd va of None \<Rightarrow> NOT 0
    | Some (q, perm) \<Rightarrow> if perm AND PTE_P = 0 then NOT 0 else page2pa q)"
proof (cases "phys s pd (PDX va) = 0")
  case False
  have u: "PDX va \<noteq> PDX UVPT" using va by (simp add: PDX_consts)
  note f = low_flags [OF kdir_D(10) [OF k PDX_bound u False]]
  have "PGNUM (phys s pd (PDX va)) < npages s" using kdir_D(6) [OF k PDX_bound u False] by (simp add: pt_of_def)
  moreover have "(w AND 0xFFF) AND 1 = w AND 1" for w :: u32 by (simp add: and.assoc)
  ultimately show ?thesis
    using f False by (simp add: check_va2pa_def translate_def pt_of_def KADDR_def Let_def PTE_ADDR_page [symmetric])
qed (simp add: check_va2pa_def translate_def)

lemma foldR_unit: "(\<And>x. x \<in> set xs \<Longrightarrow> f x () = Inr ()) \<Longrightarrow> foldR f xs () = Inr ()"
  by (induction xs) auto

lemma page_in_region:
  assumes "unat va mod 4096 = 0" "PGNUM va + n \<le> 1048576" "i < n"
  shows "in_region va n (va + word_of_nat i * PGSIZE)" "PGNUM (va + word_of_nat i * PGSIZE) = PGNUM va + i"
  using page_add [of va i] assms by (simp_all add: in_region_def)

lemma check_region_ok:
  assumes k: "kdir J pd s" and sz: "unat sz = 4096 * n" and va: "unat va mod 4096 = 0" "PGNUM va + n \<le> 1048576"
    and map: "\<And>v. in_region va n v \<Longrightarrow> PDX v \<noteq> 957 \<and> translate s pd v = Some (q + (PGNUM v - PGNUM va), perm)"
    and perm: "perm AND PTE_P \<noteq> 0"
  shows "check_region pd va sz (Inr (page2pa q)) s = Inr ()"
  unfolding check_region_def
proof (rule foldR_unit)
  fix x assume "x \<in> set (va_range 0 sz)"
  then obtain i where i: "i < n" "x = word_of_nat i * PGSIZE" by (auto simp: va_range_def sz)
  note p = page_in_region [OF va i(1)]
  have "check_va2pa pd (va + x) s = Inr (page2pa (q + i))"
    using check_va2pa_translate [OF k, of "va + x"] map [OF p(1)] p(2) perm by (simp add: i(2))
  then show "bindR (check_va2pa pd (va + x) s) (\<lambda>a. bindR (Inr (page2pa q)) (\<lambda>p. assertR (a = p + x))) = Inr ()"
    by (simp add: assertR_def i(2) page2pa_add)
qed

lemma check_unmapped_ok:
  assumes k: "kdir J pd s" and sz: "unat sz = 4096 * n" and va: "unat va mod 4096 = 0" "PGNUM va + n \<le> 1048576"
    and map: "\<And>v. in_region va n v \<Longrightarrow> PDX v \<noteq> 957 \<and> translate s pd v = None"
  shows "check_unmapped pd va sz s = Inr ()"
  unfolding check_unmapped_def
proof (rule foldR_unit)
  fix x assume "x \<in> set (va_range 0 sz)"
  then obtain i where i: "i < n" "x = word_of_nat i * PGSIZE" by (auto simp: va_range_def sz)
  have "check_va2pa pd (va + x) s = Inr (NOT 0)"
    using check_va2pa_translate [OF k, of "va + x"] map [OF page_in_region(1) [OF va i(1)]] by (simp add: i(2))
  then show "bindR (check_va2pa pd (va + x) s) (\<lambda>a. assertR (a = NOT 0)) = Inr ()" by (simp add: assertR_def)
qed

lemma stack_base:
  assumes "i < 8"
  defines "b \<equiv> KSTACKTOP - (KSTKSIZE + KSTKGAP) * (word_of_nat i + 1)"
  shows "PGNUM b = 983024 - 16 * i" "unat b mod 4096 = 0" "PGNUM (b + KSTKGAP) = 983032 - 16 * i"
    "unat (b + KSTKGAP) mod 4096 = 0"
proof -
  have "i = 0 \<or> i = 1 \<or> i = 2 \<or> i = 3 \<or> i = 4 \<or> i = 5 \<or> i = 6 \<or> i = 7" using assms(1) by linarith
  then show "PGNUM b = 983024 - 16 * i" "unat b mod 4096 = 0" "PGNUM (b + KSTKGAP) = 983032 - 16 * i"
    "unat (b + KSTKGAP) mod 4096 = 0"
    unfolding b_def by (auto simp: PGNUM_div)
qed

lemma check_pdes:
  assumes k: "kdir (kernel_slots m) pd s" and self: "phys s pd 957 AND PTE_P \<noteq> 0"
    and used: "\<And>i. i \<in> kernel_slots m \<Longrightarrow> phys s pd i \<noteq> 0"
  shows "foldR (\<lambda>i _. check_pde pd s i) [0..<NPDENTRIES] () = (if m then Inr () else Inl (Panic ''assertion failed''))"
proof -
  have top: "PDX 0xEFFFFFFF = 959" by (simp add: PDX_div)
  have zero: "phys s pd i = 0" if "i < 1024" "i \<notin> kernel_slots m" for i using kdir_D(4) [OF k] that by auto
  have flags: "phys s pd i AND 1 \<noteq> 0 \<and> phys s pd i AND 2 \<noteq> 0" if "i < 1024" "i \<in> kernel_slots m" "i \<noteq> 957" for i
    using low_flags [OF kdir_D(10) [OF k that(1)]] used [OF that(2)] that(3) by (simp add: PDX_consts)
  have pass: "check_pde pd s i = Inr ()" if "i < 1024" "i = 958 \<longrightarrow> m" for i
  proof (cases "i \<in> kernel_slots m")
    case True
    then show ?thesis using flags [OF that(1) True] self
      by (cases "i = 957") (auto simp: check_pde_def assertR_def PDX_consts top kernel_slots_def split: if_splits)
  next
    case False
    then show ?thesis using zero [OF that(1) False] that
      by (auto simp: check_pde_def assertR_def PDX_consts top kernel_slots_def)
  qed
  show ?thesis
  proof (cases m)
    case True
    then show ?thesis using pass by (auto intro: foldR_unit)
  next
    case False
    then have "check_pde pd s 958 = Inl (Panic ''assertion failed'')"
      using zero [of 958] by (simp add: check_pde_def assertR_def PDX_consts kernel_slots_def guardR_def)
    moreover have "foldR (\<lambda>i _. check_pde pd s i) [0..<958] () = Inr ()" by (rule foldR_unit) (simp add: pass)
    moreover have "[0..<1024] = [0..<958] @ 958 # [959..<1024]"
    proof -
      have "[0..<1024] = [0..<958] @ [958..<1024]" using upt_add_eq_append [of 0 958 66] by simp
      then show ?thesis using upt_conv_Cons [of 958 1024] by simp
    qed
    ultimately show ?thesis using False by (simp add: foldR_append)
  qed
qed

lemma self_test_outcome:
  assumes k: "kdir (kernel_slots m) pd s" and pd: "kern_pgdir s = pd" and self: "phys s pd 957 AND PTE_P \<noteq> 0"
    and mmio: "m \<longrightarrow> phys s pd 958 \<noteq> 0"
    and np: "0 < npages s" "npages s \<le> 65536" and n: "n = (8 * npages s + 4095) div 4096"
    and q: "q1 < 65536" "q2 < 65536" "q3 + 64 \<le> 65536"
    and top: "\<And>v. KERNBASE \<le> v \<Longrightarrow> translate s pd v = Some (PGNUM (v - KERNBASE), 3)"
    and pages: "\<And>v. in_region UPAGES n v \<Longrightarrow> translate s pd v = Some (q1 + (PGNUM v - 978944), 5)"
    and envs: "\<And>v. in_region UENVS 32 v \<Longrightarrow> translate s pd v = Some (q2 + (PGNUM v - 977920), 5)"
    and stack: "\<And>i k v. i < 8 \<Longrightarrow> k < 8 \<Longrightarrow> PGNUM v = 983032 - 16 * i + k \<Longrightarrow> translate s pd v = Some (q3 + 8 * i + k, 3)"
    and guard: "\<And>i k v. i < 8 \<Longrightarrow> k < 8 \<Longrightarrow> PGNUM v = 983024 - 16 * i + k \<Longrightarrow> translate s pd v = None"
  shows "check_kern_pgdir (KERNBASE + page2pa q1) (KERNBASE + page2pa q2) (KERNBASE + page2pa q3) s =
    (if m then Inr () else Inl (Panic ''assertion failed''))"
proof -
  note P = region_pages
  have pz: "unat (pages_size s) = 8 * npages s" using np by (simp add: pages_size_def unat_word_ariths unat_of_nat_u32)
  have n1: "unat (ROUNDUP (pages_size s) PGSIZE) = 4096 * n" "n \<le> 128" "1 \<le> n"
    using np unfolding n by (simp_all add: unat_ROUNDUP pz)
  have n2: "unat (ROUNDUP envs_size PGSIZE) = 4096 * 32" by (simp add: unat_ROUNDUP)
  have d: "PDX v = 956" if "in_region UPAGES n v" for v using that n1(2) by (auto simp: in_region_def P PDX_PGNUM)
  have de: "PDX v = 955" if "in_region UENVS 32 v" for v using that by (auto simp: in_region_def P PDX_PGNUM)
  have c1: "check_region pd UPAGES (ROUNDUP (pages_size s) PGSIZE) (Inr (page2pa q1)) s = Inr ()"
    by (rule check_region_ok [OF k n1(1), where perm = 5]) (use n1(2) d pages in \<open>simp_all add: P\<close>)
  have c2: "check_region pd UENVS (ROUNDUP envs_size PGSIZE) (Inr (page2pa q2)) s = Inr ()"
    by (rule check_region_ok [OF k n2, where perm = 5]) (use de envs in \<open>simp_all add: P\<close>)
  have c3: "check_region pd KERNBASE (word_of_nat (npages s) * PGSIZE) (Inr 0) s = Inr ()"
  proof -
    have z: "unat (word_of_nat (npages s) * PGSIZE) = 4096 * npages s"
      using np by (simp add: unat_word_ariths unat_of_nat_u32)
    have "PDX v \<noteq> 957 \<and> translate s pd v = Some (PGNUM v - PGNUM KERNBASE, 3)" if "in_region KERNBASE (npages s) v" for v
      using kernbase_page [of v] top [of v] that by (simp add: in_region_def P)
    then have "check_region pd KERNBASE (word_of_nat (npages s) * PGSIZE) (Inr (page2pa 0)) s = Inr ()"
      by (intro check_region_ok [OF k z, where q = 0 and perm = 3]) (use np in \<open>simp_all add: P\<close>)
    then show ?thesis by (simp add: page2pa_def)
  qed
  have c4: "check_region pd (KSTACKTOP - (KSTKSIZE + KSTKGAP) * (word_of_nat i + 1) + KSTKGAP) KSTKSIZE
        (PADDR (KERNBASE + page2pa q3 + word_of_nat i * KSTKSIZE)) s = Inr ()"
    "check_unmapped pd (KSTACKTOP - (KSTKSIZE + KSTKGAP) * (word_of_nat i + 1)) KSTKGAP s = Inr ()" if i: "i < 8" for i
  proof -
    note B = stack_base [OF i]
    have pa: "PADDR (KERNBASE + page2pa q3 + word_of_nat i * KSTKSIZE) = Inr (page2pa (q3 + 8 * i))"
      by (rule PADDR_stack) (use q(3) i in simp)
    have x: "\<exists>k<8. PGNUM v = p + k" if "p \<le> PGNUM v" "PGNUM v < p + 8" for v p
      using that by (intro exI [of _ "PGNUM v - p"]) simp
    show "check_region pd (KSTACKTOP - (KSTKSIZE + KSTKGAP) * (word_of_nat i + 1) + KSTKGAP) KSTKSIZE
        (PADDR (KERNBASE + page2pa q3 + word_of_nat i * KSTKSIZE)) s = Inr ()"
      unfolding pa
    proof (rule check_region_ok [OF k _ B(4), where perm = 3 and n = 8])
      fix v assume "in_region (KSTACKTOP - (KSTKSIZE + KSTKGAP) * (word_of_nat i + 1) + KSTKGAP) 8 v"
      then obtain j where j: "j < 8" "PGNUM v = 983032 - 16 * i + j" using x unfolding in_region_def B by blast
      have "PDX v \<noteq> 957" unfolding PDX_PGNUM j(2) using i j(1) by linarith
      then show "PDX v \<noteq> 957 \<and> translate s pd v = Some (q3 + 8 * i + (PGNUM v -
          PGNUM (KSTACKTOP - (KSTKSIZE + KSTKGAP) * (word_of_nat i + 1) + KSTKGAP)), 3)"
        unfolding B using stack [OF i j] j(2) by simp
    qed (use i in \<open>simp_all only: B\<close>, simp_all)
    show "check_unmapped pd (KSTACKTOP - (KSTKSIZE + KSTKGAP) * (word_of_nat i + 1)) KSTKGAP s = Inr ()"
    proof (rule check_unmapped_ok [OF k _ B(2), where n = 8])
      fix v assume "in_region (KSTACKTOP - (KSTKSIZE + KSTKGAP) * (word_of_nat i + 1)) 8 v"
      then obtain j where j: "j < 8" "PGNUM v = 983024 - 16 * i + j" using x unfolding in_region_def B by blast
      have "PDX v \<noteq> 957" unfolding PDX_PGNUM j(2) using i j(1) by linarith
      then show "PDX v \<noteq> 957 \<and> translate s pd v = None" using guard [OF i j] by simp
    qed (use i in \<open>simp_all only: B\<close>, simp_all)
  qed
  have slot: "phys s pd (PDX v) \<noteq> 0" if "translate s pd v \<noteq> None" for v using that by (auto simp: translate_def)
  have "phys s pd i \<noteq> 0" if used: "i \<in> kernel_slots m" for i
  proof -
    consider "i = 955" | "i = 956" | "i = 957" | "i = 958" m | "i = 959" | "960 \<le> i" "i < 1024"
      using used by (auto simp: kernel_slots_def split: if_splits)
    then show ?thesis
    proof cases
      case 1 then show ?thesis using slot [of UENVS] envs [of UENVS] by (simp add: in_region_def PDX_consts)
    next
      case 2 then show ?thesis using slot [of UPAGES] pages [of UPAGES] n1(3) by (simp add: in_region_def PDX_consts)
    next
      case 5 then show ?thesis using slot [of "0xEFFF8000"] stack [of 0 0 "0xEFFF8000"] by (simp add: PGNUM_div PDX_div)
    next
      case 6
      have "PDX (PGADDR i 0 0) = i" using PGADDR_parts(1) [of i 0] 6 by simp
      moreover from this have "KERNBASE \<le> PGADDR i 0 0"
        using 6 PGNUM_split [of "PGADDR i 0 0"] unfolding kernbase_page(1) by simp
      ultimately show ?thesis using slot [of "PGADDR i 0 0"] top by simp
    qed (use self mmio in auto)
  qed
  note c5 = check_pdes [OF k self this]
  have "foldR (\<lambda>i _. bindR (check_region pd (KSTACKTOP - (KSTKSIZE + KSTKGAP) * (word_of_nat i + 1) + KSTKGAP) KSTKSIZE
      (PADDR (KERNBASE + page2pa q3 + word_of_nat i * KSTKSIZE)) s) (\<lambda>_.
      check_unmapped pd (KSTACKTOP - (KSTKSIZE + KSTKGAP) * (word_of_nat i + 1)) KSTKGAP s)) [0..<NCPU] () = Inr ()"
  proof (rule foldR_unit)
    fix i assume "i \<in> set [0..<8]"
    then have "i < 8" by simp
    from c4 [OF this] show "bindR (check_region pd (KSTACKTOP - (KSTKSIZE + KSTKGAP) * (word_of_nat i + 1) + KSTKGAP) KSTKSIZE
      (PADDR (KERNBASE + page2pa q3 + word_of_nat i * KSTKSIZE)) s) (\<lambda>_.
      check_unmapped pd (KSTACKTOP - (KSTKSIZE + KSTKGAP) * (word_of_nat i + 1)) KSTKGAP s) = Inr ()"
      by (simp only: bindR_Inr)
  qed
  then show ?thesis
    unfolding check_kern_pgdir_def pd Let_def PADDR_page [OF q(1)] PADDR_page [OF q(2)] c1 c2 c3
    by (simp only: bindR_Inr c5)
qed

text \<open>C3: After the mappings of \<open>mem_init\<close>, the page directory of the kernel maps all of physical memory at
  \<open>KERNBASE\<close>, writable by the kernel only, the arrays \<open>pages\<close> and \<open>envs\<close> where users can read them, one
  stack for each CPU with an unmapped guard below it, and nothing below \<open>UTOP\<close>. With the environment
  table set up after it, the state meets the invariant that the operations of the kernel keep. The self-test
  \<open>check_kern_pgdir\<close> accepts the result exactly when the slot for devices had a page table before, which
  the earlier self-test \<open>check_page\<close> leaves behind.\<close>

theorem mem_init_maps_kernel:
  fixes s
  defines "pd \<equiv> kern_pgdir s" and "n \<equiv> (8 * npages s + 4095) div 4096"
  assumes s: "page_inv s" "page_held s pd" "start_dir m pd s" "67 \<le> length (page_pool s)"
      "length (envs s) = NENV"
    and q: "npages s \<le> 65536" "q1 + n \<le> 65536" "q2 + 32 \<le> 65536" "q3 + 64 \<le> 65536"
  shows "\<exists>s'. mem_init_map (KERNBASE + page2pa q1) (KERNBASE + page2pa q2) (KERNBASE + page2pa q3) s = Inr s' \<and>
    (\<forall>v\<ge>KERNBASE. translate s' pd v = Some (PGNUM (v - KERNBASE), PTE_W OR PTE_P)) \<and>
    (\<forall>v. in_region UPAGES n v \<longrightarrow> translate s' pd v = Some (q1 + (PGNUM v - PGNUM UPAGES), PTE_U OR PTE_P)) \<and>
    (\<forall>v. in_region UENVS 32 v \<longrightarrow> translate s' pd v = Some (q2 + (PGNUM v - PGNUM UENVS), PTE_U OR PTE_P)) \<and>
    (\<forall>i<NCPU. \<forall>k<8. \<forall>v. PGNUM v = PGNUM KSTACKTOP - 16 * i - 8 + k \<longrightarrow>
       translate s' pd v = Some (q3 + 8 * i + k, PTE_W OR PTE_P)) \<and>
    (\<forall>i<NCPU. \<forall>k<8. \<forall>v. PGNUM v = PGNUM KSTACKTOP - 16 * i - 16 + k \<longrightarrow> translate s' pd v = None) \<and>
    (\<forall>v<UTOP. translate s' pd v = None) \<and> kern_inv (page_ref s') (env_init s') \<and>
    check_kern_pgdir (KERNBASE + page2pa q1) (KERNBASE + page2pa q2) (KERNBASE + page2pa q3) s' =
      (if m then Inr () else Inl (Panic ''assertion failed''))"
proof -
  obtain s3 where s3: "\<And>ks. mem_init_map (KERNBASE + page2pa q1) (KERNBASE + page2pa q2) ks s = mem_init_mp ks s3"
    "kdir (kernel_slots m) pd s3" "card (kernel_slots m) \<le> budget pd s3" "rest s3 = rest s" "page_held s3 pd" "n \<le> 128"
    "\<And>i. phys s pd i \<noteq> 0 \<Longrightarrow> phys s3 pd i = phys s pd i"
    and tr3: "\<And>v. PDX v \<noteq> 957 \<Longrightarrow> PDX v \<noteq> 958 \<Longrightarrow> translate s3 pd v = (if in_region KERNBASE 65536 v then Some (PGNUM v - 983040, 3)
      else if in_region UENVS 32 v then Some (q2 + (PGNUM v - 977920), 5)
      else if in_region UPAGES n v then Some (q1 + (PGNUM v - 978944), 5) else None)"
    using map_three_regions [of s m q1 q2, folded pd_def n_def, OF s(1-4) q(1-3)] by blast
  note P = region_pages
  have none3: "translate s3 pd v = None" if "PDX v = 959" for v
    using that tr3 [of v] s3(6) unfolding in_region_def P PDX_PGNUM by auto
  have "kern_pgdir s3 = pd" using rest_sel(6) [OF s3(4)] by (simp add: pd_def)
  with none3 obtain s4 where s4: "mem_init_mp (KERNBASE + page2pa q3) s3 = Inr s4" "kdir (kernel_slots m) pd s4" "rest s4 = rest s3"
    "\<forall>q. q \<notin> set (page_pool s3) \<longrightarrow> page_ref s4 q = page_ref s3 q" "set (page_pool s4) \<subseteq> set (page_pool s3)"
    "\<forall>i. phys s3 pd i \<noteq> 0 \<longrightarrow> phys s4 pd i = phys s3 pd i"
    "\<forall>i<8. \<forall>k<8. \<forall>v. PGNUM v = 983032 - 16 * i + k \<longrightarrow> translate s4 pd v = Some (q3 + 8 * i + k, 3)"
    "\<forall>v. PDX v \<noteq> 957 \<and> (\<forall>i<8. \<forall>k<8. PGNUM v \<noteq> 983032 - 16 * i + k) \<longrightarrow> translate s4 pd v = translate s3 pd v"
    using map_stacks [where s = s3 and pd = pd and q = q3 and n = 8 and m = m] s3(2,3) q(4) unfolding mem_init_mp_def by auto
  have r4: "rest s4 = rest s" using s4(3) s3(4) by simp
  note same4 = rest_sel [OF r4]
  have other: "translate s4 pd v = translate s3 pd v" if "PGNUM v < 982920 \<or> 983040 \<le> PGNUM v" "PDX v \<noteq> 957" for v
    using s4(8) that stack_bounds by (metis not_le)
  have t1: "translate s4 pd v = Some (PGNUM (v - KERNBASE), 3)" if v: "v \<ge> KERNBASE" for v
    using kernbase_page [of v] v other [of v] tr3 [of v] PGNUM_bound [of v] by (simp add: in_region_def P)
  have t2: "translate s4 pd v = Some (q1 + (PGNUM v - 978944), 5)" if "in_region UPAGES n v" for v
  proof -
    have "PDX v = 956" using that s3(6) by (auto simp: in_region_def P PDX_PGNUM)
    then show ?thesis using that s3(6) other [of v] tr3 [of v] by (simp add: in_region_def P)
  qed
  have t3: "translate s4 pd v = Some (q2 + (PGNUM v - 977920), 5)" if "in_region UENVS 32 v" for v
  proof -
    have "PDX v = 955" using that by (auto simp: in_region_def P PDX_PGNUM)
    then show ?thesis using that other [of v] tr3 [of v] by (simp add: in_region_def P)
  qed
  have t4: "translate s4 pd v = Some (q3 + 8 * i + k, 3)" if "i < 8" "k < 8" "PGNUM v = 983032 - 16 * i + k" for i k v
    using that s4(7) by simp
  have t5: "translate s4 pd v = None" if "i < 8" "k < 8" "PGNUM v = 983024 - 16 * i + k" for i k v
  proof -
    have "PGNUM v \<noteq> 983032 - 16 * i' + k'" if "i' < 8" "k' < 8" for i' k'
    proof
      assume "PGNUM v = 983032 - 16 * i' + k'"
      then have "8 + k' + 16 * i = k + 16 * i'" using that \<open>i < 8\<close> \<open>PGNUM v = 983024 - 16 * i + k\<close> by simp
      then have "(8 + k' + 16 * i) mod 16 = (k + 16 * i') mod 16" by simp
      then show False using that \<open>k < 8\<close> by simp
    qed
    moreover have d: "PDX v = 959" using that unfolding PDX_PGNUM by linarith
    ultimately have "translate s4 pd v = translate s3 pd v" using s4(8) by simp
    with d none3 show ?thesis by simp
  qed
  moreover have "translate s4 pd v = None" if v: "v < UTOP" for v
  proof -
    have "PGNUM v < 977920" using v by (simp add: PGNUM_div word_less_nat_alt)
    moreover from this have "PDX v \<noteq> 957" "PDX v \<noteq> 958" unfolding PDX_PGNUM by linarith+
    ultimately show ?thesis using other [of v] tr3 [of v] by (simp add: in_region_def P)
  qed
  moreover have "kern_inv (page_ref s4) (env_init s4)"
  proof -
    have "page_held s4 pd" using s3(5) s4(4,5) rest_sel(1) [OF s4(3)] unfolding page_held_def by (metis subsetD)
    then show ?thesis using boot_kern_inv [OF s4(2)] s(5) same4 by (simp add: pd_def)
  qed
  moreover have "mem_init_map (KERNBASE + page2pa q1) (KERNBASE + page2pa q2) (KERNBASE + page2pa q3) s = Inr s4"
    using s3(1) s4(1) by simp
  moreover have "phys s4 pd i = phys s pd i" if "phys s pd i \<noteq> 0" for i using s3(7) s4(6) that by simp
  then have self: "phys s4 pd 957 AND PTE_P \<noteq> 0" "m \<longrightarrow> phys s4 pd 958 \<noteq> 0"
    using s(3) unfolding start_dir_def PDX_consts by auto
  have np: "0 < npages s" using s(2) by (simp add: page_held_def)
  then have "1 \<le> n" unfolding n_def by linarith
  then have q1: "q1 < 65536" using q(2) by simp
  have "check_kern_pgdir (KERNBASE + page2pa q1) (KERNBASE + page2pa q2) (KERNBASE + page2pa q3) s4 =
      (if m then Inr () else Inl (Panic ''assertion failed''))"
    by (rule self_test_outcome [OF s4(2) _ self, where n = n])
      (use same4 np q q1 t1 t2 t3 t4 t5 in \<open>simp_all add: pd_def [symmetric] n_def\<close>)
  ultimately show ?thesis unfolding P using t1 t2 t3 t4 t5 by (intro exI [of _ s4]) simp
qed

text \<open>A machine with 16 megabytes and a kernel that ends at 0xF0110000.\<close>

definition cold_kernel :: kstate where
  "cold_kernel = small_base\<lparr>nextfree := None, page_free_list := None\<rparr>"

theorem mem_init_maps_kernel_witness:
  "\<exists>s s'. mem_init_allocate 0xF0110000 (640, 15360, 0) cold_kernel = Inr (0xF0111000, 0xF0119000, s) \<and>
     mem_init_map 0xF0111000 0xF0119000 0xF0108000 s = Inr s' \<and>
     translate s' (kern_pgdir s) 0xF0112345 = Some (0x112, 3) \<and>
     translate s' (kern_pgdir s) 0xEFFF8000 = Some (0x108, 3) \<and> translate s' (kern_pgdir s) 0xEFFF7000 = None \<and>
     kern_inv (page_ref s') (env_init s')"
proof -
  have pa: "page2pa 273 = 0x111000" "page2pa 281 = 0x119000" "page2pa 264 = 0x108000" by (simp_all add: page2pa_def)
  have "\<exists>s'. mem_init_allocate 0xF0110000 (640, 15360, 0) cold_kernel = Inr (0xF0111000, 0xF0119000, s') \<and>
      npages s' = 4096 \<and> page_inv s' \<and> kern_pgdir s' = 272 \<and> page_held s' 272 \<and> length (envs s') = NENV \<and>
      start_dir False 272 s' \<and> 67 \<le> length (page_pool s')"
    using mem_init_allocates [where basemem = 640 and extmem = 15360 and ?ext16.0 = 0 and np = 4096 and s = cold_kernel and kend = "0xF0110000"] pa
    by (auto simp: i386_detect_memory_def cold_kernel_def start_dir_def)
  then obtain s where s: "mem_init_allocate 0xF0110000 (640, 15360, 0) cold_kernel = Inr (0xF0111000, 0xF0119000, s)"
    "npages s = 4096" "page_inv s" "kern_pgdir s = 272" "page_held s 272" "length (envs s) = NENV"
    "start_dir False 272 s" "67 \<le> length (page_pool s)" by blast
  note T = mem_init_maps_kernel [where s = s and m = False and ?q1.0 = 273 and ?q2.0 = 281 and ?q3.0 = 264, unfolded s(4) pa, OF s(3,5,7,8,6)]
  obtain s' where s': "mem_init_map 0xF0111000 0xF0119000 0xF0108000 s = Inr s'"
    "\<forall>v\<ge>KERNBASE. translate s' 272 v = Some (PGNUM (v - KERNBASE), PTE_W OR PTE_P)"
    "\<forall>i<NCPU. \<forall>k<8. \<forall>v. PGNUM v = PGNUM KSTACKTOP - 16 * i - 8 + k \<longrightarrow>
       translate s' 272 v = Some (264 + 8 * i + k, PTE_W OR PTE_P)"
    "\<forall>i<NCPU. \<forall>k<8. \<forall>v. PGNUM v = PGNUM KSTACKTOP - 16 * i - 16 + k \<longrightarrow> translate s' 272 v = None"
    "kern_inv (page_ref s') (env_init s')"
    using T s(2) by auto
  have "translate s' 272 0xF0112345 = Some (0x112, 3)" using s'(2) by (simp add: PGNUM_div)
  moreover have "translate s' 272 0xEFFF8000 = Some (0x108, 3)"
    using spec [OF spec [OF s'(3), of 0, simplified], of 0] by (simp add: PGNUM_div)
  moreover have "translate s' 272 0xEFFF7000 = None"
    using spec [OF spec [OF s'(4), of 0, simplified], of 7] by (simp add: PGNUM_div)
  ultimately show ?thesis using s(1,4) s'(1,5) by auto
qed

end
