(* ===== verification/KLoad.thy ===== *)
theory KLoad
  imports KEnv
begin

text \<open>
  Loading a program: \<open>load_icode\<close> and \<open>env_create\<close> of \<^verbatim>\<open>src/3-sched/kern/env.c\<close>, with the layout of
  \<^verbatim>\<open>inc/elf.h\<close>. The image is the list of its bytes; reading behind it is a fault. The kernel writes to the
  new program through the page tables in use, so a store can fault as well.
\<close>

section \<open>Bytes of memory\<close>

definition word_byte :: "u32 \<Rightarrow> nat \<Rightarrow> 8 word" where
  "word_byte w k = ucast (drop_bit (8 * k) w)"

definition set_word_byte :: "u32 \<Rightarrow> nat \<Rightarrow> 8 word \<Rightarrow> u32" where
  "set_word_byte w k b = (w AND NOT (push_bit (8 * k) 0xFF)) OR push_bit (8 * k) (ucast b)"

definition load_byte :: "kstate \<Rightarrow> nat \<Rightarrow> nat \<Rightarrow> 8 word" where
  "load_byte s p off = word_byte (phys s p (off div 4)) (off mod 4)"

definition poke_byte :: "nat \<Rightarrow> nat \<Rightarrow> 8 word \<Rightarrow> kstate \<Rightarrow> kstate" where
  "poke_byte p off b s = write_word p (off div 4) (set_word_byte (phys s p (off div 4)) (off mod 4) b) s"

text \<open>A store of the kernel, with write protection on: both entries must be present and writable.\<close>

definition kernel_store :: "u32 \<Rightarrow> 8 word \<Rightarrow> kstate \<Rightarrow> kstate cres" where
  "kernel_store va b s =
     (let need = PTE_P OR PTE_W; pde = phys s (cr3 s) (PDX va); pte = phys s (PGNUM (PTE_ADDR pde)) (PTX va)
      in if pde AND need \<noteq> need \<or> pte AND need \<noteq> need then Inl (Panic ''page fault in the kernel'')
         else Inr (poke_byte (PGNUM (PTE_ADDR pte)) (unat (va AND 0xFFF)) b s))"

definition memset_at :: "u32 \<Rightarrow> 8 word \<Rightarrow> u32 \<Rightarrow> kstate \<Rightarrow> kstate cres" where
  "memset_at va c n s = foldR (\<lambda>i. kernel_store (va + word_of_nat i) c) [0..<unat n] s"

section \<open>The image\<close>

type_synonym image = "8 word list"

definition image_byte :: "image \<Rightarrow> nat \<Rightarrow> 8 word cres" where
  "image_byte b i = (if i < length b then Inr (b ! i) else Inl OutOfBounds)"

definition image_half :: "image \<Rightarrow> nat \<Rightarrow> u16 cres" where
  "image_half b i = bindR (image_byte b i) (\<lambda>x. bindR (image_byte b (i + 1)) (\<lambda>y.
     Inr (ucast x OR push_bit 8 (ucast y))))"

definition image_word :: "image \<Rightarrow> nat \<Rightarrow> u32 cres" where
  "image_word b i = bindR (image_half b i) (\<lambda>x. bindR (image_half b (i + 2)) (\<lambda>y.
     Inr (ucast x OR push_bit 16 (ucast y))))"

abbreviation (input) ELF_MAGIC :: u32 where "ELF_MAGIC \<equiv> 0x464C457F"
abbreviation (input) ELF_PROG_LOAD :: u32 where "ELF_PROG_LOAD \<equiv> 1"

record proghdr =
  p_type :: u32
  p_offset :: u32
  p_va :: u32
  p_filesz :: u32
  p_memsz :: u32

text \<open>The program header at \<open>ph\<close>; the other fields are not used.\<close>

definition read_proghdr :: "image \<Rightarrow> nat \<Rightarrow> proghdr cres" where
  "read_proghdr b ph =
     bindR (image_word b ph) (\<lambda>t. bindR (image_word b (ph + 4)) (\<lambda>off. bindR (image_word b (ph + 8)) (\<lambda>va.
     bindR (image_word b (ph + 16)) (\<lambda>fsz. bindR (image_word b (ph + 20)) (\<lambda>msz.
       Inr \<lparr>p_type = t, p_offset = off, p_va = va, p_filesz = fsz, p_memsz = msz\<rparr>)))))"

section \<open>Loading\<close>

definition memcpy_at :: "u32 \<Rightarrow> image \<Rightarrow> nat \<Rightarrow> u32 \<Rightarrow> kstate \<Rightarrow> kstate cres" where
  "memcpy_at va b off n s =
     foldR (\<lambda>i s. bindR (image_byte b (off + i)) (\<lambda>x. kernel_store (va + word_of_nat i) x s)) [0..<unat n] s"

definition load_segment :: "nat \<Rightarrow> image \<Rightarrow> proghdr \<Rightarrow> kstate \<Rightarrow> kstate cres" where
  "load_segment e b ph s =
     (if p_type ph \<noteq> ELF_PROG_LOAD then Inr s
      else bindR (region_alloc e (p_va ph) (p_memsz ph) s) (\<lambda>s1.
           bindR (memset_at (p_va ph) 0 (p_memsz ph) s1) (\<lambda>s2.
             memcpy_at (p_va ph) b (unat (p_offset ph)) (p_filesz ph) s2)))"

definition load_icode :: "nat \<Rightarrow> image \<Rightarrow> kstate \<Rightarrow> kstate cres" where
  "load_icode e b s =
     bindR (image_word b 0) (\<lambda>magic.
       if magic \<noteq> ELF_MAGIC then Inl (Panic ''load_icode: not an elf file'')
       else case env_pgdir (envs s ! e) of
         None \<Rightarrow> Inl (Panic ''PADDR called with invalid kva'')
       | Some pgdir \<Rightarrow>
           bindR (image_word b 28) (\<lambda>phoff. bindR (image_half b 44) (\<lambda>phnum.
           bindR (foldR (\<lambda>i s. bindR (read_proghdr b (unat phoff + 32 * i)) (\<lambda>ph. load_segment e b ph s))
                    [0..<unat phnum] (s\<lparr>cr3 := pgdir\<rparr>)) (\<lambda>s1.
           bindR (region_alloc e (USTACKTOP - PGSIZE) PGSIZE s1) (\<lambda>s2.
           bindR (image_word b 24) (\<lambda>entry.
             Inr ((upd_env e (\<lambda>x. x\<lparr>env_tf := (env_tf x)\<lparr>tf_eip := entry\<rparr>\<rparr>) s2)\<lparr>cr3 := kern_pgdir s2\<rparr>)))))))"

definition env_create :: "image \<Rightarrow> env_type \<Rightarrow> kstate \<Rightarrow> kstate cres" where
  "env_create b ty s =
     bindR (env_alloc 0 s) (\<lambda>(err, env, s1).
       if err < 0 then Inl (Panic ''env_create: %e'')
       else case env of
         None \<Rightarrow> Inl UninitRead
       | Some e \<Rightarrow> bindR (load_icode e b s1) (\<lambda>s2.
           Inr (upd_env e (\<lambda>x. x\<lparr>env_ty := ty, env_priority := MAX_PRIORITY\<rparr>) s2)))"

end
