(* ===== verification/KLoadProps.thy ===== *)
theory KLoadProps
  imports KLoad KVmShare KSchedInv KBoot
begin

text \<open>
  What loading a program gives: a fresh address space in which every byte of every segment reads as in the
  image, or as zero behind the part that the image holds.
\<close>

section \<open>Bytes\<close>

lemma word_byte_set:
  assumes "k < 4" "k' < 4"
  shows "word_byte (set_word_byte w k b) k' = (if k' = k then b else word_byte w k')"
proof -
  have c: "k = 0 \<or> k = 1 \<or> k = 2 \<or> k = 3" "k' = 0 \<or> k' = 1 \<or> k' = 2 \<or> k' = 3" using assms by linarith+
  have m: "(0xFF :: u32) = mask 8" by (simp add: mask_eq_exp_minus_1)
  show ?thesis
    unfolding word_byte_def set_word_byte_def m
    by (rule bit_word_eqI) (use c in \<open>auto simp: bit_simps dest: bit_imp_le_length\<close>)
qed

lemma load_store:
  "load_byte (poke_byte p off b s) p' off' = (if p' = p \<and> off' = off then b else load_byte s p' off')"
proof -
  have "off' = off \<longleftrightarrow> off' div 4 = off div 4 \<and> off' mod 4 = off mod 4" by (metis div_mult_mod_eq)
  then show ?thesis
    by (auto simp: load_byte_def poke_byte_def word_byte_set)
qed

lemma same_address: "PGNUM v = PGNUM w \<Longrightarrow> unat (v AND 0xFFF) = unat (w AND 0xFFF) \<longleftrightarrow> v = (w :: u32)"
proof -
  assume p: "PGNUM v = PGNUM w"
  have "unat x = 4096 * PGNUM x + unat (x AND 0xFFF)" for x :: u32
    unfolding PGNUM_div mask12 unat_low by simp
  from this [of v] this [of w] p show ?thesis by (auto intro: unsigned_word_eqI [where 'a = nat])
qed

section \<open>The address space of a program being loaded\<close>

text \<open>
  \<open>D\<close> are the numbers of its pages: each is mapped writable, to a page that nothing else refers to, and
  nothing else is mapped.
\<close>

definition prog_inv :: "nat set \<Rightarrow> (nat \<Rightarrow> nat) \<Rightarrow> nat \<Rightarrow> nat set \<Rightarrow> kstate \<Rightarrow> bool" where
  "prog_inv pds ext pd D s \<longleftrightarrow> vm_inv pds ext s \<and> pd \<in> pds \<and>
     (\<forall>v. PDX v < NUPDE \<longrightarrow> (if PGNUM v \<in> D then \<exists>q. translate s pd v = Some (q, 7) \<and> page_ref s q = 1
        else translate s pd v = None)) \<and>
     (\<forall>i<NUPDE. phys s pd i \<noteq> 0 \<longrightarrow> phys s pd i AND 7 = 7)"

definition user_byte :: "kstate \<Rightarrow> nat \<Rightarrow> u32 \<Rightarrow> 8 word" where
  "user_byte s pd v = (case translate s pd v of Some (q, _) \<Rightarrow> load_byte s q (unat (v AND 0xFFF)) | None \<Rightarrow> 0)"

lemma user_byte_cong: "phys s' = phys s \<Longrightarrow> user_byte s' pd v = user_byte s pd v"
  unfolding user_byte_def load_byte_def using vm_cong(4) [of s' s] by (simp split: option.split)

lemma prog_inv_D:
  assumes "prog_inv pds ext pd D s"
  shows "vm_inv pds ext s" "pd \<in> pds"
    "PDX v < NUPDE \<Longrightarrow> PGNUM v \<in> D \<Longrightarrow> \<exists>q. translate s pd v = Some (q, 7) \<and> page_ref s q = 1"
    "PDX v < NUPDE \<Longrightarrow> PGNUM v \<notin> D \<Longrightarrow> translate s pd v = None"
    "i < NUPDE \<Longrightarrow> phys s pd i \<noteq> 0 \<Longrightarrow> phys s pd i AND 7 = 7"
  using assms unfolding prog_inv_def by auto

text \<open>Pages with one reference are not shared.\<close>

lemma private_page:
  assumes inv: "vm_inv pds ext s" and pd: "pd \<in> pds" "PDX v < NUPDE" "PDX v' < NUPDE" and pd': "pd' \<in> pds"
    and t: "translate s pd v = Some (q, w)" "translate s pd' v' = Some (q, w')" and one: "page_ref s q = 1"
  shows "pd = pd'" "PGNUM v = PGNUM v'"
proof -
  note M = mapped_ref [OF inv pd(1,2) t(1)]
  have l: "(pd, PDX v, PTX v) \<in> leafs s pds q" "(pd', PDX v', PTX v') \<in> leafs s pds q"
    using t pd pd' by (auto simp: leafs_def translate_def Let_def split: if_splits)
  have "card (leafs s pds q) \<le> 1" using vm_inv_D(12) [OF inv M(2-4)] one by simp
  then have "\<forall>x\<in>leafs s pds q. \<forall>y\<in>leafs s pds q. x = y"
    using finite_leafs [OF vm_inv_D(2) [OF inv], of s q] by (simp add: card_le_Suc0_iff_eq)
  with l have "(pd, PDX v, PTX v) = (pd', PDX v', PTX v')" by blast
  then show "pd = pd'" "PGNUM v = PGNUM v'" by (simp_all add: PGNUM_eq_iff)
qed

text \<open>
  What stays: the other address spaces and their bytes, and a page directory \<open>k\<close> that is in use by nobody,
  such as the one of the kernel.
\<close>

definition kept :: "nat set \<Rightarrow> nat \<Rightarrow> nat \<Rightarrow> kstate \<Rightarrow> kstate \<Rightarrow> bool" where
  "kept pds pd k s s' \<longleftrightarrow> rest s' = rest s \<and>
     (\<forall>pd'\<in>pds. pd' \<noteq> pd \<longrightarrow> (\<forall>v. PDX v < NUPDE \<longrightarrow>
        translate s' pd' v = translate s pd' v \<and> user_byte s' pd' v = user_byte s pd' v)) \<and>
     (page_held s k \<and> k \<notin> pds \<and> k \<notin> tables s pds \<longrightarrow>
        page_held s' k \<and> k \<notin> tables s' pds \<and> phys s' k = phys s k)"

lemma kept_trans: "kept pds pd k s s' \<Longrightarrow> kept pds pd k s' s'' \<Longrightarrow> kept pds pd k s s''"
  unfolding kept_def by simp

lemma kept_refl: "kept pds pd k s s"
  by (simp add: kept_def)

section \<open>Mapping fresh pages\<close>

lemma region_step:
  assumes P: "prog_inv pds ext pd D s" and va: "PDX va < NUPDE" "PGNUM va \<notin> D" and mem: "2 \<le> length (page_pool s)"
  obtains s' where "region_alloc_step pd va s = Inr s'" "prog_inv pds ext pd (insert (PGNUM va) D) s'" "kept pds pd k s s'"
    "length (page_pool s) \<le> length (page_pool s') + 2"
    "\<And>v. PDX v < NUPDE \<Longrightarrow> PGNUM v \<in> D \<Longrightarrow> user_byte s' pd v = user_byte s pd v"
proof -
  note D = prog_inv_D [OF P]
  obtain p ps where pool: "page_pool s = p # ps" using mem by (cases "page_pool s") auto
  note V = vm_popped_raw [OF D(1) pool]
  let ?s = "popped False p s"
  have ph: "phys ?s = phys s" by simp
  have new: "translate ?s pd va = None" using V(10) [OF D(2) va(1)] D(4) [OF va] by simp
  have rest: "rest ?s = rest s" using page_alloc_cons(1) [OF vm_inv_D(1) [OF D(1)] pool] by (rule rest_page_alloc)
  have m: "phys ?s pd (PDX va) \<noteq> 0 \<or> page_pool ?s \<noteq> []" using mem V(2) pool by auto
  have pp: "p < npages ?s" "p \<notin> tables ?s pds" "p \<notin> set (page_pool ?s)" "page_ref ?s p < 65535"
    using V(2,3,4,6-9) by simp_all
  obtain s' where s': "page_insert pd p va 6 ?s = Inr (0, s')" "vm_inv pds ext s'" "rest s' = rest ?s"
    "\<And>pd' va'. pd' \<in> pds \<Longrightarrow> PDX va' < NUPDE \<Longrightarrow> translate s' pd' va' =
       (if pd' = pd \<and> PGNUM va' = PGNUM va then Some (p, 6 OR PTE_P) else translate ?s pd' va')"
    "page_pool s' = (if phys ?s pd (PDX va) = 0 then tl (page_pool ?s) else page_pool ?s)"
    "\<And>q. q \<notin> set (page_pool ?s) \<Longrightarrow>
       page_ref s' q = (if q = p \<and> translate ?s pd va = None then Suc (page_ref ?s q) else page_ref ?s q)"
    "\<And>pd' j. pd' \<in> pds \<Longrightarrow> (pd', j) \<noteq> (pd, PDX va) \<or> phys ?s pd (PDX va) \<noteq> 0 \<Longrightarrow> phys s' pd' j = phys ?s pd' j"
    "phys s' pd (PDX va) \<noteq> 0"
    "\<And>q. q \<notin> pds \<Longrightarrow> q \<notin> tables ?s pds \<Longrightarrow> q \<notin> set (page_pool ?s) \<Longrightarrow> phys s' q = phys ?s q"
    "tables s' pds \<subseteq> tables ?s pds \<union> set (page_pool ?s)"
    "phys ?s pd (PDX va) = 0 \<Longrightarrow> phys s' pd (PDX va) AND 7 = 7"
    by (rule insert_shared [OF V(1) D(2) va(1) m pp(1) V(5) pp(2-4), of 6]) (use new in auto)
  have run: "region_alloc_step pd va s = Inr s'"
    using page_alloc_cons(1) [OF vm_inv_D(1) [OF D(1)] pool, of False] s'(1) by (simp add: region_alloc_step_def)
  have tr: "translate s' pd v = (if PGNUM v = PGNUM va then Some (p, 7) else translate s pd v)" if "PDX v < NUPDE" for v
    using s'(4) [OF D(2) that] V(10) [OF D(2) that] by simp
  have one: "page_ref s' p = 1" using s'(6) [OF pp(3)] new V(8,9) by simp
  have old: "page_ref s' q = page_ref s q \<and> phys s' q = phys s q" if "q \<notin> set (page_pool s)" "q \<notin> pds" "q \<notin> tables s pds" for q
  proof -
    have "q \<noteq> p" "q \<notin> set (page_pool ?s)" using that(1) pool V(2) by auto
    then show ?thesis using s'(6,9) V(3,8) that(2,3) ph by simp
  qed
  have keep': "page_ref s' q = page_ref s q \<and> phys s' q = phys s q"
    if "translate s pd' v = Some (q, w)" "PDX v < NUPDE" "pd' \<in> pds" for v q w pd'
    using old mapped_ref(3-5) [OF D(1) that(3,2,1)] by blast
  note keep = keep' [OF _ _ D(2)]
  have other: "translate s' pd' v = translate s pd' v \<and> user_byte s' pd' v = user_byte s pd' v"
    if "pd' \<in> pds" "pd' \<noteq> pd" "PDX v < NUPDE" for pd' v
  proof -
    have "translate s' pd' v = translate s pd' v" using s'(4) [OF that(1,3)] V(10) [OF that(1,3)] that(2) by simp
    then show ?thesis using keep' [OF _ that(3,1)] by (auto simp: user_byte_def load_byte_def split: option.splits)
  qed
  have "prog_inv pds ext pd (insert (PGNUM va) D) s'"
    unfolding prog_inv_def
  proof (intro conjI allI impI)
    fix v assume v: "PDX v < NUPDE"
    show "if PGNUM v \<in> insert (PGNUM va) D then \<exists>q. translate s' pd v = Some (q, 7) \<and> page_ref s' q = 1
        else translate s' pd v = None"
      using tr [OF v] one D(3,4) [OF v] keep [OF _ v] by auto
  next
    fix i assume i: "i < NUPDE" "phys s' pd i \<noteq> 0"
    show "phys s' pd i AND 7 = 7"
    proof (cases "i = PDX va \<and> phys ?s pd (PDX va) = 0")
      case False
      then have "phys s' pd i = phys s pd i" using s'(7) [OF D(2)] ph by auto
      then show ?thesis using D(5) i by simp
    qed (use s'(11) in simp)
  qed (rule s'(2), rule D(2))
  moreover have "kept pds pd k s s'"
    unfolding kept_def
  proof (intro conjI impI)
    show "rest s' = rest s" using s'(3) rest by simp
    show "\<forall>pd'\<in>pds. pd' \<noteq> pd \<longrightarrow> (\<forall>v. PDX v < NUPDE \<longrightarrow>
        translate s' pd' v = translate s pd' v \<and> user_byte s' pd' v = user_byte s pd' v)" using other by blast
  next
    assume k: "page_held s k \<and> k \<notin> pds \<and> k \<notin> tables s pds"
    then have o: "k \<notin> set (page_pool s)" by (simp add: page_held_def)
    have "set (page_pool s') \<subseteq> set (page_pool s)" unfolding s'(5) V(2) pool by (cases ps) auto
    moreover have "npages s' = npages s" using rest_sel(1) s'(3) rest by metis
    ultimately show "page_held s' k" using old [OF o] k by (auto simp: page_held_def)
    show "k \<notin> tables s' pds" using s'(10) V(2,3) k o pool by auto
    show "phys s' k = phys s k" using old [OF o] k by simp
  qed
  moreover have "length (page_pool s) \<le> length (page_pool s') + 2" unfolding s'(5) V(2) pool by (cases ps) simp_all
  moreover have "user_byte s' pd v = user_byte s pd v" if v: "PDX v < NUPDE" "PGNUM v \<in> D" for v
  proof -
    obtain q where q: "translate s pd v = Some (q, 7)" using D(3) [OF v] by blast
    moreover have "translate s' pd v = Some (q, 7)" using tr [OF v(1)] q v(2) va(2) by auto
    ultimately show ?thesis using keep [OF q v(1)] by (simp add: user_byte_def load_byte_def)
  qed
  ultimately show thesis using that run by blast
qed

text \<open>A range of pages, given by its first page and their number.\<close>

definition page_span :: "u32 \<Rightarrow> u32 \<Rightarrow> nat set" where
  "page_span va len = {PGNUM va ..< (unat va + unat len + 4095) div 4096}"

lemma span_mapped:
  assumes P: "prog_inv pds ext pd D s" and top: "p + n \<le> 1024 * NUPDE" and free: "{p..<p + n} \<inter> D = {}"
    and mem: "2 * n \<le> length (page_pool s)" and al: "unat lo = 4096 * p"
  shows "\<exists>s'. foldR (region_alloc_step pd) (map (\<lambda>i. lo + word_of_nat i * PGSIZE) [0..<n]) s = Inr s' \<and>
    prog_inv pds ext pd (D \<union> {p..<p + n}) s' \<and> kept pds pd k s s' \<and>
    length (page_pool s) \<le> length (page_pool s') + 2 * n \<and>
    (\<forall>v. PDX v < NUPDE \<longrightarrow> PGNUM v \<in> D \<longrightarrow> user_byte s' pd v = user_byte s pd v)"
  using top free mem
proof (induction n)
  case 0
  then show ?case using P by (simp add: kept_refl)
next
  case (Suc n)
  then obtain s1 where s1: "foldR (region_alloc_step pd) (map (\<lambda>i. lo + word_of_nat i * PGSIZE) [0..<n]) s = Inr s1"
    "prog_inv pds ext pd (D \<union> {p..<p + n}) s1" "kept pds pd k s s1"
    "length (page_pool s) \<le> length (page_pool s1) + 2 * n"
    "\<forall>v. PDX v < NUPDE \<longrightarrow> PGNUM v \<in> D \<longrightarrow> user_byte s1 pd v = user_byte s pd v"
    by (auto simp: atLeastLessThanSuc)
  let ?va = "lo + word_of_nat n * PGSIZE :: u32"
  have "unat (word_of_nat n * PGSIZE :: u32) = 4096 * n" using Suc.prems(1) by (simp add: unat_word_ariths unat_of_nat_u32)
  then have "unat ?va = 4096 * (p + n)" using Suc.prems(1) al by (simp add: unat_word_ariths)
  then have pn: "PGNUM ?va = p + n" by (simp add: PGNUM_div)
  have "p + n \<in> {p..<p + Suc n}" by simp
  then have "p + n \<notin> D" using Suc.prems(2) by blast
  then have va: "PDX ?va < NUPDE" "PGNUM ?va \<notin> D \<union> {p..<p + n}"
    using Suc.prems(1) unfolding PDX_PGNUM pn by auto
  have "2 \<le> length (page_pool s1)" using Suc.prems(3) s1(4) by simp
  from region_step [OF s1(2) va this, where k = k] obtain s2 where s2: "region_alloc_step pd ?va s1 = Inr s2"
    "prog_inv pds ext pd (insert (PGNUM ?va) (D \<union> {p..<p + n})) s2" "kept pds pd k s1 s2"
    "length (page_pool s1) \<le> length (page_pool s2) + 2"
    "\<And>v. PDX v < NUPDE \<Longrightarrow> PGNUM v \<in> D \<union> {p..<p + n} \<Longrightarrow> user_byte s2 pd v = user_byte s1 pd v" by blast
  have "insert (PGNUM ?va) (D \<union> {p..<p + n}) = D \<union> {p..<p + Suc n}" unfolding pn by auto
  with s1 s2 kept_trans [OF s1(3) s2(3)] show ?case by (intro exI [of _ s2]) (simp add: foldR_append)
qed

lemma region_alloc_maps:
  assumes P: "prog_inv pds ext pd D s" and top: "unat va + unat len \<le> 0xEEC00000" and free: "page_span va len \<inter> D = {}"
    and mem: "2 * card (page_span va len) \<le> length (page_pool s)" and e: "env_pgdir (envs s ! e) = Some pd"
  shows "\<exists>s'. region_alloc e va len s = Inr s' \<and> prog_inv pds ext pd (D \<union> page_span va len) s' \<and> kept pds pd k s s' \<and>
    length (page_pool s) \<le> length (page_pool s') + 2 * card (page_span va len) \<and>
    (\<forall>v. PDX v < NUPDE \<longrightarrow> PGNUM v \<in> D \<longrightarrow> user_byte s' pd v = user_byte s pd v)"
proof -
  let ?hi = "(unat va + unat len + 4095) div 4096" and ?p = "PGNUM va"
  have sum: "unat (va + len) = unat va + unat len" using top by (simp add: unat_word_ariths)
  have hi: "unat (ROUNDUP (va + len) PGSIZE) = 4096 * ?hi" using top by (simp add: unat_ROUNDUP sum)
  have lo: "unat (ROUNDDOWN va PGSIZE) = 4096 * ?p" by (simp add: unat_ROUNDDOWN PGNUM_div)
  have le: "?hi \<le> 977920" using top by linarith
  then have ok: "\<not> ROUNDUP (va + len) PGSIZE > UTOP" unfolding word_less_nat_alt hi by simp
  define n where "n = ?hi - ?p"
  have span: "page_span va len = {?p..<?p + n}" unfolding page_span_def n_def PGNUM_div by auto
  have vr: "va_range (ROUNDDOWN va PGSIZE) (ROUNDUP (va + len) PGSIZE) =
      map (\<lambda>i. ROUNDDOWN va PGSIZE + word_of_nat i * PGSIZE) [0..<n]"
  proof -
    have "(4096 * ?hi - 4096 * ?p + 4095) div 4096 = n" unfolding n_def
      by (simp add: diff_mult_distrib2 [symmetric] del: diff_mult_distrib2)
    then show ?thesis unfolding va_range_def hi lo by simp
  qed
  have "?p + n \<le> 1024 * NUPDE" 
  proof (cases "?p \<le> ?hi")
    case False
    then show ?thesis using top unfolding n_def PGNUM_div by simp
  qed (use le in \<open>simp add: n_def\<close>)
  then show ?thesis
    using span_mapped [OF P, of ?p n "ROUNDDOWN va PGSIZE" k] lo free mem ok e
    unfolding span by (simp add: region_alloc_def vr)
qed

section \<open>Filling the pages\<close>

lemma kernel_store_maps:
  assumes P: "prog_inv pds ext pd D s" and c: "cr3 s = pd" and va: "PDX va < NUPDE" "PGNUM va \<in> D"
  shows "\<exists>s'. kernel_store va b s = Inr s' \<and> prog_inv pds ext pd D s' \<and> kept pds pd k s s' \<and> page_pool s' = page_pool s \<and>
    (\<forall>v. PDX v < NUPDE \<longrightarrow> PGNUM v \<in> D \<longrightarrow> user_byte s' pd v = (if v = va then b else user_byte s pd v))"
proof -
  note D = prog_inv_D [OF P]
  obtain q where q: "translate s pd va = Some (q, 7)" "page_ref s q = 1" using D(3) [OF va] by blast
  note M = mapped_ref [OF D(1,2) va(1) q(1)]
  let ?pde = "phys s pd (PDX va)" and ?off = "unat (va AND 0xFFF)"
  have w: "?pde \<noteq> 0" "PGNUM (phys s (PGNUM ?pde) (PTX va)) = q" "phys s (PGNUM ?pde) (PTX va) AND 0xFFF = 7"
    using q(1) by (auto simp: translate_def pt_of_def Let_def split: if_splits)
  have a: "x AND 3 = (x AND 7) AND 3" "x AND 3 = (x AND 0xFFF) AND 3" for x :: u32 by (simp_all add: and.assoc)
  have f: "?pde AND 3 = 3" "phys s (PGNUM ?pde) (PTX va) AND 3 = 3"
    unfolding a(1) [of ?pde] a(2) [of "phys s (PGNUM ?pde) (PTX va)"] D(5) [OF va(1) w(1)] w(3) by simp_all
  define s' where "s' = poke_byte q ?off b s"
  have run: "kernel_store va b s = Inr s'"
    using f w(2) by (simp add: kernel_store_def c s'_def Let_def)
  have ph: "phys s' t = phys s t" if "t \<noteq> q" for t using that by (auto simp: s'_def poke_byte_def fun_eq_iff)
  have same: "npages s' = npages s" "page_inv s'" "page_ref s' = page_ref s" "page_pool s' = page_pool s" "rest s' = rest s"
    using vm_inv_D(1) [OF D(1)] by (simp_all add: s'_def poke_byte_def)
  have dirs: "phys s' x = phys s x" if "x \<in> pds" for x using ph [of x] M(3) that by blast
  have tabs: "phys s' t = phys s t" if "t \<in> tables s pds" for t using ph [of t] M(4) that by blast
  note A = vm_inv_agree [OF D(1) same(1-3) dirs tabs]
  have tr': "translate s' pd' v = translate s pd' v" if "PDX v < NUPDE" "pd' \<in> pds" for pd' v
    by (rule A(4) [OF _ _ that(2,1)]) (use dirs tabs in auto)
  note tr = tr' [OF _ D(2)]
  have other: "user_byte s' pd' v = user_byte s pd' v" if pd': "pd' \<in> pds" "pd' \<noteq> pd" "PDX v < NUPDE" for pd' v
  proof (cases "translate s pd' v")
    case (Some x)
    obtain q' w' where x: "x = (q', w')" by (cases x)
    have "q' \<noteq> q" using private_page(1) [OF D(1,2) va(1) pd'(3,1) q(1) _ q(2)] Some x pd'(2) by blast
    then show ?thesis using ph [of q'] by (simp add: user_byte_def tr' [OF pd'(3,1)] Some x load_byte_def)
  qed (simp add: user_byte_def tr' [OF pd'(3,1)])
  have "prog_inv pds ext pd D s'"
    unfolding prog_inv_def using A(1) dirs tabs D same(3) tr dirs [OF D(2)] by auto
  moreover have "phys s' k = phys s k" if "page_held s k"
    using ph [of k] q(2) that by (cases "k = q") (simp_all add: page_held_def)
  then have "kept pds pd k s s'" using same A(2) dirs tabs other tr' by (simp add: kept_def page_held_def)
  moreover have "user_byte s' pd v = (if v = va then b else user_byte s pd v)" if v: "PDX v < NUPDE" "PGNUM v \<in> D" for v
  proof -
    obtain q' where q': "translate s pd v = Some (q', 7)" using D(3) [OF v] by blast
    have "q' = q \<and> unat (v AND 0xFFF) = ?off \<longleftrightarrow> v = va"
      using private_page(2) [OF D(1,2) v(1) va(1) D(2) _ q(1), of 7] q' q same_address [of v va] by auto
    then show ?thesis using q' unfolding user_byte_def tr [OF v(1)] by (auto simp: s'_def load_store)
  qed
  ultimately show ?thesis using run same(4) by blast
qed

lemma store_loop:
  assumes P: "prog_inv pds ext pd D s" and c: "cr3 s = pd" and top: "unat va + n \<le> 0xEEC00000"
    and here: "\<And>v. unat va \<le> unat v \<Longrightarrow> unat v < unat va + n \<Longrightarrow> PGNUM v \<in> D"
    and f: "\<And>i. i < n \<Longrightarrow> f i = Inr (g i)"
  shows "\<exists>s'. foldR (\<lambda>i s. bindR (f i) (\<lambda>x. kernel_store (va + word_of_nat i) x s)) [0..<n] s = Inr s' \<and>
    prog_inv pds ext pd D s' \<and> kept pds pd k s s' \<and> page_pool s' = page_pool s \<and>
    (\<forall>v. PDX v < NUPDE \<longrightarrow> PGNUM v \<in> D \<longrightarrow> user_byte s' pd v =
      (if unat va \<le> unat v \<and> unat v < unat va + n then g (unat v - unat va) else user_byte s pd v))"
  using top here f
proof (induction n)
  case 0
  then show ?case using P by (auto simp: kept_refl)
next
  case (Suc n)
  then obtain s1 where s1: "foldR (\<lambda>i s. bindR (f i) (\<lambda>x. kernel_store (va + word_of_nat i) x s)) [0..<n] s = Inr s1"
    "prog_inv pds ext pd D s1" "kept pds pd k s s1" "page_pool s1 = page_pool s"
    "\<forall>v. PDX v < NUPDE \<longrightarrow> PGNUM v \<in> D \<longrightarrow> user_byte s1 pd v =
      (if unat va \<le> unat v \<and> unat v < unat va + n then g (unat v - unat va) else user_byte s pd v)" by auto
  let ?va = "va + word_of_nat n"
  have un: "unat ?va = unat va + n" using Suc.prems(1) by (simp add: unat_word_ariths unat_of_nat_u32)
  have va: "PDX ?va < NUPDE" "PGNUM ?va \<in> D"
    using Suc.prems(1) Suc.prems(2) [of ?va] unfolding PDX_div un by auto
  have "cr3 s1 = pd" using s1(3) rest_sel(7) c unfolding kept_def by metis
  from kernel_store_maps [OF s1(2) this va] obtain s2 where s2: "kernel_store ?va (g n) s1 = Inr s2"
    "prog_inv pds ext pd D s2" "kept pds pd k s1 s2" "page_pool s2 = page_pool s1"
    "\<forall>v. PDX v < NUPDE \<longrightarrow> PGNUM v \<in> D \<longrightarrow> user_byte s2 pd v = (if v = ?va then g n else user_byte s1 pd v)" by blast
  have eq: "v = ?va \<longleftrightarrow> unat v = unat va + n" for v unfolding un [symmetric] by (auto intro: unsigned_word_eqI [where 'a = nat])
  have "user_byte s2 pd v = (if unat va \<le> unat v \<and> unat v < unat va + Suc n then g (unat v - unat va) else user_byte s pd v)"
    if "PDX v < NUPDE" "PGNUM v \<in> D" for v
    using s1(5) s2(5) that by (auto simp: eq)
  then show ?case using s1(1,4) s2 kept_trans [OF s1(3) s2(3)] Suc.prems(3) [of n]
    by (intro exI [of _ s2]) (simp add: foldR_append)
qed

section \<open>Segments\<close>

definition seg_pages :: "proghdr \<Rightarrow> nat set" where
  "seg_pages ph = (if p_type ph = ELF_PROG_LOAD then page_span (p_va ph) (p_memsz ph) else {})"

text \<open>A segment the loader can handle: below the stack, and no longer in the image than in memory.\<close>

definition seg_ok :: "image \<Rightarrow> proghdr \<Rightarrow> bool" where
  "seg_ok b ph \<longleftrightarrow> (p_type ph = ELF_PROG_LOAD \<longrightarrow> unat (p_va ph) + unat (p_memsz ph) \<le> unat (USTACKTOP - PGSIZE) \<and>
     p_filesz ph \<le> p_memsz ph \<and> unat (p_offset ph) + unat (p_filesz ph) \<le> length b)"

definition seg_loaded :: "image \<Rightarrow> kstate \<Rightarrow> nat \<Rightarrow> proghdr \<Rightarrow> bool" where
  "seg_loaded b s pd ph \<longleftrightarrow> (p_type ph = ELF_PROG_LOAD \<longrightarrow> (\<forall>j<unat (p_memsz ph).
     user_byte s pd (p_va ph + word_of_nat j) = (if j < unat (p_filesz ph) then b ! (unat (p_offset ph) + j) else 0)))"

lemma seg_loaded_D:
  "seg_loaded b s pd ph \<Longrightarrow> p_type ph = ELF_PROG_LOAD \<Longrightarrow> j < unat (p_memsz ph) \<Longrightarrow>
    user_byte s pd (p_va ph + word_of_nat j) = (if j < unat (p_filesz ph) then b ! (unat (p_offset ph) + j) else 0)"
  by (simp add: seg_loaded_def)

lemma finite_seg_pages: "finite (seg_pages ph)"
  by (simp add: seg_pages_def page_span_def)

lemma in_span:
  assumes "unat va \<le> unat v" "unat v < unat va + unat len"
  shows "PGNUM v \<in> page_span va len"
proof -
  have "unat va div 4096 \<le> unat v div 4096" using assms(1) by (rule div_le_mono)
  moreover have "unat v div 4096 < (unat va + unat len + 4095) div 4096" using assms(2) by linarith
  ultimately show ?thesis by (simp add: page_span_def PGNUM_div)
qed

lemma load_segment_loads:
  assumes P: "prog_inv pds ext pd D s" and c: "cr3 s = pd" and e: "env_pgdir (envs s ! e) = Some pd"
    and ok: "seg_ok b ph" and free: "seg_pages ph \<inter> D = {}" and mem: "2 * card (seg_pages ph) \<le> length (page_pool s)"
  shows "\<exists>s'. load_segment e b ph s = Inr s' \<and> prog_inv pds ext pd (D \<union> seg_pages ph) s' \<and> kept pds pd k s s' \<and>
    length (page_pool s) \<le> length (page_pool s') + 2 * card (seg_pages ph) \<and> seg_loaded b s' pd ph \<and>
    (\<forall>v. PDX v < NUPDE \<longrightarrow> PGNUM v \<in> D \<longrightarrow> user_byte s' pd v = user_byte s pd v)"
proof (cases "p_type ph = ELF_PROG_LOAD")
  case False
  then show ?thesis using P by (simp add: load_segment_def seg_pages_def seg_loaded_def kept_refl)
next
  case True
  let ?va = "p_va ph" and ?n = "unat (p_memsz ph)" and ?f = "unat (p_filesz ph)"
  have o: "unat ?va + ?n \<le> 0xEEBFD000" "?f \<le> ?n" "unat (p_offset ph) + ?f \<le> length b"
    using ok True by (simp_all add: seg_ok_def word_le_nat_alt)
  have sp: "seg_pages ph = page_span ?va (p_memsz ph)" using True by (simp add: seg_pages_def)
  have top: "unat ?va + ?n \<le> 0xEEC00000" "unat ?va + ?f \<le> 0xEEC00000" using o by linarith+
  obtain s1 where s1: "region_alloc e ?va (p_memsz ph) s = Inr s1" "prog_inv pds ext pd (D \<union> seg_pages ph) s1" "kept pds pd k s s1"
    "length (page_pool s) \<le> length (page_pool s1) + 2 * card (seg_pages ph)"
    "\<forall>v. PDX v < NUPDE \<longrightarrow> PGNUM v \<in> D \<longrightarrow> user_byte s1 pd v = user_byte s pd v"
    using region_alloc_maps [OF P top(1) free [unfolded sp] mem [unfolded sp] e, where k = k] unfolding sp by blast
  have here: "PGNUM v \<in> D \<union> seg_pages ph" if "unat ?va \<le> unat v" "unat v < unat ?va + ?n" for v
    using in_span that unfolding sp by blast
  have c1: "cr3 s1 = pd" using s1(3) rest_sel(7) c unfolding kept_def by metis
  obtain s2 where s2: "memset_at ?va 0 (p_memsz ph) s1 = Inr s2" "prog_inv pds ext pd (D \<union> seg_pages ph) s2" "kept pds pd k s1 s2"
    "page_pool s2 = page_pool s1"
    "\<forall>v. PDX v < NUPDE \<longrightarrow> PGNUM v \<in> D \<union> seg_pages ph \<longrightarrow> user_byte s2 pd v =
      (if unat ?va \<le> unat v \<and> unat v < unat ?va + ?n then 0 else user_byte s1 pd v)"
    using store_loop [OF s1(2) c1 top(1) here, where f = "\<lambda>_. Inr 0" and g = "\<lambda>_. 0" and k = k] unfolding memset_at_def by auto
  have c2: "cr3 s2 = pd" using s2(3) rest_sel(7) c1 unfolding kept_def by metis
  have heref: "PGNUM v \<in> D \<union> seg_pages ph" if "unat ?va \<le> unat v" "unat v < unat ?va + ?f" for v
    using here that o(2) by simp
  have img: "image_byte b (unat (p_offset ph) + i) = Inr (b ! (unat (p_offset ph) + i))" if "i < ?f" for i
    using that o(3) by (simp add: image_byte_def)
  obtain s3 where s3: "memcpy_at ?va b (unat (p_offset ph)) (p_filesz ph) s2 = Inr s3"
    "prog_inv pds ext pd (D \<union> seg_pages ph) s3" "kept pds pd k s2 s3" "page_pool s3 = page_pool s2"
    "\<forall>v. PDX v < NUPDE \<longrightarrow> PGNUM v \<in> D \<union> seg_pages ph \<longrightarrow> user_byte s3 pd v =
      (if unat ?va \<le> unat v \<and> unat v < unat ?va + ?f then b ! (unat (p_offset ph) + (unat v - unat ?va)) else user_byte s2 pd v)"
    using store_loop [OF s2(2) c2 top(2) heref, where f = "\<lambda>i. image_byte b (unat (p_offset ph) + i)"
        and g = "\<lambda>i. b ! (unat (p_offset ph) + i)" and k = k] img unfolding memcpy_at_def by auto
  have "seg_loaded b s3 pd ph"
    unfolding seg_loaded_def
  proof (intro impI allI)
    fix j assume j: "j < ?n"
    have u: "unat (?va + word_of_nat j) = unat ?va + j" using j top by (simp add: unat_word_ariths unat_of_nat_u32)
    have v: "PDX (?va + word_of_nat j) < NUPDE" "PGNUM (?va + word_of_nat j) \<in> D \<union> seg_pages ph"
      using here [of "?va + word_of_nat j"] j o(1) unfolding PDX_div u by simp_all
    show "user_byte s3 pd (?va + word_of_nat j) = (if j < ?f then b ! (unat (p_offset ph) + j) else 0)"
      using spec [OF s2(5), of "?va + word_of_nat j"] spec [OF s3(5), of "?va + word_of_nat j"] v j by (auto simp: u)
  qed
  moreover have "user_byte s3 pd v = user_byte s pd v" if "PDX v < NUPDE" "PGNUM v \<in> D" for v
  proof -
    have "\<not> (unat ?va \<le> unat v \<and> unat v < unat ?va + ?n)" using in_span [of ?va v "p_memsz ph"] free that(2) unfolding sp by blast
    moreover from this have "\<not> (unat ?va \<le> unat v \<and> unat v < unat ?va + ?f)" using o(2) by (meson le_trans not_le nat_add_left_cancel_le)
    ultimately show ?thesis
      using spec [OF s1(5), of v] spec [OF s2(5), of v] spec [OF s3(5), of v] that by (simp only: Un_iff) simp
  qed
  moreover have "load_segment e b ph s = Inr s3" using True s1(1) s2(1) s3(1) by (simp add: load_segment_def)
  ultimately show ?thesis
    using s1(4) s2(4) s3(2,4) kept_trans [OF kept_trans [OF s1(3) s2(3)] s3(3)] by (intro exI [of _ s3]) simp
qed

lemma seg_address:
  assumes "seg_ok b ph" "p_type ph = ELF_PROG_LOAD" "j < unat (p_memsz ph)"
  shows "PDX (p_va ph + word_of_nat j) < NUPDE" "PGNUM (p_va ph + word_of_nat j) \<in> seg_pages ph"
proof -
  have top: "unat (p_va ph) + unat (p_memsz ph) \<le> 0xEEBFD000" using assms by (simp add: seg_ok_def)
  have u: "unat (p_va ph + word_of_nat j) = unat (p_va ph) + j"
    using assms(3) top by (simp add: unat_word_ariths unat_of_nat_u32)
  show "PDX (p_va ph + word_of_nat j) < NUPDE" using assms(3) top unfolding PDX_div u by simp
  show "PGNUM (p_va ph + word_of_nat j) \<in> seg_pages ph"
    using in_span [of "p_va ph" "p_va ph + word_of_nat j" "p_memsz ph"] assms u by (simp add: seg_pages_def)
qed

text \<open>All segments, in the order of the image.\<close>

lemma load_segments:
  assumes "prog_inv pds ext pd D s" "cr3 s = pd" "env_pgdir (envs s ! e) = Some pd"
    and "\<forall>ph\<in>set phs. seg_ok b ph" "\<forall>ph\<in>set phs. seg_pages ph \<inter> D = {}"
      "sorted_wrt (\<lambda>x y. seg_pages x \<inter> seg_pages y = {}) phs"
    and "2 * (\<Sum>ph\<leftarrow>phs. card (seg_pages ph)) \<le> length (page_pool s)"
  shows "\<exists>s'. foldR (load_segment e b) phs s = Inr s' \<and> prog_inv pds ext pd (D \<union> \<Union> (seg_pages ` set phs)) s' \<and> kept pds pd k s s' \<and>
    length (page_pool s) \<le> length (page_pool s') + 2 * (\<Sum>ph\<leftarrow>phs. card (seg_pages ph)) \<and>
    (\<forall>ph\<in>set phs. seg_loaded b s' pd ph) \<and>
    (\<forall>v. PDX v < NUPDE \<longrightarrow> PGNUM v \<in> D \<longrightarrow> user_byte s' pd v = user_byte s pd v)"
  using assms
proof (induction phs arbitrary: s D)
  case Nil
  then show ?case by (simp add: kept_refl)
next
  case (Cons ph phs)
  have "seg_ok b ph" "seg_pages ph \<inter> D = {}" "2 * card (seg_pages ph) \<le> length (page_pool s)" using Cons.prems(4,5,7) by simp_all
  from load_segment_loads [OF Cons.prems(1-3) this, where k = k] obtain s1 where s1: "load_segment e b ph s = Inr s1"
    "prog_inv pds ext pd (D \<union> seg_pages ph) s1" "kept pds pd k s s1"
    "length (page_pool s) \<le> length (page_pool s1) + 2 * card (seg_pages ph)" "seg_loaded b s1 pd ph"
    "\<forall>v. PDX v < NUPDE \<longrightarrow> PGNUM v \<in> D \<longrightarrow> user_byte s1 pd v = user_byte s pd v" by blast
  have c: "cr3 s1 = pd" "env_pgdir (envs s1 ! e) = Some pd"
    using s1(3) rest_sel(2,7) Cons.prems(2,3) unfolding kept_def by metis+
  have d: "\<forall>x\<in>set phs. seg_pages x \<inter> (D \<union> seg_pages ph) = {}" using Cons.prems(5,6) by auto
  have mem: "2 * (\<Sum>ph\<leftarrow>phs. card (seg_pages ph)) \<le> length (page_pool s1)" using Cons.prems(7) s1(4) by simp
  obtain s2 where s2: "foldR (load_segment e b) phs s1 = Inr s2"
    "prog_inv pds ext pd (D \<union> seg_pages ph \<union> \<Union> (seg_pages ` set phs)) s2" "kept pds pd k s1 s2"
    "length (page_pool s1) \<le> length (page_pool s2) + 2 * (\<Sum>ph\<leftarrow>phs. card (seg_pages ph))"
    "\<forall>ph\<in>set phs. seg_loaded b s2 pd ph"
    "\<forall>v. PDX v < NUPDE \<longrightarrow> PGNUM v \<in> D \<union> seg_pages ph \<longrightarrow> user_byte s2 pd v = user_byte s1 pd v"
    using Cons.IH [OF s1(2) c _ d _ mem] Cons.prems(4,6) by auto
  have "seg_loaded b s2 pd ph"
    unfolding seg_loaded_def
  proof (intro impI allI)
    fix j assume t: "p_type ph = ELF_PROG_LOAD" and j: "j < unat (p_memsz ph)"
    let ?v = "p_va ph + word_of_nat j"
    have "user_byte s2 pd ?v = user_byte s1 pd ?v" using s2(6) seg_address [OF \<open>seg_ok b ph\<close> t j] by blast
    then show "user_byte s2 pd ?v = (if j < unat (p_filesz ph) then b ! (unat (p_offset ph) + j) else 0)"
      using s1(5) t j by (simp add: seg_loaded_def)
  qed
  moreover have "D \<union> seg_pages ph \<union> \<Union> (seg_pages ` set phs) = D \<union> \<Union> (seg_pages ` set (ph # phs))" by auto
  moreover have "\<forall>v. PDX v < NUPDE \<longrightarrow> PGNUM v \<in> D \<longrightarrow> user_byte s2 pd v = user_byte s pd v" using s1(6) s2(6) by auto
  ultimately show ?case
    using s1(1,4) s2(1,2,4,5) kept_trans [OF s1(3) s2(3)] by (intro exI [of _ s2]) simp
qed

lemma foldR_list: "foldR (\<lambda>i s. bindR (r i) (\<lambda>x. f x s)) [0..<length xs] s = foldR f xs s" if "\<And>i. i < length xs \<Longrightarrow> r i = Inr (xs ! i)"
  using that
proof (induction xs rule: rev_induct)
  case (snoc x xs)
  have "foldR (\<lambda>i s. bindR (r i) (\<lambda>x. f x s)) [0..<length xs] s = foldR f xs s"
    by (rule snoc.IH) (use snoc.prems in \<open>simp add: nth_append\<close>)
  moreover have none: "foldR g [] = Inr" for g :: "'z \<Rightarrow> 'c \<Rightarrow> fault + 'c" by (rule ext) simp
  moreover have "foldR (\<lambda>i s. bindR (r i) (\<lambda>x. f x s)) [length xs] = foldR f [x]"
    using snoc.prems [of "length xs"] by (intro ext) (simp add: none del: foldR.simps(1) cong del: sum.case_cong)
  ultimately show ?case by (simp add: foldR_append del: foldR.simps)
qed simp

section \<open>Creating an environment\<close>

definition elf_image :: "image \<Rightarrow> u32 \<Rightarrow> proghdr list \<Rightarrow> bool" where
  "elf_image b entry phs \<longleftrightarrow> image_word b 0 = Inr ELF_MAGIC \<and> image_word b 24 = Inr entry \<and>
     image_half b 44 = Inr (word_of_nat (length phs)) \<and> length phs < 65536 \<and>
     (\<exists>phoff. image_word b 28 = Inr phoff \<and> (\<forall>i<length phs. read_proghdr b (unat phoff + 32 * i) = Inr (phs ! i)))"

lemma load_icode_loads:
  assumes P: "prog_inv pds ext pd {} s" and e: "env_pgdir (envs s ! e) = Some pd"
    and img: "elf_image b entry phs" and ok: "\<forall>ph\<in>set phs. seg_ok b ph"
      "sorted_wrt (\<lambda>x y. seg_pages x \<inter> seg_pages y = {}) phs"
    and mem: "2 * (\<Sum>ph\<leftarrow>phs. card (seg_pages ph)) + 2 \<le> length (page_pool s)"
  shows "\<exists>s'. load_icode e b s = Inr ((upd_env e (\<lambda>x. x\<lparr>env_tf := (env_tf x)\<lparr>tf_eip := entry\<rparr>\<rparr>) s')\<lparr>cr3 := kern_pgdir s\<rparr>) \<and>
    prog_inv pds ext pd (\<Union> (seg_pages ` set phs) \<union> {PGNUM (USTACKTOP - PGSIZE)}) s' \<and> kept pds pd k (s\<lparr>cr3 := pd\<rparr>) s' \<and>
    (\<forall>ph\<in>set phs. seg_loaded b s' pd ph)"
proof -
  let ?s = "s\<lparr>cr3 := pd\<rparr>"
  have P0: "prog_inv pds ext pd {} ?s"
    using P vm_inv_cong [of ?s s pds ext] page_inv_cong(2,3) [of ?s s] vm_cong [of ?s s]
    by (simp add: prog_inv_def)
  obtain phoff where ph: "image_word b 0 = Inr ELF_MAGIC" "image_word b 24 = Inr entry" "image_word b 28 = Inr phoff"
    "image_half b 44 = Inr (word_of_nat (length phs))" "length phs < 65536"
    "\<And>i. i < length phs \<Longrightarrow> read_proghdr b (unat phoff + 32 * i) = Inr (phs ! i)"
    using img by (auto simp: elf_image_def)
  have n: "unat (word_of_nat (length phs) :: u16) = length phs"
    using ph(5) by (simp only: unsigned_of_nat) (simp add: take_bit_nat_eq_self)
  have pool: "page_pool ?s = page_pool s" by (rule page_inv_cong(2)) simp_all
  obtain s1 where s1: "foldR (load_segment e b) phs ?s = Inr s1" "prog_inv pds ext pd (\<Union> (seg_pages ` set phs)) s1"
    "kept pds pd k ?s s1" "length (page_pool s) \<le> length (page_pool s1) + 2 * (\<Sum>ph\<leftarrow>phs. card (seg_pages ph))"
    "\<forall>ph\<in>set phs. seg_loaded b s1 pd ph"
    using load_segments [OF P0 _ _ ok(1) _ ok(2), of e k] e mem pool by auto
  have sp: "page_span (USTACKTOP - PGSIZE) PGSIZE = {PGNUM (USTACKTOP - PGSIZE)}"
    by (auto simp: page_span_def PGNUM_div)
  have pn: "PGNUM (USTACKTOP - PGSIZE) = 977917" by (simp add: PGNUM_div)
  have free: "page_span (USTACKTOP - PGSIZE) PGSIZE \<inter> \<Union> (seg_pages ` set phs) = {}"
  proof -
    have "977917 \<notin> seg_pages x" if "x \<in> set phs" for x
    proof (cases "p_type x = ELF_PROG_LOAD")
      case True
      then have "unat (p_va x) + unat (p_memsz x) \<le> 0xEEBFD000" using ok(1) that by (auto simp: seg_ok_def)
      then have "(unat (p_va x) + unat (p_memsz x) + 4095) div 4096 \<le> 977917" by linarith
      then show ?thesis using True by (simp add: seg_pages_def page_span_def)
    qed (simp add: seg_pages_def)
    then show ?thesis unfolding sp pn by auto
  qed
  have e1: "env_pgdir (envs s1 ! e) = Some pd" "kern_pgdir s1 = kern_pgdir s"
    using s1(3) rest_sel(2,6) [of s1 ?s] e unfolding kept_def by simp_all
  obtain s2 where s2: "region_alloc e (USTACKTOP - PGSIZE) PGSIZE s1 = Inr s2"
    "prog_inv pds ext pd (\<Union> (seg_pages ` set phs) \<union> {PGNUM (USTACKTOP - PGSIZE)}) s2" "kept pds pd k s1 s2"
    "\<forall>v. PDX v < NUPDE \<longrightarrow> PGNUM v \<in> \<Union> (seg_pages ` set phs) \<longrightarrow> user_byte s2 pd v = user_byte s1 pd v"
    using region_alloc_maps [OF s1(2) _ free _ e1(1), where k = k] s1(4) mem unfolding sp by auto
  have "seg_loaded b s2 pd x" if x: "x \<in> set phs" for x
    unfolding seg_loaded_def
  proof (intro impI allI)
    fix j assume t: "p_type x = ELF_PROG_LOAD" and j: "j < unat (p_memsz x)"
    note v = seg_address [OF ok(1) [rule_format, OF x] t j]
    have "PGNUM (p_va x + word_of_nat j) \<in> \<Union> (seg_pages ` set phs)" using v(2) x by blast
    then have "user_byte s2 pd (p_va x + word_of_nat j) = user_byte s1 pd (p_va x + word_of_nat j)" using s2(4) v(1) by blast
    then show "user_byte s2 pd (p_va x + word_of_nat j) = (if j < unat (p_filesz x) then b ! (unat (p_offset x) + j) else 0)"
      using s1(5) x t j by (simp add: seg_loaded_def)
  qed
  moreover have "load_icode e b s = Inr ((upd_env e (\<lambda>x. x\<lparr>env_tf := (env_tf x)\<lparr>tf_eip := entry\<rparr>\<rparr>) s2)\<lparr>cr3 := kern_pgdir s2\<rparr>)"
    using foldR_list [of phs "\<lambda>i. read_proghdr b (unat phoff + 32 * i)" "load_segment e b" ?s, OF ph(6)] s1(1) s2(1) e
    by (simp add: load_icode_def ph(1-4) n)
  moreover have "kern_pgdir s2 = kern_pgdir s" using s2(3) rest_sel(6) [of s2 s1] e1(2) by (simp add: kept_def)
  ultimately show ?thesis using s2(2) kept_trans [OF s1(3) s2(3)] by (intro exI [of _ s2]) simp
qed

lemma env_alloc_phys:
  assumes inv: "kern_inv ext s" and pool: "env_pool s = e # es" "page_pool s = p # ps"
    and run: "env_alloc 0 s = Inr (0, Some e, s')" and t: "t \<noteq> p"
  shows "phys s' t = phys s t"
proof -
  have I: "env_inv s" "page_inv s" "page_held s (kern_pgdir s)"
    using inv vm_inv_D(1) by (auto simp: kern_inv_def)
  have k: "kern_pgdir s \<noteq> p" using I(3) pool(2) by (auto simp: page_held_def)
  have f: "env_free_list s = Some e" using env_inv_D(2) [OF I(1)] pool(1) by simp
  obtain s1 where s1: "env_setup_vm e s = Inr (0, s1)" "phys s1 = (phys s)(p := new_dir p s)"
    by (rule setup_vm [OF I(2) pool(2) k])
  have "phys s' = phys s1" using run f s1(1) by (auto simp: env_alloc_def Let_def cres_simps split: prod.splits)
  with s1(2) t show ?thesis by simp
qed

lemma env_alloc_bytes:
  assumes inv: "kern_inv ext s" and pool: "env_pool s = e # es" "page_pool s = p # ps"
    and run: "env_alloc 0 s = Inr (0, Some e, s1)" and pd: "pd \<in> env_dirs s" "PDX v < NUPDE"
    and t: "translate s1 pd v = translate s pd v"
  shows "user_byte s1 pd v = user_byte s pd v"
proof -
  have "q \<noteq> p" if "translate s pd v = Some (q, w)" for q w
    using mapped_ref(5) [OF _ pd that, of ext] inv pool(2) by (auto simp: kern_inv_def)
  then show ?thesis using env_alloc_phys [OF inv pool run] t
    by (auto simp: user_byte_def load_byte_def split: option.splits)
qed

text \<open>What is written to the environment after its memory is loaded.\<close>

lemma started_env:
  assumes rest: "rest s2 = rest (s1\<lparr>cr3 := p\<rparr>)" and inv: "env_inv s1" and e: "e < NENV" "length (envs s1) = NENV"
    and s': "s' = upd_env e (\<lambda>x. x\<lparr>env_ty := ty, env_priority := MAX_PRIORITY\<rparr>)
      ((upd_env e (\<lambda>x. x\<lparr>env_tf := (env_tf x)\<lparr>tf_eip := entry\<rparr>\<rparr>) s2)\<lparr>cr3 := k\<rparr>)"
  shows "envs s' ! j = (if j = e then (envs s1 ! e)\<lparr>env_tf := (env_tf (envs s1 ! e))\<lparr>tf_eip := entry\<rparr>, env_ty := ty,
      env_priority := MAX_PRIORITY\<rparr> else envs s1 ! j)"
    "pages s' = pages s2" "npages s' = npages s2" "page_free_list s' = page_free_list s2" "phys s' = phys s2"
    "kern_pgdir s' = kern_pgdir s1" "cr3 s' = k" "env_dirs s' = env_dirs s1" "env_inv s'"
proof -
  have r: "envs s2 = envs s1" "env_free_list s2 = env_free_list s1" "kern_pgdir s2 = kern_pgdir s1"
    using rest_sel(2,3,6) [OF rest] by simp_all
  have nth: "envs s' ! j = (if j = e then (envs s1 ! e)\<lparr>env_tf := (env_tf (envs s1 ! e))\<lparr>tf_eip := entry\<rparr>, env_ty := ty,
      env_priority := MAX_PRIORITY\<rparr> else envs s1 ! j)" for j
    using e by (simp add: s' r)
  then show "envs s' ! j = (if j = e then (envs s1 ! e)\<lparr>env_tf := (env_tf (envs s1 ! e))\<lparr>tf_eip := entry\<rparr>, env_ty := ty,
      env_priority := MAX_PRIORITY\<rparr> else envs s1 ! j)" .
  show sel: "pages s' = pages s2" "npages s' = npages s2" "page_free_list s' = page_free_list s2" "phys s' = phys s2"
    "kern_pgdir s' = kern_pgdir s1" "cr3 s' = k"
    by (simp_all add: s' r)
  have len: "length (envs s') = NENV" "env_free_list s' = env_free_list s1" using e by (simp_all add: s' r)
  have st: "env_status (envs s' ! j) = env_status (envs s1 ! j)" "env_pgdir (envs s' ! j) = env_pgdir (envs s1 ! j)" for j
    by (simp_all add: nth)
  show "env_dirs s' = env_dirs s1" by (simp add: env_dirs_def st)
  show "env_inv s'" by (rule env_inv_same(1) [OF inv]) (simp_all add: nth len)
qed

text \<open>C5: \<open>env_create\<close> on a program image with enough free pages gives a runnable environment that starts at
  the entry point of the image. Its address space holds every byte of every segment, zero behind the part
  of the segment that the image holds, and the page of the stack; nothing else is mapped below \<open>UTOP\<close>, and
  every page is private to it and writable. The other environments, their mappings and their memory stay,
  and the invariant of the kernel holds again.\<close>

theorem env_create_loads_program:
  assumes inv: "kern_inv ext s" and pool: "env_pool s = e # es" "page_pool s = p # ps"
    and img: "elf_image b entry phs" and ok: "\<forall>ph\<in>set phs. seg_ok b ph"
      "sorted_wrt (\<lambda>x y. seg_pages x \<inter> seg_pages y = {}) phs"
    and mem: "2 * (\<Sum>ph\<leftarrow>phs. card (seg_pages ph)) + 2 \<le> length ps"
  shows "\<exists>s'. env_create b ty s = Inr s' \<and> kern_inv ext s' \<and> cr3 s' = kern_pgdir s' \<and>
    env_status (envs s' ! e) = ENV_RUNNABLE \<and> env_tf (envs s' ! e) = user_tf\<lparr>tf_eip := entry\<rparr> \<and>
    env_ty (envs s' ! e) = ty \<and> env_priority (envs s' ! e) = MAX_PRIORITY \<and> env_pgdir (envs s' ! e) = Some p \<and>
    (\<forall>ph\<in>set phs. seg_loaded b s' p ph) \<and>
    (\<forall>v. PDX v < NUPDE \<longrightarrow>
       (if PGNUM v \<in> \<Union> (seg_pages ` set phs) \<union> {PGNUM (USTACKTOP - PGSIZE)}
        then \<exists>q. translate s' p v = Some (q, 7) \<and> page_ref s' q = 1 else translate s' p v = None)) \<and>
    (\<forall>j. j \<noteq> e \<longrightarrow> envs s' ! j = envs s ! j) \<and>
    (\<forall>pd\<in>env_dirs s. \<forall>v. PDX v < NUPDE \<longrightarrow>
       translate s' pd v = translate s pd v \<and> user_byte s' pd v = user_byte s pd v)"
proof -
  obtain s1 where s1: "env_alloc 0 s = Inr (0, Some e, s1)" "kern_inv ext s1" "page_pool s1 = ps" "e < NENV"
    "env_dirs s1 = insert p (env_dirs s)" "p \<notin> env_dirs s" "env_status (envs s1 ! e) = ENV_RUNNABLE"
    "env_pgdir (envs s1 ! e) = Some p" "env_tf (envs s1 ! e) = user_tf"
    "\<And>j. j \<noteq> e \<Longrightarrow> envs s1 ! j = envs s ! j" "length (envs s1) = NENV"
    "\<And>va. PDX va < NUPDE \<Longrightarrow> translate s1 p va = None"
    "\<And>pd va. pd \<in> env_dirs s \<Longrightarrow> PDX va < NUPDE \<Longrightarrow> translate s1 pd va = translate s pd va"
    "\<And>i. i < NUPDE \<Longrightarrow> phys s1 p i = 0"
    by (rule env_alloc_new [OF inv pool, of 0]) (rule that; assumption)
  have k1: "env_inv s1" "vm_inv (env_dirs s1) ext s1" "kern_pgdir s1 \<notin> env_dirs s1" "kern_pgdir s1 \<notin> tables s1 (env_dirs s1)"
    "page_held s1 (kern_pgdir s1)" "\<forall>i<NUPDE. phys s1 (kern_pgdir s1) i = 0"
    using s1(2) by (simp_all add: kern_inv_def)
  have P: "prog_inv (env_dirs s1) ext p {} s1" using k1(2) s1(5,12,14) by (simp add: prog_inv_def)
  obtain s2 where s2: "load_icode e b s1 = Inr ((upd_env e (\<lambda>x. x\<lparr>env_tf := (env_tf x)\<lparr>tf_eip := entry\<rparr>\<rparr>) s2)\<lparr>cr3 := kern_pgdir s1\<rparr>)"
    "prog_inv (env_dirs s1) ext p (\<Union> (seg_pages ` set phs) \<union> {PGNUM (USTACKTOP - PGSIZE)}) s2"
    "kept (env_dirs s1) p (kern_pgdir s1) (s1\<lparr>cr3 := p\<rparr>) s2" "\<forall>ph\<in>set phs. seg_loaded b s2 p ph"
    using load_icode_loads [OF P s1(8) img ok, where k = "kern_pgdir s1"] mem s1(3) by auto
  define s' where "s' = upd_env e (\<lambda>x. x\<lparr>env_ty := ty, env_priority := MAX_PRIORITY\<rparr>)
    ((upd_env e (\<lambda>x. x\<lparr>env_tf := (env_tf x)\<lparr>tf_eip := entry\<rparr>\<rparr>) s2)\<lparr>cr3 := kern_pgdir s1\<rparr>)"
  have run: "env_create b ty s = Inr s'" by (simp add: env_create_def s1(1) s2(1) s'_def)
  have R: "rest s2 = rest (s1\<lparr>cr3 := p\<rparr>)" using s2(3) by (simp add: kept_def)
  note sel = started_env [OF R k1(1) s1(4,11) s'_def]
  have pk: "phys s' = phys s2" "page_ref s' = page_ref s2" "page_held s' = page_held s2"
    using page_inv_cong(2,3) [OF sel(3,2,4)] by (simp_all add: sel fun_eq_iff page_held_def)
  have tr: "translate s' pd v = translate s2 pd v" "user_byte s' pd v = user_byte s2 pd v" for pd v
    using vm_cong(4) [OF sel(5)] user_byte_cong [OF sel(5)] by simp_all
  have cr: "translate (s1\<lparr>cr3 := p\<rparr>) pd v = translate s1 pd v" "user_byte (s1\<lparr>cr3 := p\<rparr>) pd v = user_byte s1 pd v" for pd v
    using vm_cong(4) [of "s1\<lparr>cr3 := p\<rparr>" s1] user_byte_cong [of "s1\<lparr>cr3 := p\<rparr>" s1] by simp_all
  have K: "page_held s2 (kern_pgdir s1)" "kern_pgdir s1 \<notin> tables s2 (env_dirs s1)"
    "phys s2 (kern_pgdir s1) = phys s1 (kern_pgdir s1)"
    using s2(3) k1(3-5) by (auto simp: kept_def page_held_def vm_cong(2) [of "s1\<lparr>cr3 := p\<rparr>" s1]
        page_inv_cong(2,3) [of "s1\<lparr>cr3 := p\<rparr>" s1])
  have "kern_inv ext s'"
    by (rule kern_inv_intro [OF sel(9) prog_inv_D(1) [OF s2(2)] sel(8,2-6) k1(3) K(2,1)]) (use K(3) k1(6) in simp)
  moreover have "translate s' pd v = translate s pd v \<and> user_byte s' pd v = user_byte s pd v"
    if pd: "pd \<in> env_dirs s" and v: "PDX v < NUPDE" for pd v
  proof -
    have "translate s2 pd v = translate s1 pd v \<and> user_byte s2 pd v = user_byte s1 pd v"
      using s2(3) s1(5,6) pd v cr bspec unfolding kept_def by auto
    moreover have "user_byte s1 pd v = user_byte s pd v"
      by (rule env_alloc_bytes [OF inv pool s1(1) pd v s1(13) [OF pd v]])
    ultimately show ?thesis using s1(13) [OF pd v] by (simp add: tr)
  qed
  moreover have "seg_loaded b s' p ph" if "ph \<in> set phs" for ph using s2(4) that by (simp add: seg_loaded_def tr)
  ultimately show ?thesis
    using prog_inv_D(3,4) [OF s2(2)] s1(7,8,10) run by (intro exI [of _ s']) (simp add: sel s1(9) tr pk)
qed

text \<open>An image with one segment: two bytes of the image and two bytes of zero at \<open>0x800000\<close>.\<close>

definition tiny_image :: image where
  "tiny_image = [0x7F, 0x45, 0x4C, 0x46, 1, 1, 1, 0, 0, 0, 0, 0, 0, 0, 0, 0, 2, 0, 3, 0, 1, 0, 0, 0,
     0, 0, 0x80, 0, 52, 0, 0, 0, 0, 0, 0, 0, 0, 0, 0, 0, 52, 0, 32, 0, 1, 0, 0, 0, 0, 0, 0, 0,
     1, 0, 0, 0, 84, 0, 0, 0, 0, 0, 0x80, 0, 0, 0, 0x80, 0, 2, 0, 0, 0, 4, 0, 0, 0, 7, 0, 0, 0, 0, 0x10, 0, 0,
     0xCD, 0x30]"

definition tiny_segment :: proghdr where
  "tiny_segment = \<lparr>p_type = 1, p_offset = 84, p_va = 0x800000, p_filesz = 2, p_memsz = 4\<rparr>"

lemma tiny_image_read:
  "image_word tiny_image 0 = Inr ELF_MAGIC" "image_word tiny_image 24 = Inr 0x800000" "image_word tiny_image 28 = Inr 52"
  "image_half tiny_image 44 = Inr 1" "read_proghdr tiny_image 52 = Inr tiny_segment"
  by code_simp+

lemma tiny_image_elf: "elf_image tiny_image 0x800000 [tiny_segment]"
  using tiny_image_read by (simp add: elf_image_def)

lemma tiny_segment_ok: "seg_ok tiny_image tiny_segment" "seg_pages tiny_segment = {2048}"
proof -
  show "seg_ok tiny_image tiny_segment" by (simp add: seg_ok_def tiny_segment_def tiny_image_def)
  show "seg_pages tiny_segment = {2048}" by (auto simp: seg_pages_def tiny_segment_def page_span_def PGNUM_div)
qed

lemma env_create_loads_program_witness:
  "\<exists>s'. env_create tiny_image ENV_TYPE_USER small_kernel = Inr s' \<and> kern_inv (\<lambda>_. 0) s' \<and>
     env_status (envs s' ! 0) = ENV_RUNNABLE \<and> tf_eip (env_tf (envs s' ! 0)) = 0x800000 \<and>
     user_byte s' 3 0x800001 = 0x30 \<and> user_byte s' 3 0x800002 = 0 \<and> translate s' 3 0x801000 = None"
proof -
  have "env_pool small_kernel = 0 # [Suc 0..<NENV]" unfolding small_env(2) by (rule upt_conv_Cons) simp
  then obtain es where pool: "env_pool small_kernel = 0 # es" by blast
  note pool = pool small_pages(2)
  obtain s' where s': "env_create tiny_image ENV_TYPE_USER small_kernel = Inr s'" "kern_inv (\<lambda>_. 0) s'"
    "env_status (envs s' ! 0) = ENV_RUNNABLE" "env_tf (envs s' ! 0) = user_tf\<lparr>tf_eip := 0x800000\<rparr>"
    "seg_loaded tiny_image s' 3 tiny_segment"
    "\<forall>v. PDX v < NUPDE \<longrightarrow> (if PGNUM v = PGNUM (USTACKTOP - PGSIZE) \<or> PGNUM v = 2048
        then \<exists>q. translate s' 3 v = Some (q, 7) \<and> page_ref s' q = 1 else translate s' 3 v = None)"
    using env_create_loads_program [OF small_inv pool tiny_image_elf, of ENV_TYPE_USER] tiny_segment_ok by auto
  have "user_byte s' 3 0x800001 = 0x30" "user_byte s' 3 0x800002 = 0"
    using seg_loaded_D [OF s'(5), where j = 1] seg_loaded_D [OF s'(5), where j = 2] by (simp_all add: tiny_segment_def tiny_image_def)
  moreover have "translate s' 3 0x801000 = None" using spec [OF s'(6), of "0x801000"] by (simp add: PDX_div PGNUM_div)
  ultimately show ?thesis using s'(1-4) by (intro exI [of _ s']) simp
qed

end
