(* ===== verification/Spec2Isabelle.thy ===== *)
theory Spec2Isabelle
  imports FsProps KMemProps KEnvProps KSchedProps KTrap CowProps IpcProps ShellProps Primes Xargs ConsoleProps
    LibProps KDebugProps KMonitor KMpConfig KMapProps KLoadProps
begin

text \<open>
  A verification development for the labs of an operating systems course: the processes of
  \<^verbatim>\<open>src/1-fork\<close>, the shell of \<^verbatim>\<open>src/2-shell\<close>, the JOS kernel and its user library in
  \<^verbatim>\<open>src/3-sched\<close>, and the FUSE file system of \<^verbatim>\<open>src/4-fs\<close>.

  \<^bold>\<open>Conventions\<close> (theory \<open>Prelude\<close>). A C function that may fault or panic returns \<open>fault + 'a\<close>, written \<open>'a cres\<close>;
  \<open>bindR\<close> sequences, \<open>foldR\<close> is a \<open>for\<close> loop. The faults are the undefined behaviours the code can reach (an index outside an
  array, a null pointer, a read of memory never written) and the panics of the kernel, so a result \<open>Inr\<close> says that the run
  stays inside every array. A machine integer is a word of its width, or an \<open>int\<close> with the conversion written
  out; the bytes of a buffer are a \<open>string\<close> whose end is the end of the array. A pointer into a global array is an index. Debug
  output is left out. What a system call, the hardware, or code that is not in the repository answers is a
  parameter of the definition that asks.

  \<^bold>\<open>The file system\<close> (\<^verbatim>\<open>def.h\<close>, \<^verbatim>\<open>fs_utils.c\<close>, \<^verbatim>\<open>fisopfs.c\<close>). \<open>FsUtils\<close> has the table of inodes (\<open>inode\<close>, \<open>super_block\<close>), the
  path functions, and persistence on a map from host file names to images; \<open>FsOps\<close> has one definition per handler and the
  \<open>operations\<close> of FUSE as a type of requests. \<open>FsInv\<close> states the invariants \<open>fs_inv\<close> (array bounds) and \<open>fs_wf\<close> (unique paths, names and parents derived from them,
  the root in slot 0); \<open>FsKeep\<close> shows that every handler keeps them. \<open>FsTree\<close> adds that every entry lies in a directory of the table
  and shows that sessions whose requests meet \<open>request_ok\<close> (what the name lookup of the kernel guarantees, and writes
  that end inside the content array or are refused) are answered to the end and keep the tree. \<open>FsStore\<close> states the abstract contract, the
  locale \<open>bounded_store\<close>, and interprets it on the table. \<open>FsProps\<close> holds the properties: what each handler does on each
  branch, what a session keeps, and the round trips of write and read, create and unlink, save and load. A write that
  ends behind the content array is a fault of the model, as it is a store outside the array in the code.

  \<^bold>\<open>The kernel\<close>. \<open>KTypes\<close> has the data of \<^verbatim>\<open>inc/mmu.h\<close>, \<^verbatim>\<open>inc/env.h\<close>, \<^verbatim>\<open>inc/trap.h\<close> and \<^verbatim>\<open>kern/cpu.h\<close>, and \<open>kstate\<close>, the one record
  of all kernel variables, in which a page of memory is its frame number and a page table the frame that holds it. \<open>KAddr\<close> has the arithmetic of addresses.
  \<open>KPmap\<close> has \<^verbatim>\<open>kern/pmap.c\<close>; \<open>FreeList\<close> has lists threaded through an array and the locale \<open>free_pool\<close>, which \<open>KPages\<close>
  interprets on the page allocator; \<open>KVm\<close>, \<open>KVmOps\<close>, \<open>KVmFree\<close> and \<open>KVmShare\<close> abstract a two-level page table to a map from
  virtual to physical pages, with the invariant \<open>vm_inv\<close> that a reference count is the number of mappings, and show each page
  operation to be an update of that map; \<open>KMemProps\<close> has the properties. \<open>KEnv\<close> has \<^verbatim>\<open>kern/env.c\<close> and the kernel lock of \<^verbatim>\<open>kern/spinlock.c\<close>,
  \<open>KEnvInv\<close> the invariant of the environment table, \<open>KEnvProps\<close> its properties, \<open>KBoot\<close> the state after booting and a concrete kernel state
  for the examples. \<open>KLoad\<close> has \<open>load_icode\<close> and \<open>env_create\<close> on the bytes of an ELF image, storing through the page tables in
  use, and \<open>KLoadProps\<close> shows what address space they make. \<open>KMap\<close> and \<open>KMapProps\<close> have \<open>mem_init\<close>, the mappings it makes and
  the self-test \<open>check_kern_pgdir\<close> of the result; \<open>KMpConfig\<close> has the search for processors in the tables of the firmware
  of \<^verbatim>\<open>kern/mpconfig.c\<close>, on the bytes of memory. \<open>KSched\<close> has both variants of \<^verbatim>\<open>kern/sched.c\<close>, \<open>KSchedInv\<close> the relation that several processors generate
  under the lock, \<open>KSchedProps\<close> fairness and exclusion. \<open>KSyscall\<close> and \<open>KTrap\<close> have \<^verbatim>\<open>kern/syscall.c\<close> and \<^verbatim>\<open>kern/trap.c\<close>. \<open>KFrame\<close> says what the page functions leave
  alone. \<open>Console\<close> and \<open>ConsoleProps\<close> have \<^verbatim>\<open>kern/console.c\<close> and \<^verbatim>\<open>lib/readline.c\<close>: the ring buffer as a bounded queue (locale \<open>bounded_queue\<close>)
  and the text screen. \<open>KDebug\<close> and \<open>KDebugProps\<close> have the search in symbol tables of \<^verbatim>\<open>kern/kdebug.c\<close>, \<open>KMonitor\<close> the command line of
  \<^verbatim>\<open>kern/monitor.c\<close>.

  \<^bold>\<open>The user library of JOS\<close>. \<open>LibString\<close> has \<^verbatim>\<open>lib/string.c\<close>, \<open>LibPrintf\<close> has \<^verbatim>\<open>lib/printfmt.c\<close>, with their properties in \<open>LibProps\<close>. \<open>UserFork\<close>
  has \<^verbatim>\<open>lib/syscall.c\<close>, \<^verbatim>\<open>lib/fork.c\<close>, \<^verbatim>\<open>lib/pgfault.c\<close> and \<^verbatim>\<open>lib/ipc.c\<close>, run on the kernel state through the dispatcher of \<open>KSyscall\<close>; \<open>ForkProps\<close>,
  \<open>CowProps\<close> and \<open>IpcProps\<close> follow \<open>fork\<close>, the copy on a write, and a message through both sides. What happens while a program
  is off the CPU is a parameter (\<open>continue_with\<close>); for messages \<open>IpcProps\<close> takes any sequence (\<open>turns\<close>) of scheduling decisions and
  of steps that leave the record of the receiver alone.

  \<^bold>\<open>The shell\<close>. \<open>ShellParse\<close> has \<^verbatim>\<open>utils.c\<close>, \<^verbatim>\<open>createcmd.c\<close>, \<^verbatim>\<open>parsing.c\<close>, working in place on the bytes of the line; \<open>ShellRun\<close> has \<^verbatim>\<open>builtin.c\<close>, \<^verbatim>\<open>exec.c\<close>,
  \<^verbatim>\<open>runcmd.c\<close>, \<^verbatim>\<open>readline.c\<close> and \<^verbatim>\<open>sh.c\<close>; \<open>ShellLine\<close> says what the parser computes, without indices, and \<open>ShellProps\<close> has the properties.

  \<^bold>\<open>The fork lab\<close>. \<open>Primes\<close> is the sieve of \<^verbatim>\<open>primes.c\<close>, a chain of processes with the bytes of their output buffers, and
  \<open>Xargs\<close> is \<^verbatim>\<open>xargs.c\<close>, each with its properties.

  \<^bold>\<open>Loops and bounds\<close>. No definition takes fuel. A loop that always ends is a total function with a measure: the distance to the end of the
  array or the text, or the width of the remaining interval (in \<open>stab_search\<close> with, second, whether the middle
  entry equals the address, since an exact match narrows nothing). The loops that wait for a device or for another environment
  (\<open>cons_intr\<close>, \<open>getchar\<close>, \<open>ipc_send_loop\<close>) are partial functions into \<open>option\<close>, where \<open>None\<close> is waiting
  for ever; the theorems about them show that they return. Arrays have the sizes of the source (1024
  environments, 128 bytes of path, 100 bytes of content and so on).

  \<^bold>\<open>Not modelled\<close>. The order of the boot sequence (\<^verbatim>\<open>kern/init.c\<close>, assembly); the self-tests of the free list and
  of single mappings that \<open>mem_init\<close> runs (\<open>check_page\<close> leaves a page table in the slot for devices, which the
  self-test of the result relies on: it is a hypothesis); the drivers of the interrupt controllers and the clock, which only
  write registers; segment registers and the return from a trap; stale entries of the TLB; the recording of call stacks in
  locks; devices that never stop sending; a child of \<open>xargs\<close> whose \<open>execvp\<close> fails; user programs and test programs; the
  signal handler and the messages of the shell. The page table in \<^verbatim>\<open>kern/entrypgdir.c\<close> is disabled by the preprocessor.
  Signed overflow is a fault in \<open>Primes\<close>; in \<open>strtol\<close> it is taken to wrap, as the instructions of the target do.
\<close>

end
